(* ===== verification/RT_Prelude.thy ===== *)
theory RT_Prelude
  imports Main "HOL-Library.Word" "HOL-Library.Signed_Division" "HOL-Library.Monad_Syntax"
    "HOL-Library.While_Combinator"
begin

text \<open>
  Shared vocabulary of the development: the C integer types at their width on the
  LP64 hosts the program runs on, the decimal conversions of the C library that the
  sources call (\<^verbatim>\<open>isdigit\<close>, \<^verbatim>\<open>isspace\<close>, \<^verbatim>\<open>strtoull\<close>, the \<^verbatim>\<open>%lu\<close> and \<^verbatim>\<open>%09lu\<close> formats of
  \<^verbatim>\<open>printf\<close>, \<^verbatim>\<open>snprintf\<close>), the byte image of an integer in memory, and the lemma collections
  the component proofs rest on.
\<close>

section \<open>C integers\<close>

text \<open>
  \<^verbatim>\<open>long\<close>, \<^verbatim>\<open>time_t\<close> and \<^verbatim>\<open>ssize_t\<close> are 64-bit words read by \<^term>\<open>sint\<close>;
  \<^verbatim>\<open>unsigned long\<close>, \<^verbatim>\<open>unsigned long long\<close> and \<^verbatim>\<open>size_t\<close> are 64-bit words read by
  \<^term>\<open>uint\<close> or \<^term>\<open>unat\<close>; \<^verbatim>\<open>unsigned\<close> and \<^verbatim>\<open>uint32_t\<close> are 32-bit words. Return codes and
  other \<^verbatim>\<open>int\<close> values that stay small are of type \<^typ>\<open>int\<close>.
\<close>

type_synonym i64 = "64 word"
type_synonym u64 = "64 word"
type_synonym u32 = "32 word"
type_synonym u8 = "8 word"

named_theorems word_bounds \<open>signed and unsigned word operations that do not overflow\<close>
named_theorems dec_simps \<open>decimal conversions\<close>
named_theorems byte_simps \<open>byte images of integers\<close>

lemma sint64_range: "- (2 ^ 63) \<le> sint (a :: i64)" "sint (a :: i64) < 2 ^ 63"
  using sint_ge [of a] sint_lt [of a] by simp_all

lemma sint64_of_int [word_bounds]:
  "- (2 ^ 63) \<le> x \<Longrightarrow> x < 2 ^ 63 \<Longrightarrow> sint (word_of_int x :: i64) = x"
  by (simp add: sint_sbintrunc' signed_take_bit_int_eq_self)

lemma sint64_add [word_bounds]:
  "- (2 ^ 63) \<le> sint a + sint b \<Longrightarrow> sint a + sint b < 2 ^ 63 \<Longrightarrow>
   sint (a + b :: i64) = sint a + sint b"
  by (simp add: sint_word_add signed_take_bit_int_eq_self)

lemma sint64_diff [word_bounds]:
  "- (2 ^ 63) \<le> sint a - sint b \<Longrightarrow> sint a - sint b < 2 ^ 63 \<Longrightarrow>
   sint (a - b :: i64) = sint a - sint b"
  by (simp add: sint_word_diff signed_take_bit_int_eq_self)

lemma sint64_eq_uint: "uint (a :: i64) < 2 ^ 63 \<Longrightarrow> sint a = uint a"
  using signed_take_bit_int_eq_self [of 63 "uint a"] uint_ge_0 [of a]
  by (simp add: sint_uint)

lemma uint64_eq_sint:
  assumes "0 \<le> sint (a :: i64)" shows "uint a = sint a"
proof -
  have "uint a = uint (word_of_int (sint a) :: i64)" by simp
  also have "\<dots> = sint a mod 2 ^ 64" by (simp only: uint_word_of_int, simp)
  also have "\<dots> = sint a" using assms sint64_range(2) [of a] by simp
  finally show ?thesis .
qed


lemma uint64_of_int [word_bounds]:
  "0 \<le> x \<Longrightarrow> x < 2 ^ 64 \<Longrightarrow> uint (word_of_int x :: u64) = x"
  by (simp add: uint_word_of_int)

lemma unat64_of_nat [word_bounds]: "n < 2 ^ 64 \<Longrightarrow> unat (of_nat n :: u64) = n"
  by (simp add: unat_of_nat)

lemma unat64_Suc: "unat (a :: u64) < 2 ^ 64 - 1 \<Longrightarrow> unat (a + 1) = Suc (unat a)"
  by (simp add: unat_word_ariths)

lemma unat_lt64 [simp]: "unat (a :: u64) < 18446744073709551616"
  using unsigned_less [of a, where ?'a = nat] by simp

lemma unat_less_uint: "unat (a :: 'a :: len word) < n \<longleftrightarrow> uint a < int n"
  unfolding unat_eq_nat_uint by (rule nat_less_iff) (rule uint_ge_0)

lemma unat_le_uint: "unat (a :: 'a :: len word) \<le> n \<longleftrightarrow> uint a \<le> int n"
  unfolding unat_eq_nat_uint by (rule nat_le_iff)

text \<open>The truncating division of C's signed \<^verbatim>\<open>long\<close>.\<close>

definition long_div :: "i64 \<Rightarrow> i64 \<Rightarrow> i64" where
  "long_div a b = word_of_int (sint a sdiv sint b)"

definition long_mod :: "i64 \<Rightarrow> i64 \<Rightarrow> i64" where
  "long_mod a b = word_of_int (sint a smod sint b)"

lemma sdiv_nonneg: "0 \<le> a \<Longrightarrow> 0 < b \<Longrightarrow> (a :: int) sdiv b = a div b"
  by (auto simp: signed_divide_int_def sgn_if)

lemma smod_nonneg: "0 \<le> a \<Longrightarrow> 0 < b \<Longrightarrow> (a :: int) smod b = a mod b"
  by (cases "a = 0") (simp_all add: signed_modulo_int_def)

lemma sint_long_div:
  assumes "0 \<le> sint a" "0 < sint b" shows "sint (long_div a b) = sint a div sint b"
proof -
  have "sint a div sint b \<le> sint a div 1" using assms by (intro zdiv_mono2) auto
  moreover have "0 \<le> sint a div sint b" using assms by (simp add: pos_imp_zdiv_nonneg_iff)
  ultimately show ?thesis using assms sint64_range(2) [of a]
    by (simp add: long_div_def sdiv_nonneg sint64_of_int)
qed

lemma sint_long_mod:
  assumes "0 \<le> sint a" "0 < sint b" shows "sint (long_mod a b) = sint a mod sint b"
proof -
  have "sint a mod sint b < sint b" "0 \<le> sint a mod sint b" using assms by simp_all
  then have "- (2 ^ 63) \<le> sint a mod sint b" "sint a mod sint b < 2 ^ 63"
    using sint64_range(2) [of b] by linarith+
  then show ?thesis using assms by (simp only: long_mod_def smod_nonneg sint64_of_int)
qed

section \<open>Decimal conversions\<close>

definition isdigit :: "char \<Rightarrow> bool" where
  "isdigit c \<longleftrightarrow> 48 \<le> (of_char c :: nat) \<and> (of_char c :: nat) \<le> 57"

definition isspace :: "char \<Rightarrow> bool" where
  "isspace c \<longleftrightarrow> of_char c = (32 :: nat) \<or> (9 \<le> (of_char c :: nat) \<and> (of_char c :: nat) \<le> 13)"

definition digit_val :: "char \<Rightarrow> nat" where
  "digit_val c = of_char c - 48"

definition digit_char :: "nat \<Rightarrow> char" where
  "digit_char d = char_of (48 + d)"

fun dec_value_acc :: "nat \<Rightarrow> string \<Rightarrow> nat" where
  "dec_value_acc a [] = a"
| "dec_value_acc a (c # cs) = dec_value_acc (10 * a + digit_val c) cs"

abbreviation dec_value :: "string \<Rightarrow> nat" where
  "dec_value \<equiv> dec_value_acc 0"

text \<open>\<^verbatim>\<open>strtoull(s, NULL, 10)\<close>: white space, an optional sign, digits; saturating.\<close>

definition strtoull10 :: "string \<Rightarrow> u64" where
  "strtoull10 s =
    (let s1 = dropWhile isspace s;
         neg = (s1 \<noteq> [] \<and> hd s1 = CHR ''-'');
         s2 = (if s1 \<noteq> [] \<and> (hd s1 = CHR ''-'' \<or> hd s1 = CHR ''+'') then tl s1 else s1);
         n = dec_value (takeWhile isdigit s2)
     in if n \<ge> 2 ^ 64 then - 1 else if neg then - of_nat n else of_nat n)"

text \<open>The \<^verbatim>\<open>%lu\<close> and \<^verbatim>\<open>%0<w>lu\<close> conversions of \<^verbatim>\<open>printf\<close>.\<close>

fun show_nat :: "nat \<Rightarrow> string" where
  "show_nat n = (if n < 10 then [digit_char n] else show_nat (n div 10) @ [digit_char (n mod 10)])"

declare show_nat.simps [simp del]

definition fmt_lu :: "u64 \<Rightarrow> string" where
  "fmt_lu w = show_nat (unat w)"

definition fmt_0lu :: "nat \<Rightarrow> u64 \<Rightarrow> string" where
  "fmt_0lu k w = (let d = show_nat (unat w) in replicate (k - length d) CHR ''0'' @ d)"

text \<open>
  \<^verbatim>\<open>snprintf(buf, len, ...)\<close> producing the text \<open>s\<close>: the characters it leaves in \<open>buf\<close>
  before the terminating NUL, and the length it returns.
\<close>

definition snprintf_out :: "nat \<Rightarrow> string \<Rightarrow> string" where
  "snprintf_out len s = take (len - 1) s"

lemma of_char_digit_char [simp]: "d < 10 \<Longrightarrow> (of_char (digit_char d) :: nat) = 48 + d"
  by (simp add: digit_char_def)

text \<open>Evaluation of decimal digits, for the concrete inputs.\<close>

lemma digit_chars [dec_simps]:
  "digit_char 0 = CHR ''0''" "digit_char (Suc 0) = CHR ''1''" "digit_char 1 = CHR ''1''"
  "digit_char 2 = CHR ''2''" "digit_char 3 = CHR ''3''" "digit_char 4 = CHR ''4''"
  "digit_char 5 = CHR ''5''" "digit_char 6 = CHR ''6''" "digit_char 7 = CHR ''7''"
  "digit_char 8 = CHR ''8''" "digit_char 9 = CHR ''9''"
  by (simp_all add: digit_char_def char_of_def bit_iff_odd)

lemma digit_char_props [simp]: "d < 10 \<Longrightarrow> isdigit (digit_char d)" "d < 10 \<Longrightarrow> digit_val (digit_char d) = d"
  by (simp_all add: isdigit_def digit_val_def)

lemma isdigit_not_space [simp]: "isdigit c \<Longrightarrow> \<not> isspace c"
  by (auto simp: isdigit_def isspace_def)

lemma isdigit_not_sign [simp]: "isdigit c \<Longrightarrow> c \<noteq> CHR ''-''" "isdigit c \<Longrightarrow> c \<noteq> CHR ''+''"
  by (auto simp: isdigit_def)

lemma isdigit_0 [simp]: "isdigit CHR ''0''" "digit_val CHR ''0'' = 0"
  by (simp_all add: isdigit_def digit_val_def)

lemma not_isdigit_dot [simp]: "\<not> isdigit CHR ''.''"
  by (simp add: isdigit_def)

lemma digit_val_less [simp]: "isdigit c \<Longrightarrow> digit_val c < 10"
  by (auto simp: isdigit_def digit_val_def)

lemma dec_value_acc_append [dec_simps]:
  "dec_value_acc a (xs @ ys) = dec_value_acc (dec_value_acc a xs) ys"
  by (induction xs arbitrary: a) auto

lemma dec_value_acc_eq [dec_simps]: "dec_value_acc a xs = a * 10 ^ length xs + dec_value xs"
proof (induction xs arbitrary: a)
  case (Cons x xs)
  from Cons [of "10 * a + digit_val x"] Cons [of "digit_val x"] show ?case
    by (simp add: algebra_simps)
qed simp

lemma dec_value_zeros [simp]: "dec_value (replicate k CHR ''0'' @ xs) = dec_value xs"
  by (induction k) auto

lemma dec_value_bound: "list_all isdigit xs \<Longrightarrow> dec_value xs < 10 ^ length xs"
proof (induction xs)
  case (Cons x xs)
  have "digit_val x * 10 ^ length xs \<le> 9 * 10 ^ length xs"
    using Cons.prems digit_val_less [of x] by (intro mult_right_mono) (auto simp: less_Suc_eq_le [symmetric])
  moreover have "dec_value xs < 10 ^ length xs" using Cons by simp
  ultimately have "digit_val x * 10 ^ length xs + dec_value xs < 9 * 10 ^ length xs + 10 ^ length xs"
    by linarith
  then show ?case by (simp add: dec_value_acc_eq [of "digit_val x"])
qed simp

lemma show_nat_digits [simp]: "list_all isdigit (show_nat n)"
proof (induction n rule: show_nat.induct)
  case (1 n) then show ?case by (subst show_nat.simps) simp
qed

lemma show_nat_Nil [simp]: "show_nat n \<noteq> []"
  by (subst show_nat.simps) simp

lemma dec_value_show_nat [simp]: "dec_value (show_nat n) = n"
proof (induction n rule: show_nat.induct)
  case (1 n)
  show ?case
  proof (cases "n < 10")
    case False
    with 1 have "dec_value (show_nat (n div 10)) = n div 10" by simp
    with False show ?thesis
      by (subst show_nat.simps) (simp add: dec_value_acc_append)
  qed (subst show_nat.simps, simp)
qed

lemma length_show_nat: "n < 10 ^ k \<Longrightarrow> 0 < k \<Longrightarrow> length (show_nat n) \<le> k"
proof (induction n arbitrary: k rule: show_nat.induct)
  case (1 n)
  show ?case
  proof (cases "n < 10")
    case False
    then obtain k' where k: "k = Suc k'" "0 < k'" using "1.prems" by (cases k; cases "k - 1") auto
    with "1.prems" have "n div 10 < 10 ^ k'" by (simp add: less_mult_imp_div_less mult.commute)
    with 1(1) False k show ?thesis by (subst show_nat.simps) simp
  qed (use "1.prems" in \<open>subst show_nat.simps, simp\<close>)
qed

lemma takeWhile_digits [simp]:
  "list_all isdigit xs \<Longrightarrow> takeWhile isdigit (xs @ ys) = xs @ takeWhile isdigit ys"
  "list_all isdigit xs \<Longrightarrow> takeWhile isdigit xs = xs"
  by (induction xs) auto

lemma strtoull10_digits:
  assumes "list_all isdigit xs" "xs \<noteq> []" "\<not> (ys \<noteq> [] \<and> isdigit (hd ys))" "dec_value xs < 2 ^ 64"
  shows "strtoull10 (xs @ ys) = of_nat (dec_value xs)"
proof -
  from assms obtain c cs where xs: "xs = c # cs" "isdigit c" by (cases xs) auto
  have "takeWhile isdigit ys = []" using assms(3) by (cases ys) auto
  then show ?thesis using assms(1,4) xs by (simp add: strtoull10_def Let_def)
qed

section \<open>Byte images\<close>

text \<open>The byte order of a host (\<^verbatim>\<open>enum byte_order\<close> in \<^verbatim>\<open>utility_cpu.h\<close>).\<close>

datatype byte_order = CPU_LITTLE_ENDIAN | CPU_BIG_ENDIAN

fun le_bytes :: "nat \<Rightarrow> nat \<Rightarrow> u8 list" where
  "le_bytes 0 n = []"
| "le_bytes (Suc k) n = of_nat (n mod 256) # le_bytes k (n div 256)"

fun le_value :: "u8 list \<Rightarrow> nat" where
  "le_value [] = 0"
| "le_value (b # bs) = unat b + 256 * le_value bs"

text \<open>The \<open>k\<close>-byte memory image of an unsigned integer, and back.\<close>

definition mem_bytes :: "byte_order \<Rightarrow> nat \<Rightarrow> nat \<Rightarrow> u8 list" where
  "mem_bytes bo k n = (case bo of CPU_LITTLE_ENDIAN \<Rightarrow> le_bytes k n | CPU_BIG_ENDIAN \<Rightarrow> rev (le_bytes k n))"

definition mem_value :: "byte_order \<Rightarrow> u8 list \<Rightarrow> nat" where
  "mem_value bo bs = (case bo of CPU_LITTLE_ENDIAN \<Rightarrow> le_value bs | CPU_BIG_ENDIAN \<Rightarrow> le_value (rev bs))"

lemma length_le_bytes [simp]: "length (le_bytes k n) = k"
  by (induction k arbitrary: n) auto

lemma length_mem_bytes [simp]: "length (mem_bytes bo k n) = k"
  by (cases bo) (simp_all add: mem_bytes_def)

lemma le_value_le_bytes: "le_value (le_bytes k n) = n mod 256 ^ k"
proof (induction k arbitrary: n)
  case (Suc k)
  have "unat (of_nat (n mod 256) :: u8) = n mod 256" by (simp add: unat_of_nat)
  then show ?case by (simp add: Suc mod_mult2_eq)
qed simp

lemma mem_value_bytes [byte_simps]: "n < 256 ^ k \<Longrightarrow> mem_value bo (mem_bytes bo k n) = n"
  by (cases bo) (simp_all add: mem_value_def mem_bytes_def le_value_le_bytes)

lemma le_value_bound: "le_value bs < 256 ^ length bs"
proof (induction bs)
  case (Cons b bs)
  have "unat b < 256" using unsigned_less [of b, where ?'a = nat] by simp
  with Cons show ?case by (simp)
qed simp

section \<open>Loops\<close>

text \<open>A loop that returns does so at the first state that does not satisfy its condition.\<close>

lemma while_option_first:
  "while_option b c s = Some t \<longleftrightarrow> (\<exists>n. t = (c ^^ n) s \<and> \<not> b t \<and> (\<forall>i<n. b ((c ^^ i) s)))"
proof
  assume w: "while_option b c s = Some t"
  from while_option_stop2 [OF w] obtain k where "t = (c ^^ k) s" "\<not> b t" by blast
  then have ex: "\<exists>k. \<not> b ((c ^^ k) s)" by blast
  let ?n = "LEAST k. \<not> b ((c ^^ k) s)"
  have "t = (c ^^ ?n) s" using w ex by (simp add: while_option_def)
  moreover have "\<not> b ((c ^^ ?n) s)" using ex by (rule LeastI_ex)
  moreover have "\<forall>i < ?n. b ((c ^^ i) s)" using not_less_Least by blast
  ultimately show "\<exists>n. t = (c ^^ n) s \<and> \<not> b t \<and> (\<forall>i<n. b ((c ^^ i) s))" by blast
next
  assume "\<exists>n. t = (c ^^ n) s \<and> \<not> b t \<and> (\<forall>i<n. b ((c ^^ i) s))"
  then obtain n where n: "t = (c ^^ n) s" "\<not> b ((c ^^ n) s)" "\<forall>i<n. b ((c ^^ i) s)" by blast
  from n(2,3) have "(LEAST k. \<not> b ((c ^^ k) s)) = n" by (intro Least_equality) (auto simp: not_less [symmetric])
  then show "while_option b c s = Some t" using n(1,2) by (auto simp: while_option_def)
qed

end
