(* ===== verification/Utility_Time.thy ===== *)
theory Utility_Time
  imports RT_Prelude
begin

text \<open>
  The time arithmetic of \<^verbatim>\<open>utility_time.h\<close> on values: the structures, the conversions from
  and to integers, \<^verbatim>\<open>struct timespec\<close> and strings, the six comparisons, and addition,
  increment, truncated subtraction and multiplication. An operation that stores its result
  through a pointer takes the old target and returns the new one, since only the \<^verbatim>\<open>t\<close> member
  is written. Pointers, allocation and the automatic garbage collection of the operands are
  the subject of theory \<open>Utility_Time_Heap\<close>.

  The abstraction is \<open>ns_of\<close>, the number of nanoseconds; the invariant is \<open>time_ok\<close>
  (non-negative seconds, nanoseconds below one billion).
\<close>

section \<open>Data structures\<close>

datatype time_unit = Unit_s | Unit_ms | Unit_us | Unit_ns

record timespec =
  tv_sec :: i64
  tv_nsec :: i64

record utility_time =
  ut_t :: timespec
  dyn_alloc :: bool
  manual_gc :: bool

abbreviation ut_sec :: "utility_time \<Rightarrow> i64" where "ut_sec u \<equiv> tv_sec (ut_t u)"
abbreviation ut_nsec :: "utility_time \<Rightarrow> i64" where "ut_nsec u \<equiv> tv_nsec (ut_t u)"

definition set_t :: "utility_time \<Rightarrow> i64 \<Rightarrow> i64 \<Rightarrow> utility_time" where
  "set_t u sec nsec = u\<lparr>ut_t := \<lparr>tv_sec = sec, tv_nsec = nsec\<rparr>\<rparr>"

section \<open>Maintenance\<close>

definition utility_time_init :: utility_time where
  "utility_time_init = \<lparr>ut_t = \<lparr>tv_sec = 0, tv_nsec = 0\<rparr>, dyn_alloc = False, manual_gc = False\<rparr>"

definition utility_time_init_dyn :: utility_time where
  "utility_time_init_dyn = utility_time_init\<lparr>dyn_alloc := True\<rparr>"

definition utility_time_set_gc_manual :: "utility_time \<Rightarrow> utility_time" where
  "utility_time_set_gc_manual u = (if dyn_alloc u then u\<lparr>manual_gc := True\<rparr> else u)"

definition utility_time_set_gc_auto :: "utility_time \<Rightarrow> utility_time" where
  "utility_time_set_gc_auto u = (if dyn_alloc u then u\<lparr>manual_gc := False\<rparr> else u)"

section \<open>Internal helpers\<close>

definition combined_ns_in_s :: "utility_time \<Rightarrow> utility_time \<Rightarrow> u64" where
  "combined_ns_in_s t1 t2 = long_div (ut_nsec t1 + ut_nsec t2) 1000000000"

definition combined_ns_leftover :: "utility_time \<Rightarrow> utility_time \<Rightarrow> u64" where
  "combined_ns_leftover t1 t2 = long_mod (ut_nsec t1 + ut_nsec t2) 1000000000"

definition utility_time_zero_t :: "utility_time \<Rightarrow> utility_time" where
  "utility_time_zero_t u = set_t u 0 0"

section \<open>Conversions to the internal representation\<close>

fun to_utility_time :: "u64 \<Rightarrow> time_unit \<Rightarrow> utility_time \<Rightarrow> utility_time" where
  "to_utility_time t Unit_s u = set_t u t 0"
| "to_utility_time t Unit_ms u = set_t u (t div 1000) ((t mod 1000) * 1000000)"
| "to_utility_time t Unit_us u = set_t u (t div 1000000) ((t mod 1000000) * 1000)"
| "to_utility_time t Unit_ns u = set_t u (t div 1000000000) (t mod 1000000000)"

definition timespec_to_utility_time :: "timespec \<Rightarrow> utility_time \<Rightarrow> utility_time" where
  "timespec_to_utility_time ts u = set_t u (tv_sec ts) (tv_nsec ts)"

definition utility_time_to_utility_time :: "utility_time \<Rightarrow> utility_time \<Rightarrow> utility_time" where
  "utility_time_to_utility_time src dst = set_t dst (ut_sec src) (ut_nsec src)"

text \<open>
  \<^verbatim>\<open>string_to_utility_time\<close>: the result time and the number of characters before \<^verbatim>\<open>*endptr\<close>.
  A C string is the list of its characters before the NUL. The first loop counts the digits of
  the second part; the second loop fills the nine-character buffer, initially all \<^verbatim>\<open>'0'\<close>.
\<close>

fun count_digits :: "string \<Rightarrow> nat" where
  "count_digits [] = 0"
| "count_digits (c # cs) = (if isdigit c then Suc (count_digits cs) else 0)"

fun copy_digits :: "string \<Rightarrow> string \<Rightarrow> nat \<Rightarrow> string \<times> nat" where
  "copy_digits [] buffer n = (buffer, n)"
| "copy_digits (c # cs) buffer n =
     (if isdigit c \<and> n < 9 then copy_digits cs (buffer[n := c]) (Suc n) else (buffer, n))"

definition longest_second_digit_count :: nat where
  "longest_second_digit_count = 8 * 8 div 10 * 3"

definition string_to_utility_time :: "string \<Rightarrow> utility_time \<Rightarrow> utility_time \<times> nat" where
  "string_to_utility_time str u =
    (let n = count_digits str in
     if n = 0 \<or> n > longest_second_digit_count then (set_t u 0 0, 0)
     else
       let ptr = drop n str; sec = strtoull10 str in
       if ptr \<noteq> [] \<and> hd ptr = CHR ''.'' then
         let (buffer, k) = copy_digits (tl ptr) (replicate 9 CHR ''0'') 0 in
         (set_t u sec (strtoull10 buffer), if k = 0 then n else n + 1 + k)
       else (set_t u sec 0, n))"

section \<open>Conversions to other types\<close>

definition to_timespec :: "utility_time \<Rightarrow> timespec" where
  "to_timespec u = \<lparr>tv_sec = ut_sec u, tv_nsec = ut_nsec u\<rparr>"

definition to_file_string :: "utility_time \<Rightarrow> string" where
  "to_file_string u = fmt_lu (ut_sec u) @ ''.'' @ fmt_0lu 9 (ut_nsec u)"

text \<open>\<^verbatim>\<open>to_string\<close>: what it leaves in the buffer, and its return value.\<close>

definition to_string :: "utility_time \<Rightarrow> nat \<Rightarrow> string \<times> nat" where
  "to_string u buffer_len =
    (let s = fmt_lu (ut_sec u) @ ''.'' @ fmt_0lu 9 (ut_nsec u); req_len = length s
     in (snprintf_out buffer_len s, if req_len < buffer_len then 0 else req_len + 1))"

text \<open>\<^verbatim>\<open>to_string_dyn\<close>; \<open>malloc_ok\<close> tells whether the allocation of the buffer succeeds.\<close>

definition to_string_dyn :: "(nat \<Rightarrow> bool) \<Rightarrow> utility_time \<Rightarrow> string option" where
  "to_string_dyn malloc_ok u =
    (let result_len = snd (to_string u 1)
     in if malloc_ok result_len then Some (fst (to_string u result_len)) else None)"

section \<open>Comparisons\<close>

definition utility_time_eq :: "utility_time \<Rightarrow> utility_time \<Rightarrow> bool" where
  "utility_time_eq t1 t2 \<longleftrightarrow> ut_sec t1 = ut_sec t2 \<and> ut_nsec t1 = ut_nsec t2"

definition utility_time_lt :: "utility_time \<Rightarrow> utility_time \<Rightarrow> bool" where
  "utility_time_lt t1 t2 \<longleftrightarrow>
     ut_sec t1 <s ut_sec t2 \<or> (ut_sec t1 = ut_sec t2 \<and> ut_nsec t1 <s ut_nsec t2)"

definition utility_time_le :: "utility_time \<Rightarrow> utility_time \<Rightarrow> bool" where
  "utility_time_le t1 t2 \<longleftrightarrow> utility_time_eq t1 t2 \<or> utility_time_lt t1 t2"

definition utility_time_gt :: "utility_time \<Rightarrow> utility_time \<Rightarrow> bool" where
  "utility_time_gt t1 t2 \<longleftrightarrow> \<not> utility_time_le t1 t2"

definition utility_time_ge :: "utility_time \<Rightarrow> utility_time \<Rightarrow> bool" where
  "utility_time_ge t1 t2 \<longleftrightarrow> \<not> utility_time_lt t1 t2"

definition utility_time_ne :: "utility_time \<Rightarrow> utility_time \<Rightarrow> bool" where
  "utility_time_ne t1 t2 \<longleftrightarrow> \<not> utility_time_eq t1 t2"

section \<open>Operations\<close>

definition utility_time_add :: "utility_time \<Rightarrow> utility_time \<Rightarrow> utility_time \<Rightarrow> utility_time" where
  "utility_time_add t1 t2 res =
     set_t res (ut_sec t1 + ut_sec t2 + combined_ns_in_s t1 t2) (combined_ns_leftover t1 t2)"

definition utility_time_inc :: "utility_time \<Rightarrow> utility_time \<Rightarrow> utility_time" where
  "utility_time_inc target inc = utility_time_add target inc target"

definition utility_time_sub :: "utility_time \<Rightarrow> utility_time \<Rightarrow> utility_time \<Rightarrow> utility_time" where
  "utility_time_sub t1 t2 res =
    (if utility_time_le t1 t2 then utility_time_zero_t res
     else if ut_nsec t1 <s ut_nsec t2
     then set_t res (ut_sec t1 - 1 - ut_sec t2) (1000000000 + ut_nsec t1 - ut_nsec t2)
     else set_t res (ut_sec t1 - ut_sec t2) (ut_nsec t1 - ut_nsec t2))"

text \<open>The \<^verbatim>\<open>while (n-- > 0)\<close> loop of \<^verbatim>\<open>utility_time_mul\<close>, on the value of the counter.\<close>

fun mul_loop :: "nat \<Rightarrow> utility_time \<Rightarrow> utility_time \<Rightarrow> utility_time" where
  "mul_loop 0 t1 t = t"
| "mul_loop (Suc n) t1 t = mul_loop n t1 (utility_time_inc t t1)"

definition utility_time_mul :: "utility_time \<Rightarrow> u32 \<Rightarrow> utility_time \<Rightarrow> utility_time" where
  "utility_time_mul t1 n res =
     utility_time_to_utility_time (mul_loop (unat n) t1 (to_utility_time 0 Unit_s utility_time_init)) res"

section \<open>Abstraction and invariant\<close>

definition ns_of :: "utility_time \<Rightarrow> int" where
  "ns_of u = sint (ut_sec u) * 1000000000 + sint (ut_nsec u)"

definition time_ok :: "utility_time \<Rightarrow> bool" where
  "time_ok u \<longleftrightarrow> 0 \<le> sint (ut_sec u) \<and> 0 \<le> sint (ut_nsec u) \<and> sint (ut_nsec u) < 1000000000"

text \<open>The least number of nanoseconds whose second part does not fit \<^verbatim>\<open>time_t\<close>.\<close>

definition time_limit :: int where
  "time_limit = 2 ^ 63 * 1000000000"

named_theorems time_defs \<open>definitions of the time operations\<close>

lemmas [time_defs] = utility_time_add_def utility_time_inc_def utility_time_sub_def
  utility_time_zero_t_def timespec_to_utility_time_def utility_time_to_utility_time_def
  to_timespec_def

lemma set_t_simps [simp]:
  "ut_t (set_t u a b) = \<lparr>tv_sec = a, tv_nsec = b\<rparr>"
  "dyn_alloc (set_t u a b) = dyn_alloc u" "manual_gc (set_t u a b) = manual_gc u"
  "set_t (set_t u a b) c d = set_t u c d"
  by (simp_all add: set_t_def)

lemma ns_of_set_t [simp]: "ns_of (set_t u a b) = sint a * 1000000000 + sint b"
  by (simp add: ns_of_def)

lemma time_ok_set_t [simp]:
  "time_ok (set_t u a b) \<longleftrightarrow> 0 \<le> sint a \<and> 0 \<le> sint b \<and> sint b < 1000000000"
  by (simp add: time_ok_def)

lemma time_ok_init [simp]: "time_ok utility_time_init" "ns_of utility_time_init = 0"
  by (simp_all add: time_ok_def ns_of_def utility_time_init_def)

lemma ns_of_nonneg [simp]: "time_ok u \<Longrightarrow> 0 \<le> ns_of u"
  by (simp add: time_ok_def ns_of_def)

lemma ns_of_lt_limit: "time_ok u \<Longrightarrow> ns_of u < time_limit"
  using sint64_range(2) [of "ut_sec u"] by (simp add: time_ok_def ns_of_def time_limit_def)

lemma ns_of_div_mod:
  "time_ok u \<Longrightarrow> ns_of u div 1000000000 = sint (ut_sec u)"
  "time_ok u \<Longrightarrow> ns_of u mod 1000000000 = sint (ut_nsec u)"
  by (simp_all add: time_ok_def ns_of_def)

lemma sint_inject [simp]: "sint (a :: i64) = sint b \<longleftrightarrow> a = b"
  by (metis signed_word_eqI)

lemma ns_of_inj: "time_ok a \<Longrightarrow> time_ok b \<Longrightarrow> ns_of a = ns_of b \<longleftrightarrow> ut_t a = ut_t b"
  by (metis ns_of_def ns_of_div_mod sint_inject timespec.surjective old.unit.exhaust)

section \<open>The linear order of times\<close>

instantiation timespec_ext :: (linorder) linorder
begin

definition less_eq_timespec_ext :: "'a timespec_ext \<Rightarrow> 'a timespec_ext \<Rightarrow> bool" where
  "x \<le> y \<longleftrightarrow> tv_sec x <s tv_sec y \<or> tv_sec x = tv_sec y \<and>
     (tv_nsec x <s tv_nsec y \<or> tv_nsec x = tv_nsec y \<and> timespec.more x \<le> timespec.more y)"

definition less_timespec_ext :: "'a timespec_ext \<Rightarrow> 'a timespec_ext \<Rightarrow> bool" where
  "x < y \<longleftrightarrow> x \<le> y \<and> \<not> (y :: 'a timespec_ext) \<le> x"

instance
proof
  fix x y z :: "'a timespec_ext"
  show "x < y \<longleftrightarrow> x \<le> y \<and> \<not> y \<le> x" by (rule less_timespec_ext_def)
  show "x \<le> x" by (simp add: less_eq_timespec_ext_def)
  show "x \<le> y \<Longrightarrow> y \<le> z \<Longrightarrow> x \<le> z"
    by (auto simp: less_eq_timespec_ext_def word_sless_alt)
  show "x \<le> y \<Longrightarrow> y \<le> x \<Longrightarrow> x = y"
    by (cases x; cases y) (auto simp: less_eq_timespec_ext_def word_sless_alt)
  show "x \<le> y \<or> y \<le> x"
    by (auto simp: less_eq_timespec_ext_def word_sless_alt neq_iff)
qed

end

lemma timespec_le_iff:
  "(a :: timespec) \<le> b \<longleftrightarrow> sint (tv_sec a) < sint (tv_sec b) \<or>
     tv_sec a = tv_sec b \<and> sint (tv_nsec a) \<le> sint (tv_nsec b)"
  by (auto simp: less_eq_timespec_ext_def word_sless_alt le_less)

lemma timespec_lt_iff:
  "(a :: timespec) < b \<longleftrightarrow> sint (tv_sec a) < sint (tv_sec b) \<or>
     tv_sec a = tv_sec b \<and> sint (tv_nsec a) < sint (tv_nsec b)"
  by (auto simp: less_timespec_ext_def timespec_le_iff)

text \<open>The six comparison functions are the order, on every time, normalised or not.\<close>

lemma eq_is_order: "utility_time_eq a b \<longleftrightarrow> ut_t a = ut_t b"
  by (auto simp: utility_time_eq_def intro: timespec.equality)

lemma lt_is_order: "utility_time_lt a b \<longleftrightarrow> ut_t a < ut_t b"
  by (simp add: utility_time_lt_def timespec_lt_iff word_sless_alt)

lemma le_is_order: "utility_time_le a b \<longleftrightarrow> ut_t a \<le> ut_t b"
  by (auto simp: utility_time_le_def eq_is_order lt_is_order)

lemma gt_is_order: "utility_time_gt a b \<longleftrightarrow> ut_t b < ut_t a"
  by (auto simp: utility_time_gt_def le_is_order)

lemma ge_is_order: "utility_time_ge a b \<longleftrightarrow> ut_t b \<le> ut_t a"
  by (auto simp: utility_time_ge_def lt_is_order)

lemma ne_is_order: "utility_time_ne a b \<longleftrightarrow> ut_t a \<noteq> ut_t b"
  by (simp add: utility_time_ne_def eq_is_order)

lemmas comparisons_are_order =
  eq_is_order lt_is_order le_is_order gt_is_order ge_is_order ne_is_order

lemma order_ns_of:
  assumes "time_ok a" "time_ok b"
  shows "ut_t a < ut_t b \<longleftrightarrow> ns_of a < ns_of b" "ut_t a \<le> ut_t b \<longleftrightarrow> ns_of a \<le> ns_of b"
proof -
  have *: "ut_t a < ut_t b \<longleftrightarrow> ns_of a < ns_of b" if "time_ok a" "time_ok b" for a b
    using that unfolding timespec_lt_iff ns_of_def time_ok_def
    by (cases "ut_sec a = ut_sec b") (auto simp: sint_inject [symmetric] simp del: sint_inject)
  show "ut_t a < ut_t b \<longleftrightarrow> ns_of a < ns_of b" using * assms by blast
  show "ut_t a \<le> ut_t b \<longleftrightarrow> ns_of a \<le> ns_of b" using * [OF assms(2,1)] by (simp add: not_less [symmetric])
qed


section \<open>Arithmetic on nanoseconds\<close>

lemma combined_ns:
  assumes "time_ok a" "time_ok b"
  shows "sint (combined_ns_in_s a b) = (sint (ut_nsec a) + sint (ut_nsec b)) div 1000000000"
    and "sint (combined_ns_leftover a b) = (sint (ut_nsec a) + sint (ut_nsec b)) mod 1000000000"
proof -
  let ?n = "sint (ut_nsec a) + sint (ut_nsec b)"
  from assms have n: "0 \<le> ?n" "?n < 2000000000" by (auto simp: time_ok_def)
  then have s: "sint (ut_nsec a + ut_nsec b) = ?n" by (intro sint64_add) auto
  show d: "sint (combined_ns_in_s a b) = ?n div 1000000000"
    using n s by (simp add: combined_ns_in_s_def sint_long_div)
  show "sint (combined_ns_leftover a b) = ?n mod 1000000000"
    using n s by (simp add: combined_ns_leftover_def sint_long_mod)
qed

lemma add_correct:
  assumes ok: "time_ok a" "time_ok b" and fits: "ns_of a + ns_of b < time_limit"
  shows "ns_of (utility_time_add a b res) = ns_of a + ns_of b"
    and "time_ok (utility_time_add a b res)"
proof -
  let ?n = "sint (ut_nsec a) + sint (ut_nsec b)"
  let ?s = "sint (ut_sec a) + sint (ut_sec b)"
  note nonneg = ok [unfolded time_ok_def]
  have n: "?n = ?n div 1000000000 * 1000000000 + ?n mod 1000000000" by simp
  have d: "0 \<le> ?n div 1000000000" using nonneg by (simp add: pos_imp_zdiv_nonneg_iff)
  moreover have "(?s + ?n div 1000000000) * 1000000000 < 2 ^ 63 * 1000000000"
    using fits n pos_mod_sign [of 1000000000 ?n] unfolding ns_of_def time_limit_def
    by (simp add: algebra_simps)
  ultimately have b: "0 \<le> ?s" "?s < 2 ^ 63" "?s + ?n div 1000000000 < 2 ^ 63"
    using nonneg by simp_all
  then have "sint (ut_sec a + ut_sec b) = ?s" by (intro sint64_add) auto
  then have sec: "sint (ut_sec a + ut_sec b + combined_ns_in_s a b) = ?s + ?n div 1000000000"
    using b nonneg combined_ns(1) [OF ok] by (subst sint64_add) auto
  show "ns_of (utility_time_add a b res) = ns_of a + ns_of b"
    unfolding utility_time_add_def ns_of_set_t sec combined_ns(2) [OF ok]
    using n unfolding ns_of_def distrib_right by linarith
  show "time_ok (utility_time_add a b res)"
    using combined_ns(2) [OF ok] b d by (simp add: utility_time_add_def sec)
qed

lemma sub_correct:
  assumes ok: "time_ok a" "time_ok b"
  shows "ns_of (utility_time_sub a b res) = max 0 (ns_of a - ns_of b)"
    and "time_ok (utility_time_sub a b res)"
proof -
  have "ns_of (utility_time_sub a b res) = max 0 (ns_of a - ns_of b) \<and> time_ok (utility_time_sub a b res)"
  proof (cases "utility_time_le a b")
    case True
    then show ?thesis using ok
      by (simp add: utility_time_sub_def utility_time_zero_t_def le_is_order order_ns_of)
  next
    case False
    then have gt: "ut_t b < ut_t a" "ns_of b < ns_of a" using ok
      by (simp_all add: le_is_order order_ns_of not_le)
    note nn = ok [unfolded time_ok_def] sint64_range(2) [of "ut_sec a"] sint64_range(2) [of "ut_sec b"]
    note range = sint64_add sint64_diff
    show ?thesis
    proof (cases "ut_nsec a <s ut_nsec b")
      case True
      then have lt: "sint (ut_sec b) < sint (ut_sec a)" "sint (ut_nsec a) < sint (ut_nsec b)"
        using gt(1) by (auto simp: timespec_lt_iff word_sless_alt)
      have "sint (ut_sec a - 1) = sint (ut_sec a) - 1" using nn lt by (subst sint64_diff) auto
      then have s: "sint (ut_sec a - 1 - ut_sec b) = sint (ut_sec a) - 1 - sint (ut_sec b)"
        using nn lt by (subst sint64_diff) auto
      have "sint (1000000000 + ut_nsec a) = 1000000000 + sint (ut_nsec a)"
        using nn by (subst sint64_add) auto
      then have n: "sint (1000000000 + ut_nsec a - ut_nsec b) = 1000000000 + sint (ut_nsec a) - sint (ut_nsec b)"
        using nn by (subst sint64_diff) auto
      show ?thesis using True False gt(2) nn lt
        by (simp add: utility_time_sub_def s n) (simp add: ns_of_def)
    next
      case nlt: False
      then have le: "sint (ut_sec b) \<le> sint (ut_sec a)" "sint (ut_nsec b) \<le> sint (ut_nsec a)"
        using gt(1) by (auto simp: timespec_lt_iff word_sless_alt)
      have s: "sint (ut_sec a - ut_sec b) = sint (ut_sec a) - sint (ut_sec b)"
        "sint (ut_nsec a - ut_nsec b) = sint (ut_nsec a) - sint (ut_nsec b)"
        using nn le by (subst sint64_diff; auto)+
      show ?thesis using nlt False gt(2) nn le
        by (simp add: utility_time_sub_def s) (simp add: ns_of_def)
    qed
  qed
  then show "ns_of (utility_time_sub a b res) = max 0 (ns_of a - ns_of b)"
    "time_ok (utility_time_sub a b res)" by auto
qed

lemma inc_correct:
  assumes "time_ok a" "time_ok b" "ns_of a + ns_of b < time_limit"
  shows "ns_of (utility_time_inc a b) = ns_of a + ns_of b" "time_ok (utility_time_inc a b)"
  using add_correct [OF assms, of a] by (simp_all add: utility_time_inc_def)

lemma copy_correct [simp]:
  "ns_of (utility_time_to_utility_time a b) = ns_of a"
  "time_ok (utility_time_to_utility_time a b) = time_ok a"
  "ns_of (timespec_to_utility_time (to_timespec a) b) = ns_of a"
  "time_ok (timespec_to_utility_time (to_timespec a) b) = time_ok a"
  by (simp_all add: time_defs ns_of_def time_ok_def)

text \<open>
  The interface the tasks, jobs and drivers use: a point in time that is advanced in place, and
  the length of the interval between two points. The release times of a periodic task and the
  multiplication loop both advance a time by the same amount again and again, hence \<open>ticks\<close>.
\<close>

locale time_counter =
  fixes inc :: "'t \<Rightarrow> 't \<Rightarrow> 't" and ns :: "'t \<Rightarrow> int" and ok :: "'t \<Rightarrow> bool" and lim :: int
  assumes ns_nonneg: "ok t \<Longrightarrow> 0 \<le> ns t"
    and inc_ns: "ok t \<Longrightarrow> ok d \<Longrightarrow> ns t + ns d < lim \<Longrightarrow> ns (inc t d) = ns t + ns d"
    and inc_ok: "ok t \<Longrightarrow> ok d \<Longrightarrow> ns t + ns d < lim \<Longrightarrow> ok (inc t d)"
begin

lemma ticks:
  assumes d: "ok d"
  shows "ok t \<Longrightarrow> ns t + int n * ns d < lim \<Longrightarrow>
    ns (((\<lambda>t. inc t d) ^^ n) t) = ns t + int n * ns d \<and> ok (((\<lambda>t. inc t d) ^^ n) t)"
proof (induction n)
  case (Suc n)
  let ?x = "((\<lambda>t. inc t d) ^^ n) t"
  have "0 \<le> ns d" by (rule ns_nonneg [OF d])
  with Suc have IH: "ns ?x = ns t + int n * ns d" "ok ?x" by (simp_all add: distrib_right)
  then have "ns ?x + ns d < lim" using Suc.prems by (simp add: distrib_right)
  from inc_ns [OF IH(2) d this] inc_ok [OF IH(2) d this] IH show ?case
    by (simp add: distrib_right)
qed simp

end

locale time_interval = time_counter +
  fixes le :: "'t \<Rightarrow> 't \<Rightarrow> bool" and sub :: "'t \<Rightarrow> 't \<Rightarrow> 't"
  assumes le_ns: "ok a \<Longrightarrow> ok b \<Longrightarrow> le a b \<longleftrightarrow> ns a \<le> ns b"
    and sub_ns: "ok a \<Longrightarrow> ok b \<Longrightarrow> ns (sub a b) = max 0 (ns a - ns b)"
    and sub_ok: "ok a \<Longrightarrow> ok b \<Longrightarrow> ok (sub a b)"
    and ns_lim: "ok t \<Longrightarrow> ns t < lim"
begin

text \<open>An interval added to its start is its end; a measured length is at most the later point.\<close>

lemma start_plus_length:
  assumes "ok a" "ok b" "le a b"
  shows "ns (inc a (sub b a)) = ns b"
  using assms ns_lim [of b] sub_ns [of b a] sub_ok [of b a] inc_ns [of a "sub b a"]
  by (simp add: le_ns)

lemma length_add:
  assumes "ok a" "ok b" "ok c" "le a b" "le b c"
  shows "ns (sub c a) = ns (sub b a) + ns (sub c b)"
  using assms by (simp add: le_ns sub_ns)

end

interpretation ut: time_counter utility_time_inc ns_of time_ok time_limit
  by unfold_locales (simp_all add: inc_correct)

interpretation ut: time_interval utility_time_inc ns_of time_ok time_limit utility_time_le
  "\<lambda>a b. utility_time_sub a b res" for res
  by unfold_locales (simp_all add: sub_correct le_is_order order_ns_of ns_of_lt_limit)

lemma mul_loop_ticks: "mul_loop n a t = ((\<lambda>t. utility_time_inc t a) ^^ n) t"
  by (induction n arbitrary: t) (simp_all add: funpow_Suc_right del: funpow.simps(2))

lemma mul_correct:
  assumes "time_ok a" "int (unat n) * ns_of a < time_limit"
  shows "ns_of (utility_time_mul a n res) = int (unat n) * ns_of a"
    and "time_ok (utility_time_mul a n res)"
proof -
  have "to_utility_time 0 Unit_s utility_time_init = utility_time_init"
    by (simp add: utility_time_init_def set_t_def)
  then show "ns_of (utility_time_mul a n res) = int (unat n) * ns_of a"
    "time_ok (utility_time_mul a n res)"
    using ut.ticks [OF assms(1), of utility_time_init "unat n"] assms
    by (simp_all add: utility_time_mul_def mul_loop_ticks)
qed

fun unit_ns :: "time_unit \<Rightarrow> int" where
  "unit_ns Unit_s = 1000000000"
| "unit_ns Unit_ms = 1000000"
| "unit_ns Unit_us = 1000"
| "unit_ns Unit_ns = 1"

lemma sint_of_uint_eq: "uint (w :: u64) = x \<Longrightarrow> x < 2 ^ 63 \<Longrightarrow> sint w = x"
  using sint64_eq_uint [of w] by simp

lemma sint_div_const:
  assumes "2 \<le> uint (d :: u64)" shows "sint (t div d) = uint t div uint d"
proof (rule sint_of_uint_eq)
  show "uint (t div d) = uint t div uint d" by (simp add: uint_div)
  have "uint t div uint d \<le> uint t div 2" using assms by (intro zdiv_mono2) auto
  then show "uint t div uint d < 2 ^ 63" using uint_lt2p [of t] by simp
qed

lemma sint_mod_scaled:
  assumes "0 < uint (d :: u64)" "uint d * k \<le> 1000000000" "0 \<le> k" "k \<le> 1000000"
  shows "sint ((t mod d) * word_of_int k) = (uint t mod uint d) * k"
proof (rule sint_of_uint_eq)
  have r: "0 \<le> uint t mod uint d" "uint t mod uint d < uint d" using assms(1) by simp_all
  have le: "(uint t mod uint d) * k \<le> uint d * k" using r assms(3) by (intro mult_right_mono) auto
  have "uint (word_of_int k :: u64) = k" using assms by (simp add: uint64_of_int)
  then show "uint ((t mod d) * word_of_int k) = (uint t mod uint d) * k"
    using r assms le by (simp add: uint_word_ariths uint_mod)
  show "(uint t mod uint d) * k < 2 ^ 63" using le assms(2) by simp
qed

lemma sint_mod_const:
  assumes "0 < uint (d :: u64)" "uint d \<le> 1000000000" shows "sint (t mod d) = uint t mod uint d"
  using sint_mod_scaled [of d 1 t] assms by simp

lemma ms_split: "(x div 1000) * 1000000000 + (x mod 1000) * 1000000 = (x :: int) * 1000000"
  by presburger

lemma us_split: "(x div 1000000) * 1000000000 + (x mod 1000000) * 1000 = (x :: int) * 1000"
  by presburger

lemma to_utility_time_correct:
  assumes "unit = Unit_s \<Longrightarrow> uint t < 2 ^ 63"
  shows "ns_of (to_utility_time t unit u) = uint t * unit_ns unit"
    and "time_ok (to_utility_time t unit u)"
proof -
  note ms = sint_mod_scaled [of 1000 1000000 t] and us = sint_mod_scaled [of 1000000 1000 t]
  have "ns_of (to_utility_time t unit u) = uint t * unit_ns unit \<and> time_ok (to_utility_time t unit u)"
  proof (cases unit)
    case Unit_s
    then show ?thesis using assms by (simp add: sint64_eq_uint)
  next
    case Unit_ms
    then show ?thesis using ms ms_split [of "uint t"]
      by (simp add: sint_div_const pos_imp_zdiv_nonneg_iff)
  next
    case Unit_us
    then show ?thesis using us us_split [of "uint t"]
      by (simp add: sint_div_const pos_imp_zdiv_nonneg_iff)
  next
    case Unit_ns
    then show ?thesis by (simp add: sint_div_const sint_mod_const pos_imp_zdiv_nonneg_iff)
  qed
  then show "ns_of (to_utility_time t unit u) = uint t * unit_ns unit"
    "time_ok (to_utility_time t unit u)" by auto
qed

section \<open>Strings\<close>

lemma count_digits_eq: "count_digits s = length (takeWhile isdigit s)"
  by (induction s) auto

lemma copy_digits_eq:
  "n + length b' = 9 \<Longrightarrow> length b = n \<Longrightarrow> list_all isdigit xs \<Longrightarrow> length xs \<le> 9 - n \<Longrightarrow>
   (length xs = 9 - n \<or> \<not> (ys \<noteq> [] \<and> isdigit (hd ys))) \<Longrightarrow>
   copy_digits (xs @ ys) (b @ b') n = (b @ xs @ drop (length xs) b', n + length xs)"
proof (induction xs arbitrary: b b' n)
  case Nil
  then show ?case by (cases ys) auto
next
  case (Cons x xs)
  then obtain c b'' where b': "b' = c # b''" by (cases b') auto
  have "copy_digits (xs @ ys) ((b @ [x]) @ b'') (Suc n) =
        ((b @ [x]) @ xs @ drop (length xs) b'', Suc n + length xs)"
    using Cons.prems b' by (intro Cons.IH) auto
  then show ?case using Cons.prems b' by (simp add: list_update_append)
qed

lemma fmt_0lu_9:
  assumes "unat w < 10 ^ 9"
  shows "list_all isdigit (fmt_0lu 9 w)" "length (fmt_0lu 9 w) = 9" "dec_value (fmt_0lu 9 w) = unat w"
  using assms length_show_nat [of "unat w" 9] show_nat_digits [of "unat w"]
  by (auto simp: fmt_0lu_def Let_def list_all_iff simp del: show_nat_digits)

lemma time_ok_unat:
  assumes "time_ok u"
  shows "int (unat (ut_sec u)) = sint (ut_sec u)" "int (unat (ut_nsec u)) = sint (ut_nsec u)"
  using assms uint64_eq_sint [of "ut_sec u"] uint64_eq_sint [of "ut_nsec u"]
  by (simp_all add: time_ok_def)

lemma dec_value_append_zeros: "dec_value (xs @ replicate k CHR ''0'') = dec_value xs * 10 ^ k"
  using dec_value_acc_eq [of "dec_value xs" "replicate k CHR ''0''"] dec_value_zeros [of k "[]"]
  by (simp add: dec_value_acc_append)

lemma parse_decimal:
  assumes xs: "list_all isdigit xs" "xs \<noteq> []" "length xs \<le> 18"
    and fs: "list_all isdigit fs" "length fs \<le> 9"
    and rest: "length fs = 9 \<or> \<not> (rest \<noteq> [] \<and> isdigit (hd rest))"
  shows "string_to_utility_time (xs @ CHR ''.'' # fs @ rest) v =
    (set_t v (of_nat (dec_value xs)) (of_nat (dec_value fs * 10 ^ (9 - length fs))),
     if fs = [] then length xs else length xs + 1 + length fs)"
proof -
  let ?b = "fs @ replicate (9 - length fs) CHR ''0''"
  have n: "count_digits (xs @ CHR ''.'' # fs @ rest) = length xs" using xs by (simp add: count_digits_eq)
  have "dec_value xs < 10 ^ length xs" by (rule dec_value_bound [OF xs(1)])
  also have "\<dots> \<le> 10 ^ 18" using xs(3) by (intro power_increasing) simp_all
  finally have "dec_value xs < 2 ^ 64" by simp
  then have sec: "strtoull10 (xs @ CHR ''.'' # fs @ rest) = of_nat (dec_value xs)"
    using xs by (intro strtoull10_digits) simp_all
  have "copy_digits (fs @ rest) ([] @ replicate 9 CHR ''0'') 0 =
        ([] @ fs @ drop (length fs) (replicate 9 CHR ''0''), 0 + length fs)"
    using fs rest by (intro copy_digits_eq) (simp_all del: replicate.simps)
  then have c: "copy_digits (fs @ rest) (replicate 9 CHR ''0'') 0 = (?b, length fs)" by simp
  have b: "list_all isdigit ?b" "?b \<noteq> []" "length ?b = 9"
    using fs by (auto simp: list_all_iff)
  then have "dec_value ?b < 2 ^ 64" using dec_value_bound [OF b(1)] unfolding b(3) by simp
  with b have ns: "strtoull10 ?b = of_nat (dec_value fs * 10 ^ (9 - length fs))"
    using strtoull10_digits [of ?b "[]"] by (simp add: dec_value_append_zeros)
  have cnt: "length xs \<noteq> 0" "\<not> longest_second_digit_count < length xs"
    using xs by (simp_all add: longest_second_digit_count_def)
  show ?thesis
    unfolding string_to_utility_time_def Let_def n sec using cnt by (simp add: c ns)
qed

lemma parse_seconds:
  assumes "list_all isdigit xs" "xs \<noteq> []" "length xs \<le> 18"
    "\<not> (rest \<noteq> [] \<and> (isdigit (hd rest) \<or> hd rest = CHR ''.''))"
  shows "string_to_utility_time (xs @ rest) v = (set_t v (of_nat (dec_value xs)) 0, length xs)"
proof -
  have t: "takeWhile isdigit rest = []" using assms(4) by (cases rest) auto
  have n: "count_digits (xs @ rest) = length xs" using assms by (simp add: count_digits_eq t)
  have "dec_value xs < 10 ^ length xs" by (rule dec_value_bound [OF assms(1)])
  also have "\<dots> \<le> 10 ^ 18" using assms(3) by (intro power_increasing) simp_all
  finally have "dec_value xs < 2 ^ 64" by simp
  then have sec: "strtoull10 (xs @ rest) = of_nat (dec_value xs)"
    using assms by (intro strtoull10_digits) auto
  show ?thesis using assms unfolding string_to_utility_time_def Let_def n sec
    by (auto simp: longest_second_digit_count_def)
qed

lemma parse_rejects:
  assumes "count_digits s = 0 \<or> 18 < count_digits s"
  shows "string_to_utility_time s v = (set_t v 0 0, 0)"
  using assms by (auto simp: string_to_utility_time_def longest_second_digit_count_def)

lemma parse_printed:
  assumes ok: "time_ok u" and small: "sint (ut_sec u) < 10 ^ 18"
  shows "string_to_utility_time (to_file_string u @ rest) v =
    (set_t v (ut_sec u) (ut_nsec u), length (to_file_string u))"
proof -
  let ?s = "show_nat (unat (ut_sec u))" and ?f = "fmt_0lu 9 (ut_nsec u)"
  have "int (unat (ut_sec u)) < 10 ^ 18" "int (unat (ut_nsec u)) < 10 ^ 9"
    unfolding time_ok_unat [OF ok] using ok small by (simp_all add: time_ok_def)
  then have b: "unat (ut_sec u) < 10 ^ 18" "unat (ut_nsec u) < 10 ^ 9"
    by (simp_all add: unat_less_uint)
  note f = fmt_0lu_9 [OF b(2)] and len = length_show_nat [OF b(1)]
  have "?f \<noteq> []" using f(2) by (metis list.size(3) zero_neq_numeral)
  then show ?thesis using parse_decimal [of ?s ?f rest v] f len
    by (simp add: to_file_string_def fmt_lu_def)
qed

lemma to_string_fits:
  "length (to_file_string u) < len \<Longrightarrow> to_string u len = (to_file_string u, 0)"
  by (simp add: to_string_def to_file_string_def Let_def snprintf_out_def)

lemma to_string_short:
  "len \<le> length (to_file_string u) \<Longrightarrow>
   to_string u len = (take (len - 1) (to_file_string u), length (to_file_string u) + 1)"
  by (simp add: to_string_def to_file_string_def Let_def snprintf_out_def)

section \<open>Properties\<close>

text \<open>\<^verbatim>\<open>utility_time_add\<close> and \<^verbatim>\<open>utility_time_inc\<close> are exact on nanoseconds and keep
  times normalised, whatever the target held before, as long as the sum fits \<^verbatim>\<open>time_t\<close>; a
  target that is one of the operands (\<^verbatim>\<open>utility_time_inc\<close>) makes no difference.\<close>

theorem time_add_exact:
  assumes "time_ok a" "time_ok b" "ns_of a + ns_of b < time_limit"
  shows "ns_of (utility_time_add a b res) = ns_of a + ns_of b \<and> time_ok (utility_time_add a b res) \<and>
    ut_t (utility_time_inc a b) = ut_t (utility_time_add a b res) \<and>
    dyn_alloc (utility_time_add a b res) = dyn_alloc res \<and>
    manual_gc (utility_time_add a b res) = manual_gc res"
  using add_correct [OF assms, of res] by (simp add: utility_time_inc_def utility_time_add_def)

definition ut :: "int \<Rightarrow> int \<Rightarrow> utility_time" where
  "ut s n = set_t utility_time_init (word_of_int s) (word_of_int n)"

lemma ut_values [simp]:
  "ns_of (ut s n) = sint (word_of_int s :: i64) * 1000000000 + sint (word_of_int n :: i64)"
  "ut_sec (ut s n) = word_of_int s" "ut_nsec (ut s n) = word_of_int n"
  "time_ok (ut s n) \<longleftrightarrow> 0 \<le> sint (word_of_int s :: i64) \<and> 0 \<le> sint (word_of_int n :: i64) \<and>
     sint (word_of_int n :: i64) < 1000000000"
  by (simp_all add: ut_def)

theorem time_add_exact_witness:
  "ns_of (utility_time_add (ut 1 600000000) (ut 2 700000000) (ut 9 9)) = 4300000000"
  using time_add_exact [of "ut 1 600000000" "ut 2 700000000" "ut 9 9"]
  by (simp add: time_limit_def)

text \<open>\<^verbatim>\<open>utility_time_sub\<close> computes the difference of two normalised times, cut off at
  zero, and never leaves a time that is not normalised.\<close>

theorem time_sub_truncates:
  assumes "time_ok a" "time_ok b"
  shows "ns_of (utility_time_sub a b res) = max 0 (ns_of a - ns_of b) \<and>
    time_ok (utility_time_sub a b res)"
  using sub_correct [OF assms] by blast

theorem time_sub_truncates_witness:
  "ns_of (utility_time_sub (ut 3 100000000) (ut 1 400000000) (ut 0 0)) = 1700000000"
  using time_sub_truncates [of "ut 3 100000000" "ut 1 400000000" "ut 0 0"] by simp

text \<open>The repeated addition of \<^verbatim>\<open>utility_time_mul\<close> is the product of the time by the
  unsigned factor when the product fits, and its loop leaves the operand as it was.\<close>

theorem time_mul_exact:
  assumes "time_ok a" "int (unat n) * ns_of a < time_limit"
  shows "ns_of (utility_time_mul a n res) = int (unat n) * ns_of a \<and> time_ok (utility_time_mul a n res)"
  using mul_correct [OF assms] by blast

theorem time_mul_exact_witness:
  "ns_of (utility_time_mul (ut 1 400000000) 5 (ut 0 7)) = 7000000000"
  using time_mul_exact [of "ut 1 400000000" 5 "ut 0 7"] by (simp add: time_limit_def)

text \<open>The six comparison functions are the comparisons of one linear order on all
  \<^verbatim>\<open>struct timespec\<close> values, and on normalised times that order is the order of nanoseconds.\<close>

theorem time_comparisons_order:
  assumes "time_ok a" "time_ok b"
  shows "utility_time_eq a b = (ns_of a = ns_of b) \<and> utility_time_ne a b = (ns_of a \<noteq> ns_of b) \<and>
    utility_time_lt a b = (ns_of a < ns_of b) \<and> utility_time_le a b = (ns_of a \<le> ns_of b) \<and>
    utility_time_gt a b = (ns_of a > ns_of b) \<and> utility_time_ge a b = (ns_of a \<ge> ns_of b)"
  using assms by (simp add: comparisons_are_order order_ns_of ns_of_inj)

theorem time_comparisons_order_witness:
  "utility_time_lt (ut 1 999999999) (ut 2 0)"
  using time_comparisons_order [of "ut 1 999999999" "ut 2 0"] by simp

text \<open>Claim C35. The text that \<^verbatim>\<open>to_string\<close> and \<^verbatim>\<open>to_file\<close> write for a normalised time of fewer
  than 10 to the 18 seconds is read back by \<^verbatim>\<open>string_to_utility_time\<close> to the same time,
  whatever follows it, with \<^verbatim>\<open>endptr\<close> at the first character after it.\<close>

theorem time_print_parse:
  assumes "time_ok u" "sint (ut_sec u) < 10 ^ 18" "length (to_file_string u) < len"
  shows "to_string u len = (to_file_string u, 0) \<and>
    string_to_utility_time (fst (to_string u len) @ rest) v =
      (set_t v (ut_sec u) (ut_nsec u), length (to_file_string u))"
  using to_string_fits [OF assms(3)] parse_printed [OF assms(1,2)] by simp

theorem time_print_parse_witness:
  "string_to_utility_time ''12.000005000 ms'' (ut 0 0) = (ut 12 5000, length ''12.000005000'')"
proof -
  have "to_file_string (ut 12 5000) = ''12.000005000''"
    by (simp add: to_file_string_def fmt_lu_def fmt_0lu_def show_nat.simps digit_chars)
      (simp add: eval_nat_numeral)
  then show ?thesis
    using time_print_parse [of "ut 12 5000" 32 "'' ms''" "ut 0 0"]
    by (auto simp: ut_def)
qed

text \<open>\<^verbatim>\<open>string_to_utility_time\<close> reads one to eighteen digits of seconds and up to nine
  digits of fraction, scaled by their position, and points \<^verbatim>\<open>endptr\<close> behind them; a dot without
  digits is not consumed. Anything without a leading digit, or with more than eighteen digits
  before the dot, is rejected with the zero time.\<close>

theorem time_parse_spec:
  assumes "list_all isdigit xs" "xs \<noteq> []" "list_all isdigit fs" "length fs \<le> 9"
    "length fs = 9 \<or> \<not> (rest \<noteq> [] \<and> isdigit (hd rest))"
  shows "string_to_utility_time (xs @ CHR ''.'' # fs @ rest) v =
    (if length xs \<le> 18
     then (set_t v (of_nat (dec_value xs)) (of_nat (dec_value fs * 10 ^ (9 - length fs))),
           if fs = [] then length xs else length xs + 1 + length fs)
     else (set_t v 0 0, 0))"
proof (cases "length xs \<le> 18")
  case False
  then have "18 < count_digits (xs @ CHR ''.'' # fs @ rest)"
    using assms(1) by (simp add: count_digits_eq)
  then show ?thesis using False by (simp add: parse_rejects)
qed (use parse_decimal assms in simp)

theorem time_parse_spec_witness:
  "string_to_utility_time ''60.5s'' (ut 0 0) = (ut 60 500000000, 4) \<and>
   string_to_utility_time ''0000000000000000001.0'' (ut 0 0) = (ut 0 0, 0)"
  using time_parse_spec [of "''60''" "''5''" "''s''" "ut 0 0"]
    time_parse_spec [of "''0000000000000000001''" "''0''" "[]" "ut 0 0"]
  by (simp add: ut_def isdigit_def digit_val_def)

end
