(* ===== verification/Utility_Time_Heap.thy ===== *)
theory Utility_Time_Heap
  imports Utility_Time
begin

text \<open>
  The objects of \<^verbatim>\<open>utility_time.h\<close> in memory: allocation by \<^verbatim>\<open>utility_time_make_dyn\<close>, stores
  through pointers one structure member at a time, and the automatic garbage collection of the
  \<^verbatim>\<open>_gc\<close>, \<^verbatim>\<open>_dyn\<close> and \<^verbatim>\<open>_dyn_gc\<close> variants of every operation.

  A store maps addresses to objects; \<open>heap_objs\<close> is the set of those that came from
  \<^verbatim>\<open>malloc\<close>. A pointer is an address or NULL (\<open>None\<close>). An operation is a function from a store
  to an optional result: \<open>None\<close> is undefined behaviour, that is the dereferencing of
  NULL or of a dangling pointer, and the freeing of an object that is not on the heap. Addresses
  are not reused, so that a use after free is never masked by a later allocation. Whether the
  n-th call of \<^verbatim>\<open>malloc\<close> succeeds, and what the memory it returns holds, are fields of the store.
\<close>

section \<open>The store\<close>

record time_store =
  cells :: "nat \<rightharpoonup> utility_time"
  heap_objs :: "nat set"
  next_addr :: nat
  malloc_ok :: "nat \<Rightarrow> bool"
  garbage :: "nat \<Rightarrow> utility_time"

type_synonym time_ptr = "nat option"

definition load :: "time_ptr \<Rightarrow> time_store \<Rightarrow> utility_time option" where
  "load p h = (case p of None \<Rightarrow> None | Some a \<Rightarrow> cells h a)"

definition store :: "time_ptr \<Rightarrow> utility_time \<Rightarrow> time_store \<Rightarrow> time_store option" where
  "store p u h = (case p of None \<Rightarrow> None | Some a \<Rightarrow>
     if cells h a = None then None else Some (h\<lparr>cells := (cells h)(a \<mapsto> u)\<rparr>))"

definition store_sec :: "time_ptr \<Rightarrow> i64 \<Rightarrow> time_store \<Rightarrow> time_store option" where
  "store_sec p s h = do { u \<leftarrow> load p h; store p (set_t u s (ut_nsec u)) h }"

definition store_nsec :: "time_ptr \<Rightarrow> i64 \<Rightarrow> time_store \<Rightarrow> time_store option" where
  "store_nsec p n h = do { u \<leftarrow> load p h; store p (set_t u (ut_sec u) n) h }"

text \<open>\<^verbatim>\<open>malloc(sizeof(utility_time))\<close> and \<^verbatim>\<open>free\<close> (of NULL: no effect).\<close>

definition time_malloc :: "time_store \<Rightarrow> time_ptr \<times> time_store" where
  "time_malloc h =
    (let a = next_addr h in
     if malloc_ok h a
     then (Some a, h\<lparr>cells := (cells h)(a \<mapsto> garbage h a), heap_objs := insert a (heap_objs h),
                      next_addr := Suc a\<rparr>)
     else (None, h\<lparr>next_addr := Suc a\<rparr>))"

definition time_free :: "time_ptr \<Rightarrow> time_store \<Rightarrow> time_store option" where
  "time_free p h = (case p of None \<Rightarrow> Some h | Some a \<Rightarrow>
     if cells h a \<noteq> None \<and> a \<in> heap_objs h
     then Some (h\<lparr>cells := (cells h)(a := None), heap_objs := heap_objs h - {a}\<rparr>) else None)"

section \<open>Maintenance functions\<close>

definition utility_time_gc :: "time_ptr \<Rightarrow> time_store \<Rightarrow> time_store option" where
  "utility_time_gc p h = do { u \<leftarrow> load p h; if dyn_alloc u then time_free p h else Some h }"

definition utility_time_gc_auto :: "time_ptr \<Rightarrow> time_store \<Rightarrow> time_store option" where
  "utility_time_gc_auto p h =
     do { u \<leftarrow> load p h; if \<not> manual_gc u then utility_time_gc p h else Some h }"

definition utility_time_make_dyn :: "time_store \<Rightarrow> (time_ptr \<times> time_store) option" where
  "utility_time_make_dyn h =
    (let (p, h1) = time_malloc h in
     if p \<noteq> None then do { h2 \<leftarrow> store p utility_time_init_dyn h1; Some (p, h2) } else Some (p, h1))"

text \<open>
  The shape all \<^verbatim>\<open>_dyn\<close> functions share: make an object and, if there is one, fill it. The
  arguments of a call are evaluated from left to right.
\<close>

definition fill_dyn :: "(time_ptr \<Rightarrow> time_store \<Rightarrow> time_store option) \<Rightarrow> time_store \<Rightarrow>
    (time_ptr \<times> time_store) option" where
  "fill_dyn f h = do {
     (p, h1) \<leftarrow> utility_time_make_dyn h;
     if p \<noteq> None then do { h2 \<leftarrow> f p h1; Some (p, h2) } else Some (p, h1) }"

section \<open>Conversions\<close>

definition to_utility_time_p :: "u64 \<Rightarrow> time_unit \<Rightarrow> time_ptr \<Rightarrow> time_store \<Rightarrow> time_store option" where
  "to_utility_time_p t unit p h = do { u \<leftarrow> load p h; store p (to_utility_time t unit u) h }"

definition to_utility_time_dyn :: "u64 \<Rightarrow> time_unit \<Rightarrow> time_store \<Rightarrow> (time_ptr \<times> time_store) option" where
  "to_utility_time_dyn t unit = fill_dyn (to_utility_time_p t unit)"

definition timespec_to_utility_time_p :: "timespec \<Rightarrow> time_ptr \<Rightarrow> time_store \<Rightarrow> time_store option" where
  "timespec_to_utility_time_p ts p h = do { h1 \<leftarrow> store_sec p (tv_sec ts) h; store_nsec p (tv_nsec ts) h1 }"

definition timespec_to_utility_time_dyn :: "timespec \<Rightarrow> time_store \<Rightarrow> (time_ptr \<times> time_store) option" where
  "timespec_to_utility_time_dyn ts = fill_dyn (timespec_to_utility_time_p ts)"

definition string_to_utility_time_p :: "string \<Rightarrow> time_ptr \<Rightarrow> time_store \<Rightarrow> time_store option" where
  "string_to_utility_time_p str p h =
     do { u \<leftarrow> load p h; store p (fst (string_to_utility_time str u)) h }"

definition string_to_utility_time_dyn :: "string \<Rightarrow> time_store \<Rightarrow> (time_ptr \<times> time_store) option" where
  "string_to_utility_time_dyn str = fill_dyn (string_to_utility_time_p str)"

definition utility_time_to_utility_time_p :: "time_ptr \<Rightarrow> time_ptr \<Rightarrow> time_store \<Rightarrow> time_store option" where
  "utility_time_to_utility_time_p src dst h = do {
     s \<leftarrow> load src h; h1 \<leftarrow> store_sec dst (ut_sec s) h;
     s1 \<leftarrow> load src h1; store_nsec dst (ut_nsec s1) h1 }"

definition utility_time_to_utility_time_gc :: "time_ptr \<Rightarrow> time_ptr \<Rightarrow> time_store \<Rightarrow> time_store option" where
  "utility_time_to_utility_time_gc src dst h =
     do { h1 \<leftarrow> utility_time_to_utility_time_p src dst h; utility_time_gc_auto src h1 }"

definition utility_time_to_utility_time_dyn :: "time_ptr \<Rightarrow> time_store \<Rightarrow> (time_ptr \<times> time_store) option" where
  "utility_time_to_utility_time_dyn src = fill_dyn (utility_time_to_utility_time_p src)"

text \<open>Reading an object into another type, then collecting it.\<close>

definition read_gc :: "(utility_time \<Rightarrow> 'r) \<Rightarrow> time_ptr \<Rightarrow> time_store \<Rightarrow> ('r \<times> time_store) option" where
  "read_gc f p h = do { u \<leftarrow> load p h; h1 \<leftarrow> utility_time_gc_auto p h; Some (f u, h1) }"

definition to_timespec_gc :: "time_ptr \<Rightarrow> time_store \<Rightarrow> (timespec \<times> time_store) option" where
  "to_timespec_gc = read_gc to_timespec"

definition to_file_string_gc :: "time_ptr \<Rightarrow> time_store \<Rightarrow> (string \<times> time_store) option" where
  "to_file_string_gc = read_gc to_file_string"

definition to_string_gc :: "time_ptr \<Rightarrow> nat \<Rightarrow> time_store \<Rightarrow> ((string \<times> nat) \<times> time_store) option" where
  "to_string_gc p len = read_gc (\<lambda>u. to_string u len) p"

definition to_string_dyn_gc :: "(nat \<Rightarrow> bool) \<Rightarrow> time_ptr \<Rightarrow> time_store \<Rightarrow> (string option \<times> time_store) option" where
  "to_string_dyn_gc buf_ok = read_gc (to_string_dyn buf_ok)"

section \<open>Comparisons\<close>

definition compare_gc_t2 :: "(utility_time \<Rightarrow> utility_time \<Rightarrow> bool) \<Rightarrow> time_ptr \<Rightarrow> time_ptr \<Rightarrow>
    time_store \<Rightarrow> (bool \<times> time_store) option" where
  "compare_gc_t2 cmp t1 t2 h = do {
     a \<leftarrow> load t1 h; b \<leftarrow> load t2 h; h1 \<leftarrow> utility_time_gc_auto t2 h; Some (cmp a b, h1) }"

definition compare_gc :: "(utility_time \<Rightarrow> utility_time \<Rightarrow> bool) \<Rightarrow> time_ptr \<Rightarrow> time_ptr \<Rightarrow>
    time_store \<Rightarrow> (bool \<times> time_store) option" where
  "compare_gc cmp t1 t2 h = do {
     (r, h1) \<leftarrow> compare_gc_t2 cmp t1 t2 h; h2 \<leftarrow> utility_time_gc_auto t1 h1; Some (r, h2) }"

definition utility_time_eq_gc_t2 :: "time_ptr \<Rightarrow> time_ptr \<Rightarrow> time_store \<Rightarrow> (bool \<times> time_store) option" where
  "utility_time_eq_gc_t2 = compare_gc_t2 utility_time_eq"

definition utility_time_eq_gc :: "time_ptr \<Rightarrow> time_ptr \<Rightarrow> time_store \<Rightarrow> (bool \<times> time_store) option" where
  "utility_time_eq_gc = compare_gc utility_time_eq"

definition utility_time_lt_gc_t2 :: "time_ptr \<Rightarrow> time_ptr \<Rightarrow> time_store \<Rightarrow> (bool \<times> time_store) option" where
  "utility_time_lt_gc_t2 = compare_gc_t2 utility_time_lt"

definition utility_time_lt_gc :: "time_ptr \<Rightarrow> time_ptr \<Rightarrow> time_store \<Rightarrow> (bool \<times> time_store) option" where
  "utility_time_lt_gc = compare_gc utility_time_lt"

definition utility_time_le_gc_t2 :: "time_ptr \<Rightarrow> time_ptr \<Rightarrow> time_store \<Rightarrow> (bool \<times> time_store) option" where
  "utility_time_le_gc_t2 = compare_gc_t2 utility_time_le"

definition utility_time_le_gc :: "time_ptr \<Rightarrow> time_ptr \<Rightarrow> time_store \<Rightarrow> (bool \<times> time_store) option" where
  "utility_time_le_gc = compare_gc utility_time_le"

definition utility_time_gt_gc_t2 :: "time_ptr \<Rightarrow> time_ptr \<Rightarrow> time_store \<Rightarrow> (bool \<times> time_store) option" where
  "utility_time_gt_gc_t2 = compare_gc_t2 utility_time_gt"

definition utility_time_gt_gc :: "time_ptr \<Rightarrow> time_ptr \<Rightarrow> time_store \<Rightarrow> (bool \<times> time_store) option" where
  "utility_time_gt_gc = compare_gc utility_time_gt"

definition utility_time_ge_gc_t2 :: "time_ptr \<Rightarrow> time_ptr \<Rightarrow> time_store \<Rightarrow> (bool \<times> time_store) option" where
  "utility_time_ge_gc_t2 = compare_gc_t2 utility_time_ge"

definition utility_time_ge_gc :: "time_ptr \<Rightarrow> time_ptr \<Rightarrow> time_store \<Rightarrow> (bool \<times> time_store) option" where
  "utility_time_ge_gc = compare_gc utility_time_ge"

definition utility_time_ne_gc_t2 :: "time_ptr \<Rightarrow> time_ptr \<Rightarrow> time_store \<Rightarrow> (bool \<times> time_store) option" where
  "utility_time_ne_gc_t2 = compare_gc_t2 utility_time_ne"

definition utility_time_ne_gc :: "time_ptr \<Rightarrow> time_ptr \<Rightarrow> time_store \<Rightarrow> (bool \<times> time_store) option" where
  "utility_time_ne_gc = compare_gc utility_time_ne"


section \<open>Operations\<close>

definition utility_time_add_p :: "time_ptr \<Rightarrow> time_ptr \<Rightarrow> time_ptr \<Rightarrow> time_store \<Rightarrow> time_store option" where
  "utility_time_add_p t1 t2 res h = do {
     a \<leftarrow> load t1 h; b \<leftarrow> load t2 h;
     h1 \<leftarrow> store_sec res (ut_sec a + ut_sec b + combined_ns_in_s a b) h;
     a1 \<leftarrow> load t1 h1; b1 \<leftarrow> load t2 h1;
     store_nsec res (combined_ns_leftover a1 b1) h1 }"

definition utility_time_add_gc :: "time_ptr \<Rightarrow> time_ptr \<Rightarrow> time_ptr \<Rightarrow> time_store \<Rightarrow> time_store option" where
  "utility_time_add_gc t1 t2 res h = do {
     h1 \<leftarrow> utility_time_add_p t1 t2 res h; h2 \<leftarrow> utility_time_gc_auto t1 h1; utility_time_gc_auto t2 h2 }"

definition utility_time_add_dyn :: "time_ptr \<Rightarrow> time_ptr \<Rightarrow> time_store \<Rightarrow> (time_ptr \<times> time_store) option" where
  "utility_time_add_dyn t1 t2 = fill_dyn (utility_time_add_p t1 t2)"

definition utility_time_add_dyn_gc :: "time_ptr \<Rightarrow> time_ptr \<Rightarrow> time_store \<Rightarrow> (time_ptr \<times> time_store) option" where
  "utility_time_add_dyn_gc t1 t2 h = do {
     (p, h1) \<leftarrow> utility_time_add_dyn t1 t2 h;
     h2 \<leftarrow> utility_time_gc_auto t1 h1; h3 \<leftarrow> utility_time_gc_auto t2 h2; Some (p, h3) }"

definition utility_time_inc_p :: "time_ptr \<Rightarrow> time_ptr \<Rightarrow> time_store \<Rightarrow> time_store option" where
  "utility_time_inc_p target inc = utility_time_add_p target inc target"

definition utility_time_inc_gc :: "time_ptr \<Rightarrow> time_ptr \<Rightarrow> time_store \<Rightarrow> time_store option" where
  "utility_time_inc_gc target inc h =
     do { h1 \<leftarrow> utility_time_inc_p target inc h; utility_time_gc_auto inc h1 }"

definition utility_time_sub_p :: "time_ptr \<Rightarrow> time_ptr \<Rightarrow> time_ptr \<Rightarrow> time_store \<Rightarrow> time_store option" where
  "utility_time_sub_p t1 t2 res h = do {
     a \<leftarrow> load t1 h; b \<leftarrow> load t2 h;
     if utility_time_le a b then do { r \<leftarrow> load res h; store res (utility_time_zero_t r) h }
     else if ut_nsec a <s ut_nsec b then do {
       h1 \<leftarrow> store_sec res (ut_sec a - 1 - ut_sec b) h;
       a1 \<leftarrow> load t1 h1; b1 \<leftarrow> load t2 h1;
       store_nsec res (1000000000 + ut_nsec a1 - ut_nsec b1) h1 }
     else do {
       h1 \<leftarrow> store_sec res (ut_sec a - ut_sec b) h;
       a1 \<leftarrow> load t1 h1; b1 \<leftarrow> load t2 h1;
       store_nsec res (ut_nsec a1 - ut_nsec b1) h1 } }"

definition utility_time_sub_gc :: "time_ptr \<Rightarrow> time_ptr \<Rightarrow> time_ptr \<Rightarrow> time_store \<Rightarrow> time_store option" where
  "utility_time_sub_gc t1 t2 res h = do {
     h1 \<leftarrow> utility_time_sub_p t1 t2 res h; h2 \<leftarrow> utility_time_gc_auto t1 h1; utility_time_gc_auto t2 h2 }"

definition utility_time_sub_dyn :: "time_ptr \<Rightarrow> time_ptr \<Rightarrow> time_store \<Rightarrow> (time_ptr \<times> time_store) option" where
  "utility_time_sub_dyn t1 t2 = fill_dyn (utility_time_sub_p t1 t2)"

definition utility_time_sub_dyn_gc :: "time_ptr \<Rightarrow> time_ptr \<Rightarrow> time_store \<Rightarrow> (time_ptr \<times> time_store) option" where
  "utility_time_sub_dyn_gc t1 t2 h = do {
     (p, h1) \<leftarrow> utility_time_sub_dyn t1 t2 h;
     h2 \<leftarrow> utility_time_gc_auto t1 h1; h3 \<leftarrow> utility_time_gc_auto t2 h2; Some (p, h3) }"

text \<open>
  In \<^verbatim>\<open>utility_time_mul\<close> the running sum is a local object, which no pointer of the caller can
  reach; it is kept outside the store, and only its increments read the operand.
\<close>

fun mul_loop_p :: "nat \<Rightarrow> time_ptr \<Rightarrow> utility_time \<Rightarrow> time_store \<Rightarrow> utility_time option" where
  "mul_loop_p 0 t1 t h = Some t"
| "mul_loop_p (Suc n) t1 t h = do { a \<leftarrow> load t1 h; mul_loop_p n t1 (utility_time_inc t a) h }"

definition utility_time_mul_p :: "time_ptr \<Rightarrow> u32 \<Rightarrow> time_ptr \<Rightarrow> time_store \<Rightarrow> time_store option" where
  "utility_time_mul_p t1 n res h = do {
     t \<leftarrow> mul_loop_p (unat n) t1 (to_utility_time 0 Unit_s utility_time_init) h;
     h1 \<leftarrow> store_sec res (ut_sec t) h; store_nsec res (ut_nsec t) h1 }"

definition utility_time_mul_gc :: "time_ptr \<Rightarrow> u32 \<Rightarrow> time_ptr \<Rightarrow> time_store \<Rightarrow> time_store option" where
  "utility_time_mul_gc t1 n res h =
     do { h1 \<leftarrow> utility_time_mul_p t1 n res h; utility_time_gc_auto t1 h1 }"

definition utility_time_mul_dyn :: "time_ptr \<Rightarrow> u32 \<Rightarrow> time_store \<Rightarrow> (time_ptr \<times> time_store) option" where
  "utility_time_mul_dyn t1 n = fill_dyn (utility_time_mul_p t1 n)"

definition utility_time_mul_dyn_gc :: "time_ptr \<Rightarrow> u32 \<Rightarrow> time_store \<Rightarrow> (time_ptr \<times> time_store) option" where
  "utility_time_mul_dyn_gc t1 n h = do {
     (p, h1) \<leftarrow> utility_time_mul_dyn t1 n h; h2 \<leftarrow> utility_time_gc_auto t1 h1; Some (p, h2) }"

section \<open>Objects, pointers and collection\<close>

definition store_ok :: "time_store \<Rightarrow> bool" where
  "store_ok h \<longleftrightarrow> (\<forall>a. a \<in> heap_objs h \<longrightarrow> cells h a \<noteq> None) \<and> (\<forall>a \<ge> next_addr h. cells h a = None) \<and>
     (\<forall>a u. cells h a = Some u \<longrightarrow> dyn_alloc u \<longrightarrow> a \<in> heap_objs h)"

definition auto_obj :: "utility_time \<Rightarrow> bool" where
  "auto_obj u \<longleftrightarrow> dyn_alloc u \<and> \<not> manual_gc u"

definition dynobj :: "timespec \<Rightarrow> utility_time" where
  "dynobj ts = \<lparr>ut_t = ts, dyn_alloc = True, manual_gc = False\<rparr>"

definition collect :: "nat \<Rightarrow> utility_time \<Rightarrow> time_store \<Rightarrow> time_store" where
  "collect a u h = (if auto_obj u then h\<lparr>cells := (cells h)(a := None), heap_objs := heap_objs h - {a}\<rparr> else h)"

definition alloc :: "timespec \<Rightarrow> time_store \<Rightarrow> time_store" where
  "alloc ts h = h\<lparr>cells := (cells h)(next_addr h \<mapsto> dynobj ts),
     heap_objs := insert (next_addr h) (heap_objs h), next_addr := Suc (next_addr h)\<rparr>"

named_theorems store_simps \<open>evaluation of the store operations\<close>

lemmas [store_simps] = load_def store_def store_sec_def store_nsec_def time_free_def
  utility_time_gc_def utility_time_gc_auto_def

lemma load_null [simp]: "load None h = None"
  by (simp add: load_def)

lemma load_Some [simp]: "load (Some a) h = cells h a"
  by (simp add: load_def)

lemma gc_auto_null [simp]: "utility_time_gc_auto None h = None"
  by (simp add: store_simps)

lemma bind_None_right [simp]: "Option.bind x (\<lambda>_. None) = None"
  by (cases x) auto

lemma gc_auto_eq:
  assumes "cells h a = Some u" "dyn_alloc u \<Longrightarrow> a \<in> heap_objs h"
  shows "utility_time_gc_auto (Some a) h = Some (collect a u h)"
  using assms by (simp add: store_simps collect_def auto_obj_def)

lemma store_okD:
  "store_ok h \<Longrightarrow> cells h a = Some u \<Longrightarrow> dyn_alloc u \<Longrightarrow> a \<in> heap_objs h"
  "store_ok h \<Longrightarrow> cells h a = Some u \<Longrightarrow> a < next_addr h"
  "store_ok h \<Longrightarrow> next_addr h \<le> a \<Longrightarrow> cells h a = None \<and> a \<notin> heap_objs h"
  by (simp_all add: store_ok_def) (metis not_le option.distinct(1))+

lemma store_ok_alloc [intro]: "store_ok h \<Longrightarrow> store_ok (alloc ts h)"
  by (auto simp: store_ok_def alloc_def less_Suc_eq)

lemma store_ok_collect [intro]: "store_ok h \<Longrightarrow> store_ok (collect a u h)"
  by (auto simp: store_ok_def collect_def)

lemma store_ok_skip [intro]: "store_ok h \<Longrightarrow> store_ok (h\<lparr>next_addr := Suc (next_addr h)\<rparr>)"
  by (auto simp: store_ok_def less_Suc_eq)

lemma fill_dyn_fails: "\<not> malloc_ok h (next_addr h) \<Longrightarrow>
   fill_dyn f h = Some (None, h\<lparr>next_addr := Suc (next_addr h)\<rparr>)"
  by (simp add: fill_dyn_def utility_time_make_dyn_def time_malloc_def Let_def)

lemma make_dyn_eq:
  "malloc_ok h (next_addr h) \<Longrightarrow>
   utility_time_make_dyn h = Some (Some (next_addr h), alloc \<lparr>tv_sec = 0, tv_nsec = 0\<rparr> h)"
  by (auto simp: utility_time_make_dyn_def time_malloc_def Let_def store_simps alloc_def
      dynobj_def utility_time_init_dyn_def utility_time_init_def intro!: time_store.equality)

lemma alloc_update: "(alloc ts h)\<lparr>cells := (cells (alloc ts h))(next_addr h \<mapsto> dynobj ts')\<rparr> = alloc ts' h"
  by (auto simp: alloc_def intro!: time_store.equality)

lemma fill_dyn_fills:
  assumes "malloc_ok h (next_addr h)"
    "\<And>h'. h' = alloc \<lparr>tv_sec = 0, tv_nsec = 0\<rparr> h \<Longrightarrow>
       f (Some (next_addr h)) h' = Some (h'\<lparr>cells := (cells h')(next_addr h \<mapsto> dynobj ts)\<rparr>)"
  shows "fill_dyn f h = Some (Some (next_addr h), alloc ts h)"
  using assms(1) assms(2) [OF refl] by (simp add: fill_dyn_def make_dyn_eq alloc_update)

lemma fill_dyn_stuck:
  assumes "malloc_ok h (next_addr h)" "\<And>q h'. f q h' = None"
  shows "fill_dyn f h = None"
  using assms by (simp add: fill_dyn_def utility_time_make_dyn_def time_malloc_def Let_def store_simps)

section \<open>Stores through pointers compute the operations on values\<close>

text \<open>Whichever of the three pointers are equal.\<close>

lemma add_p_eq:
  assumes "cells h x = Some a" "cells h y = Some b" "cells h r = Some c"
  shows "utility_time_add_p (Some x) (Some y) (Some r) h =
    Some (h\<lparr>cells := (cells h)(r \<mapsto> utility_time_add a b c)\<rparr>)"
  using assms by (auto simp: utility_time_add_p_def store_simps utility_time_add_def
    combined_ns_leftover_def)

lemma sub_p_eq:
  assumes "cells h x = Some a" "cells h y = Some b" "cells h r = Some c"
  shows "utility_time_sub_p (Some x) (Some y) (Some r) h =
    Some (h\<lparr>cells := (cells h)(r \<mapsto> utility_time_sub a b c)\<rparr>)"
  using assms by (auto simp: utility_time_sub_p_def store_simps utility_time_sub_def)

lemma mul_loop_p_eq: "cells h x = Some a \<Longrightarrow> mul_loop_p n (Some x) t h = Some (mul_loop n a t)"
  by (induction n arbitrary: t) auto

lemma mul_p_eq:
  assumes "cells h x = Some a" "cells h r = Some c"
  shows "utility_time_mul_p (Some x) n (Some r) h =
    Some (h\<lparr>cells := (cells h)(r \<mapsto> utility_time_mul a n c)\<rparr>)"
  using assms by (simp add: utility_time_mul_p_def mul_loop_p_eq store_simps utility_time_mul_def
    utility_time_to_utility_time_def)

lemma copy_p_eq:
  assumes "cells h x = Some a" "cells h r = Some c"
  shows "utility_time_to_utility_time_p (Some x) (Some r) h =
    Some (h\<lparr>cells := (cells h)(r \<mapsto> utility_time_to_utility_time a c)\<rparr>)"
  using assms by (auto simp: utility_time_to_utility_time_p_def store_simps utility_time_to_utility_time_def)

section \<open>Operands and temporaries\<close>

text \<open>
  \<open>temp h p ts n h'\<close>: from the store \<open>h\<close>, the pointer \<open>p\<close> to an object of value \<open>ts\<close> was obtained,
  either an object of \<open>h\<close> the caller keeps, or one new collectable object, and \<open>h'\<close> has no other
  change but the count \<open>n\<close> of allocations.
\<close>

definition temp :: "time_store \<Rightarrow> time_ptr \<Rightarrow> timespec \<Rightarrow> nat \<Rightarrow> time_store \<Rightarrow> bool" where
  "temp h p ts n h' \<longleftrightarrow> next_addr h \<le> n \<and> (case p of None \<Rightarrow> False | Some a \<Rightarrow>
     (\<exists>u. cells h a = Some u \<and> \<not> auto_obj u \<and> ut_t u = ts \<and> h' = h\<lparr>next_addr := n\<rparr>) \<or>
     (next_addr h \<le> a \<and> a < n \<and>
      h' = h\<lparr>cells := (cells h)(a \<mapsto> dynobj ts), heap_objs := insert a (heap_objs h), next_addr := n\<rparr>))"

lemma auto_dynobj [simp]: "auto_obj (dynobj ts)" "ut_t (dynobj ts) = ts"
  by (simp_all add: auto_obj_def dynobj_def)

lemma store_ok_next [intro]: "store_ok h \<Longrightarrow> next_addr h \<le> n \<Longrightarrow> store_ok (h\<lparr>next_addr := n\<rparr>)"
  by (auto simp: store_ok_def)

lemma temp_store_ok: "temp h p ts n h' \<Longrightarrow> store_ok h \<Longrightarrow> store_ok h'"
  by (fastforce simp: temp_def store_ok_def dynobj_def split: option.splits if_splits)

lemma temp_frame:
  assumes "temp h p ts n h'" "store_ok h"
  shows "next_addr h' = n" "malloc_ok h' = malloc_ok h" "cells h \<subseteq>\<^sub>m cells h'" "next_addr h \<le> n"
  using assms store_okD(3) [OF assms(2)] by (auto simp: temp_def map_le_def split: option.splits)

lemma temp_value:
  assumes "temp h p ts n h'"
  obtains a u where "p = Some a" "cells h' a = Some u" "ut_t u = ts" "auto_obj u \<longrightarrow> next_addr h \<le> a"
  using assms by (cases p) (auto simp: temp_def)

lemma collect_temp:
  assumes "temp h (Some a) ts n h'" "store_ok h" "cells h' a = Some u"
  shows "collect a u h' = h\<lparr>next_addr := n\<rparr>"
proof -
  from assms(1) consider
      (kept) v where "cells h a = Some v" "\<not> auto_obj v" "h' = h\<lparr>next_addr := n\<rparr>"
    | (fresh) "next_addr h \<le> a" "h' = h\<lparr>cells := (cells h)(a \<mapsto> dynobj ts),
        heap_objs := insert a (heap_objs h), next_addr := n\<rparr>"
    by (auto simp: temp_def)
  then show ?thesis
  proof cases
    case kept
    then show ?thesis using assms(3) by (simp add: collect_def)
  next
    case fresh
    then have "heap_objs h - {a} = heap_objs h" "(cells h)(a := None) = cells h"
      using store_okD(3) [OF assms(2)] by auto
    moreover from fresh assms(3) have "u = dynobj ts" by simp
    ultimately show ?thesis using fresh by (simp add: collect_def)
  qed
qed

lemma collect_commute: "collect y w (collect x u h) = collect x u (collect y w h)"
  by (rule time_store.equality) (auto simp: collect_def fun_eq_iff)

lemma collect_alloc: "x \<noteq> next_addr h \<Longrightarrow> collect x u (alloc v h) = alloc v (collect x u h)"
  by (auto simp: collect_def alloc_def intro!: time_store.equality)

lemma collect_next: "collect x u (h\<lparr>next_addr := n\<rparr>) = (collect x u h)\<lparr>next_addr := n\<rparr>"
  by (auto simp: collect_def)

lemma collect_props [simp]:
  "next_addr (collect x u h) = next_addr h"
  "x \<noteq> y \<or> \<not> auto_obj u \<Longrightarrow> cells (collect x u h) y = cells h y"
  by (auto simp: collect_def)

lemma gc_both:
  assumes "store_ok h" "cells h x = Some u" "cells h y = Some w" "x \<noteq> y \<or> \<not> auto_obj u"
  shows "utility_time_gc_auto (Some x) h = Some (collect x u h)"
    and "utility_time_gc_auto (Some y) (collect x u h) = Some (collect y w (collect x u h))"
proof -
  show "utility_time_gc_auto (Some x) h = Some (collect x u h)"
    by (rule gc_auto_eq [OF assms(2)]) (rule store_okD(1) [OF assms(1,2)])
  have "cells (collect x u h) y = Some w" using assms by simp
  then show "utility_time_gc_auto (Some y) (collect x u h) = Some (collect y w (collect x u h))"
    using store_okD(1) [OF store_ok_collect [OF assms(1)]] by (blast intro: gc_auto_eq)
qed

lemma two_temps_collected:
  assumes "store_ok h" "temp h (Some x) v1 n1 h1" "temp h1 (Some y) v2 n2 h2"
    "cells h1 x = Some u" "cells h2 y = Some w"
  shows "collect y w (collect x u h2) = h\<lparr>next_addr := n2\<rparr>"
  using assms temp_store_ok [OF assms(2,1)]
  by (simp add: collect_commute [of y w x] collect_temp collect_next)

text \<open>What every \<^verbatim>\<open>_dyn_gc\<close> operation of two operands is built from.\<close>

definition time_op :: "(utility_time \<Rightarrow> utility_time \<Rightarrow> utility_time \<Rightarrow> utility_time) \<Rightarrow>
    timespec \<Rightarrow> timespec \<Rightarrow> timespec" where
  "time_op f x y = ut_t (f (dynobj x) (dynobj y) utility_time_init)"

locale time_binop =
  fixes op_p :: "time_ptr \<Rightarrow> time_ptr \<Rightarrow> time_ptr \<Rightarrow> time_store \<Rightarrow> time_store option"
    and opv :: "utility_time \<Rightarrow> utility_time \<Rightarrow> utility_time \<Rightarrow> utility_time"
    and dyn_gc :: "time_ptr \<Rightarrow> time_ptr \<Rightarrow> time_store \<Rightarrow> (time_ptr \<times> time_store) option"
  assumes op_p: "cells h x = Some a \<Longrightarrow> cells h y = Some b \<Longrightarrow> cells h r = Some c \<Longrightarrow>
      op_p (Some x) (Some y) (Some r) h = Some (h\<lparr>cells := (cells h)(r \<mapsto> opv a b c)\<rparr>)"
    and op_null: "op_p None q res h = None" "op_p p None res h = None"
    and opv_t: "opv a b c = c\<lparr>ut_t := time_op opv (ut_t a) (ut_t b)\<rparr>"
    and dyn_gc: "dyn_gc p q h = do {
      (res, h1) \<leftarrow> fill_dyn (op_p p q) h;
      h2 \<leftarrow> utility_time_gc_auto p h1; h3 \<leftarrow> utility_time_gc_auto q h2; Some (res, h3) }"
begin

lemma dyn_gc_null: "dyn_gc None q h = None" "dyn_gc p None h = None"
  by (cases "malloc_ok h (next_addr h)"; simp add: dyn_gc fill_dyn_fails fill_dyn_stuck op_null)+

lemma fill:
  assumes "cells h x = Some a" "cells h y = Some b" "store_ok h" "malloc_ok h (next_addr h)"
  shows "fill_dyn (op_p (Some x) (Some y)) h =
    Some (Some (next_addr h), alloc (time_op opv (ut_t a) (ut_t b)) h)"
proof (rule fill_dyn_fills [OF assms(4)])
  fix h' assume h': "h' = alloc \<lparr>tv_sec = 0, tv_nsec = 0\<rparr> h"
  let ?c = "dynobj \<lparr>tv_sec = 0, tv_nsec = 0\<rparr>"
  have "cells h' x = Some a" "cells h' y = Some b" "cells h' (next_addr h) = Some ?c"
    using assms store_okD(2) by (fastforce simp: h' alloc_def)+
  from op_p [OF this] show "op_p (Some x) (Some y) (Some (next_addr h)) h' =
    Some (h'\<lparr>cells := (cells h')(next_addr h \<mapsto> dynobj (time_op opv (ut_t a) (ut_t b)))\<rparr>)"
    by (simp add: opv_t [of a b ?c]) (simp add: dynobj_def)
qed

text \<open>Two live objects, the operands in any order of allocation.\<close>

lemma dyn_gc_live:
  assumes ok: "store_ok h" and c: "cells h x = Some u" "cells h y = Some w" "x \<noteq> y \<or> \<not> auto_obj u"
    and m: "malloc_ok h (next_addr h)"
  shows "dyn_gc (Some x) (Some y) h = Some (Some (next_addr h),
    collect y w (collect x u (alloc (time_op opv (ut_t u) (ut_t w)) h)))"
proof -
  let ?h = "alloc (time_op opv (ut_t u) (ut_t w)) h"
  have "cells ?h x = Some u" "cells ?h y = Some w"
    using store_okD(2) [OF ok] c by (fastforce simp: alloc_def)+
  note gc = gc_both [OF store_ok_alloc [OF ok] this c(3)]
  show ?thesis using fill [OF c(1,2) ok m] gc by (simp add: dyn_gc)
qed

lemma dyn_gc_ok:
  assumes ok: "store_ok h" and t1: "temp h p v1 n1 h1" and t2: "temp h1 q v2 n2 h2"
    and m: "malloc_ok h n2"
  shows "\<exists>h3. dyn_gc p q h2 = Some (Some n2, h3) \<and> temp h (Some n2) (time_op opv v1 v2) (Suc n2) h3"
proof -
  have ok1: "store_ok h1" and ok2: "store_ok h2"
    using temp_store_ok [OF t1 ok] temp_store_ok [OF t2] by simp_all
  note f1 = temp_frame [OF t1 ok] and f2 = temp_frame [OF t2 ok1]
  obtain x u where x: "p = Some x" "cells h1 x = Some u" "ut_t u = v1" using temp_value [OF t1] .
  obtain y w where y: "q = Some y" "cells h2 y = Some w" "ut_t w = v2" "auto_obj w \<longrightarrow> next_addr h1 \<le> y"
    using temp_value [OF t2] .
  have x2: "cells h2 x = Some u" using f2(3) x(2) by (force simp: map_le_def)
  let ?h3 = "alloc (time_op opv v1 v2) h2"
  have "malloc_ok h2 (next_addr h2)" using m f1 f2 by simp
  from fill [OF x2 y(2) ok2 this] have r: "fill_dyn (op_p p q) h2 = Some (Some n2, ?h3)"
    using x y f2 by simp
  have xn: "x < n2" "y < n2" using store_okD(2) [OF ok2] x2 y(2) f2 by auto
  have alive: "cells ?h3 x = Some u" "cells ?h3 y = Some w"
    using x2 y(2) xn f2(1) by (auto simp: alloc_def)
  have "x < next_addr h1" using store_okD(2) [OF ok1 x(2)] .
  then have "x \<noteq> y \<or> \<not> auto_obj u" using y(2,4) x2 by auto
  note gc = gc_both [OF store_ok_alloc [OF ok2] alive this]
  have "collect y w (collect x u ?h3) = alloc (time_op opv v1 v2) (h\<lparr>next_addr := n2\<rparr>)"
    using xn f2(1) two_temps_collected [OF ok] t1 t2 x y by (simp add: collect_alloc)
  then have "dyn_gc p q h2 = Some (Some n2, alloc (time_op opv v1 v2) (h\<lparr>next_addr := n2\<rparr>))"
    using r gc by (simp add: dyn_gc x(1) y(1))
  moreover have "temp h (Some n2) (time_op opv v1 v2) (Suc n2) (alloc (time_op opv v1 v2) (h\<lparr>next_addr := n2\<rparr>))"
    using f1 f2 by (simp add: temp_def alloc_def)
  ultimately show ?thesis by blast
qed

lemma dyn_gc_oom:
  assumes ok: "store_ok h" and t1: "temp h p v1 n1 h1" and t2: "temp h1 q v2 n2 h2"
    and m: "\<not> malloc_ok h n2"
  shows "dyn_gc p q h2 = Some (None, h\<lparr>next_addr := Suc n2\<rparr>)"
proof -
  have ok1: "store_ok h1" and ok2: "store_ok h2"
    using temp_store_ok [OF t1 ok] temp_store_ok [OF t2] by simp_all
  note f1 = temp_frame [OF t1 ok] and f2 = temp_frame [OF t2 ok1]
  obtain x u where x: "p = Some x" "cells h1 x = Some u" "ut_t u = v1" using temp_value [OF t1] .
  obtain y w where y: "q = Some y" "cells h2 y = Some w" "ut_t w = v2" "auto_obj w \<longrightarrow> next_addr h1 \<le> y"
    using temp_value [OF t2] .
  have x2: "cells h2 x = Some u" using f2(3) x(2) by (force simp: map_le_def)
  let ?h3 = "h2\<lparr>next_addr := Suc n2\<rparr>"
  have r: "fill_dyn (op_p p q) h2 = Some (None, ?h3)" using m f1 f2 by (simp add: fill_dyn_fails)
  have ok3: "store_ok ?h3" using ok2 f2 by auto
  have alive: "cells ?h3 x = Some u" "cells ?h3 y = Some w" using x2 y(2) by auto
  have "x < next_addr h1" using store_okD(2) [OF ok1 x(2)] .
  then have "x \<noteq> y \<or> \<not> auto_obj u" using y(2,4) x2 by auto
  note gc = gc_both [OF ok3 alive this]
  have "collect y w (collect x u ?h3) = h\<lparr>next_addr := Suc n2\<rparr>"
    using two_temps_collected [OF ok] t1 t2 x y by (simp add: collect_next)
  then show ?thesis using r gc by (simp add: dyn_gc x(1) y(1))
qed

end

lemma op_p_null:
  "utility_time_add_p None q r h = None" "utility_time_add_p p None r h = None"
  "utility_time_sub_p None q r h = None" "utility_time_sub_p p None r h = None"
  by (simp_all add: utility_time_add_p_def utility_time_sub_p_def)

interpretation add: time_binop utility_time_add_p utility_time_add utility_time_add_dyn_gc
proof
  show "utility_time_add a b c = c\<lparr>ut_t := time_op utility_time_add (ut_t a) (ut_t b)\<rparr>" for a b c
    by (simp add: utility_time_add_def time_op_def combined_ns_in_s_def combined_ns_leftover_def set_t_def)
qed (simp_all add: add_p_eq utility_time_add_dyn_gc_def utility_time_add_dyn_def op_p_null)

interpretation sub: time_binop utility_time_sub_p utility_time_sub utility_time_sub_dyn_gc
proof
  show "utility_time_sub a b c = c\<lparr>ut_t := time_op utility_time_sub (ut_t a) (ut_t b)\<rparr>" for a b c
    by (simp add: utility_time_sub_def time_op_def utility_time_zero_t_def set_t_def
        utility_time_le_def utility_time_lt_def utility_time_eq_def)
qed (simp_all add: sub_p_eq utility_time_sub_dyn_gc_def utility_time_sub_dyn_def op_p_null)

text \<open>The operation of one operand follows the same pattern.\<close>

definition mul_t :: "timespec \<Rightarrow> u32 \<Rightarrow> timespec" where
  "mul_t x n = ut_t (utility_time_mul (dynobj x) n utility_time_init)"

lemma inc_t: "ut_t s = ut_t t \<Longrightarrow> ut_t a = ut_t b \<Longrightarrow> ut_t (utility_time_inc s a) = ut_t (utility_time_inc t b)"
  by (simp only: utility_time_inc_def utility_time_add_def combined_ns_in_s_def combined_ns_leftover_def set_t_simps)

lemma mul_loop_t: "ut_t s = ut_t t \<Longrightarrow> ut_t a = ut_t b \<Longrightarrow> ut_t (mul_loop n a s) = ut_t (mul_loop n b t)"
proof (induction n arbitrary: s t)
  case (Suc n)
  show ?case unfolding mul_loop.simps by (rule Suc.IH [OF inc_t [OF Suc.prems] Suc.prems(2)])
qed simp

lemma mul_value: "utility_time_mul a n c = c\<lparr>ut_t := mul_t (ut_t a) n\<rparr>"
  using mul_loop_t [of "to_utility_time 0 Unit_s utility_time_init" "to_utility_time 0 Unit_s utility_time_init" a "dynobj (ut_t a)"]
  by (simp add: utility_time_mul_def mul_t_def utility_time_to_utility_time_def set_t_def)

lemma mul_p_null: "n \<noteq> 0 \<Longrightarrow> utility_time_mul_p None n r h = None"
  by (cases "unat n") (auto simp: utility_time_mul_p_def unat_eq_0)

lemma mul_dyn_gc_null: "utility_time_mul_dyn_gc None n h = None"
  by (cases "fill_dyn (utility_time_mul_p None n) h")
    (auto simp: utility_time_mul_dyn_gc_def utility_time_mul_dyn_def)

lemma mul_dyn_gc_eq:
  assumes ok: "store_ok h" and t: "temp h p v k h1"
  shows "malloc_ok h k \<Longrightarrow> utility_time_mul_dyn_gc p n h1 =
      Some (Some k, alloc (mul_t v n) (h\<lparr>next_addr := k\<rparr>))" (is "?m \<Longrightarrow> ?good")
    and "\<not> malloc_ok h k \<Longrightarrow> utility_time_mul_dyn_gc p n h1 = Some (None, h\<lparr>next_addr := Suc k\<rparr>)"
proof -
  have ok1: "store_ok h1" using temp_store_ok [OF t ok] .
  note f = temp_frame [OF t ok]
  obtain x u where x: "p = Some x" "cells h1 x = Some u" "ut_t u = v" using temp_value [OF t] .
  have coll: "collect x u h1 = h\<lparr>next_addr := k\<rparr>" using collect_temp t ok x by simp
  have xk: "x < k" using store_okD(2) [OF ok1 x(2)] f by simp
  show ?good if ?m
  proof -
    have "fill_dyn (utility_time_mul_p p n) h1 = Some (Some k, alloc (mul_t v n) h1)"
      using f that xk x mul_p_eq [of _ x u k]
      by (subst fill_dyn_fills [where ts = "mul_t v n"]) (auto simp: alloc_def mul_value dynobj_def)
    moreover have "utility_time_gc_auto (Some x) (alloc (mul_t v n) h1) = Some (collect x u (alloc (mul_t v n) h1))"
    proof (rule gc_auto_eq)
      show a: "cells (alloc (mul_t v n) h1) x = Some u" using x(2) xk f by (simp add: alloc_def)
      show "dyn_alloc u \<Longrightarrow> x \<in> heap_objs (alloc (mul_t v n) h1)"
        using store_okD(1) [OF store_ok_alloc [OF ok1] a] .
    qed
    ultimately show ?thesis using x xk f coll
      by (simp add: utility_time_mul_dyn_gc_def utility_time_mul_dyn_def collect_alloc)
  qed
  show "utility_time_mul_dyn_gc p n h1 = Some (None, h\<lparr>next_addr := Suc k\<rparr>)" if "\<not> malloc_ok h k"
  proof -
    have "fill_dyn (utility_time_mul_p p n) h1 = Some (None, h1\<lparr>next_addr := Suc k\<rparr>)"
      using f that by (simp add: fill_dyn_fails)
    moreover have "utility_time_gc_auto (Some x) (h1\<lparr>next_addr := Suc k\<rparr>) =
      Some (collect x u (h1\<lparr>next_addr := Suc k\<rparr>))"
      using x(2) store_okD(1) [OF ok1] by (intro gc_auto_eq) auto
    ultimately show ?thesis using x coll
      by (simp add: utility_time_mul_dyn_gc_def utility_time_mul_dyn_def collect_next)
  qed
qed

section \<open>Nested expressions\<close>

text \<open>
  The style of use the header documents: the result of one \<^verbatim>\<open>_dyn\<close> function is an operand of the
  next, which collects it. \<open>Kept\<close> is an operand the caller keeps: an object on the stack, or one
  under manual collection.
\<close>

datatype time_expr =
    Kept nat
  | Of_timespec timespec
  | Of_units u64 time_unit
  | Of_string string
  | Copy_of nat
  | Sum time_expr time_expr
  | Diff time_expr time_expr
  | Scaled time_expr u32

fun eval :: "time_expr \<Rightarrow> time_store \<Rightarrow> (time_ptr \<times> time_store) option" where
  "eval (Kept a) h = Some (Some a, h)"
| "eval (Of_timespec ts) h = timespec_to_utility_time_dyn ts h"
| "eval (Of_units t unit) h = to_utility_time_dyn t unit h"
| "eval (Of_string s) h = string_to_utility_time_dyn s h"
| "eval (Copy_of a) h = utility_time_to_utility_time_dyn (Some a) h"
| "eval (Sum e1 e2) h =
     do { (p, h1) \<leftarrow> eval e1 h; (q, h2) \<leftarrow> eval e2 h1; utility_time_add_dyn_gc p q h2 }"
| "eval (Diff e1 e2) h =
     do { (p, h1) \<leftarrow> eval e1 h; (q, h2) \<leftarrow> eval e2 h1; utility_time_sub_dyn_gc p q h2 }"
| "eval (Scaled e n) h = do { (p, h1) \<leftarrow> eval e h; utility_time_mul_dyn_gc p n h1 }"

text \<open>What the expression means, how often it allocates, and which objects it needs.\<close>

fun expr_value :: "(nat \<rightharpoonup> utility_time) \<Rightarrow> time_expr \<Rightarrow> timespec" where
  "expr_value c (Kept a) = ut_t (the (c a))"
| "expr_value c (Of_timespec ts) = ts"
| "expr_value c (Of_units t unit) = ut_t (to_utility_time t unit utility_time_init)"
| "expr_value c (Of_string s) = ut_t (fst (string_to_utility_time s utility_time_init))"
| "expr_value c (Copy_of a) = ut_t (the (c a))"
| "expr_value c (Sum e1 e2) = time_op utility_time_add (expr_value c e1) (expr_value c e2)"
| "expr_value c (Diff e1 e2) = time_op utility_time_sub (expr_value c e1) (expr_value c e2)"
| "expr_value c (Scaled e n) = mul_t (expr_value c e) n"

fun mallocs :: "time_expr \<Rightarrow> nat" where
  "mallocs (Kept a) = 0"
| "mallocs (Of_timespec ts) = 1"
| "mallocs (Of_units t unit) = 1"
| "mallocs (Of_string s) = 1"
| "mallocs (Copy_of a) = 1"
| "mallocs (Sum e1 e2) = mallocs e1 + mallocs e2 + 1"
| "mallocs (Diff e1 e2) = mallocs e1 + mallocs e2 + 1"
| "mallocs (Scaled e n) = mallocs e + 1"

fun needs_ok :: "(nat \<rightharpoonup> utility_time) \<Rightarrow> time_expr \<Rightarrow> bool" where
  "needs_ok c (Kept a) \<longleftrightarrow> (case c a of None \<Rightarrow> False | Some u \<Rightarrow> \<not> auto_obj u)"
| "needs_ok c (Copy_of a) \<longleftrightarrow> c a \<noteq> None"
| "needs_ok c (Sum e1 e2) \<longleftrightarrow> needs_ok c e1 \<and> needs_ok c e2"
| "needs_ok c (Diff e1 e2) \<longleftrightarrow> needs_ok c e1 \<and> needs_ok c e2"
| "needs_ok c (Scaled e n) \<longleftrightarrow> needs_ok c e"
| "needs_ok c e \<longleftrightarrow> True"

lemma needs_mono:
  assumes "c \<subseteq>\<^sub>m c'" "needs_ok c e"
  shows "needs_ok c' e \<and> expr_value c' e = expr_value c e"
proof -
  have "c' a = Some u" if "c a = Some u" for a u using assms(1) that by (force simp: map_le_def)
  then show ?thesis using assms(2)
    by (induction c e rule: needs_ok.induct) (auto split: option.splits)
qed

lemma string_time_keeps:
  "fst (string_to_utility_time s u) = u\<lparr>ut_t := ut_t (fst (string_to_utility_time s v))\<rparr>"
  by (auto simp: string_to_utility_time_def Let_def set_t_def split: prod.splits)

lemma to_utility_time_keeps: "to_utility_time t k u = u\<lparr>ut_t := ut_t (to_utility_time t k v)\<rparr>"
  by (cases k) (simp_all add: set_t_def)

text \<open>One object made from scratch.\<close>

fun leaf :: "time_expr \<Rightarrow> bool" where
  "leaf (Kept a) = False" | "leaf (Sum e1 e2) = False" | "leaf (Diff e1 e2) = False"
| "leaf (Scaled e n) = False" | "leaf e = True"

lemma cells_alloc: "cells (alloc ts h) (next_addr h) = Some (dynobj ts)"
  "a < next_addr h \<Longrightarrow> cells (alloc ts h) a = cells h a"
  by (simp_all add: alloc_def)

lemma timespec_eta [simp]: "\<lparr>tv_sec = tv_sec ts, tv_nsec = tv_nsec ts\<rparr> = (ts :: timespec)"
  by simp

lemma set_t_dynobj: "set_t (dynobj x) a b = dynobj \<lparr>tv_sec = a, tv_nsec = b\<rparr>"
  by (simp add: set_t_def dynobj_def)

lemma t_dynobj: "(dynobj x)\<lparr>ut_t := y\<rparr> = dynobj y"
  by (simp add: dynobj_def)

lemma eval_leaf:
  assumes "store_ok h" "needs_ok (cells h) e" "leaf e"
  shows "eval e h = Some (if malloc_ok h (next_addr h)
    then (Some (next_addr h), alloc (expr_value (cells h) e) h)
    else (None, h\<lparr>next_addr := Suc (next_addr h)\<rparr>))"
proof (cases "malloc_ok h (next_addr h)")
  case False
  then show ?thesis using assms(3)
    by (cases e) (simp_all add: fill_dyn_fails to_utility_time_dyn_def timespec_to_utility_time_dyn_def
      string_to_utility_time_dyn_def utility_time_to_utility_time_dyn_def)
next
  case True
  note fill = fill_dyn_fills [OF True] and st = store_simps cells_alloc set_t_dynobj
  show ?thesis
  proof (cases e)
    case (Of_timespec ts)
    have "fill_dyn (timespec_to_utility_time_p ts) h = Some (Some (next_addr h), alloc ts h)"
      by (rule fill) (simp add: timespec_to_utility_time_p_def st)
    then show ?thesis using True Of_timespec by (simp add: timespec_to_utility_time_dyn_def)
  next
    case (Of_units t k)
    have "fill_dyn (to_utility_time_p t k) h = Some (Some (next_addr h), alloc (ut_t (to_utility_time t k utility_time_init)) h)"
      by (rule fill) (simp add: to_utility_time_p_def st
        to_utility_time_keeps [of t k "dynobj _" utility_time_init] t_dynobj)
    then show ?thesis using True Of_units by (simp add: to_utility_time_dyn_def)
  next
    case (Of_string s)
    have "fill_dyn (string_to_utility_time_p s) h =
      Some (Some (next_addr h), alloc (ut_t (fst (string_to_utility_time s utility_time_init))) h)"
      by (rule fill) (simp add: string_to_utility_time_p_def st
        string_time_keeps [of s "dynobj _" utility_time_init] t_dynobj)
    then show ?thesis using True Of_string by (simp add: string_to_utility_time_dyn_def)
  next
    case (Copy_of a)
    then obtain u where u: "cells h a = Some u" "a < next_addr h"
      using assms(1,2) store_okD(2) by fastforce
    have "fill_dyn (utility_time_to_utility_time_p (Some a)) h = Some (Some (next_addr h), alloc (ut_t u) h)"
    proof (rule fill)
      fix h' assume h': "h' = alloc \<lparr>tv_sec = 0, tv_nsec = 0\<rparr> h"
      have "cells h' a = Some u" "cells h' (next_addr h) = Some (dynobj \<lparr>tv_sec = 0, tv_nsec = 0\<rparr>)"
        using u by (simp_all add: h' cells_alloc)
      from copy_p_eq [OF this] show "utility_time_to_utility_time_p (Some a) (Some (next_addr h)) h' =
          Some (h'\<lparr>cells := (cells h')(next_addr h \<mapsto> dynobj (ut_t u))\<rparr>)"
        by (simp add: utility_time_to_utility_time_def set_t_dynobj)
    qed
    then show ?thesis using True u Copy_of by (simp add: utility_time_to_utility_time_dyn_def)
  qed (use assms in auto)
qed

text \<open>
  The three ways an evaluation can go, by the outcome of its allocations: all succeed, only the
  outermost one fails, an inner one fails.
\<close>

definition all_ok :: "time_store \<Rightarrow> nat \<Rightarrow> bool" where
  "all_ok h k \<longleftrightarrow> (\<forall>i < k. malloc_ok h (next_addr h + i))"

lemma all_ok_Suc: "all_ok h (Suc k) \<longleftrightarrow> all_ok h k \<and> malloc_ok h (next_addr h + k)"
  by (auto simp: all_ok_def less_Suc_eq)

lemma all_ok_cong: "malloc_ok h' = malloc_ok h \<Longrightarrow> next_addr h' = next_addr h + j \<Longrightarrow>
   all_ok h j \<Longrightarrow> all_ok h' k \<longleftrightarrow> all_ok h (j + k)"
  by (induction k) (simp_all add: all_ok_Suc add.assoc, simp add: all_ok_def)

definition eval_spec :: "time_expr \<Rightarrow> time_store \<Rightarrow> bool" where
  "eval_spec e h \<longleftrightarrow>
    (if all_ok h (mallocs e)
     then \<exists>p h'. eval e h = Some (p, h') \<and>
            temp h p (expr_value (cells h) e) (next_addr h + mallocs e) h' \<and>
            (mallocs e = 0 \<or> p = Some (next_addr h + mallocs e - 1))
     else if all_ok h (mallocs e - 1) then eval e h = Some (None, h\<lparr>next_addr := next_addr h + mallocs e\<rparr>)
     else eval e h = None)"

lemma eval_spec_leaf:
  assumes "store_ok h" "needs_ok (cells h) e" "leaf e" shows "eval_spec e h"
proof -
  have "mallocs e = Suc 0" using assms(3) by (cases e) auto
  then show ?thesis using eval_leaf [OF assms]
    by (auto simp: eval_spec_def all_ok_def temp_def alloc_def)
qed

text \<open>Two operands, evaluated one after the other.\<close>

lemma eval_two:
  assumes ok: "store_ok h" and n: "needs_ok (cells h) e1" "needs_ok (cells h) e2"
    and s1: "eval_spec e1 h"
    and s2: "\<And>h1. store_ok h1 \<Longrightarrow> needs_ok (cells h1) e2 \<Longrightarrow> eval_spec e2 h1"
    and null: "\<And>q h'. f None q h' = None" "\<And>p h'. f p None h' = None"
  shows "if all_ok h (mallocs e1 + mallocs e2)
    then \<exists>p q h1 h2. do { (p, h1) \<leftarrow> eval e1 h; (q, h2) \<leftarrow> eval e2 h1; f p q h2 } = f p q h2 \<and>
      temp h p (expr_value (cells h) e1) (next_addr h + mallocs e1) h1 \<and>
      temp h1 q (expr_value (cells h) e2) (next_addr h + mallocs e1 + mallocs e2) h2
    else do { (p, h1) \<leftarrow> eval e1 h; (q, h2) \<leftarrow> eval e2 h1; f p q h2 } = None"
proof (cases "all_ok h (mallocs e1)")
  case False
  then have "\<not> all_ok h (mallocs e1 + mallocs e2)" unfolding all_ok_def using trans_less_add1 by blast
  then show ?thesis using s1 False null by (auto simp: eval_spec_def split_def split: if_splits)
next
  case True
  then obtain p h1 where e1: "eval e1 h = Some (p, h1)"
      "temp h p (expr_value (cells h) e1) (next_addr h + mallocs e1) h1"
    using s1 by (auto simp: eval_spec_def)
  note f1 = temp_frame [OF e1(2) ok]
  note need = needs_mono [OF f1(3) n(2)]
  have "eval_spec e2 h1" using s2 [OF temp_store_ok [OF e1(2) ok]] need by simp
  moreover have "all_ok h1 (mallocs e2) = all_ok h (mallocs e1 + mallocs e2)"
    by (rule all_ok_cong [OF f1(2,1) True])
  ultimately show ?thesis using e1 need f1(1) null
    by (auto simp: eval_spec_def split_def split: if_splits; blast)
qed

lemma eval_spec_binop:
  assumes "time_binop op_p opv dyn_gc" and ok: "store_ok h"
    and n: "needs_ok (cells h) e1" "needs_ok (cells h) e2"
    and s1: "eval_spec e1 h"
    and s2: "\<And>h1. store_ok h1 \<Longrightarrow> needs_ok (cells h1) e2 \<Longrightarrow> eval_spec e2 h1"
    and e: "mallocs e = mallocs e1 + mallocs e2 + 1"
      "expr_value (cells h) e = time_op opv (expr_value (cells h) e1) (expr_value (cells h) e2)"
      "eval e h = do { (p, h1) \<leftarrow> eval e1 h; (q, h2) \<leftarrow> eval e2 h1; dyn_gc p q h2 }"
  shows "eval_spec e h"
proof -
  note op = time_binop.dyn_gc_null [OF assms(1)] time_binop.dyn_gc_ok [OF assms(1) ok]
    time_binop.dyn_gc_oom [OF assms(1) ok]
  let ?k = "mallocs e1 + mallocs e2"
  note two = eval_two [of h e1 e2 dyn_gc, OF ok n s1 s2 op(1,2)]
  show ?thesis
  proof (cases "all_ok h ?k")
    case False
    then show ?thesis using two e by (simp add: eval_spec_def all_ok_Suc)
  next
    case True
    then obtain p q h1 h2 where ev: "eval e h = dyn_gc p q h2"
      and t: "temp h p (expr_value (cells h) e1) (next_addr h + mallocs e1) h1"
        "temp h1 q (expr_value (cells h) e2) (next_addr h + ?k) h2"
      using two e by (auto simp: add.assoc)
    show ?thesis
      using True ev e op(3) [OF t] op(4) [OF t]
      by (cases "malloc_ok h (next_addr h + ?k)") (auto simp: eval_spec_def all_ok_Suc)
  qed
qed

lemma eval_meets_spec: "store_ok h \<Longrightarrow> needs_ok (cells h) e \<Longrightarrow> eval_spec e h"
proof (induction e arbitrary: h)
  case (Kept a)
  then show ?case by (auto simp: eval_spec_def all_ok_def temp_def split: option.splits)
next
  case (Sum e1 e2)
  show ?case by (rule eval_spec_binop [OF add.time_binop_axioms, of h e1 e2]) (use Sum in simp_all)
next
  case (Diff e1 e2)
  show ?case by (rule eval_spec_binop [OF sub.time_binop_axioms, of h e1 e2]) (use Diff in simp_all)
next
  case (Scaled e n)
  have s: "eval_spec e h" using Scaled by simp
  show ?case
  proof (cases "all_ok h (mallocs e)")
    case False
    then show ?thesis using s by (auto simp: eval_spec_def all_ok_Suc mul_dyn_gc_null split: if_splits)
  next
    case True
    then obtain p h1 where e1: "eval e h = Some (p, h1)"
        "temp h p (expr_value (cells h) e) (next_addr h + mallocs e) h1"
      using s by (auto simp: eval_spec_def)
    show ?thesis using True e1(1) mul_dyn_gc_eq [OF Scaled.prems(1) e1(2)]
      by (cases "malloc_ok h (next_addr h + mallocs e)")
        (auto simp: eval_spec_def all_ok_Suc temp_def alloc_def)
  qed
qed (simp_all add: eval_spec_leaf)

text \<open>A complete evaluation makes exactly one new object.\<close>

lemma eval_new:
  assumes "store_ok h" "needs_ok (cells h) e" "all_ok h (mallocs e)" "mallocs e \<noteq> 0"
  obtains a h' where "eval e h = Some (Some a, h')" "a \<notin> heap_objs h" "cells h a = None"
    "cells h' = (cells h)(a \<mapsto> dynobj (expr_value (cells h) e))" "heap_objs h' = insert a (heap_objs h)"
proof -
  let ?a = "next_addr h + mallocs e - 1"
  obtain h' where ev: "eval e h = Some (Some ?a, h')"
      and t: "temp h (Some ?a) (expr_value (cells h) e) (next_addr h + mallocs e) h'"
    using eval_meets_spec [OF assms(1,2)] assms(3,4) by (auto simp: eval_spec_def)
  have "next_addr h \<le> ?a" using assms(4) by simp
  then have n: "cells h ?a = None" "?a \<notin> heap_objs h" using store_okD(3) [OF assms(1)] by blast+
  with t have "h' = h\<lparr>cells := (cells h)(?a \<mapsto> dynobj (expr_value (cells h) e)),
      heap_objs := insert ?a (heap_objs h), next_addr := next_addr h + mallocs e\<rparr>"
    by (simp add: temp_def)
  then show ?thesis using n ev by (intro that [of ?a h']) simp_all
qed

section \<open>The arithmetic an expression denotes\<close>

fun expr_ns :: "(nat \<rightharpoonup> utility_time) \<Rightarrow> time_expr \<Rightarrow> int" where
  "expr_ns c (Kept a) = ns_of (the (c a))"
| "expr_ns c (Of_timespec ts) = ns_of (dynobj ts)"
| "expr_ns c (Of_units t unit) = uint t * unit_ns unit"
| "expr_ns c (Of_string s) = ns_of (fst (string_to_utility_time s utility_time_init))"
| "expr_ns c (Copy_of a) = ns_of (the (c a))"
| "expr_ns c (Sum e1 e2) = expr_ns c e1 + expr_ns c e2"
| "expr_ns c (Diff e1 e2) = max 0 (expr_ns c e1 - expr_ns c e2)"
| "expr_ns c (Scaled e n) = uint n * expr_ns c e"

fun expr_fits :: "(nat \<rightharpoonup> utility_time) \<Rightarrow> time_expr \<Rightarrow> bool" where
  "expr_fits c (Kept a) \<longleftrightarrow> time_ok (the (c a))"
| "expr_fits c (Of_timespec ts) \<longleftrightarrow> time_ok (dynobj ts)"
| "expr_fits c (Of_units t unit) \<longleftrightarrow> uint t * unit_ns unit < time_limit"
| "expr_fits c (Of_string s) \<longleftrightarrow> time_ok (fst (string_to_utility_time s utility_time_init))"
| "expr_fits c (Copy_of a) \<longleftrightarrow> time_ok (the (c a))"
| "expr_fits c (Sum e1 e2) \<longleftrightarrow> expr_fits c e1 \<and> expr_fits c e2 \<and> expr_ns c e1 + expr_ns c e2 < time_limit"
| "expr_fits c (Diff e1 e2) \<longleftrightarrow> expr_fits c e1 \<and> expr_fits c e2"
| "expr_fits c (Scaled e n) \<longleftrightarrow> expr_fits c e \<and> uint n * expr_ns c e < time_limit"

lemma t_congs: "ut_t a = ut_t b \<Longrightarrow> ns_of a = ns_of b" "ut_t a = ut_t b \<Longrightarrow> time_ok a = time_ok b"
  by (simp_all add: ns_of_def time_ok_def)

lemma expr_value_ns:
  "expr_fits c e \<Longrightarrow> ns_of (dynobj (expr_value c e)) = expr_ns c e \<and> time_ok (dynobj (expr_value c e))"
proof (induction e)
  case (Kept a)
  then show ?case using t_congs [of "dynobj (ut_t (the (c a)))" "the (c a)"] by simp
next
  case (Copy_of a)
  then show ?case using t_congs [of "dynobj (ut_t (the (c a)))" "the (c a)"] by simp
next
  case (Of_string s)
  let ?u = "fst (string_to_utility_time s utility_time_init)"
  show ?case using t_congs [of "dynobj (ut_t ?u)" ?u] Of_string by simp
next
  case (Of_units t k)
  let ?u = "to_utility_time t k utility_time_init"
  have "k = Unit_s \<Longrightarrow> uint t < 2 ^ 63" using Of_units by (simp add: time_limit_def)
  from to_utility_time_correct [OF this] show ?case
    using t_congs [of "dynobj (ut_t ?u)" ?u] by simp
next
  case (Sum e1 e2)
  let ?u = "utility_time_add (dynobj (expr_value c e1)) (dynobj (expr_value c e2)) utility_time_init"
  have "ns_of ?u = expr_ns c (Sum e1 e2) \<and> time_ok ?u"
    using Sum add_correct [of "dynobj (expr_value c e1)" "dynobj (expr_value c e2)"] by simp
  then show ?case using t_congs [of "dynobj (ut_t ?u)" ?u] by (simp add: time_op_def)
next
  case (Diff e1 e2)
  let ?u = "utility_time_sub (dynobj (expr_value c e1)) (dynobj (expr_value c e2)) utility_time_init"
  have "ns_of ?u = expr_ns c (Diff e1 e2) \<and> time_ok ?u"
    using Diff sub_correct [of "dynobj (expr_value c e1)" "dynobj (expr_value c e2)"] by simp
  then show ?case using t_congs [of "dynobj (ut_t ?u)" ?u] by (simp add: time_op_def)
next
  case (Scaled e n)
  let ?u = "utility_time_mul (dynobj (expr_value c e)) n utility_time_init"
  have "ns_of ?u = expr_ns c (Scaled e n) \<and> time_ok ?u"
    using Scaled mul_correct [of "dynobj (expr_value c e)" n] by simp
  then show ?case using t_congs [of "dynobj (ut_t ?u)" ?u] by (simp add: mul_t_def)
qed simp

section \<open>Reading and comparing with collection\<close>

lemma read_gc_eq:
  assumes "store_ok h" "cells h a = Some u"
  shows "read_gc f (Some a) h = Some (f u, collect a u h)"
  using gc_auto_eq [OF assms(2) store_okD(1) [OF assms]] assms(2) by (simp add: read_gc_def)

lemma read_temp:
  assumes "store_ok h" "temp h p ts n h'"
  shows "\<exists>u. ut_t u = ts \<and> read_gc f p h' = Some (f u, h\<lparr>next_addr := n\<rparr>)"
proof -
  obtain a u where a: "p = Some a" "cells h' a = Some u" "ut_t u = ts" using temp_value [OF assms(2)] .
  show ?thesis
    using read_gc_eq [OF temp_store_ok [OF assms(2,1)] a(2)] collect_temp [of h a ts n h' u] assms a
    by auto
qed

lemma compare_gc_eq:
  assumes "store_ok h" "cells h x = Some a" "cells h y = Some b"
  shows "compare_gc cmp (Some x) (Some y) h =
    (if x = y \<and> auto_obj a then None else Some (cmp a b, collect x a (collect y b h)))"
proof (cases "x = y \<and> auto_obj a")
  case True
  then have "utility_time_gc_auto (Some y) h = Some (collect y b h)" "cells (collect y b h) x = None"
    using assms gc_auto_eq [OF assms(3) store_okD(1) [OF assms(1,3)]] by (auto simp: collect_def)
  then show ?thesis using True assms
    by (simp add: compare_gc_def compare_gc_t2_def utility_time_gc_auto_def)
next
  case False
  then have "y \<noteq> x \<or> \<not> auto_obj b" using assms by auto
  from gc_both [OF assms(1,3,2) this] show ?thesis using False assms
    by (auto simp: compare_gc_def compare_gc_t2_def)
qed

section \<open>Properties\<close>

text \<open>A small store: a local object at 0 and a collectable heap object at 1.\<close>

definition store0 :: "(nat \<Rightarrow> bool) \<Rightarrow> time_store" where
  "store0 ok = \<lparr>cells = [0 \<mapsto> ut 7 0, 1 \<mapsto> dynobj \<lparr>tv_sec = 2, tv_nsec = 0\<rparr>], heap_objs = {1}, next_addr = 2,
     malloc_ok = ok, garbage = (\<lambda>_. ut 9 9)\<rparr>"

lemma store0_ok [simp]: "store_ok (store0 ok)"
  by (auto simp: store_ok_def store0_def ut_def utility_time_init_def set_t_def)

lemma store0_simps [simp]: "next_addr (store0 ok) = 2" "malloc_ok (store0 ok) = ok"
  "cells (store0 ok) 0 = Some (ut 7 0)" "\<not> auto_obj (ut a b)"
  "cells (store0 ok) (Suc 0) = Some (dynobj \<lparr>tv_sec = 2, tv_nsec = 0\<rparr>)"
  by (simp_all add: store0_def auto_obj_def ut_def utility_time_init_def)

text \<open>Claim C6. A nested expression of \<^verbatim>\<open>_dyn_gc\<close> calls whose allocations succeed evaluates to the
  arithmetic it denotes, and once its result is read by a \<^verbatim>\<open>_gc\<close> function every temporary has
  been freed exactly once: the store holds what it held before.\<close>

theorem expression_exact_and_leak_free:
  assumes "store_ok h" "needs_ok (cells h) e" "all_ok h (mallocs e)" "expr_fits (cells h) e"
  shows "\<exists>ts h'. do { (p, h1) \<leftarrow> eval e h; to_timespec_gc p h1 } = Some (ts, h') \<and>
    ns_of (dynobj ts) = expr_ns (cells h) e \<and> time_ok (dynobj ts) \<and>
    cells h' = cells h \<and> heap_objs h' = heap_objs h"
proof -
  obtain p h1 where ev: "eval e h = Some (p, h1)"
    and t: "temp h p (expr_value (cells h) e) (next_addr h + mallocs e) h1"
    using eval_meets_spec [OF assms(1,2)] assms(3) by (auto simp: eval_spec_def)
  obtain u where "ut_t u = expr_value (cells h) e"
    "read_gc to_timespec p h1 = Some (to_timespec u, h\<lparr>next_addr := next_addr h + mallocs e\<rparr>)"
    using read_temp [OF assms(1) t] by blast
  then show ?thesis using ev expr_value_ns [OF assms(4)]
    by (simp add: to_timespec_gc_def) (simp add: to_timespec_def)
qed

theorem expression_exact_and_leak_free_witness:
  "\<exists>ts h'. do { (p, h1) \<leftarrow> eval (Diff (Sum (Kept 0) (Of_units 400 Unit_ms)) (Scaled (Copy_of 0) 0)) (store0 (\<lambda>_. True));
       to_timespec_gc p h1 } = Some (ts, h') \<and> ns_of (dynobj ts) = 7400000000 \<and> heap_objs h' = {1}"
  using expression_exact_and_leak_free [of "store0 (\<lambda>_. True)"
      "Diff (Sum (Kept 0) (Of_units 400 Unit_ms)) (Scaled (Copy_of 0) 0)"]
  by (auto simp: all_ok_def time_limit_def) (auto simp: store0_def)

text \<open>The evaluation of a nested expression is defined exactly when every allocation but
  the last succeeds: the NULL of a failed inner allocation is dereferenced by the function it is
  passed to. When only the outermost allocation fails the result is NULL and the operands are
  collected.\<close>

theorem expression_out_of_memory:
  assumes "store_ok h" "needs_ok (cells h) e" "\<not> all_ok h (mallocs e)"
  shows "eval e h = (if all_ok h (mallocs e - 1)
    then Some (None, h\<lparr>next_addr := next_addr h + mallocs e\<rparr>) else None)"
  using eval_meets_spec [OF assms(1,2)] assms(3) by (auto simp: eval_spec_def)

theorem expression_out_of_memory_witness:
  "eval (Sum (Kept 0) (Of_units 400 Unit_ms)) (store0 (\<lambda>n. n \<noteq> 2)) = None"
  using expression_out_of_memory [of "store0 (\<lambda>n. n \<noteq> 2)" "Sum (Kept 0) (Of_units 400 Unit_ms)"]
  by (simp add: all_ok_Suc)

text \<open>Each collecting comparison returns the comparison of the two objects and collects
  both, the second one first; passing one collectable object as both operands is a use after
  free.\<close>

theorem comparisons_collect:
  assumes "store_ok h" "cells h x = Some a" "cells h y = Some b"
    and "(f, cmp) \<in> {(utility_time_eq_gc, utility_time_eq), (utility_time_ne_gc, utility_time_ne),
      (utility_time_lt_gc, utility_time_lt), (utility_time_le_gc, utility_time_le),
      (utility_time_gt_gc, utility_time_gt), (utility_time_ge_gc, utility_time_ge)}"
  shows "f (Some x) (Some y) h =
    (if x = y \<and> auto_obj a then None else Some (cmp a b, collect x a (collect y b h)))"
  using assms(4) compare_gc_eq [OF assms(1-3)]
  by (auto simp: utility_time_eq_gc_def utility_time_ne_gc_def utility_time_lt_gc_def
      utility_time_le_gc_def utility_time_gt_gc_def utility_time_ge_gc_def)

theorem comparisons_collect_witness:
  "utility_time_lt_gc (Some 1) (Some 1) (store0 (\<lambda>_. True)) = None \<and>
   fst (the (utility_time_lt_gc (Some 1) (Some 0) (store0 (\<lambda>_. True))))"
  using comparisons_collect [of "store0 (\<lambda>_. True)" 1 _ 1 _ utility_time_lt_gc utility_time_lt]
    comparisons_collect [of "store0 (\<lambda>_. True)" 1 _ 0 _ utility_time_lt_gc utility_time_lt]
  by (simp add: lt_is_order timespec_lt_iff)

text \<open>Where the result of an operation is stored does not matter to it: any of the three
  pointers of \<^verbatim>\<open>utility_time_add\<close> and \<^verbatim>\<open>utility_time_sub\<close>, and the two of \<^verbatim>\<open>utility_time_mul\<close>, may
  be the same, and only the target changes.\<close>

theorem operations_allow_aliasing:
  assumes "cells h x = Some a" "cells h y = Some b" "cells h r = Some c"
  shows "utility_time_add_p (Some x) (Some y) (Some r) h = Some (h\<lparr>cells := (cells h)(r \<mapsto> utility_time_add a b c)\<rparr>) \<and>
    utility_time_sub_p (Some x) (Some y) (Some r) h = Some (h\<lparr>cells := (cells h)(r \<mapsto> utility_time_sub a b c)\<rparr>) \<and>
    utility_time_mul_p (Some x) n (Some r) h = Some (h\<lparr>cells := (cells h)(r \<mapsto> utility_time_mul a n c)\<rparr>)"
  using assms by (simp add: add_p_eq sub_p_eq mul_p_eq)

theorem operations_allow_aliasing_witness:
  "utility_time_sub_p (Some 1) (Some 0) (Some 0) (store0 (\<lambda>_. True)) =
    Some ((store0 (\<lambda>_. True))\<lparr>cells := (cells (store0 (\<lambda>_. True)))(0 \<mapsto> ut 0 0)\<rparr>)"
  using operations_allow_aliasing [of "store0 (\<lambda>_. True)" 1 _ 0 _ 0]
  by (simp add: utility_time_sub_def utility_time_zero_t_def le_is_order timespec_le_iff ut_def)

text \<open>The example in the header comment of \<^verbatim>\<open>utility_time.h\<close>.\<close>

definition header_example :: "timespec \<Rightarrow> time_store \<Rightarrow> (timespec \<times> time_store) option" where
  "header_example t h = do {
     (p, h1) \<leftarrow> timespec_to_utility_time_dyn t h;
     (q, h2) \<leftarrow> to_utility_time_dyn 400 Unit_ms h1;
     (r, h3) \<leftarrow> utility_time_add_dyn p q h2;
     to_timespec_gc r h3 }"

text \<open>The example of the header comment leaves both operands allocated, since
  \<^verbatim>\<open>utility_time_add_dyn\<close>, unlike \<^verbatim>\<open>utility_time_add_dyn_gc\<close>, does not collect them.\<close>

theorem header_example_leaks:
  assumes "store_ok h" "all_ok h 3"
  shows "\<exists>ts h'. header_example t h = Some (ts, h') \<and>
    heap_objs h' = heap_objs h \<union> {next_addr h, Suc (next_addr h)}"
proof -
  define ms where "ms = ut_t (to_utility_time 400 Unit_ms utility_time_init)"
  let ?n = "next_addr h"
  let ?h1 = "alloc t h" let ?h2 = "alloc ms ?h1"
  have m: "malloc_ok h ?n" "malloc_ok h (Suc ?n)" "malloc_ok h (Suc (Suc ?n))"
    using assms(2) by (simp_all add: all_ok_Suc numeral_3_eq_3)
  have ok: "store_ok ?h1" "store_ok ?h2" using assms(1) by auto
  have e1: "timespec_to_utility_time_dyn t h = Some (Some ?n, ?h1)"
    using eval_leaf [OF assms(1), of "Of_timespec t"] m by simp
  have e2: "to_utility_time_dyn 400 Unit_ms ?h1 = Some (Some (Suc ?n), ?h2)"
    using eval_leaf [OF ok(1), of "Of_units 400 Unit_ms"] m unfolding ms_def by (simp add: alloc_def)
  have c: "cells ?h2 ?n = Some (dynobj t)" "cells ?h2 (Suc ?n) = Some (dynobj ms)"
    by (simp_all add: alloc_def)
  define v where "v = time_op utility_time_add t ms"
  have e3: "utility_time_add_dyn (Some ?n) (Some (Suc ?n)) ?h2 = Some (Some (Suc (Suc ?n)), alloc v ?h2)"
    using add.fill [OF c ok(2)] m by (simp add: utility_time_add_dyn_def v_def) (simp add: alloc_def)
  have "cells (alloc v ?h2) (Suc (Suc ?n)) = Some (dynobj v)" by (simp add: alloc_def)
  from read_gc_eq [OF store_ok_alloc [OF ok(2)] this, of to_timespec]
  have "header_example t h = Some (to_timespec (dynobj v), collect (Suc (Suc ?n)) (dynobj v) (alloc v ?h2))"
    by (simp add: header_example_def e1 e2 e3 to_timespec_gc_def)
  moreover have "heap_objs (collect (Suc (Suc ?n)) (dynobj v) (alloc v ?h2)) = heap_objs h \<union> {?n, Suc ?n}"
    using store_okD(3) [OF assms(1), of "Suc (Suc ?n)"] by (auto simp: collect_def alloc_def)
  ultimately show ?thesis by blast
qed

theorem header_example_leaks_witness:
  "\<exists>ts h'. header_example \<lparr>tv_sec = 1, tv_nsec = 0\<rparr> (store0 (\<lambda>_. True)) = Some (ts, h') \<and> 2 \<in> heap_objs h'"
  using header_example_leaks [of "store0 (\<lambda>_. True)" "\<lparr>tv_sec = 1, tv_nsec = 0\<rparr>"]
  by (auto simp: all_ok_def)

end
