(* ===== verification/Utility_Sched.thy ===== *)
theory Utility_Sched
  imports Utility_Time_Heap
begin

text \<open>
  Entering and leaving the real-time schedulers (\<^verbatim>\<open>utility_sched.c\<close>, \<^verbatim>\<open>utility_sched_fifo.c\<close>,
  \<^verbatim>\<open>utility_sched_deadline.c\<close>) and locking memory (\<^verbatim>\<open>utility_memory.c\<close>).

  The kernel's view of the calling thread is its scheduling class: a POSIX policy with its
  priority, or \<^verbatim>\<open>SCHED_DEADLINE\<close> with its extended parameters. Whether a system call succeeds
  is given by an environment: the error number the kernel would answer with, 0 for success.
\<close>

section \<open>Data\<close>

record sched_param_ex =
  ex_priority :: int
  sched_runtime :: timespec
  sched_deadline :: timespec
  sched_period :: timespec
  sched_flags :: u32

record scheduler =
  policy :: int
  param :: int
  param_ex :: sched_param_ex

definition SCHED_FIFO :: int where "SCHED_FIFO = 1"
definition SCHED_DEADLINE :: int where "SCHED_DEADLINE = 6"
definition EPERM :: int where "EPERM = 1"
definition ENOMEM :: int where "ENOMEM = 12"

datatype sched_class = Posix int int | Deadline sched_param_ex

record sched_env =
  getparam_errno :: int
  getparam_ex_errno :: int
  setparam_errno :: "int \<Rightarrow> int \<Rightarrow> int"
  setparam_ex_errno :: "sched_param_ex \<Rightarrow> int"
  priority_max :: int
  priority_min :: int

section \<open>Common functions\<close>

text \<open>\<^verbatim>\<open>sched_getparam_ex\<close>: the status and the parameters read.\<close>

definition sched_getparam_ex :: "sched_env \<Rightarrow> sched_class \<Rightarrow> sched_param_ex \<Rightarrow> int \<times> sched_param_ex" where
  "sched_getparam_ex env k old =
    (if getparam_ex_errno env \<noteq> 0 then (- 1, old)
     else (0, case k of Deadline ex \<Rightarrow> ex | Posix _ _ \<Rightarrow> old))"

text \<open>\<^verbatim>\<open>sched_save\<close>, into the object \<open>old\<close>, or nowhere when the pointer is NULL.\<close>

definition sched_save :: "sched_env \<Rightarrow> sched_class \<Rightarrow> scheduler option \<Rightarrow> int \<times> scheduler option" where
  "sched_save env k cur =
    (case cur of
       None \<Rightarrow> (0, None)
     | Some s \<Rightarrow>
        if getparam_errno env \<noteq> 0 then (- 1, Some s)
        else
          let s1 = (case k of Posix p prio \<Rightarrow> s\<lparr>policy := p, param := prio\<rparr>
                    | Deadline _ \<Rightarrow> s\<lparr>policy := SCHED_DEADLINE, param := 0\<rparr>) in
          if policy s1 = SCHED_DEADLINE then
            let (rc, ex) = sched_getparam_ex env k (param_ex s1) in
            if rc \<noteq> 0 then (- 1, Some s1) else (0, Some (s1\<lparr>param_ex := ex\<rparr>))
          else (0, Some s1))"

definition sched_restore :: "sched_env \<Rightarrow> sched_class \<Rightarrow> scheduler \<Rightarrow> int \<times> sched_class" where
  "sched_restore env k s =
    (if policy s = SCHED_DEADLINE then
       if setparam_ex_errno env (param_ex s) \<noteq> 0 then (- 1, k) else (0, Deadline (param_ex s))
     else
       if setparam_errno env (policy s) (param s) \<noteq> 0 then (- 1, k)
       else (0, Posix (policy s) (param s)))"

section \<open>SCHED_FIFO\<close>

definition sched_fifo_enter :: "sched_env \<Rightarrow> sched_class \<Rightarrow> int \<Rightarrow> scheduler option \<Rightarrow>
    int \<times> scheduler option \<times> sched_class" where
  "sched_fifo_enter env k prio old =
    (let (rc, old1) = sched_save env k old in
     if rc \<noteq> 0 then (- 2, old1, k)
     else
       let e = setparam_errno env SCHED_FIFO prio in
       if e \<noteq> 0 then (if e = EPERM then (- 1, old1, k) else (- 2, old1, k))
       else (0, old1, Posix SCHED_FIFO prio))"

text \<open>
  \<^verbatim>\<open>sched_fifo_prio\<close>: the subtraction mixes \<^verbatim>\<open>int\<close> and \<^verbatim>\<open>unsigned\<close>, hence is made on 32-bit words;
  its result is converted back to \<^verbatim>\<open>int\<close>. The result parameter is \<open>Some\<close> when it is stored.
\<close>

definition sched_fifo_prio :: "sched_env \<Rightarrow> u32 \<Rightarrow> int \<times> int option" where
  "sched_fifo_prio env nth_level =
    (if priority_max env = - 1 then (- 2, None)
     else if priority_min env = - 1 then (- 2, None)
     else
       let actual_prio = sint (word_of_int (priority_max env) - nth_level :: u32) in
       if actual_prio < priority_min env then (- 1, None) else (0, Some actual_prio))"

definition sched_fifo_enter_max :: "sched_env \<Rightarrow> sched_class \<Rightarrow> scheduler option \<Rightarrow>
    int \<times> scheduler option \<times> sched_class" where
  "sched_fifo_enter_max env k old =
    (case sched_fifo_prio env 0 of
       (rc, r) \<Rightarrow> if rc \<noteq> 0 then (- 2, old, k) else sched_fifo_enter env k (the r) old)"

definition sched_fifo_leave :: "sched_env \<Rightarrow> sched_class \<Rightarrow> scheduler \<Rightarrow> int \<times> sched_class" where
  "sched_fifo_leave env k s = sched_restore env k s"

section \<open>SCHED_DEADLINE\<close>

text \<open>The priority member of the new parameters is not initialised (\<open>junk\<close>).\<close>

definition sched_deadline_enter :: "sched_env \<Rightarrow> int \<Rightarrow> sched_class \<Rightarrow> time_ptr \<Rightarrow> time_ptr \<Rightarrow>
    scheduler option \<Rightarrow> time_store \<Rightarrow> ((int \<times> scheduler option \<times> sched_class) \<times> time_store) option" where
  "sched_deadline_enter env junk k wcet deadline old h =
    (let (rc, old1) = sched_save env k old in
     if rc \<noteq> 0 then Some ((- 2, old1, k), h)
     else do {
       c \<leftarrow> load wcet h; d \<leftarrow> load deadline h;
       let new_sched = \<lparr>ex_priority = junk, sched_runtime = to_timespec c, sched_deadline = to_timespec d,
           sched_period = to_timespec d, sched_flags = 0\<rparr>;
           e = setparam_ex_errno env new_sched in
       if e \<noteq> 0 then Some ((if e = EPERM then - 1 else - 2, old1, k), h)
       else do {
         h1 \<leftarrow> utility_time_gc_auto wcet h;
         h2 \<leftarrow> utility_time_gc_auto deadline h1;
         Some ((0, old1, Deadline new_sched), h2) } })"

definition sched_deadline_leave :: "sched_env \<Rightarrow> sched_class \<Rightarrow> scheduler \<Rightarrow> int \<times> sched_class" where
  "sched_deadline_leave env k s = sched_restore env k s"

section \<open>Memory\<close>

text \<open>\<open>e\<close>: the error number of \<^verbatim>\<open>mlockall\<close>, 0 for success.\<close>

definition memory_lock :: "int \<Rightarrow> int" where
  "memory_lock e = (if e \<noteq> 0 then if e = ENOMEM then - 1 else if e = EPERM then - 2 else - 3 else 0)"

text \<open>The stack blocks that are written: one per activation.\<close>

fun memory_preallocate_stack :: "nat \<Rightarrow> u8 list list" where
  "memory_preallocate_stack n =
     replicate 4096 0xFF # (case n of 0 \<Rightarrow> [] | Suc m \<Rightarrow> memory_preallocate_stack m)"

declare memory_preallocate_stack.simps [simp del]

section \<open>A scheduler is restored as it was saved\<close>

text \<open>POSIX policies are not \<^verbatim>\<open>SCHED_DEADLINE\<close>.\<close>

definition class_ok :: "sched_class \<Rightarrow> bool" where
  "class_ok k \<longleftrightarrow> (case k of Posix p _ \<Rightarrow> p \<noteq> SCHED_DEADLINE | Deadline _ \<Rightarrow> True)"

text \<open>Whether the kernel lets the thread go back to a class.\<close>

definition may_set :: "sched_env \<Rightarrow> sched_class \<Rightarrow> bool" where
  "may_set env k \<longleftrightarrow> (case k of Posix p prio \<Rightarrow> setparam_errno env p prio = 0 | Deadline ex \<Rightarrow> setparam_ex_errno env ex = 0)"

definition describes :: "scheduler \<Rightarrow> sched_class \<Rightarrow> bool" where
  "describes s k \<longleftrightarrow> (case k of Posix p prio \<Rightarrow> policy s = p \<and> p \<noteq> SCHED_DEADLINE \<and> param s = prio
     | Deadline ex \<Rightarrow> policy s = SCHED_DEADLINE \<and> param_ex s = ex)"

lemma save_describes:
  "sched_save env k (Some old) = (0, s) \<Longrightarrow> class_ok k \<Longrightarrow> \<exists>s'. s = Some s' \<and> describes s' k"
  by (cases k; clarsimp simp: sched_save_def class_ok_def describes_def sched_getparam_ex_def split: if_splits)

lemma restore_described:
  "describes s k \<Longrightarrow> sched_restore env k1 s = (if may_set env k then (0, k) else (- 1, k1))"
  by (cases k; simp add: sched_restore_def describes_def may_set_def)

text \<open>
  The contract of both schedulers, as its users see it: a successful \<open>enter\<close> saves the class the
  thread had, and \<open>leave\<close> with what was saved gives it back.
\<close>

locale scheduler_guard =
  fixes enter :: "'k \<Rightarrow> 's option \<Rightarrow> int \<times> 's option \<times> 'k" and leave :: "'k \<Rightarrow> 's \<Rightarrow> int \<times> 'k"
    and saved :: "'s \<Rightarrow> 'k \<Rightarrow> bool" and valid :: "'k \<Rightarrow> bool" and settable :: "'k \<Rightarrow> bool"
  assumes enter_saves: "enter k (Some old) = (0, s, k1) \<Longrightarrow> valid k \<Longrightarrow> \<exists>s'. s = Some s' \<and> saved s' k"
    and enter_fails: "enter k into = (rc, s, k1) \<Longrightarrow> rc \<noteq> 0 \<Longrightarrow> k1 = k"
    and enter_valid: "enter k into = (rc, s, k1) \<Longrightarrow> valid k \<Longrightarrow> valid k1"
    and leave_restores: "saved sv k \<Longrightarrow> leave k1 sv = (if settable k then (0, k) else (- 1, k1))"
begin

lemma enter_leave:
  assumes "enter k (Some old) = (rc, s, k1)" "valid k" "settable k"
  shows "if rc = 0 then leave k2 (the s) = (0, k) else k1 = k"
proof (cases "rc = 0")
  case True
  then obtain s' where "s = Some s'" "saved s' k" using enter_saves [of k old s k1] assms by auto
  then show ?thesis using leave_restores [of s' k k2] assms(3) True by simp
qed (use enter_fails [OF assms(1)] in simp)

text \<open>Nested uses are undone in the opposite order.\<close>

lemma nested:
  assumes "enter k (Some o1) = (0, s1, k1)" "enter k1 (Some o2) = (0, s2, k2)"
    "valid k" "settable k" "settable k1"
  shows "\<exists>k3. leave k2 (the s2) = (0, k3) \<and> leave k3 (the s1) = (0, k)"
  using enter_leave [OF assms(1,3,4), of k1] enter_leave [OF assms(2) enter_valid [OF assms(1,3)] assms(5), of k2]
  by simp

end

interpretation fifo: scheduler_guard "\<lambda>k old. sched_fifo_enter env k prio old" "sched_fifo_leave env"
    describes class_ok "may_set env" for env prio
proof
  show "sched_fifo_enter env k prio (Some old) = (0, s, k1) \<Longrightarrow> class_ok k \<Longrightarrow> \<exists>s'. s = Some s' \<and> describes s' k"
    for k old s k1
    using save_describes [of env k old s]
    by (auto simp: sched_fifo_enter_def Let_def split: if_splits prod.splits)
qed (auto simp: sched_fifo_enter_def sched_fifo_leave_def restore_described Let_def class_ok_def
    SCHED_FIFO_def SCHED_DEADLINE_def split: if_splits prod.splits)

text \<open>The deadline scheduler, with operands the caller keeps.\<close>

definition deadline_enter_kept :: "sched_env \<Rightarrow> utility_time \<Rightarrow> utility_time \<Rightarrow> sched_class \<Rightarrow> scheduler option \<Rightarrow>
    int \<times> scheduler option \<times> sched_class" where
  "deadline_enter_kept env c d k old =
    (let h = \<lparr>cells = [0 \<mapsto> c\<lparr>dyn_alloc := False\<rparr>, 1 \<mapsto> d\<lparr>dyn_alloc := False\<rparr>], heap_objs = {},
        next_addr = 2, malloc_ok = (\<lambda>_. False), garbage = (\<lambda>_. c)\<rparr>
     in fst (the (sched_deadline_enter env 0 k (Some 0) (Some 1) old h)))"

lemma deadline_enter_kept_eq:
  "deadline_enter_kept env c d k old =
    (let (rc, old1) = sched_save env k old;
         ex = \<lparr>ex_priority = 0, sched_runtime = to_timespec c, sched_deadline = to_timespec d,
               sched_period = to_timespec d, sched_flags = 0\<rparr>;
         e = setparam_ex_errno env ex
     in if rc \<noteq> 0 then (- 2, old1, k)
        else if e \<noteq> 0 then (if e = EPERM then - 1 else - 2, old1, k)
        else (0, old1, Deadline ex))"
  by (cases "sched_save env k old")
    (auto simp: deadline_enter_kept_def sched_deadline_enter_def Let_def to_timespec_def
      utility_time_gc_auto_def utility_time_gc_def)

interpretation deadline: scheduler_guard "deadline_enter_kept env c d" "sched_deadline_leave env"
    describes class_ok "may_set env" for env c d
proof
  show "deadline_enter_kept env c d k (Some old) = (0, s, k1) \<Longrightarrow> class_ok k \<Longrightarrow> \<exists>s'. s = Some s' \<and> describes s' k"
    for k old s k1
    using save_describes [of env k old s]
    by (auto simp: deadline_enter_kept_eq Let_def split: if_splits prod.splits)
qed (auto simp: deadline_enter_kept_eq sched_deadline_leave_def restore_described Let_def class_ok_def
    split: if_splits prod.splits)

section \<open>Properties\<close>

definition env_ok :: sched_env where
  "env_ok = \<lparr>getparam_errno = 0, getparam_ex_errno = 0, setparam_errno = (\<lambda>_ _. 0), setparam_ex_errno = (\<lambda>_. 0),
     priority_max = 99, priority_min = 1\<rparr>"

definition sched0 :: scheduler where
  "sched0 = \<lparr>policy = 0, param = 0, param_ex = \<lparr>ex_priority = 0, sched_runtime = \<lparr>tv_sec = 0, tv_nsec = 0\<rparr>,
     sched_deadline = \<lparr>tv_sec = 0, tv_nsec = 0\<rparr>, sched_period = \<lparr>tv_sec = 0, tv_nsec = 0\<rparr>, sched_flags = 0\<rparr>\<rparr>"

text \<open>Two nested \<^verbatim>\<open>sched_fifo_enter\<close> calls that save the scheduler, undone in the
  opposite order by \<^verbatim>\<open>sched_fifo_leave\<close>, bring the thread back to the class it had, be it a POSIX
  policy or \<^verbatim>\<open>SCHED_DEADLINE\<close>, whatever class it was switched to in between; a failed enter
  leaves the class unchanged.\<close>

theorem fifo_enter_leave:
  assumes "class_ok k" "may_set env k" "sched_fifo_enter env k p1 (Some o1) = (rc, s1, k1)"
  shows "if rc \<noteq> 0 then k1 = k
    else sched_fifo_leave env k' (the s1) = (0, k) \<and>
      (\<forall>p2 o2 s2 k2. may_set env k1 \<longrightarrow> sched_fifo_enter env k1 p2 (Some o2) = (0, s2, k2) \<longrightarrow>
        (\<exists>k3. sched_fifo_leave env k2 (the s2) = (0, k3) \<and> sched_fifo_leave env k3 (the s1) = (0, k)))"
proof (cases "rc = 0")
  case True
  then have a: "sched_fifo_enter env k p1 (Some o1) = (0, s1, k1)" using assms(3) by simp
  from fifo.enter_leave [OF a assms(1,2)]
  have leave: "sched_fifo_leave env k' (the s1) = (0, k)" for k' by simp
  have "class_ok k1" using fifo.enter_valid [OF a assms(1)] .
  then have "\<exists>k3. sched_fifo_leave env k2 (the s2) = (0, k3) \<and> sched_fifo_leave env k3 (the s1) = (0, k)"
    if "may_set env k1" "sched_fifo_enter env k1 p2 (Some o2) = (0, s2, k2)" for p2 o2 s2 k2
    using fifo.enter_leave [OF that(2), of k2] that(1) leave by simp
  then have "\<forall>p2 o2 s2 k2. may_set env k1 \<longrightarrow> sched_fifo_enter env k1 p2 (Some o2) = (0, s2, k2) \<longrightarrow>
      (\<exists>k3. sched_fifo_leave env k2 (the s2) = (0, k3) \<and> sched_fifo_leave env k3 (the s1) = (0, k))"
    by blast
  then show ?thesis using True leave by simp
qed (use fifo.enter_fails [OF assms(3)] in simp)

theorem fifo_enter_leave_witness:
  "\<exists>s1 k1. sched_fifo_enter env_ok (Posix 0 0) 50 (Some sched0) = (0, s1, k1) \<and>
     sched_fifo_leave env_ok k1 (the s1) = (0, Posix 0 0)"
proof -
  obtain s1 k1 where e: "sched_fifo_enter env_ok (Posix 0 0) 50 (Some sched0) = (0, s1, k1)"
    by (simp add: sched_fifo_enter_def sched_save_def env_ok_def SCHED_DEADLINE_def)
  from fifo_enter_leave [OF _ _ e] e show ?thesis
    by (simp add: class_ok_def SCHED_DEADLINE_def may_set_def env_ok_def)
qed

text \<open>Claim C36. \<^verbatim>\<open>sched_deadline_enter\<close> either switches the thread to the bandwidth given by its
  arguments, collects both arguments and saves a scheduler that \<^verbatim>\<open>sched_deadline_leave\<close> restores,
  or it changes nothing: then also the arguments are not collected.\<close>

theorem deadline_enter_leave:
  assumes "store_ok h" "cells h x = Some c" "cells h y = Some d" "x \<noteq> y \<or> \<not> auto_obj c"
    and "class_ok k" "may_set env k"
  shows "\<exists>rc s k1 h1. sched_deadline_enter env junk k (Some x) (Some y) (Some old) h = Some ((rc, s, k1), h1) \<and>
    (if rc = 0 then sched_deadline_leave env k2 (the s) = (0, k) \<and> h1 = collect y d (collect x c h) \<and>
        k1 = Deadline \<lparr>ex_priority = junk, sched_runtime = to_timespec c, sched_deadline = to_timespec d,
               sched_period = to_timespec d, sched_flags = 0\<rparr>
     else k1 = k \<and> h1 = h \<and> rc \<in> {- 1, - 2})"
proof -
  obtain rc s where sv: "sched_save env k (Some old) = (rc, s)" by fastforce
  note gc = gc_both [OF assms(1-4)]
  show ?thesis
  proof (cases "rc = 0")
    case True
    then obtain s' where s': "s = Some s'" "describes s' k" using save_describes sv assms(5) by metis
    define ex where "ex = \<lparr>ex_priority = junk, sched_runtime = to_timespec c, sched_deadline = to_timespec d,
      sched_period = to_timespec d, sched_flags = 0\<rparr>"
    show ?thesis using sv True assms(2,3,6) s' gc restore_described [OF s'(2), of env k2] unfolding ex_def [symmetric]
      by (cases "setparam_ex_errno env ex = 0")
        (simp_all add: sched_deadline_enter_def sched_deadline_leave_def Let_def ex_def [symmetric])
  qed (simp add: sched_deadline_enter_def sv)
qed

theorem deadline_enter_leave_witness:
  "\<exists>s k1 h1. sched_deadline_enter env_ok 0 (Posix 1 5) (Some 0) (Some 1) (Some sched0) (store0 (\<lambda>_. True)) =
     Some ((0, s, k1), h1) \<and> sched_deadline_leave env_ok (Posix 0 0) (the s) = (0, Posix 1 5)"
proof -
  have ok: "class_ok (Posix 1 5)" "may_set env_ok (Posix 1 5)"
    by (simp_all add: class_ok_def SCHED_DEADLINE_def may_set_def env_ok_def)
  have sv: "fst (sched_save env_ok (Posix 1 5) (Some sched0)) = 0"
    by (simp add: sched_save_def env_ok_def SCHED_DEADLINE_def)
  obtain rc s k1 h1 where e: "sched_deadline_enter env_ok 0 (Posix 1 5) (Some 0) (Some 1) (Some sched0) (store0 (\<lambda>_. True)) =
      Some ((rc, s, k1), h1)" "rc = 0 \<longrightarrow> sched_deadline_leave env_ok (Posix 0 0) (the s) = (0, Posix 1 5)"
      "rc \<noteq> 0 \<longrightarrow> k1 = Posix 1 5" "rc = 0 \<or> rc = - 1 \<or> rc = - 2"
    using deadline_enter_leave [of "store0 (\<lambda>_. True)" 0 "ut 7 0" 1 "dynobj \<lparr>tv_sec = 2, tv_nsec = 0\<rparr>"
      "Posix 1 5" env_ok 0 sched0 "Posix 0 0", OF _ _ _ _ ok] by (auto split: if_splits)
  have "rc = 0"
  proof (rule ccontr)
    assume "rc \<noteq> 0"
    then show False using e(1) sv gc_both [of "store0 (\<lambda>_. True)" 0 "ut 7 0" 1]
      by (auto simp: sched_deadline_enter_def env_ok_def split: if_splits prod.splits)
  qed
  then show ?thesis using e by blast
qed

text \<open>\<^verbatim>\<open>sched_fifo_prio\<close> gives the priority \<open>n\<close> levels below the maximum and -1 below the
  minimum, but only as long as the mixed signed and unsigned subtraction does not wrap: for \<open>n\<close>
  above the maximum by more than two to the 31 it succeeds with a priority above the maximum.\<close>

lemma sint32_of_int: "- (2 ^ 31) \<le> x \<Longrightarrow> x < 2 ^ 31 \<Longrightarrow> sint (word_of_int x :: u32) = x"
  by (simp add: sint_sbintrunc' signed_take_bit_int_eq_self)

theorem fifo_prio_levels:
  assumes "0 \<le> priority_min env" "priority_min env \<le> priority_max env" "priority_max env < 2 ^ 31"
  shows "sched_fifo_prio env n =
    (if uint n \<le> priority_max env - priority_min env then (0, Some (priority_max env - uint n))
     else if uint n \<le> priority_max env + 2 ^ 31 then (- 1, None)
     else (0, Some (priority_max env + 2 ^ 32 - uint n)))"
proof -
  define u where "u = uint n"
  let ?m = "priority_max env" let ?x = "?m - u"
  have n: "0 \<le> u" "u < 4294967296" using uint_lt2p [of n] by (simp_all add: u_def)
  have m: "0 \<le> ?m" "?m < 2147483648" using assms by simp_all
  have w: "word_of_int ?m - n = (word_of_int ?x :: u32)" by (simp add: u_def)
  have s: "sint (word_of_int ?x :: u32) = (if u \<le> ?m + 2147483648 then ?x else ?x + 4294967296)"
  proof (cases "u \<le> ?m + 2147483648")
    case True
    have "sint (word_of_int ?x :: u32) = ?x"
      using True m n by (intro sint32_of_int) simp_all
    then show ?thesis using True by (simp only: if_True)
  next
    case False
    have "(word_of_int ?x :: u32) = word_of_int (?x + 4294967296)" by (simp add: word_of_int_eq_iff take_bit_eq_mod)
    moreover have "sint (word_of_int (?x + 4294967296) :: u32) = ?x + 4294967296"
      using False m n by (intro sint32_of_int) simp_all
    ultimately show ?thesis using False by (simp only: if_False)
  qed
  show ?thesis using assms n m unfolding sched_fifo_prio_def w Let_def s u_def [symmetric] by auto
qed

theorem fifo_prio_levels_witness:
  "sched_fifo_prio env_ok 4294967295 = (0, Some 100) \<and> sched_fifo_prio env_ok 98 = (0, Some 1) \<and>
   sched_fifo_prio env_ok 99 = (- 1, None)"
  using fifo_prio_levels [of env_ok 4294967295] fifo_prio_levels [of env_ok 98] fifo_prio_levels [of env_ok 99]
  by (simp add: env_ok_def)

end
