(* ===== verification/Utility_File.thy ===== *)
theory Utility_File
  imports RT_Prelude
begin

text \<open>
  Streams and the functions of \<^verbatim>\<open>utility_file.c\<close>: opening and closing, reading a text file line
  by line into a buffer that grows, and reading a fixed number of bytes.

  A stream opened for reading holds what is still to be read, the end-of-file and error
  indicators of \<^verbatim>\<open>stdio\<close>, and after how many more bytes the device fails (if it does). A stream
  opened for writing holds what has been written and how many more bytes the device accepts.
\<close>

section \<open>Streams\<close>

record 'a rstream =
  rs_data :: "'a list"
  rs_eof :: bool
  rs_err :: bool
  rs_fail :: "nat option"

definition fgetc :: "'a rstream \<Rightarrow> 'a option \<times> 'a rstream" where
  "fgetc s =
    (if rs_fail s = Some 0 then (None, s\<lparr>rs_err := True\<rparr>)
     else case rs_data s of
       [] \<Rightarrow> (None, s\<lparr>rs_eof := True\<rparr>)
     | c # cs \<Rightarrow> (Some c, s\<lparr>rs_data := cs, rs_fail := map_option (\<lambda>n. n - 1) (rs_fail s)\<rparr>))"

text \<open>\<^verbatim>\<open>fread(buffer, 1, n, stream)\<close>: the bytes stored.\<close>

fun fread :: "nat \<Rightarrow> 'a rstream \<Rightarrow> 'a list \<times> 'a rstream" where
  "fread 0 s = ([], s)"
| "fread (Suc n) s =
    (case fgetc s of
       (None, s1) \<Rightarrow> ([], s1)
     | (Some c, s1) \<Rightarrow> let (cs, s2) = fread n s1 in (c # cs, s2))"

record wstream =
  ws_out :: "u8 list"
  ws_room :: nat
  ws_close_ok :: bool

text \<open>\<^verbatim>\<open>fwrite(p, size, 1, stream)\<close> of the bytes at \<open>p\<close>: whether it returned one.\<close>

definition fwrite :: "u8 list \<Rightarrow> wstream \<Rightarrow> bool \<times> wstream" where
  "fwrite bs w =
    (if length bs \<le> ws_room w
     then (True, w\<lparr>ws_out := ws_out w @ bs, ws_room := ws_room w - length bs\<rparr>)
     else (False, w\<lparr>ws_out := ws_out w @ take (ws_room w) bs, ws_room := 0\<rparr>))"

text \<open>
  A file system, as far as these functions see it: what \<^verbatim>\<open>fopen\<close> returns for a path and a mode.
  Opening for writing truncates, so a fresh stream is returned.
\<close>

record fsys =
  fs_text :: "string \<Rightarrow> char rstream option"
  fs_bin :: "string \<Rightarrow> u8 rstream option"
  fs_create :: "string \<Rightarrow> wstream option"

definition utility_file_open_for_reading :: "fsys \<Rightarrow> string \<Rightarrow> char rstream option" where
  "utility_file_open_for_reading fs path = fs_text fs path"

definition utility_file_open_for_writing :: "fsys \<Rightarrow> string \<Rightarrow> wstream option" where
  "utility_file_open_for_writing fs path = fs_create fs path"

definition utility_file_open_for_reading_bin :: "fsys \<Rightarrow> string \<Rightarrow> u8 rstream option" where
  "utility_file_open_for_reading_bin fs path = fs_bin fs path"

definition utility_file_open_for_writing_bin :: "fsys \<Rightarrow> string \<Rightarrow> wstream option" where
  "utility_file_open_for_writing_bin fs path = fs_create fs path"

definition utility_file_close :: "wstream \<Rightarrow> int" where
  "utility_file_close w = (if \<not> ws_close_ok w then - 1 else 0)"

section \<open>Reading a line\<close>

text \<open>
  The line buffer is the memory \<^verbatim>\<open>*buffer\<close> points to, \<open>None\<close> for NULL; its length is
  \<^verbatim>\<open>*buffer_len\<close>. \<open>poke\<close> is a store through \<^verbatim>\<open>ptr\<close>, undefined outside the buffer. \<open>mem_ok\<close> tells
  which sizes \<^verbatim>\<open>realloc\<close> can provide; the memory it adds holds \<open>fill\<close>.
\<close>

definition poke :: "char list \<Rightarrow> nat \<Rightarrow> char \<Rightarrow> char list option" where
  "poke mem i c = (if i < length mem then Some (mem[i := c]) else None)"

datatype line_end = Line | Out_of_memory

function readln_loop :: "(nat \<Rightarrow> bool) \<Rightarrow> char \<Rightarrow> nat \<Rightarrow> char list \<Rightarrow> nat \<Rightarrow> char rstream \<Rightarrow>
    (line_end \<times> char list \<times> nat \<times> char rstream) option" where
  "readln_loop mem_ok fill inc mem pos s =
    (case fgetc s of
       (None, s1) \<Rightarrow> Some (Line, mem, pos, s1)
     | (Some c, s1) \<Rightarrow>
         if c = CHR 0x0A then Some (Line, mem, pos, s1)
         else (case poke mem pos c of
             None \<Rightarrow> None
           | Some mem1 \<Rightarrow>
               if pos + 1 = length mem1 then
                 if mem_ok (length mem1 + inc)
                 then readln_loop mem_ok fill inc (mem1 @ replicate inc fill) (pos + 1) s1
                 else Some (Out_of_memory, mem1, pos + 1, s1)
               else readln_loop mem_ok fill inc mem1 (pos + 1) s1))"
  by pat_completeness auto
termination
  by (relation "measure (\<lambda>(_, _, _, _, _, s). length (rs_data s))")
    (auto simp: fgetc_def split: if_splits list.splits)

declare readln_loop.simps [simp del]

text \<open>The buffer to start with: the one given, unless it is NULL or empty.\<close>

definition line_buffer :: "(nat \<Rightarrow> bool) \<Rightarrow> char \<Rightarrow> char list option \<Rightarrow> nat \<Rightarrow> char list option" where
  "line_buffer mem_ok fill buffer inc =
    (if buffer = None \<or> buffer = Some [] then
       if mem_ok inc then Some (replicate inc fill) else None
     else buffer)"

definition utility_file_readln :: "(nat \<Rightarrow> bool) \<Rightarrow> char \<Rightarrow> char rstream \<Rightarrow> char list option \<Rightarrow> nat \<Rightarrow>
    (int \<times> char list option \<times> char rstream) option" where
  "utility_file_readln mem_ok fill s buffer inc =
    (if rs_eof s then Some (- 1, buffer, s)
     else
       case line_buffer mem_ok fill buffer inc of
         None \<Rightarrow> Some (- 2, buffer, s)
       | Some mem \<Rightarrow>
           (case readln_loop mem_ok fill inc mem 0 s of
              None \<Rightarrow> None
            | Some (Out_of_memory, mem1, pos, s1) \<Rightarrow> Some (- 2, Some mem1, s1)
            | Some (Line, mem1, pos, s1) \<Rightarrow>
                do { mem2 \<leftarrow> poke mem1 pos (CHR 0x00);
                     Some (if rs_err s1 then - 2 else 0, Some mem2, s1) }))"

text \<open>The string a \<^verbatim>\<open>char *\<close> argument denotes.\<close>

definition c_string :: "char list \<Rightarrow> string" where
  "c_string mem = takeWhile (\<lambda>c. c \<noteq> CHR 0x00) mem"

text \<open>
  \<^verbatim>\<open>utility_file_read\<close>: the callback gets the line and its argument object, and returns its
  status and the object it leaves.
\<close>

lemma fgetc_shrinks:
  "fgetc s = (r, s1) \<Longrightarrow> length (rs_data s1) \<le> length (rs_data s) \<and> (rs_eof s \<longrightarrow> rs_eof s1) \<and>
     (rs_err s \<longrightarrow> rs_err s1) \<and>
     (r = None \<longrightarrow> rs_eof s1 \<or> rs_err s1) \<and> (r \<noteq> None \<longrightarrow> length (rs_data s1) < length (rs_data s))"
  by (auto simp: fgetc_def split: if_splits list.splits)

lemma readln_loop_shrinks:
  "readln_loop ok fill inc mem pos s = Some (e, mem1, pos1, s1) \<Longrightarrow>
   length (rs_data s1) \<le> length (rs_data s) \<and>
   (e = Line \<longrightarrow> rs_err s1 \<or> rs_eof s1 \<or> length (rs_data s1) < length (rs_data s))"
proof (induction ok fill inc mem pos s rule: readln_loop.induct)
  case (1 ok fill inc mem pos s)
  obtain r s2 where g: "fgetc s = (r, s2)" by fastforce
  note shr = fgetc_shrinks [OF g]
  show ?case
  proof (cases r)
    case None
    then show ?thesis using "1.prems" g shr by (subst (asm) readln_loop.simps) auto
  next
    case (Some c)
    then have lt: "length (rs_data s2) < length (rs_data s)" using shr by simp
    show ?thesis
    proof (cases "c = CHR 0x0A \<or> poke mem pos c = None")
      case True
      then show ?thesis using "1.prems" g Some lt
        by (subst (asm) readln_loop.simps) (auto split: if_splits)
    next
      case False
      then obtain m where m: "poke mem pos c = Some m" "c \<noteq> CHR 0x0A" by auto
      note IH = "1.IH" [OF g [symmetric] Some m(2,1)]
      show ?thesis using "1.prems" g Some m lt IH
        by (subst (asm) readln_loop.simps) (fastforce split: if_splits)
    qed
  qed
qed

lemma readln_shrinks:
  assumes "utility_file_readln ok fill s buf inc = Some (rc, buf1, s1)" "rc \<noteq> - 1" "rc \<noteq> - 2"
  shows "length (rs_data s1) + (if rs_eof s1 then 0 else 1) < length (rs_data s) + (if rs_eof s then 0 else 1)"
  using assms readln_loop_shrinks
  by (fastforce simp: utility_file_readln_def split: if_splits option.splits line_end.splits
      prod.splits bind_splits)

function utility_file_read_loop :: "(nat \<Rightarrow> bool) \<Rightarrow> char \<Rightarrow> nat \<Rightarrow> (string \<Rightarrow> 'a \<Rightarrow> int \<times> 'a) \<Rightarrow>
    char list option \<Rightarrow> char rstream \<Rightarrow> 'a \<Rightarrow> (int \<times> char rstream \<times> 'a) option" where
  "utility_file_read_loop mem_ok fill inc read_fn buffer s args =
    (case utility_file_readln mem_ok fill s buffer inc of
       None \<Rightarrow> None
     | Some (rc, buffer1, s1) \<Rightarrow>
         if rc = - 1 then Some (0, s1, args)
         else if rc = - 2 then Some (- 2, s1, args)
         else
           (let (r, args1) = read_fn (c_string (the buffer1)) args in
            if r \<noteq> 0 then Some (- 1, s1, args1)
            else utility_file_read_loop mem_ok fill inc read_fn buffer1 s1 args1))"
  by pat_completeness auto
termination
  by (relation "measure (\<lambda>(_, _, _, _, _, s, _). length (rs_data s) + (if rs_eof s then 0 else 1))")
    (auto dest: readln_shrinks)

declare utility_file_read_loop.simps [simp del]

definition utility_file_read :: "(nat \<Rightarrow> bool) \<Rightarrow> char \<Rightarrow> char rstream \<Rightarrow> nat \<Rightarrow>
    (string \<Rightarrow> 'a \<Rightarrow> int \<times> 'a) \<Rightarrow> 'a \<Rightarrow> (int \<times> char rstream \<times> 'a) option" where
  "utility_file_read mem_ok fill s inc read_fn args =
     utility_file_read_loop mem_ok fill inc read_fn None s args"

section \<open>Reading bytes\<close>

text \<open>
  \<^verbatim>\<open>utility_file_read_bin\<close>: the return code, the bytes stored at the start of the buffer, and
  the new value of \<^verbatim>\<open>*len\<close>.
\<close>

definition utility_file_read_bin :: "'a rstream \<Rightarrow> nat \<Rightarrow> int \<times> 'a list \<times> nat \<times> 'a rstream" where
  "utility_file_read_bin s len =
    (if rs_eof s then (- 1, [], len, s)
     else let (bs, s1) = fread len s in
       if length bs \<noteq> len then
         if rs_err s1 then (- 3, bs, len, s1) else (- 2, bs, length bs, s1)
       else (0, bs, len, s1))"

section \<open>Streams without device errors\<close>

lemma fgetc_healthy:
  "rs_fail s = None \<Longrightarrow> fgetc s = (case rs_data s of [] \<Rightarrow> (None, s\<lparr>rs_eof := True\<rparr>)
     | c # cs \<Rightarrow> (Some c, s\<lparr>rs_data := cs\<rparr>))"
  by (cases s) (auto simp: fgetc_def split: list.splits)

lemma fread_healthy:
  "rs_fail s = None \<Longrightarrow> fread n s =
    (take n (rs_data s), s\<lparr>rs_data := drop n (rs_data s), rs_eof := rs_eof s \<or> length (rs_data s) < n\<rparr>)"
proof (induction n arbitrary: s)
  case (Suc n)
  then show ?case by (cases s; cases "rs_data s") (auto simp: fgetc_healthy)
qed simp

lemma fread_fails:
  "rs_fail s = Some k \<Longrightarrow> k < n \<Longrightarrow> k \<le> length (rs_data s) \<Longrightarrow>
   fread n s = (take k (rs_data s), s\<lparr>rs_data := drop k (rs_data s), rs_err := True, rs_fail := Some 0\<rparr>)"
proof (induction n arbitrary: s k)
  case (Suc n)
  show ?case
  proof (cases k)
    case 0
    then show ?thesis using Suc.prems by (cases s) (simp add: fgetc_def)
  next
    case (Suc k')
    then obtain c cs where d: "rs_data s = c # cs" using Suc.prems by (cases "rs_data s") auto
    let ?s = "s\<lparr>rs_data := cs, rs_fail := Some k'\<rparr>"
    have "fgetc s = (Some c, ?s)" using Suc.prems d Suc by (simp add: fgetc_def)
    moreover have "fread n ?s = (take k' cs, ?s\<lparr>rs_data := drop k' cs, rs_err := True, rs_fail := Some 0\<rparr>)"
      using Suc.IH [of ?s k'] Suc.prems d Suc by simp
    ultimately show ?thesis using d Suc by simp
  qed
qed simp

lemma read_bin_enough:
  assumes "rs_fail s = None" "\<not> rs_eof s" "n \<le> length (rs_data s)"
  shows "utility_file_read_bin s n = (0, take n (rs_data s), n, s\<lparr>rs_data := drop n (rs_data s)\<rparr>)"
  using assms by (cases s) (simp add: utility_file_read_bin_def fread_healthy)

lemma read_bin_short:
  assumes "rs_fail s = None" "\<not> rs_eof s" "\<not> rs_err s" "length (rs_data s) < n"
  shows "utility_file_read_bin s n =
    (- 2, rs_data s, length (rs_data s), s\<lparr>rs_data := [], rs_eof := True\<rparr>)"
  using assms by (cases s) (simp add: utility_file_read_bin_def fread_healthy)

lemma fwrite_fits:
  "length bs \<le> ws_room w \<Longrightarrow>
   fwrite bs w = (True, w\<lparr>ws_out := ws_out w @ bs, ws_room := ws_room w - length bs\<rparr>)"
  by (simp add: fwrite_def)

section \<open>Lines\<close>

text \<open>The loop never stores outside the buffer, whatever the stream and the allocator do.\<close>

lemma poke_Some [simp]: "i < length mem \<Longrightarrow> poke mem i c = Some (mem[i := c])"
  by (simp add: poke_def)

lemma readln_loop_safe:
  "pos < length mem \<Longrightarrow> 0 < inc \<Longrightarrow>
   \<exists>e mem1 pos1 s1. readln_loop ok fill inc mem pos s = Some (e, mem1, pos1, s1) \<and>
     (e = Line \<longrightarrow> pos1 < length mem1)"
proof (induction ok fill inc mem pos s rule: readln_loop.induct)
  case (1 ok fill inc mem pos s)
  obtain r s2 where g: "fgetc s = (r, s2)" by fastforce
  show ?case
  proof (cases r)
    case None
    then show ?thesis using "1.prems" g by (subst readln_loop.simps) simp
  next
    case (Some c)
    note IH = "1.IH" [OF g [symmetric] Some]
    show ?thesis
      using "1.prems" g Some IH by (subst readln_loop.simps) auto
  qed
qed

lemma line_buffer_nonempty: "0 < inc \<Longrightarrow> line_buffer ok fill buffer inc = Some mem \<Longrightarrow> 0 < length mem"
  by (auto simp: line_buffer_def split: if_splits)

lemma readln_safe:
  assumes "0 < inc"
  shows "utility_file_readln ok fill s buffer inc \<noteq> None"
proof (cases "line_buffer ok fill buffer inc")
  case (Some mem)
  from readln_loop_safe [OF line_buffer_nonempty [OF assms Some] assms, of ok fill s]
  obtain e mem1 pos1 s1 where "readln_loop ok fill inc mem 0 s = Some (e, mem1, pos1, s1)"
    "e = Line \<longrightarrow> pos1 < length mem1" by blast
  then show ?thesis using Some by (cases e) (simp_all add: utility_file_readln_def)
qed (simp add: utility_file_readln_def)

lemma read_loop_safe: "0 < inc \<Longrightarrow> utility_file_read_loop ok fill inc f buffer s args \<noteq> None"
proof (induction ok fill inc f buffer s args rule: utility_file_read_loop.induct)
  case (1 ok fill inc f buffer s args)
  obtain rc b s1 where r: "utility_file_readln ok fill s buffer inc = Some (rc, b, s1)"
    using readln_safe [OF "1.prems"] by (metis not_None_eq prod_cases3)
  show ?case using r "1.IH" [OF r refl refl] "1.prems"
    by (subst utility_file_read_loop.simps) (auto split: prod.splits)
qed

text \<open>What one call delivers from a stream without device errors.\<close>

abbreviation not_nl :: "char \<Rightarrow> bool" where "not_nl \<equiv> \<lambda>c. c \<noteq> CHR 0x0A"

lemma readln_loop_line:
  "pos < length mem \<Longrightarrow> 0 < inc \<Longrightarrow> (\<forall>n. ok n) \<Longrightarrow> rs_fail s = None \<Longrightarrow>
   \<exists>mem1. readln_loop ok fill inc mem pos s =
     Some (Line, mem1, pos + length (takeWhile not_nl (rs_data s)),
       s\<lparr>rs_data := tl (dropWhile not_nl (rs_data s)),
         rs_eof := rs_eof s \<or> dropWhile not_nl (rs_data s) = []\<rparr>) \<and>
     pos + length (takeWhile not_nl (rs_data s)) < length mem1 \<and>
     take (pos + length (takeWhile not_nl (rs_data s))) mem1 = take pos mem @ takeWhile not_nl (rs_data s)"
proof (induction "rs_data s" arbitrary: s mem pos)
  case Nil
  then have "rs_data s = []" by simp
  then show ?case using Nil.prems by (subst readln_loop.simps) (simp add: fgetc_healthy)
next
  case (Cons c cs)
  note d = Cons.hyps(2) [symmetric]
  show ?case
  proof (cases "c = CHR 0x0A")
    case True
    then show ?thesis using Cons.prems d by (subst readln_loop.simps) (simp add: fgetc_healthy)
  next
    case False
    let ?m = "mem[pos := c]" let ?s = "s\<lparr>rs_data := cs\<rparr>"
    let ?m' = "if pos + 1 = length mem then ?m @ replicate inc fill else ?m"
    have "readln_loop ok fill inc mem pos s = readln_loop ok fill inc ?m' (pos + 1) ?s"
      using False Cons.prems d by (subst readln_loop.simps) (simp add: fgetc_healthy)
    moreover have "take (Suc pos) ?m' = take pos mem @ [c]"
      using Cons.prems(1) by (simp add: take_Suc_conv_app_nth nth_append)
    moreover have "Suc pos < length ?m'" using Cons.prems by auto
    ultimately show ?thesis
      using Cons.hyps(1) [of ?s "pos + 1" ?m'] Cons.prems False d by (simp del: length_list_update)
  qed
qed

text \<open>The callback sees the lines, until it refuses one.\<close>

fun split_lines :: "string \<Rightarrow> string list" where
  "split_lines [] = [[]]"
| "split_lines (c # cs) =
    (if c = CHR 0x0A then [] # split_lines cs
     else case split_lines cs of [] \<Rightarrow> [[c]] | l # ls \<Rightarrow> (c # l) # ls)"

fun run_lines :: "(string \<Rightarrow> 'a \<Rightarrow> int \<times> 'a) \<Rightarrow> string list \<Rightarrow> 'a \<Rightarrow> int \<times> 'a" where
  "run_lines f [] a = (0, a)"
| "run_lines f (l # ls) a = (let (r, a1) = f (c_string l) a in if r \<noteq> 0 then (- 1, a1) else run_lines f ls a1)"

lemma split_lines_unfold:
  "split_lines s = takeWhile not_nl s #
     (if dropWhile not_nl s = [] then [] else split_lines (tl (dropWhile not_nl s)))"
  by (induction s) auto

lemma c_string_nul [simp]: "c_string (xs @ CHR 0x00 # ys) = c_string xs"
  by (induction xs) (auto simp: c_string_def)

lemma readln_line:
  assumes "0 < inc" "\<forall>n. ok n" "rs_fail s = None" "\<not> rs_eof s" "\<not> rs_err s"
  shows "\<exists>mem. utility_file_readln ok fill s buffer inc = Some (0, Some mem,
      s\<lparr>rs_data := tl (dropWhile not_nl (rs_data s)), rs_eof := dropWhile not_nl (rs_data s) = []\<rparr>) \<and>
    c_string mem = c_string (takeWhile not_nl (rs_data s))"
proof -
  let ?l = "takeWhile not_nl (rs_data s)"
  obtain m0 where m0: "line_buffer ok fill buffer inc = Some m0" "0 < length m0"
    using line_buffer_nonempty [OF assms(1), of ok fill buffer] assms(2)
    by (cases "line_buffer ok fill buffer inc") (auto simp: line_buffer_def split: if_splits)
  from readln_loop_line [where ok = ok and fill = fill, OF m0(2) assms(1,2,3)] obtain mem1
    where r: "readln_loop ok fill inc m0 0 s = Some (Line, mem1, length ?l,
        s\<lparr>rs_data := tl (dropWhile not_nl (rs_data s)), rs_eof := dropWhile not_nl (rs_data s) = []\<rparr>)"
      "length ?l < length mem1" "take (length ?l) mem1 = ?l"
    using assms(4) by fastforce
  let ?mem = "mem1[length ?l := CHR 0x00]"
  have "?mem = take (length ?l) mem1 @ CHR 0x00 # drop (Suc (length ?l)) mem1"
    by (rule upd_conv_take_nth_drop [OF r(2)])
  then have "c_string ?mem = c_string ?l" using r(3) by (simp only: c_string_nul)
  moreover have "utility_file_readln ok fill s buffer inc = Some (0, Some ?mem,
      s\<lparr>rs_data := tl (dropWhile not_nl (rs_data s)), rs_eof := dropWhile not_nl (rs_data s) = []\<rparr>)"
    using r assms(4,5) m0(1) by (simp add: utility_file_readln_def)
  ultimately show ?thesis by blast
qed

lemma read_loop_lines:
  assumes "0 < inc" "\<forall>n. ok n"
  shows "rs_fail s = None \<Longrightarrow> \<not> rs_err s \<Longrightarrow>
    \<exists>s1. utility_file_read_loop ok fill inc f buffer s args =
      Some (let (r, a) = run_lines f (if rs_eof s then [] else split_lines (rs_data s)) args in (r, s1, a))"
proof (induction "length (rs_data s) + (if rs_eof s then 0 else 1)" arbitrary: s buffer args rule: less_induct)
  case less
  show ?case
  proof (cases "rs_eof s")
    case True
    then show ?thesis by (subst utility_file_read_loop.simps) (simp add: utility_file_readln_def)
  next
    case False
    define t where "t = s\<lparr>rs_data := tl (dropWhile not_nl (rs_data s)), rs_eof := dropWhile not_nl (rs_data s) = []\<rparr>"
    have t: "rs_data t = tl (dropWhile not_nl (rs_data s))" "rs_eof t = (dropWhile not_nl (rs_data s) = [])"
        "rs_fail t = rs_fail s" "rs_err t = rs_err s" by (simp_all add: t_def)
    let ?l = "takeWhile not_nl (rs_data s)"
    obtain mem where r: "utility_file_readln ok fill s buffer inc = Some (0, Some mem, t)"
      and c: "c_string mem = c_string ?l"
      using readln_line [OF assms less.prems(1) False less.prems(2)] unfolding t_def by blast
    have sh: "length (rs_data t) + (if rs_eof t then 0 else 1) < length (rs_data s) + (if rs_eof s then 0 else 1)"
      using readln_shrinks [OF r] by simp
    obtain x a1 where f: "f (c_string ?l) args = (x, a1)" by fastforce
    have lines: "split_lines (rs_data s) = ?l # (if rs_eof t then [] else split_lines (rs_data t))"
      unfolding t by (rule split_lines_unfold)
    show ?thesis
    proof (cases "x = 0")
      case True
      obtain s1 where IH: "utility_file_read_loop ok fill inc f (Some mem) t a1 =
          Some (let (r, a) = run_lines f (if rs_eof t then [] else split_lines (rs_data t)) a1 in (r, s1, a))"
        using less.hyps [OF sh, of "Some mem" a1] less.prems unfolding t by blast
      have "utility_file_read_loop ok fill inc f buffer s args = utility_file_read_loop ok fill inc f (Some mem) t a1"
        using r f c True by (subst utility_file_read_loop.simps) simp
      moreover have "run_lines f (if rs_eof s then [] else split_lines (rs_data s)) args =
          run_lines f (if rs_eof t then [] else split_lines (rs_data t)) a1"
        unfolding lines using False f True by simp
      ultimately show ?thesis using IH by auto
    next
      case x: False
      then show ?thesis using r f c False
        by (subst utility_file_read_loop.simps) (simp add: lines)
    qed
  qed
qed

section \<open>Records in binary files\<close>

text \<open>
  What the statistics files rely on: a value of fixed size, written by one \<^verbatim>\<open>fwrite\<close> and read by
  one \<^verbatim>\<open>utility_file_read_bin\<close>.
\<close>

locale byte_codec =
  fixes enc :: "'a \<Rightarrow> u8 list" and dec :: "u8 list \<Rightarrow> 'a" and sz :: nat and valid :: "'a \<Rightarrow> bool"
  assumes enc_length: "length (enc x) = sz" and dec_enc: "valid x \<Longrightarrow> dec (enc x) = x"
begin

lemma read_one:
  assumes "rs_fail s = None" "\<not> rs_eof s" "rs_data s = enc x @ rest" "valid x"
  shows "utility_file_read_bin s sz = (0, enc x, sz, s\<lparr>rs_data := rest\<rparr>)" "dec (enc x) = x"
  using assms by (simp_all add: read_bin_enough enc_length dec_enc)

lemma write_all:
  "length xs * sz \<le> ws_room w \<Longrightarrow>
   foldl (\<lambda>(ok, w) x. if ok then fwrite (enc x) w else (False, w)) (True, w) xs =
     (True, w\<lparr>ws_out := ws_out w @ concat (map enc xs), ws_room := ws_room w - length xs * sz\<rparr>)"
proof (induction xs arbitrary: w)
  case (Cons x xs)
  let ?w = "w\<lparr>ws_out := ws_out w @ enc x, ws_room := ws_room w - sz\<rparr>"
  have "fwrite (enc x) w = (True, ?w)" using Cons.prems by (simp add: fwrite_fits enc_length)
  then show ?case using Cons.IH [of ?w] Cons.prems by (simp add: algebra_simps)
qed simp

end

text \<open>An unsigned integer of \<open>k\<close> bytes in host order is such a value.\<close>

interpretation host_int: byte_codec "mem_bytes bo k" "mem_value bo" k "\<lambda>n. n < 256 ^ k" for bo k
  by unfold_locales (simp_all add: mem_value_bytes)

section \<open>Properties\<close>

text \<open>Claim C37. With a positive increment, \<^verbatim>\<open>utility_file_readln\<close> and \<^verbatim>\<open>utility_file_read\<close> never
  store outside their buffer and always return, on every stream, with every behaviour of the
  allocator and of the callback.\<close>

theorem file_reading_memory_safe:
  assumes "0 < inc"
  shows "utility_file_readln mem_ok fill s buffer inc \<noteq> None \<and>
    utility_file_read mem_ok fill s inc read_fn args \<noteq> None"
  using readln_safe [OF assms] read_loop_safe [OF assms] by (simp add: utility_file_read_def)

definition text_stream :: "string \<Rightarrow> char rstream" where
  "text_stream s = \<lparr>rs_data = s, rs_eof = False, rs_err = False, rs_fail = None\<rparr>"

theorem file_reading_memory_safe_witness:
  "utility_file_readln (\<lambda>n. n < 3) CHR ''x'' (text_stream ''abcd'') None 2 \<noteq> None"
  by (rule file_reading_memory_safe [THEN conjunct1]) simp

text \<open>On a stream without device errors, and with enough memory, \<^verbatim>\<open>utility_file_read\<close>
  passes the lines of the text to the callback in order, without their newlines and whatever
  the increment of the buffer is, until the callback returns non-zero; its own result is 0, or
  -1 in that case. A text that ends in a newline has an empty last line.\<close>

theorem file_read_passes_lines:
  assumes "0 < inc" "\<forall>n. mem_ok n" "rs_fail s = None" "\<not> rs_err s" "\<not> rs_eof s"
  shows "\<exists>s1. utility_file_read mem_ok fill s inc read_fn args =
    Some (fst (run_lines read_fn (split_lines (rs_data s)) args), s1,
          snd (run_lines read_fn (split_lines (rs_data s)) args))"
  using read_loop_lines [OF assms(1,2,3,4), of fill read_fn None args] assms(5)
  by (simp add: utility_file_read_def split_def Let_def)

theorem file_read_passes_lines_witness:
  "\<exists>s1. utility_file_read (\<lambda>_. True) CHR ''x'' (text_stream ''ab\<newline>\<newline>c\<newline>'') 1
     (\<lambda>l ls. (0, ls @ [l])) [] = Some (0, s1, [''ab'', [], ''c'', []])"
  using file_read_passes_lines [of 1 "\<lambda>_. True" "text_stream ''ab\<newline>\<newline>c\<newline>''" "CHR ''x''" "\<lambda>l ls. (0, ls @ [l])" "[]"]
  by (simp add: text_stream_def c_string_def)

text \<open>\<^verbatim>\<open>utility_file_read_bin\<close> returns 0 with all bytes, -1 at the end of the stream, -2
  with a shorter count only at the end of the stream, and -3 on a device error; it consumes
  what it stores.\<close>

lemma fread_prefix: "fread n s = (bs, s1) \<Longrightarrow> rs_data s = bs @ rs_data s1 \<and> length bs \<le> n \<and>
    (rs_err s1 \<longleftrightarrow> rs_err s \<or> length bs < n \<and> rs_err s1) \<and>
    (length bs < n \<and> \<not> rs_err s1 \<longrightarrow> rs_data s1 = [] \<and> rs_eof s1)"
proof (induction n arbitrary: s bs s1)
  case (Suc n)
  obtain r s2 where g: "fgetc s = (r, s2)" by fastforce
  show ?case
  proof (cases r)
    case None
    then show ?thesis using Suc.prems g by (auto simp: fgetc_def split: if_splits list.splits)
  next
    case (Some c)
    obtain cs s3 where f: "fread n s2 = (cs, s3)" by fastforce
    have "rs_data s = c # rs_data s2" "rs_err s2 = rs_err s"
      using g Some by (auto simp: fgetc_def split: if_splits list.splits)
    then show ?thesis using Suc.IH [OF f] Suc.prems g Some f by auto
  qed
qed simp

theorem read_bin_result:
  assumes "utility_file_read_bin s n = (rc, bs, len, s1)"
  shows "rs_data s = bs @ rs_data s1 \<and>
    (rc = 0 \<and> length bs = n \<and> len = n \<or>
     rc = - 1 \<and> rs_eof s \<and> bs = [] \<and> len = n \<or>
     rc = - 2 \<and> length bs < n \<and> len = length bs \<and> rs_data s1 = [] \<and> rs_eof s1 \<and> \<not> rs_err s1 \<or>
     rc = - 3 \<and> length bs < n \<and> len = n \<and> rs_err s1)"
proof (cases "rs_eof s")
  case True
  then show ?thesis using assms by (simp add: utility_file_read_bin_def)
next
  case False
  obtain cs s2 where f: "fread n s = (cs, s2)" by fastforce
  note fread_prefix [OF f]
  then show ?thesis using assms False f
    by (auto simp: utility_file_read_bin_def split: if_splits)
qed

theorem read_bin_result_witness:
  "\<exists>bs len s1. utility_file_read_bin \<lparr>rs_data = [1 :: nat, 2, 3], rs_eof = False, rs_err = False, rs_fail = Some 2\<rparr> 3 =
    (- 3, bs, len, s1) \<and> rs_err s1"
proof -
  let ?s = "\<lparr>rs_data = [1 :: nat, 2, 3], rs_eof = False, rs_err = False, rs_fail = Some 2\<rparr>"
  have "utility_file_read_bin ?s 3 = (- 3, [1, 2], 3, ?s\<lparr>rs_data := [3], rs_err := True, rs_fail := Some 0\<rparr>)"
    by (simp add: utility_file_read_bin_def fgetc_def eval_nat_numeral)
  from read_bin_result [OF this] this show ?thesis by auto
qed

end
