(* ===== verification/Job.thy ===== *)
theory Job
  imports Utility_File Utility_Time_Heap
begin

text \<open>
  Jobs and the log of their statistics (\<^verbatim>\<open>job.c\<close>, \<^verbatim>\<open>job.h\<close>): \<^verbatim>\<open>job_start\<close> runs the program of a
  job between two clock readings and logs them in a ring buffer, \<^verbatim>\<open>jobstats_ringbuf_save\<close> writes
  the buffer to a file oldest entry first, \<^verbatim>\<open>job_statistics_read\<close> reads the entries back, and
  \<^verbatim>\<open>job_statistics_overhead\<close> measures the overhead included in every entry.

  A ring buffer is a record whose counters are C \<^verbatim>\<open>unsigned long\<close>s. The invariant \<open>ring_log\<close> relates
  it to the list of all jobs ever logged. Storing outside the buffer is undefined (\<open>None\<close>).
\<close>

section \<open>Data\<close>

record job_statistics =
  t_begin :: timespec
  t_end :: timespec

record jobstats_ringbuf =
  ringbuf :: "job_statistics list"
  slot_count :: u64
  rb_next :: u64
  overrun_count :: u64
  overrun_disabled :: bool
  overrun :: bool
  write_count :: u64

section \<open>The ring buffer\<close>

definition zero_stats :: job_statistics where
  "zero_stats = \<lparr>t_begin = \<lparr>tv_sec = 0, tv_nsec = 0\<rparr>, t_end = \<lparr>tv_sec = 0, tv_nsec = 0\<rparr>\<rparr>"

text \<open>\<open>allocs\<close>: the outcomes of the two allocations.\<close>

definition jobstats_ringbuf_create :: "bool \<times> bool \<Rightarrow> u64 \<Rightarrow> bool \<Rightarrow> jobstats_ringbuf option" where
  "jobstats_ringbuf_create allocs slots disable_overrun =
    (if slots = 0 then None
     else if \<not> fst allocs then None
     else if \<not> snd allocs then None
     else Some \<lparr>ringbuf = replicate (unat slots) zero_stats, slot_count = slots, rb_next = 0,
            overrun_count = 0, overrun_disabled = disable_overrun, overrun = False, write_count = 0\<rparr>)"

text \<open>
  The first part of \<^verbatim>\<open>job_start\<close>: the slot \<^verbatim>\<open>stats\<close> points to, or \<open>None\<close> for the dummy, and the
  buffer with its counters advanced.
\<close>

definition claim_slot :: "jobstats_ringbuf \<Rightarrow> nat option \<times> jobstats_ringbuf" where
  "claim_slot rb =
    (let (slot, rb1) =
       (if rb_next rb = slot_count rb then
          let rb1 = (if \<not> overrun rb then rb\<lparr>overrun := True\<rparr> else rb) in
          if \<not> overrun_disabled rb1 then
            (Some 0, rb1\<lparr>rb_next := 1, overrun_count := overrun_count rb1 + 1\<rparr>)
          else (None, rb1)
        else (Some (unat (rb_next rb)), rb\<lparr>rb_next := rb_next rb + 1\<rparr>))
     in (slot, rb1\<lparr>write_count := write_count rb1 + 1\<rparr>))"

definition store_slot :: "nat option \<Rightarrow> (job_statistics \<Rightarrow> job_statistics) \<Rightarrow> jobstats_ringbuf \<Rightarrow>
    jobstats_ringbuf option" where
  "store_slot slot f rb = (case slot of None \<Rightarrow> Some rb | Some i \<Rightarrow>
     if i < length (ringbuf rb) then Some (rb\<lparr>ringbuf := (ringbuf rb)[i := f (ringbuf rb ! i)]\<rparr>) else None)"

text \<open>
  \<^verbatim>\<open>job_start\<close>. The world \<open>'w\<close> is everything outside the ring buffer: \<open>clock\<close> reads the monotonic
  clock, or fails; \<open>program\<close> is the effect of \<^verbatim>\<open>run_program(args)\<close>. A failed reading stores
  nothing, and subtracts -1 from the return code.
\<close>

definition job_start :: "('w \<Rightarrow> timespec option \<times> 'w) \<Rightarrow> ('w \<Rightarrow> 'w) \<Rightarrow> jobstats_ringbuf option \<Rightarrow> 'w \<Rightarrow>
    (int \<times> jobstats_ringbuf option \<times> 'w) option" where
  "job_start clock program stats_log w =
    (case stats_log of
       None \<Rightarrow> Some (0, None, program w)
     | Some rb \<Rightarrow>
        let (slot, rb1) = claim_slot rb; (b, w1) = clock w in do {
          rb2 \<leftarrow> (case b of Some t \<Rightarrow> store_slot slot (\<lambda>s. s\<lparr>t_begin := t\<rparr>) rb1 | None \<Rightarrow> Some rb1);
          let (e, w3) = clock (program w1) in do {
            rb3 \<leftarrow> (case e of Some t \<Rightarrow> store_slot slot (\<lambda>s. s\<lparr>t_end := t\<rparr>) rb2 | None \<Rightarrow> Some rb2);
            Some ((if b = None then 1 else 0) + (if e = None then 1 else 0), Some rb3, w3) } })"

definition jobstats_ringbuf_overrun :: "jobstats_ringbuf \<Rightarrow> bool" where
  "jobstats_ringbuf_overrun rb = (if overrun_disabled rb then overrun rb else overrun_count rb \<noteq> 0)"

definition jobstats_ringbuf_overrun_count :: "jobstats_ringbuf \<Rightarrow> u64" where
  "jobstats_ringbuf_overrun_count rb = overrun_count rb"

definition jobstats_ringbuf_overrun_disabled :: "jobstats_ringbuf \<Rightarrow> bool" where
  "jobstats_ringbuf_overrun_disabled rb = overrun_disabled rb"

definition jobstats_ringbuf_size :: "jobstats_ringbuf \<Rightarrow> u64" where
  "jobstats_ringbuf_size rb = slot_count rb"

definition jobstats_ringbuf_write_count :: "jobstats_ringbuf \<Rightarrow> u64" where
  "jobstats_ringbuf_write_count rb = write_count rb"

definition jobstats_ringbuf_oldest_pos :: "jobstats_ringbuf \<Rightarrow> u64" where
  "jobstats_ringbuf_oldest_pos rb =
    (if jobstats_ringbuf_write_count rb = 0 then 0
     else if jobstats_ringbuf_overrun_disabled rb \<or> \<not> jobstats_ringbuf_overrun rb then 1
     else jobstats_ringbuf_write_count rb - jobstats_ringbuf_size rb + 1)"

definition jobstats_ringbuf_lost_count :: "jobstats_ringbuf \<Rightarrow> u64" where
  "jobstats_ringbuf_lost_count rb =
    (if \<not> jobstats_ringbuf_overrun rb then 0
     else if jobstats_ringbuf_overrun_disabled rb
     then jobstats_ringbuf_write_count rb - jobstats_ringbuf_size rb
     else jobstats_ringbuf_oldest_pos rb - 1)"

section \<open>Saving and reading statistics\<close>

text \<open>The packed structure in memory: four 8-byte integers in host order.\<close>

definition word_bytes :: "byte_order \<Rightarrow> u64 \<Rightarrow> u8 list" where
  "word_bytes bo x = mem_bytes bo 8 (unat x)"

definition word_value :: "byte_order \<Rightarrow> u8 list \<Rightarrow> u64" where
  "word_value bo bs = of_nat (mem_value bo bs)"

definition stats_bytes :: "byte_order \<Rightarrow> job_statistics \<Rightarrow> u8 list" where
  "stats_bytes bo s =
     word_bytes bo (tv_sec (t_begin s)) @ word_bytes bo (tv_nsec (t_begin s)) @
     word_bytes bo (tv_sec (t_end s)) @ word_bytes bo (tv_nsec (t_end s))"

definition stats_of_bytes :: "byte_order \<Rightarrow> u8 list \<Rightarrow> job_statistics" where
  "stats_of_bytes bo bs =
    (let f = (\<lambda>k. word_value bo (take 8 (drop (8 * k) bs)))
     in \<lparr>t_begin = \<lparr>tv_sec = f 0, tv_nsec = f 1\<rparr>, t_end = \<lparr>tv_sec = f 2, tv_nsec = f 3\<rparr>\<rparr>)"

text \<open>
  The \<^verbatim>\<open>do ... while\<close> loop of \<^verbatim>\<open>jobstats_ringbuf_save\<close>, from a value of \<open>i\<close>. Whether it returns
  depends on the buffer, hence a partial function; reading outside the buffer is undefined too.
\<close>

partial_function (option) save_loop :: "byte_order \<Rightarrow> jobstats_ringbuf \<Rightarrow> u64 \<Rightarrow> u64 \<Rightarrow> wstream \<Rightarrow>
    (int \<times> wstream) option" where
  "save_loop bo rb end_pos i f =
    (let i1 = i mod slot_count rb in
     if unat i1 < length (ringbuf rb) then
       let (written, f1) = fwrite (stats_bytes bo (ringbuf rb ! unat i1)) f in
       if \<not> written then Some (- 1, f1)
       else if i1 + 1 \<noteq> end_pos then save_loop bo rb end_pos (i1 + 1) f1
       else Some (0, f1)
     else None)"

definition jobstats_ringbuf_save :: "byte_order \<Rightarrow> jobstats_ringbuf \<Rightarrow> wstream \<Rightarrow> (int \<times> wstream) option" where
  "jobstats_ringbuf_save bo rb f =
    (if write_count rb = 0 then Some (0, f)
     else
       let i = (if overrun_disabled rb \<or> \<not> overrun rb then 0 else rb_next rb);
           end_pos = (if \<not> overrun_disabled rb \<and> overrun rb \<and> slot_count rb = 1 then 1 else rb_next rb)
       in save_loop bo rb end_pos i f)"

text \<open>
  \<^verbatim>\<open>job_statistics_read\<close>: the return code and the new content of \<^verbatim>\<open>*stats\<close>, if it is stored.
  \<open>junk\<close> is what the uninitialised local \<^verbatim>\<open>result\<close> holds. The \<^verbatim>\<open>switch\<close> has no case for the
  return code -3 of \<^verbatim>\<open>utility_file_read_bin\<close>, which therefore continues like a success.
\<close>

definition job_statistics_read :: "byte_order \<Rightarrow> u8 list \<Rightarrow> u8 rstream \<Rightarrow> int \<times> job_statistics option \<times> u8 rstream" where
  "job_statistics_read bo junk stream =
    (let (rc, bs, len, s1) = utility_file_read_bin stream 32; result = bs @ drop (length bs) junk in
     if rc = - 2 then
       if len \<noteq> 0 then (- 2, None, s1)
       else if rs_err s1 then (- 2, None, s1)
       else (- 1, None, s1)
     else if rc = - 1 then (- 1, None, s1)
     else (0, Some (stats_of_bytes bo result), s1))"

section \<open>Accessors and overhead measurement\<close>

definition job_statistics_time_start :: "job_statistics \<Rightarrow> time_store \<Rightarrow> (time_ptr \<times> time_store) option" where
  "job_statistics_time_start s = timespec_to_utility_time_dyn (t_begin s)"

definition job_statistics_time_finish :: "job_statistics \<Rightarrow> time_store \<Rightarrow> (time_ptr \<times> time_store) option" where
  "job_statistics_time_finish s = timespec_to_utility_time_dyn (t_end s)"

text \<open>
  What the measurement thread meets: the results of \<^verbatim>\<open>lock_me_to_cpu\<close> and
  \<^verbatim>\<open>sched_fifo_enter_max\<close>, and the two readings of the clock.
\<close>

record overhead_env =
  lock_me_rc :: int
  enter_max_rc :: int
  reading_begin :: "timespec option"
  reading_end :: "timespec option"

definition overhead_measurement :: "overhead_env \<Rightarrow> int" where
  "overhead_measurement env = (if reading_begin env = None then 1 else 0) + (if reading_end env = None then 1 else 0)"

definition overhead_measurement_thread :: "overhead_env \<Rightarrow> time_store \<Rightarrow> ((int \<times> time_ptr) \<times> time_store) option" where
  "overhead_measurement_thread env h =
    (if lock_me_rc env \<noteq> 0 then Some ((- 2, None), h)
     else if enter_max_rc env = - 1 then Some ((- 1, None), h)
     else if enter_max_rc env \<noteq> 0 then Some ((- 2, None), h)
     else if overhead_measurement env \<noteq> 0 then Some ((- 2, None), h)
     else do {
       (p, h1) \<leftarrow> timespec_to_utility_time_dyn (the (reading_end env)) h;
       (q, h2) \<leftarrow> timespec_to_utility_time_dyn (the (reading_begin env)) h1;
       (r, h3) \<leftarrow> utility_time_sub_dyn_gc p q h2;
       Some ((0, r), h3) })"

text \<open>\<open>create_ok\<close>, \<open>join_ok\<close>: whether \<^verbatim>\<open>pthread_create\<close> and \<^verbatim>\<open>pthread_join\<close> succeed.\<close>

definition job_statistics_overhead :: "bool \<Rightarrow> bool \<Rightarrow> overhead_env \<Rightarrow> time_store \<Rightarrow>
    ((int \<times> time_ptr) \<times> time_store) option" where
  "job_statistics_overhead create_ok join_ok env h =
    (if \<not> create_ok then Some ((- 2, None), h)
     else do {
       ((exit_status, r), h1) \<leftarrow> overhead_measurement_thread env h;
       if \<not> join_ok then Some ((- 2, None), h1)
       else Some ((exit_status, if exit_status = 0 then r else None), h1) })"

section \<open>The ring buffer holds a window of the log\<close>

definition ring_log :: "jobstats_ringbuf \<Rightarrow> job_statistics list \<Rightarrow> bool" where
  "ring_log rb xs \<longleftrightarrow>
    (let N = unat (slot_count rb); n = length xs; q = unat (rb_next rb); buf = ringbuf rb in
     0 < N \<and> length buf = N \<and> n < 2 ^ 64 \<and> write_count rb = of_nat n \<and> (overrun rb \<longleftrightarrow> N < n) \<and>
     (if overrun_disabled rb then q = min n N \<and> take q buf = take N xs \<and> overrun_count rb = 0
      else q = (if n = 0 then 0 else (n - 1) mod N + 1) \<and> overrun_count rb = of_nat ((n - 1) div N) \<and>
        (if n \<le> N then take n buf = xs else drop q buf @ take q buf = drop (n - N) xs)))"

text \<open>The entries a buffer of \<open>N\<close> slots keeps of a log.\<close>

definition window :: "bool \<Rightarrow> nat \<Rightarrow> 'a list \<Rightarrow> 'a list" where
  "window disabled N xs = (if disabled then take N xs else drop (length xs - N) xs)"

lemma create_log:
  "jobstats_ringbuf_create allocs slots dis = Some rb \<Longrightarrow>
   ring_log rb [] \<and> slot_count rb = slots \<and> overrun_disabled rb = dis"
  by (auto simp: jobstats_ringbuf_create_def ring_log_def Let_def unat_gt_0 split: if_splits)

lemma claim_slot_eq:
  "claim_slot rb =
    (if rb_next rb = slot_count rb then
       if overrun_disabled rb then (None, rb\<lparr>overrun := True, write_count := write_count rb + 1\<rparr>)
       else (Some 0, rb\<lparr>overrun := True, rb_next := 1, overrun_count := overrun_count rb + 1,
                     write_count := write_count rb + 1\<rparr>)
     else (Some (unat (rb_next rb)), rb\<lparr>rb_next := rb_next rb + 1, write_count := write_count rb + 1\<rparr>))"
  by (cases rb) (auto simp: claim_slot_def Let_def)

lemma ring_logD:
  assumes "ring_log rb xs"
  shows "0 < unat (slot_count rb)" "length (ringbuf rb) = unat (slot_count rb)"
    "unat (rb_next rb) \<le> unat (slot_count rb)" "write_count rb = of_nat (length xs)"
    "overrun rb \<longleftrightarrow> unat (slot_count rb) < length xs" "length xs < 2 ^ 64"
  using assms by (auto simp: ring_log_def Let_def Suc_le_eq mod_less_divisor split: if_splits)

text \<open>The four ways to take a slot.\<close>

lemma log_disabled_full:
  assumes "ring_log rb xs" "overrun_disabled rb" "rb_next rb = slot_count rb" "Suc (length xs) < 2 ^ 64"
  shows "ring_log (rb\<lparr>overrun := True, write_count := write_count rb + 1\<rparr>) (xs @ [x])"
  using assms by (auto simp: ring_log_def Let_def min_def split: if_splits)

lemma mod_succ: "0 < N \<Longrightarrow> 0 < n \<Longrightarrow> (n - 1) mod N + 1 < N \<Longrightarrow> n mod N = (n - 1) mod N + 1 \<and> n div N = (n - 1) div N"
  for n N :: nat
  by (cases n) (simp_all add: mod_Suc div_Suc)

lemma mod_wrap: "0 < N \<Longrightarrow> 0 < n \<Longrightarrow> (n - 1) mod N + 1 = N \<Longrightarrow> n mod N = 0 \<and> n div N = (n - 1) div N + 1"
  for n N :: nat
  by (cases n) (simp_all add: mod_Suc div_Suc)

lemma log_wrap:
  assumes log: "ring_log rb xs" and en: "\<not> overrun_disabled rb" and full: "rb_next rb = slot_count rb"
    and n: "Suc (length xs) < 2 ^ 64"
  shows "ring_log (rb\<lparr>overrun := True, rb_next := 1, overrun_count := overrun_count rb + 1,
    write_count := write_count rb + 1, ringbuf := (ringbuf rb)[0 := x]\<rparr>) (xs @ [x])"
proof -
  let ?N = "unat (slot_count rb)" and ?n = "length xs"
  from log en full have N: "0 < ?N" "length (ringbuf rb) = ?N" "write_count rb = of_nat ?n"
    and q: "?N = (?n - 1) mod ?N + 1" "0 < ?n" "overrun_count rb = of_nat ((?n - 1) div ?N)"
    and c: "if ?n \<le> ?N then take ?n (ringbuf rb) = xs else ringbuf rb = drop (?n - ?N) xs"
    by (auto simp: ring_log_def Let_def split: if_splits)
  note m = mod_wrap [OF N(1) q(2) q(1) [symmetric]]
  have "?N \<le> ?n" using m q(2) by (metis dvd_imp_le mod_eq_0_iff_dvd)
  then have buf: "ringbuf rb = drop (?n - ?N) xs" using c N(2) by (cases "?n = ?N") auto
  obtain b bs where b: "ringbuf rb = b # bs" using N by (cases "ringbuf rb") auto
  have "drop (Suc ?n - ?N) xs = tl (drop (?n - ?N) xs)"
    using \<open>?N \<le> ?n\<close> by (simp add: Suc_diff_le drop_Suc tl_drop)
  then have "bs = drop (Suc ?n - ?N) xs" using b buf by (metis list.sel(3))
  then show ?thesis using N m q n en b \<open>?N \<le> ?n\<close>
    by (simp add: ring_log_def Let_def)
qed

lemma log_step:
  assumes log: "ring_log rb xs" and q: "rb_next rb \<noteq> slot_count rb" and n: "Suc (length xs) < 2 ^ 64"
  shows "ring_log (rb\<lparr>rb_next := rb_next rb + 1, write_count := write_count rb + 1,
    ringbuf := (ringbuf rb)[unat (rb_next rb) := x]\<rparr>) (xs @ [x])"
proof -
  let ?N = "unat (slot_count rb)" and ?n = "length xs" and ?q = "unat (rb_next rb)"
  have lt: "?q < ?N" using ring_logD(3) [OF log] q by (metis le_neq_implies_less word_unat_eq_iff)
  then have "?q < 18446744073709551615" using unat_lt64 [of "slot_count rb"] by linarith
  then have q1: "unat (rb_next rb + 1) = ?q + 1" using unat64_Suc by simp
  have take: "take (Suc ?q) ((ringbuf rb)[?q := x]) = take ?q (ringbuf rb) @ [x]"
    using lt ring_logD(2) [OF log] by (simp add: take_Suc_conv_app_nth)
  show ?thesis
  proof (cases "overrun_disabled rb")
    case True
    then show ?thesis using log n lt q1 take by (auto simp: ring_log_def Let_def)
  next
    case False
    from log have L: "?q = (if ?n = 0 then 0 else (?n - 1) mod ?N + 1)" "0 < ?N"
        "overrun_count rb = of_nat ((?n - 1) div ?N)" "length (ringbuf rb) = ?N"
        "write_count rb = of_nat ?n" "overrun rb = (?N < ?n)"
        "if ?n \<le> ?N then take ?n (ringbuf rb) = xs else drop ?q (ringbuf rb) @ take ?q (ringbuf rb) = drop (?n - ?N) xs"
      unfolding ring_log_def Let_def if_not_P [OF False] by blast+
    have m: "?n mod ?N = ?q \<and> ?n div ?N = (?n - 1) div ?N" 
      using mod_succ [OF L(2), of ?n] L(1) lt by (cases "?n = 0") auto
    show ?thesis
    proof (cases "?n < ?N")
      case True
      then have "?q = ?n" using m by simp
      then show ?thesis using L n m q1 take True False by (simp add: ring_log_def Let_def)
    next
      case ge: False
      then have "?n \<noteq> ?N" using m L(1) lt by auto
      with ge have gt: "?N < ?n" by simp
      have "drop (Suc ?q) (ringbuf rb) @ take ?q (ringbuf rb) = tl (drop ?q (ringbuf rb) @ take ?q (ringbuf rb))"
        using lt L(4) by (simp add: tl_append2 drop_Suc tl_drop)
      also have "\<dots> = drop (Suc ?n - ?N) xs" using L(7) gt by (simp add: Suc_diff_le drop_Suc tl_drop)
      finally show ?thesis using L n m q1 take gt False by (simp add: ring_log_def Let_def)
    qed
  qed
qed

text \<open>One run of a job adds one entry, whose fields are the readings that succeeded.\<close>

definition log_entry :: "timespec option \<Rightarrow> timespec option \<Rightarrow> job_statistics \<Rightarrow> job_statistics" where
  "log_entry b e s =
     (let s1 = (case b of Some t \<Rightarrow> s\<lparr>t_begin := t\<rparr> | None \<Rightarrow> s)
      in case e of Some t \<Rightarrow> s1\<lparr>t_end := t\<rparr> | None \<Rightarrow> s1)"

lemma log_entry_fields:
  "b = Some t \<Longrightarrow> t_begin (log_entry b e s) = t" "e = Some t \<Longrightarrow> t_end (log_entry b e s) = t"
  by (cases e; simp add: log_entry_def) (cases b; simp add: log_entry_def)

lemma job_start_eq:
  assumes c: "clock w = (b, w1)" "clock (program w1) = (e, w3)"
  shows "job_start clock program (Some rb) w =
    (case claim_slot rb of
       (None, rb1) \<Rightarrow> Some ((if b = None then 1 else 0) + (if e = None then 1 else 0), Some rb1, w3)
     | (Some i, rb1) \<Rightarrow>
        if b = None \<and> e = None then Some (2, Some rb1, w3)
        else if i < length (ringbuf rb1)
        then Some ((if b = None then 1 else 0) + (if e = None then 1 else 0),
          Some (rb1\<lparr>ringbuf := (ringbuf rb1)[i := log_entry b e (ringbuf rb1 ! i)]\<rparr>), w3)
        else None)"
proof -
  obtain slot rb1 where cl: "claim_slot rb = (slot, rb1)" by fastforce
  show ?thesis
    using c by (cases slot; cases b; cases e)
      (simp_all add: job_start_def cl store_slot_def log_entry_def)
qed

lemma job_start_logs:
  assumes log: "ring_log rb xs" and n: "Suc (length xs) < 2 ^ 64"
    and c: "clock w = (b, w1)" "clock (program w1) = (e, w3)"
  shows "\<exists>rb' x. job_start clock program (Some rb) w =
      Some ((if b = None then 1 else 0) + (if e = None then 1 else 0), Some rb', w3) \<and>
    ring_log rb' (xs @ [x]) \<and> slot_count rb' = slot_count rb \<and>
    overrun_disabled rb' = overrun_disabled rb \<and>
    (\<forall>t. b = Some t \<longrightarrow> t_begin x = t) \<and> (\<forall>t. e = Some t \<longrightarrow> t_end x = t)"
proof -
  note js = job_start_eq [where clock = clock and w = w and program = program, OF c]
  have upd: "r = r\<lparr>ringbuf := (ringbuf r)[i := log_entry None None (ringbuf r ! i)]\<rparr>" for r i
    by (simp add: log_entry_def)
  show ?thesis
  proof (cases "rb_next rb = slot_count rb")
    case full: True
    show ?thesis
    proof (cases "overrun_disabled rb")
      case True
      let ?x = "log_entry b e zero_stats"
      show ?thesis
        using log_disabled_full [OF log True full n, of ?x] full True
        by (intro exI [of _ "rb\<lparr>overrun := True, write_count := write_count rb + 1\<rparr>"] exI [of _ ?x])
          (simp add: js claim_slot_eq log_entry_fields)
    next
      case False
      let ?r = "rb\<lparr>overrun := True, rb_next := 1, overrun_count := overrun_count rb + 1, write_count := write_count rb + 1\<rparr>"
      let ?x = "log_entry b e (ringbuf rb ! 0)"
      have "0 < length (ringbuf rb)" using ring_logD(1,2) [OF log] by simp
      then have "job_start clock program (Some rb) w =
        Some ((if b = None then 1 else 0) + (if e = None then 1 else 0), Some (?r\<lparr>ringbuf := (ringbuf rb)[0 := ?x]\<rparr>), w3)"
        using full False upd [of ?r 0] by (auto simp: js claim_slot_eq)
      then show ?thesis using log_wrap [OF log False full n, of ?x]
        by (intro exI [of _ "?r\<lparr>ringbuf := (ringbuf rb)[0 := ?x]\<rparr>"] exI [of _ ?x]) (simp add: log_entry_fields)
    qed
  next
    case False
    let ?r = "rb\<lparr>rb_next := rb_next rb + 1, write_count := write_count rb + 1\<rparr>" and ?i = "unat (rb_next rb)"
    let ?x = "log_entry b e (ringbuf rb ! ?i)"
    have "?i \<noteq> unat (slot_count rb)" using False by (simp add: word_unat_eq_iff)
    then have "?i < length (ringbuf rb)" using ring_logD(2,3) [OF log] by simp
    then have "job_start clock program (Some rb) w =
      Some ((if b = None then 1 else 0) + (if e = None then 1 else 0), Some (?r\<lparr>ringbuf := (ringbuf rb)[?i := ?x]\<rparr>), w3)"
      using False upd [of ?r ?i] by (auto simp: js claim_slot_eq)
    then show ?thesis using log_step [OF log False n, of ?x]
      by (intro exI [of _ "?r\<lparr>ringbuf := (ringbuf rb)[?i := ?x]\<rparr>"] exI [of _ ?x]) (simp add: log_entry_fields)
  qed
qed

section \<open>Saving writes the window, oldest entry first\<close>

lemma length_stats_bytes [simp]: "length (stats_bytes bo s) = 32"
  by (simp add: stats_bytes_def word_bytes_def)

definition with_stats :: "byte_order \<Rightarrow> job_statistics list \<Rightarrow> wstream \<Rightarrow> wstream" where
  "with_stats bo xs f = f\<lparr>ws_out := ws_out f @ concat (map (stats_bytes bo) xs),
     ws_room := ws_room f - 32 * length xs\<rparr>"

lemma with_stats_simps [simp]:
  "with_stats bo [] f = f" "with_stats bo ys (with_stats bo xs f) = with_stats bo (xs @ ys) f"
  "ws_room (with_stats bo xs f) = ws_room f - 32 * length xs"
  by (simp_all add: with_stats_def algebra_simps)

lemma fwrite_stats: "32 \<le> ws_room f \<Longrightarrow> fwrite (stats_bytes bo s) f = (True, with_stats bo [s] f)"
  by (simp add: fwrite_fits with_stats_def)

lemma save_loop_slot:
  assumes N: "length (ringbuf rb) = unat (slot_count rb)" and i: "i < unat (slot_count rb)"
    and room: "32 \<le> ws_room f"
  shows "save_loop bo rb end_pos (of_nat i) f =
    (if Suc i = unat end_pos then Some (0, with_stats bo [ringbuf rb ! i] f)
     else save_loop bo rb end_pos (of_nat (Suc i)) (with_stats bo [ringbuf rb ! i] f))"
proof -
  have "Suc i < 18446744073709551616" using i unat_lt64 [of "slot_count rb"] by linarith
  then have lt: "Suc i < 2 ^ 64" by simp
  have m: "(of_nat i :: u64) mod slot_count rb = of_nat i"
    using i lt by (intro word_unat_eq_iff [THEN iffD2]) (simp add: unat_mod unat64_of_nat)
  have e: "(of_nat i + 1 = end_pos) = (Suc i = unat end_pos)"
    using unat64_of_nat [OF lt] by (simp add: word_unat_eq_iff add.commute)
  show ?thesis using i N lt e fwrite_stats [OF room, of bo "ringbuf rb ! i"]
    by (subst save_loop.simps) (simp add: m unat64_of_nat add.commute)
qed

lemma save_loop_slots:
  assumes N: "length (ringbuf rb) = unat (slot_count rb)"
  shows "i < j \<Longrightarrow> j \<le> unat (slot_count rb) \<Longrightarrow> 32 * (j - i) \<le> ws_room f \<Longrightarrow>
    (\<forall>k. i < k \<and> k < j \<longrightarrow> k \<noteq> unat end_pos) \<Longrightarrow>
    save_loop bo rb end_pos (of_nat i) f =
     (let f1 = with_stats bo (take (j - i) (drop i (ringbuf rb))) f
      in if j = unat end_pos then Some (0, f1) else save_loop bo rb end_pos (of_nat j) f1)"
proof (induction "j - i" arbitrary: i f)
  case (Suc d)
  have hd: "take (j - i) (drop i (ringbuf rb)) = ringbuf rb ! i # take (j - Suc i) (drop (Suc i) (ringbuf rb))"
    using Suc.prems(1,2) N by (simp add: Cons_nth_drop_Suc [symmetric] Suc_diff_Suc [symmetric])
  have step: "save_loop bo rb end_pos (of_nat i) f =
    (if Suc i = unat end_pos then Some (0, with_stats bo [ringbuf rb ! i] f)
     else save_loop bo rb end_pos (of_nat (Suc i)) (with_stats bo [ringbuf rb ! i] f))"
    using Suc.prems by (intro save_loop_slot [OF N]) auto
  show ?case
  proof (cases "Suc i = j")
    case True
    then show ?thesis using step hd by simp
  next
    case False
    then have "Suc i < j" "Suc i \<noteq> unat end_pos" using Suc.prems by auto
    then show ?thesis using step hd Suc.hyps(1) [of "Suc i" "with_stats bo [ringbuf rb ! i] f"] Suc.prems Suc.hyps(2)
      by (simp add: Let_def)
  qed
qed simp

lemma save_loop_mod: "save_loop bo rb end_pos (slot_count rb) f = save_loop bo rb end_pos 0 f"
  by (subst (1 2) save_loop.simps) simp

text \<open>From slot \<open>q\<close> once around to slot \<open>q\<close>.\<close>

lemma save_loop_around:
  assumes N: "length (ringbuf rb) = unat (slot_count rb)" and q: "0 < unat q" "unat q \<le> unat (slot_count rb)"
    and room: "32 * unat (slot_count rb) \<le> ws_room f"
  shows "save_loop bo rb q q f =
    Some (0, with_stats bo (drop (unat q) (ringbuf rb) @ take (unat q) (ringbuf rb)) f)"
proof -
  let ?N = "unat (slot_count rb)" and ?q = "unat q"
  let ?f = "with_stats bo (drop ?q (ringbuf rb)) f"
  have "save_loop bo rb q q f = save_loop bo rb q 0 ?f"
  proof (cases "?q = ?N")
    case True
    then have "q = slot_count rb" by (simp add: word_unat_eq_iff)
    then show ?thesis using N save_loop_mod [of bo rb q f] by simp
  next
    case False
    then have "save_loop bo rb q (of_nat ?q) f = save_loop bo rb q (of_nat ?N) ?f"
      using q room N by (subst save_loop_slots [OF N, of ?q ?N]) (auto simp: Let_def)
    then show ?thesis using save_loop_mod [of bo rb q ?f] by simp
  qed
  also have "\<dots> = Some (0, with_stats bo (take ?q (ringbuf rb)) ?f)"
    using save_loop_slots [OF N, of 0 ?q ?f q bo] q room N by (simp add: Let_def)
  finally show ?thesis by simp
qed

lemma save_correct:
  assumes log: "ring_log rb xs" and room: "32 * unat (slot_count rb) \<le> ws_room f"
  shows "jobstats_ringbuf_save bo rb f =
    Some (0, with_stats bo (window (overrun_disabled rb) (unat (slot_count rb)) xs) f)"
proof (cases "xs = []")
  case True
  then show ?thesis using ring_logD(4) [OF log] by (simp add: jobstats_ringbuf_save_def window_def)
next
  case False
  let ?N = "unat (slot_count rb)" and ?n = "length xs" and ?q = "unat (rb_next rb)"
  note D = ring_logD [OF log]
  have w: "write_count rb \<noteq> 0" using False D(4,6) by (simp add: word_unat_eq_iff unat64_of_nat)
  have end_q: "(if \<not> overrun_disabled rb \<and> overrun rb \<and> slot_count rb = 1 then 1 else rb_next rb) = rb_next rb"
    if "0 < ?q" using that D(3) by (auto simp: word_unat_eq_iff le_Suc_eq)
  show ?thesis
  proof (cases "overrun_disabled rb \<or> \<not> overrun rb")
    case True
    have q: "?q = min ?n ?N" "take ?q (ringbuf rb) = take ?N xs" "0 < ?q"
      using log True False D by (auto simp: ring_log_def Let_def split: if_splits)
    have "save_loop bo rb (rb_next rb) 0 f = Some (0, with_stats bo (take ?q (ringbuf rb)) f)"
      using save_loop_slots [OF D(2), of 0 ?q f "rb_next rb" bo] q(3) D(3) room by (simp add: Let_def)
    moreover have "take ?q (ringbuf rb) = window (overrun_disabled rb) ?N xs"
      using q True D(5) by (auto simp: window_def)
    ultimately show ?thesis using w True end_q q(3) by (simp add: jobstats_ringbuf_save_def Let_def)
  next
    case wrapped: False
    have q: "0 < ?q" "drop ?q (ringbuf rb) @ take ?q (ringbuf rb) = drop (?n - ?N) xs"
      using log wrapped D False by (auto simp: ring_log_def Let_def split: if_splits)
    then show ?thesis using save_loop_around [OF D(2) q(1) D(3) room] w wrapped end_q
      by (simp add: jobstats_ringbuf_save_def Let_def window_def)
  qed
qed

section \<open>The log as an interface\<close>

text \<open>
  What a task needs of the log of its jobs: entries can be added one after the other, and what is
  saved at the end is the window of all entries added. \<open>holds r xs\<close>: \<open>r\<close> is a log to which
  exactly \<open>xs\<close> was added.
\<close>

locale job_log =
  fixes holds :: "'r \<Rightarrow> 'x list \<Rightarrow> bool" and add :: "'x \<Rightarrow> 'r \<Rightarrow> 'r option"
    and slots :: "'r \<Rightarrow> nat" and disabled :: "'r \<Rightarrow> bool" and saves :: "'r \<Rightarrow> 'x list \<Rightarrow> bool" and cap :: nat
  assumes add_holds: "holds r xs \<Longrightarrow> length xs + 1 < cap \<Longrightarrow>
      \<exists>r'. add x r = Some r' \<and> holds r' (xs @ [x]) \<and> slots r' = slots r \<and> disabled r' = disabled r"
    and saves_window: "holds r xs \<Longrightarrow> saves r (window (disabled r) (slots r) xs)"
begin

fun add_all :: "'x list \<Rightarrow> 'r \<Rightarrow> 'r option" where
  "add_all [] r = Some r"
| "add_all (x # xs) r = do { r' \<leftarrow> add x r; add_all xs r' }"

lemma add_all_holds:
  "holds r ys \<Longrightarrow> length ys + length xs < cap \<Longrightarrow>
   \<exists>r'. add_all xs r = Some r' \<and> holds r' (ys @ xs) \<and> slots r' = slots r \<and> disabled r' = disabled r"
proof (induction xs arbitrary: r ys)
  case (Cons x xs)
  obtain r' where "add x r = Some r'" "holds r' (ys @ [x])" "slots r' = slots r" "disabled r' = disabled r"
    using add_holds [OF Cons.prems(1), of x] Cons.prems(2) by auto
  then show ?case using Cons.IH [of r' "ys @ [x]"] Cons.prems(2) by auto
qed simp

lemma add_all_saves:
  assumes "holds r []" "length xs < cap"
  shows "\<exists>r'. add_all xs r = Some r' \<and> saves r' (window (disabled r) (slots r) xs)"
  using add_all_holds [of r "[]" xs] saves_window assms by fastforce

end

definition add_entry :: "job_statistics \<Rightarrow> jobstats_ringbuf \<Rightarrow> jobstats_ringbuf option" where
  "add_entry x rb = (let (slot, rb1) = claim_slot rb in store_slot slot (\<lambda>_. x) rb1)"

definition saves_as :: "jobstats_ringbuf \<Rightarrow> job_statistics list \<Rightarrow> bool" where
  "saves_as rb ys \<longleftrightarrow> (\<forall>bo f. 32 * unat (slot_count rb) \<le> ws_room f \<longrightarrow>
     jobstats_ringbuf_save bo rb f = Some (0, with_stats bo ys f))"

lemma job_start_add_entry:
  assumes "clock w = (Some b, w1)" "clock (program w1) = (Some e, w3)"
  shows "job_start clock program (Some rb) w =
    do { rb' \<leftarrow> add_entry \<lparr>t_begin = b, t_end = e\<rparr> rb; Some (0, Some rb', w3) }"
proof -
  note js = job_start_eq [where clock = clock and w = w and program = program, OF assms]
  have "log_entry (Some b) (Some e) s = \<lparr>t_begin = b, t_end = e\<rparr>" for s by (simp add: log_entry_def)
  then show ?thesis
    by (cases "claim_slot rb") (simp add: js add_entry_def store_slot_def split: option.splits)
qed

interpretation ring: job_log ring_log add_entry "\<lambda>rb. unat (slot_count rb)" overrun_disabled saves_as "2 ^ 64"
proof
  fix rb xs and x :: job_statistics assume log: "ring_log rb xs" and n: "length xs + 1 < 2 ^ 64"
  obtain b e where x: "x = \<lparr>t_begin = b, t_end = e\<rparr>" by (cases x)
  let ?clock = "\<lambda>k :: nat. (Some (if k = 0 then b else e), Suc k)"
  from job_start_logs [of rb xs ?clock 0 "Some b" "Suc 0" id "Some e" "Suc (Suc 0)"] log n
  obtain rb' y where r: "job_start ?clock id (Some rb) 0 = Some (0, Some rb', Suc (Suc 0))"
      "ring_log rb' (xs @ [y])" "slot_count rb' = slot_count rb" "overrun_disabled rb' = overrun_disabled rb"
      "t_begin y = b" "t_end y = e" by auto
  have "y = x" using r x by simp
  moreover have "add_entry x rb = Some rb'"
    using r(1) job_start_add_entry [of ?clock 0 b 1 id e 2 rb] x
    by (cases "add_entry x rb") auto
  ultimately show "\<exists>r'. add_entry x rb = Some r' \<and> ring_log r' (xs @ [x]) \<and>
      unat (slot_count r') = unat (slot_count rb) \<and> overrun_disabled r' = overrun_disabled rb"
    using r by simp
next
  fix rb xs assume "ring_log rb xs"
  then show "saves_as rb (window (overrun_disabled rb) (unat (slot_count rb)) xs)"
    using save_correct by (simp add: saves_as_def)
qed

text \<open>A sequence of jobs, and the readings it takes.\<close>

fun run_jobs :: "('w \<Rightarrow> timespec option \<times> 'w) \<Rightarrow> ('w \<Rightarrow> 'w) list \<Rightarrow> jobstats_ringbuf option \<Rightarrow> 'w \<Rightarrow>
    (int \<times> jobstats_ringbuf option \<times> 'w) option" where
  "run_jobs clock [] log w = Some (0, log, w)"
| "run_jobs clock (p # ps) log w = do {
     (rc, log1, w1) \<leftarrow> job_start clock p log w;
     if rc \<noteq> 0 then Some (rc, log1, w1) else run_jobs clock ps log1 w1 }"

fun job_trace :: "('w \<Rightarrow> timespec option \<times> 'w) \<Rightarrow> ('w \<Rightarrow> 'w) list \<Rightarrow> 'w \<Rightarrow> job_statistics list \<times> 'w" where
  "job_trace clock [] w = ([], w)"
| "job_trace clock (p # ps) w =
    (let (b, w1) = clock w; (e, w3) = clock (p w1); (xs, w4) = job_trace clock ps w3
     in (\<lparr>t_begin = the b, t_end = the e\<rparr> # xs, w4))"

lemma run_jobs_add_all:
  assumes "\<And>w. fst (clock w) \<noteq> None"
  shows "run_jobs clock ps (Some rb) w =
    do { rb' \<leftarrow> ring.add_all (fst (job_trace clock ps w)) rb; Some (0, Some rb', snd (job_trace clock ps w)) }"
proof (induction ps arbitrary: rb w)
  case (Cons p ps)
  obtain b w1 where b: "clock w = (Some b, w1)" using assms [of w] by (cases "clock w") auto
  obtain e w3 where e: "clock (p w1) = (Some e, w3)" using assms [of "p w1"] by (cases "clock (p w1)") auto
  show ?case
    using job_start_add_entry [where clock = clock and w = w and program = p and rb = rb, OF b e] b e Cons.IH
    by (cases "add_entry \<lparr>t_begin = b, t_end = e\<rparr> rb") (auto simp: split_def Let_def)
qed simp

section \<open>Reading the entries back\<close>

lemma word_value_bytes [byte_simps]: "word_value bo (word_bytes bo x) = x"
  using unsigned_less [of x, where ?'a = nat] by (simp add: word_value_def word_bytes_def mem_value_bytes)

lemma length_word_bytes [simp]: "length (word_bytes bo x) = 8"
  by (simp add: word_bytes_def)

lemma stats_of_bytes_prefix: "stats_of_bytes bo (stats_bytes bo s @ rest) = s"
  by (simp add: stats_bytes_def stats_of_bytes_def Let_def word_value_bytes)

interpretation stats: byte_codec "stats_bytes bo" "stats_of_bytes bo" 32 "\<lambda>_. True" for bo
  using stats_of_bytes_prefix [of bo _ "[]"] by unfold_locales simp_all

lemma stats_read:
  assumes "rs_fail s = None" "\<not> rs_eof s" "rs_data s = stats_bytes bo x @ rest"
  shows "job_statistics_read bo junk s = (0, Some x, s\<lparr>rs_data := rest\<rparr>)"
  using stats.read_one [OF assms] by (simp add: job_statistics_read_def stats_of_bytes_prefix)

lemma stats_read_end:
  assumes "rs_fail s = None" "\<not> rs_eof s" "\<not> rs_err s" "rs_data s = []"
  shows "job_statistics_read bo junk s = (- 1, None, s\<lparr>rs_eof := True\<rparr>)"
  using read_bin_short [of s 32] assms by (cases s) (simp add: job_statistics_read_def)

text \<open>Reading at most \<open>n\<close> entries: the entries, the last return code and the stream left.\<close>

fun read_entries :: "byte_order \<Rightarrow> u8 list \<Rightarrow> nat \<Rightarrow> u8 rstream \<Rightarrow> job_statistics list \<times> int \<times> u8 rstream" where
  "read_entries bo junk 0 s = ([], 0, s)"
| "read_entries bo junk (Suc n) s =
    (case job_statistics_read bo junk s of
       (rc, Some x, s1) \<Rightarrow> let (xs, rc', s2) = read_entries bo junk n s1 in (x # xs, rc', s2)
     | (rc, None, s1) \<Rightarrow> ([], rc, s1))"

lemma read_back:
  "rs_fail s = None \<Longrightarrow> \<not> rs_eof s \<Longrightarrow> \<not> rs_err s \<Longrightarrow> rs_data s = concat (map (stats_bytes bo) xs) \<Longrightarrow>
   length xs < n \<Longrightarrow> read_entries bo junk n s = (xs, - 1, s\<lparr>rs_data := [], rs_eof := True\<rparr>)"
proof (induction xs arbitrary: n s)
  case Nil
  then obtain m where "n = Suc m" by (cases n) auto
  then show ?case using Nil stats_read_end [of s bo junk] by (cases s) simp
next
  case (Cons x xs)
  then obtain m where n: "n = Suc m" by (cases n) auto
  let ?s = "s\<lparr>rs_data := concat (map (stats_bytes bo) xs)\<rparr>"
  have "job_statistics_read bo junk s = (0, Some x, ?s)"
    using Cons.prems by (intro stats_read) simp_all
  then show ?case using Cons.IH [of ?s m] Cons.prems n by simp
qed

section \<open>The counters\<close>

lemma overrun_iff:
  assumes "ring_log rb xs"
  shows "jobstats_ringbuf_overrun rb \<longleftrightarrow> unat (slot_count rb) < length xs"
proof (cases "overrun_disabled rb")
  case False
  let ?N = "unat (slot_count rb)" and ?n = "length xs"
  have c: "overrun_count rb = of_nat ((?n - 1) div ?N)" "0 < ?N" "?n < 2 ^ 64"
    using assms False by (simp_all add: ring_log_def Let_def)
  then have "(?n - 1) div ?N < 2 ^ 64" by (metis div_le_dividend diff_le_self le_trans le_less_trans)
  then have "overrun_count rb = 0 \<longleftrightarrow> (?n - 1) div ?N = 0"
    using c by (simp add: word_unat_eq_iff unat64_of_nat)
  also have "\<dots> \<longleftrightarrow> \<not> ?N < ?n" using c by (cases ?n) (auto simp: div_eq_0_iff)
  finally show ?thesis using False by (simp add: jobstats_ringbuf_overrun_def)
qed (use ring_logD(5) [OF assms] in \<open>simp add: jobstats_ringbuf_overrun_def\<close>)

lemma excess:
  assumes "ring_log rb xs" "unat (slot_count rb) \<le> length xs"
  shows "write_count rb - slot_count rb = of_nat (length xs - unat (slot_count rb))"
  using ring_logD(4) [OF assms(1)] assms(2) by (simp add: of_nat_diff)

lemma counters:
  assumes log: "ring_log rb xs"
  shows "unat (jobstats_ringbuf_oldest_pos rb) =
      (if xs = [] then 0 else if overrun_disabled rb \<or> length xs \<le> unat (slot_count rb) then 1
       else length xs - unat (slot_count rb) + 1)"
    and "unat (jobstats_ringbuf_lost_count rb) = length xs - unat (slot_count rb)"
proof -
  let ?N = "unat (slot_count rb)" and ?n = "length xs"
  note D = ring_logD [OF log]
  have z: "write_count rb = 0 \<longleftrightarrow> xs = []" using D(4,6) by (simp add: word_unat_eq_iff unat64_of_nat)
  have old: "jobstats_ringbuf_oldest_pos rb = of_nat (?n - ?N + 1)" "xs \<noteq> []"
    if "?N < ?n" "\<not> overrun_disabled rb"
    using that z excess [OF log] overrun_iff [OF log]
    by (auto simp: jobstats_ringbuf_oldest_pos_def jobstats_ringbuf_write_count_def
        jobstats_ringbuf_size_def jobstats_ringbuf_overrun_disabled_def)
  have lt: "?n - ?N + 1 < 2 ^ 64" if "?N < ?n" using that D(1,6) by linarith
  show "unat (jobstats_ringbuf_oldest_pos rb) =
      (if xs = [] then 0 else if overrun_disabled rb \<or> ?n \<le> ?N then 1 else ?n - ?N + 1)"
  proof (cases "?N < ?n \<and> \<not> overrun_disabled rb")
    case True
    then show ?thesis using old unat64_of_nat [OF lt] by simp
  next
    case False
    then show ?thesis using z overrun_iff [OF log]
      by (auto simp: jobstats_ringbuf_oldest_pos_def jobstats_ringbuf_write_count_def
          jobstats_ringbuf_overrun_disabled_def)
  qed
  show "unat (jobstats_ringbuf_lost_count rb) = ?n - ?N"
  proof (cases "?N < ?n")
    case True
    then have "jobstats_ringbuf_lost_count rb = of_nat (?n - ?N)"
      using old excess [OF log] overrun_iff [OF log]
      by (simp add: jobstats_ringbuf_lost_count_def jobstats_ringbuf_overrun_disabled_def
          jobstats_ringbuf_write_count_def jobstats_ringbuf_size_def)
    then show ?thesis using unat64_of_nat [of "?n - ?N"] lt True by simp
  qed (use overrun_iff [OF log] in \<open>simp add: jobstats_ringbuf_lost_count_def\<close>)
qed

section \<open>Overhead measurement\<close>

lemma overhead_thread_eval:
  assumes "lock_me_rc env = 0" "enter_max_rc env = 0" "reading_begin env = Some b" "reading_end env = Some e"
  shows "overhead_measurement_thread env h =
    do { (r, h1) \<leftarrow> eval (Diff (Of_timespec e) (Of_timespec b)) h; Some ((0, r), h1) }"
  using assms by (simp add: overhead_measurement_thread_def overhead_measurement_def split_def)

section \<open>Properties\<close>

text \<open>Claim C8. A ring buffer that logged a sequence of jobs saves the readings of the last jobs
  that fit it, or of the first ones when overrun is disabled, oldest first; reading the saved
  bytes back with \<^verbatim>\<open>job_statistics_read\<close> gives these entries and then the end of the stream.\<close>

theorem job_log_roundtrip:
  assumes "jobstats_ringbuf_create allocs slots dis = Some rb"
    and "\<forall>w. fst (clock w) \<noteq> None" and "length programs < 2 ^ 64"
    and "32 * unat slots \<le> ws_room f" and "ws_out f = []"
    and "kept = window dis (unat slots) (fst (job_trace clock programs w))"
  shows "\<exists>rb' f'. run_jobs clock programs (Some rb) w = Some (0, Some rb', snd (job_trace clock programs w)) \<and>
    jobstats_ringbuf_save bo rb' f = Some (0, f') \<and>
    read_entries bo junk (Suc (length kept)) \<lparr>rs_data = ws_out f', rs_eof = False, rs_err = False, rs_fail = None\<rparr> =
      (kept, - 1, \<lparr>rs_data = [], rs_eof = True, rs_err = False, rs_fail = None\<rparr>)"
proof -
  let ?xs = "fst (job_trace clock programs w)"
  have rb: "ring_log rb []" "slot_count rb = slots" "overrun_disabled rb = dis"
    using create_log [OF assms(1)] by auto
  have len: "length (fst (job_trace clock ps w)) = length ps" for ps w
    by (induction ps arbitrary: w) (auto simp: split_def Let_def)
  then have "length ([] :: job_statistics list) + length ?xs < 2 ^ 64" using assms(3) by simp
  from ring.add_all_holds [OF rb(1) this] obtain rb' where r: "ring.add_all ?xs rb = Some rb'"
      "ring_log rb' ?xs" "unat (slot_count rb') = unat slots" "overrun_disabled rb' = dis"
    using rb by auto
  have "run_jobs clock programs (Some rb) w = Some (0, Some rb', snd (job_trace clock programs w))"
    using run_jobs_add_all [of clock programs rb w] assms(2) r(1) by simp
  moreover have "jobstats_ringbuf_save bo rb' f = Some (0, with_stats bo kept f)"
    using save_correct [OF r(2), of f bo] assms(4,6) r(3,4) by simp
  moreover have "ws_out (with_stats bo kept f) = concat (map (stats_bytes bo) kept)"
    using assms(5) by (simp add: with_stats_def)
  ultimately show ?thesis
    using read_back [of "\<lparr>rs_data = concat (map (stats_bytes bo) kept), rs_eof = False, rs_err = False, rs_fail = None\<rparr>"
        bo kept "Suc (length kept)" junk] by auto
qed

definition tick :: "nat \<Rightarrow> timespec option \<times> nat" where
  "tick k = (Some \<lparr>tv_sec = of_nat k, tv_nsec = 0\<rparr>, Suc k)"

theorem job_log_roundtrip_witness:
  "\<exists>rb rb' f'. jobstats_ringbuf_create (True, True) 1 False = Some rb \<and>
    run_jobs tick [id, Suc] (Some rb) 0 = Some (0, Some rb', 5) \<and>
    jobstats_ringbuf_save CPU_LITTLE_ENDIAN rb' \<lparr>ws_out = [], ws_room = 99, ws_close_ok = True\<rparr> = Some (0, f')"
proof -
  obtain rb where rb: "jobstats_ringbuf_create (True, True) 1 False = Some rb"
    by (simp add: jobstats_ringbuf_create_def)
  from job_log_roundtrip [OF rb, of tick "[id, Suc]" "\<lparr>ws_out = [], ws_room = 99, ws_close_ok = True\<rparr>" _ 0
      CPU_LITTLE_ENDIAN "[]"]
  have "\<exists>rb' f'. run_jobs tick [id, Suc] (Some rb) 0 = Some (0, Some rb', 5) \<and>
      jobstats_ringbuf_save CPU_LITTLE_ENDIAN rb' \<lparr>ws_out = [], ws_room = 99, ws_close_ok = True\<rparr> = Some (0, f')"
    by (auto simp: tick_def)
  with rb show ?thesis by blast
qed

text \<open>Claim C34. \<^verbatim>\<open>job_start\<close> on a well-formed buffer never stores outside it and always adds one
  entry, also when a reading of the clock fails: the fields whose readings succeeded are logged.
  Its return code counts the failed readings, and is therefore positive on failure.\<close>

theorem job_start_logs_one_entry:
  assumes "ring_log rb xs" "Suc (length xs) < 2 ^ 64"
    and "clock w = (b, w1)" "clock (program w1) = (e, w3)"
  shows "\<exists>rb' x. job_start clock program (Some rb) w =
      Some ((if b = None then 1 else 0) + (if e = None then 1 else 0), Some rb', w3) \<and>
    ring_log rb' (xs @ [x]) \<and> slot_count rb' = slot_count rb \<and>
    (\<forall>t. b = Some t \<longrightarrow> t_begin x = t) \<and> (\<forall>t. e = Some t \<longrightarrow> t_end x = t)"
  using job_start_logs [where clock = clock and w = w and program = program, OF assms] by blast

theorem job_start_logs_one_entry_witness:
  "\<exists>rb rb' x. job_start (\<lambda>k. (if k = 0 then None else fst (tick k), Suc k)) id (Some rb) 0 = Some (1, Some rb', 2) \<and>
     ring_log rb' [x]"
proof -
  obtain rb where "jobstats_ringbuf_create (True, True) 1 False = Some rb"
    by (simp add: jobstats_ringbuf_create_def)
  then have "ring_log rb []" using create_log by blast
  from job_start_logs_one_entry [OF this, of "\<lambda>k. (if k = 0 then None else fst (tick k), Suc k)" 0 None 1 id "fst (tick 1)" 2]
  show ?thesis by (auto simp: tick_def)
qed

text \<open>For a buffer that logged a list of jobs: it reports overrun iff there were more
  jobs than slots, the position of the oldest saved job is that of the first entry of the saved
  window, and the lost count is the number of jobs that are not saved. The arithmetic does not
  wrap.\<close>

theorem ring_counters_exact:
  assumes "ring_log rb xs"
  shows "jobstats_ringbuf_overrun rb = (unat (slot_count rb) < length xs) \<and>
    unat (jobstats_ringbuf_write_count rb) = length xs \<and>
    unat (jobstats_ringbuf_lost_count rb) =
      length xs - length (window (overrun_disabled rb) (unat (slot_count rb)) xs) \<and>
    (xs = [] \<longrightarrow> jobstats_ringbuf_oldest_pos rb = 0) \<and>
    (xs \<noteq> [] \<longrightarrow> 0 < jobstats_ringbuf_oldest_pos rb \<and>
      hd (window (overrun_disabled rb) (unat (slot_count rb)) xs) = xs ! (unat (jobstats_ringbuf_oldest_pos rb) - 1))"
proof -
  note D = ring_logD [OF assms] and C = counters [OF assms]
  have "unat (jobstats_ringbuf_write_count rb) = length xs"
    using D(4,6) by (simp add: jobstats_ringbuf_write_count_def unat64_of_nat)
  moreover have "jobstats_ringbuf_oldest_pos rb = 0" if "xs = []"
    using C(1) that by (simp add: word_unat_eq_iff)
  moreover have "0 < jobstats_ringbuf_oldest_pos rb" if "xs \<noteq> []"
    using C(1) that by (auto simp: unat_gt_0 [symmetric] word_gt_0 word_unat_eq_iff split: if_splits)
  moreover have "hd (window (overrun_disabled rb) (unat (slot_count rb)) xs) =
      xs ! (unat (jobstats_ringbuf_oldest_pos rb) - 1)" if "xs \<noteq> []"
    using C(1) D(1) that by (auto simp: window_def hd_drop_conv_nth hd_conv_nth)
  moreover have "unat (jobstats_ringbuf_lost_count rb) =
      length xs - length (window (overrun_disabled rb) (unat (slot_count rb)) xs)"
    using C(2) by (auto simp: window_def min_def)
  ultimately show ?thesis using overrun_iff [OF assms] by simp
qed

theorem ring_counters_exact_witness:
  "\<exists>rb. jobstats_ringbuf_create (True, True) 3 True = Some rb \<and> unat (jobstats_ringbuf_lost_count rb) = 0"
proof -
  obtain rb where rb: "jobstats_ringbuf_create (True, True) 3 True = Some rb"
    by (simp add: jobstats_ringbuf_create_def)
  from ring_counters_exact [of rb "[]"] create_log [OF rb] rb show ?thesis by auto
qed

text \<open>When the device fails while an entry is read, \<^verbatim>\<open>job_statistics_read\<close> returns 0
  with an entry made of the bytes read so far and of uninitialised memory, instead of -2; and so
  does every later call on the failed stream, so that reading until a non-zero result never
  ends.\<close>

lemma read_failed_stream:
  assumes "rs_fail s = Some k" "k < 32" "k \<le> length (rs_data s)" "\<not> rs_eof s"
  shows "job_statistics_read bo junk s =
    (0, Some (stats_of_bytes bo (take k (rs_data s) @ drop k junk)),
     s\<lparr>rs_data := drop k (rs_data s), rs_err := True, rs_fail := Some 0\<rparr>)"
  using assms fread_fails [OF assms(1-3)]
  by (simp add: job_statistics_read_def utility_file_read_bin_def min_def)

theorem job_statistics_read_device_error:
  assumes "rs_fail s = Some k" "k < 32" "k \<le> length (rs_data s)" "\<not> rs_eof s"
  shows "\<exists>s1. job_statistics_read bo junk s =
      (0, Some (stats_of_bytes bo (take k (rs_data s) @ drop k junk)), s1) \<and>
    (\<forall>n. read_entries bo junk n s1 = (replicate n (stats_of_bytes bo junk), 0, s1))"
proof -
  let ?s = "s\<lparr>rs_data := drop k (rs_data s), rs_err := True, rs_fail := Some 0\<rparr>"
  have "job_statistics_read bo junk ?s = (0, Some (stats_of_bytes bo junk), ?s)"
    using read_failed_stream [of ?s 0] assms(4) by simp
  then have "read_entries bo junk n ?s = (replicate n (stats_of_bytes bo junk), 0, ?s)" for n
    by (induction n) simp_all
  then show ?thesis using read_failed_stream [OF assms] by blast
qed

theorem job_statistics_read_device_error_witness:
  "fst (job_statistics_read CPU_BIG_ENDIAN (replicate 32 9) \<lparr>rs_data = [7, 7], rs_eof = False, rs_err = False, rs_fail = Some 1\<rparr>) = 0"
  using job_statistics_read_device_error
    [of "\<lparr>rs_data = [7, 7], rs_eof = False, rs_err = False, rs_fail = Some 1\<rparr>" 1 CPU_BIG_ENDIAN "replicate 32 9"]
  by auto

text \<open>When the measurement thread gets its CPU, its priority, both readings and its
  memory, \<^verbatim>\<open>job_statistics_overhead\<close> returns 0 and one new object holding the time between the
  readings; every other object is as before. Without the privilege it returns -1 and no object,
  and on every other failure of these -2 and no object.\<close>

theorem overhead_measured:
  assumes "store_ok h" "all_ok h 3"
    and "\<forall>b. reading_begin env = Some b \<longrightarrow> time_ok (dynobj b)"
    and "\<forall>e. reading_end env = Some e \<longrightarrow> time_ok (dynobj e)"
  shows "\<exists>rc r h'. job_statistics_overhead True True env h = Some ((rc, r), h') \<and>
    (rc = 0 \<longrightarrow> (\<exists>a u. r = Some a \<and> a \<notin> heap_objs h \<and> heap_objs h' = insert a (heap_objs h) \<and>
       cells h' = (cells h)(a \<mapsto> u) \<and>
       ns_of u = max 0 (ns_of (dynobj (the (reading_end env))) - ns_of (dynobj (the (reading_begin env)))))) \<and>
    (rc \<noteq> 0 \<longrightarrow> r = None \<and> h' = h) \<and>
    (rc = 0 \<longleftrightarrow> lock_me_rc env = 0 \<and> enter_max_rc env = 0 \<and> reading_begin env \<noteq> None \<and> reading_end env \<noteq> None) \<and>
    (rc = - 1 \<longleftrightarrow> lock_me_rc env = 0 \<and> enter_max_rc env = - 1) \<and> rc \<in> {0, - 1, - 2}"
proof (cases "lock_me_rc env = 0 \<and> enter_max_rc env = 0 \<and> reading_begin env \<noteq> None \<and> reading_end env \<noteq> None")
  case False
  then show ?thesis
    by (auto simp: job_statistics_overhead_def overhead_measurement_thread_def overhead_measurement_def)
next
  case True
  then obtain b e where be: "reading_begin env = Some b" "reading_end env = Some e" by auto
  let ?e = "Diff (Of_timespec e) (Of_timespec b)"
  have "mallocs ?e = 3" by simp
  then have pre: "needs_ok (cells h) ?e" "all_ok h (mallocs ?e)" "mallocs ?e \<noteq> 0"
    using assms(2) by (simp_all add: numeral_3_eq_3)
  obtain a h1 where ev: "eval ?e h = Some (Some a, h1)" "a \<notin> heap_objs h"
      "cells h1 = (cells h)(a \<mapsto> dynobj (expr_value (cells h) ?e))" "heap_objs h1 = insert a (heap_objs h)"
    by (rule eval_new [OF assms(1) pre])
  have "expr_fits (cells h) ?e" using assms(3,4) be by simp
  from expr_value_ns [OF this] have ns: "ns_of (dynobj (expr_value (cells h) ?e)) =
      max 0 (ns_of (dynobj e) - ns_of (dynobj b))" by simp
  have "overhead_measurement_thread env h = Some ((0, Some a), h1)"
    using overhead_thread_eval [OF _ _ be] True ev(1) by (simp del: eval.simps)
  then have "job_statistics_overhead True True env h = Some ((0, Some a), h1)"
    by (simp add: job_statistics_overhead_def)
  moreover have "\<exists>u. cells h1 = (cells h)(a \<mapsto> u) \<and> ns_of u = max 0 (ns_of (dynobj e) - ns_of (dynobj b))"
    using ev(3) ns by blast
  ultimately show ?thesis using ev be True by auto
qed

definition env0 :: overhead_env where
  "env0 = \<lparr>lock_me_rc = 0, enter_max_rc = 0, reading_begin = Some \<lparr>tv_sec = 1, tv_nsec = 5\<rparr>,
     reading_end = Some \<lparr>tv_sec = 1, tv_nsec = 905\<rparr>\<rparr>"

theorem overhead_measured_witness:
  "\<exists>a h' u. job_statistics_overhead True True env0 (store0 (\<lambda>_. True)) = Some ((0, Some a), h') \<and>
     cells h' a = Some u \<and> ns_of u = 900"
proof -
  have t: "time_ok (dynobj \<lparr>tv_sec = 1, tv_nsec = 5\<rparr>)" "time_ok (dynobj \<lparr>tv_sec = 1, tv_nsec = 905\<rparr>)"
    "ns_of (dynobj \<lparr>tv_sec = 1, tv_nsec = 5\<rparr>) = 1000000005" "ns_of (dynobj \<lparr>tv_sec = 1, tv_nsec = 905\<rparr>) = 1000000905"
    by (simp_all add: time_ok_def ns_of_def)
  show ?thesis
    using overhead_measured [of "store0 (\<lambda>_. True)" env0] t
    by (fastforce simp: env0_def all_ok_def)
qed

end
