(* ===== verification/Task.thy ===== *)
theory Task
  imports Job
begin

text \<open>
  Tasks and their statistics files (\<^verbatim>\<open>task.c\<close>, \<^verbatim>\<open>task.h\<close>): creation, with the header it writes to
  the file, destruction, the handlers that flush the ring buffer and close the file when a task
  ends, and the deserialisation of a file by \<^verbatim>\<open>task_statistics_read\<close>. How a task releases its
  jobs is the subject of theory \<open>Task_Run\<close>.

  A file is a 66-byte header, the name of the task, three counters unless the statistics of the
  jobs are disabled, and the 32-byte entries of the jobs.
\<close>

section \<open>The statistics on disk\<close>

text \<open>\<^verbatim>\<open>enum byte_order\<close> and \<^verbatim>\<open>host_byte_order\<close>: the first byte of \<^verbatim>\<open>0xBEEF\<close> in memory decides.\<close>

definition byte_order_code :: "byte_order \<Rightarrow> u8" where
  "byte_order_code bo = (case bo of CPU_LITTLE_ENDIAN \<Rightarrow> 0 | CPU_BIG_ENDIAN \<Rightarrow> 1)"

definition host_byte_order :: "byte_order \<Rightarrow> u8" where
  "host_byte_order bo =
    (if mem_bytes bo 4 0xBEEF ! 0 = 0xEF then byte_order_code CPU_LITTLE_ENDIAN
     else byte_order_code CPU_BIG_ENDIAN)"

type_synonym stats_time = "u32 \<times> u32"

record task_statistics =
  ts_byte_order :: u8
  sizeof_tv_sec :: u8
  sizeof_tv_nsec :: u8
  sizeof_unsigned_long :: u8
  ts_aperiodic :: u8
  job_statistics_disabled :: u8
  ts_wcet :: stats_time
  ts_period :: stats_time
  ts_deadline :: stats_time
  ts_t_0 :: stats_time
  ts_offset :: stats_time
  ts_job_statistics_overhead :: stats_time
  ts_finish_to_start_overhead :: stats_time
  name_len :: u32

definition time_bytes :: "byte_order \<Rightarrow> stats_time \<Rightarrow> u8 list" where
  "time_bytes bo t = mem_bytes bo 4 (unat (fst t)) @ mem_bytes bo 4 (unat (snd t))"

definition u32_value :: "byte_order \<Rightarrow> u8 list \<Rightarrow> u32" where
  "u32_value bo bs = of_nat (mem_value bo bs)"

text \<open>The packed structure, without the flexible array \<^verbatim>\<open>name\<close>.\<close>

definition task_stats_bytes :: "byte_order \<Rightarrow> task_statistics \<Rightarrow> u8 list" where
  "task_stats_bytes bo s =
     [ts_byte_order s, sizeof_tv_sec s, sizeof_tv_nsec s, sizeof_unsigned_long s,
      ts_aperiodic s, job_statistics_disabled s] @
     time_bytes bo (ts_wcet s) @ time_bytes bo (ts_period s) @ time_bytes bo (ts_deadline s) @
     time_bytes bo (ts_t_0 s) @ time_bytes bo (ts_offset s) @
     time_bytes bo (ts_job_statistics_overhead s) @ time_bytes bo (ts_finish_to_start_overhead s) @
     mem_bytes bo 4 (unat (name_len s))"

definition task_stats_of_bytes :: "byte_order \<Rightarrow> u8 list \<Rightarrow> task_statistics" where
  "task_stats_of_bytes bo bs =
    (let f = (\<lambda>k. u32_value bo (take 4 (drop (6 + 4 * k) bs)))
     in \<lparr>ts_byte_order = bs ! 0, sizeof_tv_sec = bs ! 1, sizeof_tv_nsec = bs ! 2,
         sizeof_unsigned_long = bs ! 3, ts_aperiodic = bs ! 4, job_statistics_disabled = bs ! 5,
         ts_wcet = (f 0, f 1), ts_period = (f 2, f 3), ts_deadline = (f 4, f 5), ts_t_0 = (f 6, f 7),
         ts_offset = (f 8, f 9), ts_job_statistics_overhead = (f 10, f 11),
         ts_finish_to_start_overhead = (f 12, f 13), name_len = f 14\<rparr>)"

text \<open>\<^verbatim>\<open>task_statistics_ringbuf\<close>.\<close>

record task_statistics_ringbuf =
  rp_oldest_job_pos :: u64
  rp_lost_job_count :: u64
  rp_write_count :: u64

definition ringbuf_params_bytes :: "byte_order \<Rightarrow> task_statistics_ringbuf \<Rightarrow> u8 list" where
  "ringbuf_params_bytes bo r =
     word_bytes bo (rp_oldest_job_pos r) @ word_bytes bo (rp_lost_job_count r) @ word_bytes bo (rp_write_count r)"

definition ringbuf_params_of_bytes :: "byte_order \<Rightarrow> u8 list \<Rightarrow> task_statistics_ringbuf" where
  "ringbuf_params_of_bytes bo bs =
    (let f = (\<lambda>k. word_value bo (take 8 (drop (8 * k) bs)))
     in \<lparr>rp_oldest_job_pos = f 0, rp_lost_job_count = f 1, rp_write_count = f 2\<rparr>)"

definition name_bytes :: "string \<Rightarrow> u8 list" where
  "name_bytes s = map (\<lambda>c. of_nat (of_char c)) s"

definition name_of_bytes :: "u8 list \<Rightarrow> string" where
  "name_of_bytes bs = map (\<lambda>b. char_of (unat b)) bs"

section \<open>Tasks\<close>

text \<open>
  \<^verbatim>\<open>FILE *stats_log\<close>: NULL, an open stream, or a pointer that is not NULL although the stream was
  closed (with an error).
\<close>

datatype log_file = No_log | Open_log wstream | Closed_log wstream

record task =
  tk_name :: string
  wcet :: utility_time
  period :: utility_time
  tk_deadline :: utility_time
  t_0 :: utility_time
  tk_offset :: utility_time
  next_release_time :: timespec
  scratch :: utility_time
  aperiodic :: bool
  inside_aperiodic_release :: bool
  stats_log :: log_file
  fail_to_close_stats_log :: int
  stats_log_path :: "string option"
  disable_job_statistics :: bool
  stats_ringbuf :: "jobstats_ringbuf option"
  oldest_job_pos :: u64
  lost_job_count :: u64
  tk_write_count :: u64
  tk_finish_to_start_overhead :: utility_time
  tk_job_statistics_overhead :: utility_time

section \<open>Creation\<close>

text \<open>The outcomes of the allocations, in the order of the code.\<close>

record create_env =
  ok_task_stats :: bool
  ok_task :: bool
  ok_name :: bool
  ok_path :: bool
  ok_ringbuf :: "bool \<times> bool"

text \<open>\<^verbatim>\<open>arg_to_task_and_task_stats\<close>: the object made of an argument, and its serialised form.\<close>

definition stats_time_of :: "timespec \<Rightarrow> stats_time" where
  "stats_time_of t = (ucast (tv_sec t), ucast (tv_nsec t))"

definition take_arg :: "time_ptr \<Rightarrow> time_store \<Rightarrow> (utility_time \<times> time_store) option" where
  "take_arg = read_gc (\<lambda>u. utility_time_to_utility_time u utility_time_init)"

text \<open>
  \<^verbatim>\<open>to_timespec_gc(utility_time_add_dyn(&result->t_0, &result->offset), ...)\<close>; the operands are
  members of the task, outside the store.
\<close>

definition first_release :: "utility_time \<Rightarrow> utility_time \<Rightarrow> time_store \<Rightarrow> (timespec \<times> time_store) option" where
  "first_release a b h = do {
     (p, h1) \<leftarrow> fill_dyn (\<lambda>p h. do { u \<leftarrow> load p h; store p (utility_time_add a b u) h }) h;
     to_timespec_gc p h1 }"

text \<open>
  \<^verbatim>\<open>task_create\<close>: the return code and the task, if any. Undefined behaviour (\<open>None\<close>) includes the
  reading of members of the fresh object before they are set, on the path to \<^verbatim>\<open>error\<close>:
  \<^verbatim>\<open>stats_log\<close> when an allocation of a name fails, \<^verbatim>\<open>stats_ringbuf\<close> when the file cannot be
  opened. \<open>periodic_release\<close> is whether \<^verbatim>\<open>aperiodic_release\<close> is NULL.
\<close>

definition task_create :: "byte_order \<Rightarrow> create_env \<Rightarrow> fsys \<Rightarrow> string \<Rightarrow> time_ptr \<Rightarrow> time_ptr \<Rightarrow> time_ptr \<Rightarrow>
    time_ptr \<Rightarrow> time_ptr \<Rightarrow> bool \<Rightarrow> string \<Rightarrow> u64 \<Rightarrow> bool \<Rightarrow> time_ptr \<Rightarrow> time_ptr \<Rightarrow> time_store \<Rightarrow>
    ((int \<times> task option) \<times> time_store) option" where
  "task_create bo env fs name a_wcet a_period a_deadline a_t_0 a_offset is_aperiodic path
     ringbuffer_size disable_overrun a_jso a_fso h =
    (if \<not> ok_task_stats env then Some ((- 1, None), h)
     else if \<not> ok_task env then Some ((- 1, None), h)
     else if \<not> ok_name env then None
     else if \<not> ok_path env then None
     else case utility_file_open_for_writing_bin fs path of
       None \<Rightarrow> None
     | Some log \<Rightarrow>
        let disabled = (ringbuffer_size = 0);
            rb = (if disabled then None else jobstats_ringbuf_create (ok_ringbuf env) ringbuffer_size disable_overrun)
        in if \<not> disabled \<and> rb = None then Some ((- 1, None), h)
        else do {
          (w, h) \<leftarrow> take_arg a_wcet h;
          (p, h) \<leftarrow> take_arg a_period h;
          (d, h) \<leftarrow> take_arg a_deadline h;
          (t0, h) \<leftarrow> take_arg a_t_0 h;
          (off, h) \<leftarrow> take_arg a_offset h;
          (first, h) \<leftarrow> first_release t0 off h;
          (jso, h) \<leftarrow> take_arg a_jso h;
          (fso, h) \<leftarrow> take_arg a_fso h;
          let st = \<lparr>ts_byte_order = host_byte_order bo, sizeof_tv_sec = 8, sizeof_tv_nsec = 8,
                    sizeof_unsigned_long = 8,
                    ts_aperiodic = (if is_aperiodic then 1 else 0),
                    job_statistics_disabled = (if disabled then 1 else 0),
                    ts_wcet = stats_time_of (ut_t w), ts_period = stats_time_of (ut_t p),
                    ts_deadline = stats_time_of (ut_t d), ts_t_0 = stats_time_of (ut_t t0),
                    ts_offset = stats_time_of (ut_t off),
                    ts_job_statistics_overhead = stats_time_of (ut_t jso),
                    ts_finish_to_start_overhead = stats_time_of (ut_t fso),
                    name_len = of_nat (length name)\<rparr>;
              (written, log1) = fwrite (task_stats_bytes bo st @ name_bytes name) log in
          if \<not> written then Some ((- 1, None), h)
          else Some ((0, Some \<lparr>tk_name = name, wcet = w, period = p, tk_deadline = d, t_0 = t0,
            tk_offset = off, next_release_time = first, scratch = utility_time_init,
            aperiodic = is_aperiodic, inside_aperiodic_release = False, stats_log = Open_log log1,
            fail_to_close_stats_log = 0, stats_log_path = Some path, disable_job_statistics = disabled,
            stats_ringbuf = rb, oldest_job_pos = 0, lost_job_count = 0, tk_write_count = 0,
            tk_finish_to_start_overhead = fso, tk_job_statistics_overhead = jso\<rparr>), h) })"

section \<open>End of a task\<close>

text \<open>
  \<^verbatim>\<open>close_logging_file\<close>: the task, and the file that is complete on disk if one was closed. When
  \<^verbatim>\<open>fclose\<close> fails, the pointer is kept although the stream is gone.
\<close>

definition close_logging_file :: "task \<Rightarrow> (task \<times> u8 list option) option" where
  "close_logging_file tau =
    (case stats_log tau of
       No_log \<Rightarrow> Some (tau, None)
     | Closed_log w \<Rightarrow> None
     | Open_log w \<Rightarrow>
        if utility_file_close w \<noteq> 0
        then Some (tau\<lparr>fail_to_close_stats_log := fail_to_close_stats_log tau + 1, stats_log := Closed_log w\<rparr>, None)
        else Some (tau\<lparr>stats_log := No_log, stats_log_path := None\<rparr>, Some (ws_out w)))"

definition flush_stats_ringbuf :: "byte_order \<Rightarrow> task \<Rightarrow> task option" where
  "flush_stats_ringbuf bo tau =
    (case stats_ringbuf tau of
       None \<Rightarrow> Some tau
     | Some rb \<Rightarrow>
        if disable_job_statistics tau then Some tau
        else
          let tau1 = tau\<lparr>oldest_job_pos := jobstats_ringbuf_oldest_pos rb,
                         lost_job_count := jobstats_ringbuf_lost_count rb,
                         tk_write_count := jobstats_ringbuf_write_count rb\<rparr> in
          (case stats_log tau1 of
             No_log \<Rightarrow> Some (tau1\<lparr>stats_ringbuf := None\<rparr>)
           | Closed_log w \<Rightarrow> None
           | Open_log w \<Rightarrow>
              let preamble = \<lparr>rp_oldest_job_pos = oldest_job_pos tau1, rp_lost_job_count = lost_job_count tau1,
                              rp_write_count = tk_write_count tau1\<rparr>;
                  (written, w1) = fwrite (ringbuf_params_bytes bo preamble) w in
              if \<not> written
              then Some (tau1\<lparr>fail_to_close_stats_log := fail_to_close_stats_log tau1 + 1,
                              stats_log := Open_log w1, stats_ringbuf := None\<rparr>)
              else do {
                (rc, w2) \<leftarrow> jobstats_ringbuf_save bo rb w1;
                Some (tau1\<lparr>fail_to_close_stats_log := fail_to_close_stats_log tau1 - rc,
                           stats_log := Open_log w2, stats_ringbuf := None\<rparr>) }))"

text \<open>\<^verbatim>\<open>task_destroy\<close>: undefined when the log was already closed.\<close>

definition task_destroy :: "task \<Rightarrow> unit option" where
  "task_destroy tau = (case stats_log tau of Closed_log _ \<Rightarrow> None | _ \<Rightarrow> Some ())"

section \<open>Deserialisation\<close>

definition time_of_stats :: "stats_time \<Rightarrow> utility_time" where
  "time_of_stats t =
     timespec_to_utility_time \<lparr>tv_sec = ucast (fst t), tv_nsec = ucast (snd t)\<rparr> utility_time_init"

text \<open>
  The loop over the jobs; it does not return when \<^verbatim>\<open>job_statistics_read\<close> never does anything but
  succeed.
\<close>

partial_function (option) read_jobs_loop :: "byte_order \<Rightarrow> u8 list \<Rightarrow> (job_statistics \<Rightarrow> 'a \<Rightarrow> int \<times> 'a) \<Rightarrow>
    u8 rstream \<Rightarrow> 'a \<Rightarrow> (int \<times> u8 rstream \<times> 'a) option" where
  "read_jobs_loop bo junk job_fn s args =
    (case job_statistics_read bo junk s of
       (rc, stats, s1) \<Rightarrow>
        if rc = 0 then
          (case job_fn (the stats) args of
             (r, args1) \<Rightarrow> if r \<noteq> 0 then Some (- 2, s1, args1) else read_jobs_loop bo junk job_fn s1 args1)
        else if rc = - 1 then Some (0, s1, args)
        else Some (- 3, s1, args))"

text \<open>
  \<^verbatim>\<open>task_statistics_read\<close>: the exit code, the stream and the argument object of the two callbacks.
  \<open>junk_task\<close> holds the members of the local task object that are not set, \<open>name_ok\<close> whether a
  block of a given size can be allocated for the name. The size is computed in 32 bits: for the
  greatest length the block is empty and the first byte read overflows it.
\<close>

definition task_statistics_read :: "byte_order \<Rightarrow> u8 list \<Rightarrow> task \<Rightarrow> (nat \<Rightarrow> bool) \<Rightarrow> u8 rstream \<Rightarrow>
    (task \<Rightarrow> 'a \<Rightarrow> int \<times> 'a) \<Rightarrow> (job_statistics \<Rightarrow> 'a \<Rightarrow> int \<times> 'a) \<Rightarrow> 'a \<Rightarrow> (int \<times> u8 rstream \<times> 'a) option" where
  "task_statistics_read bo junk junk_task name_ok s task_fn job_fn args =
    (if rs_eof s then Some (- 4, s, args)
     else let (bs, s) = fread 66 s in
     if length bs \<noteq> 66 then
       if rs_err s then Some (- 3, s, args)
       else if bs = [] \<and> rs_eof s then Some (- 4, s, args)
       else Some (- 3, s, args)
     else let st = task_stats_of_bytes bo bs in
     if ts_byte_order st \<noteq> host_byte_order bo then Some (- 3, s, args)
     else if sizeof_tv_sec st \<noteq> 8 then Some (- 3, s, args)
     else if sizeof_tv_nsec st \<noteq> 8 then Some (- 3, s, args)
     else if sizeof_unsigned_long st \<noteq> 8 then Some (- 3, s, args)
     else if \<not> name_ok (unat (name_len st + 1)) then Some (- 3, s, args)
     else let (nm, s) = fread (unat (name_len st)) s in
     if name_len st + 1 = 0 \<and> nm \<noteq> [] then None
     else if length nm \<noteq> unat (name_len st) then Some (- 3, s, args)
     else
       let tau = junk_task\<lparr>tk_name := name_of_bytes nm,
             aperiodic := ts_aperiodic st \<noteq> 0, disable_job_statistics := job_statistics_disabled st \<noteq> 0,
             wcet := time_of_stats (ts_wcet st), period := time_of_stats (ts_period st),
             tk_deadline := time_of_stats (ts_deadline st), t_0 := time_of_stats (ts_t_0 st),
             tk_offset := time_of_stats (ts_offset st),
             tk_job_statistics_overhead := time_of_stats (ts_job_statistics_overhead st),
             tk_finish_to_start_overhead := time_of_stats (ts_finish_to_start_overhead st),
             stats_ringbuf := None\<rparr> in
       if disable_job_statistics tau then
         let tau = tau\<lparr>oldest_job_pos := - 1, lost_job_count := - 1, tk_write_count := - 1\<rparr>;
             (r, args) = task_fn tau args in
         if r \<noteq> 0 then Some (- 1, s, args) else Some (- 3, s, args)
       else let (rp, s) = fread 24 s in
         if length rp \<noteq> 24 then Some (- 3, s, args)
         else let p = ringbuf_params_of_bytes bo rp;
             tau = tau\<lparr>oldest_job_pos := rp_oldest_job_pos p, lost_job_count := rp_lost_job_count p,
                       tk_write_count := rp_write_count p\<rparr>;
             (r, args) = task_fn tau args in
           if r \<noteq> 0 then Some (- 1, s, args) else read_jobs_loop bo junk job_fn s args)"

text \<open>The accessors of a task read from a file; those of times return new objects.\<close>

definition copy_member :: "utility_time \<Rightarrow> time_store \<Rightarrow> (time_ptr \<times> time_store) option" where
  "copy_member u = fill_dyn (\<lambda>p h. do { c \<leftarrow> load p h; store p (utility_time_to_utility_time u c) h })"

definition task_statistics_name :: "task \<Rightarrow> string" where
  "task_statistics_name tau = tk_name tau"

definition task_statistics_wcet :: "task \<Rightarrow> time_store \<Rightarrow> (time_ptr \<times> time_store) option" where
  "task_statistics_wcet tau = copy_member (wcet tau)"

definition task_statistics_period :: "task \<Rightarrow> time_store \<Rightarrow> (time_ptr \<times> time_store) option" where
  "task_statistics_period tau = copy_member (period tau)"

definition task_statistics_deadline :: "task \<Rightarrow> time_store \<Rightarrow> (time_ptr \<times> time_store) option" where
  "task_statistics_deadline tau = copy_member (tk_deadline tau)"

definition task_statistics_t0 :: "task \<Rightarrow> time_store \<Rightarrow> (time_ptr \<times> time_store) option" where
  "task_statistics_t0 tau = copy_member (t_0 tau)"

definition task_statistics_offset :: "task \<Rightarrow> time_store \<Rightarrow> (time_ptr \<times> time_store) option" where
  "task_statistics_offset tau = copy_member (tk_offset tau)"

definition task_statistics_oldest_job_pos :: "task \<Rightarrow> u64" where
  "task_statistics_oldest_job_pos tau = oldest_job_pos tau"

definition task_statistics_lost_job_count :: "task \<Rightarrow> u64" where
  "task_statistics_lost_job_count tau = lost_job_count tau"

definition task_statistics_write_count :: "task \<Rightarrow> u64" where
  "task_statistics_write_count tau = tk_write_count tau"

definition task_statistics_job_statistics_overhead :: "task \<Rightarrow> time_store \<Rightarrow> (time_ptr \<times> time_store) option" where
  "task_statistics_job_statistics_overhead tau = copy_member (tk_job_statistics_overhead tau)"

definition task_statistics_finish_to_start_overhead :: "task \<Rightarrow> time_store \<Rightarrow> (time_ptr \<times> time_store) option" where
  "task_statistics_finish_to_start_overhead tau = copy_member (tk_finish_to_start_overhead tau)"

definition task_statistics_aperiodic :: "task \<Rightarrow> bool" where
  "task_statistics_aperiodic tau = aperiodic tau"

definition task_statistics_job_statistics_disabled :: "task \<Rightarrow> bool" where
  "task_statistics_job_statistics_disabled tau = disable_job_statistics tau"

lemma copy_member_eq:
  "malloc_ok h (next_addr h) \<Longrightarrow> copy_member u h = Some (Some (next_addr h), alloc (ut_t u) h)"
  unfolding copy_member_def
  by (rule fill_dyn_fills) (simp_all add: store_simps alloc_def dynobj_def utility_time_to_utility_time_def set_t_def)

section \<open>Encoding and decoding\<close>

lemma u32_value_bytes [byte_simps]: "u32_value bo (mem_bytes bo 4 (unat (x :: u32))) = x"
proof -
  have "unat x < 256 ^ 4" using unsigned_less [of x, where ?'a = nat] by simp
  then show ?thesis by (simp add: u32_value_def mem_value_bytes)
qed

lemma length_time_bytes [simp]: "length (time_bytes bo t) = 8"
  by (simp add: time_bytes_def)

lemma length_task_stats_bytes [simp]: "length (task_stats_bytes bo s) = 66"
  by (simp add: task_stats_bytes_def)

lemma task_stats_decode: "task_stats_of_bytes bo (task_stats_bytes bo s) = s"
  by (cases s) (simp add: task_stats_of_bytes_def task_stats_bytes_def time_bytes_def Let_def u32_value_bytes)

interpretation header: byte_codec "task_stats_bytes bo" "task_stats_of_bytes bo" 66 "\<lambda>_. True" for bo
  by unfold_locales (simp_all add: task_stats_decode)

interpretation params: byte_codec "ringbuf_params_bytes bo" "ringbuf_params_of_bytes bo" 24 "\<lambda>_. True" for bo
  by unfold_locales (simp_all add: ringbuf_params_bytes_def ringbuf_params_of_bytes_def word_value_bytes Let_def)

lemma length_name_bytes [simp]: "length (name_bytes s) = length s"
  by (simp add: name_bytes_def)

lemma name_decode: "name_of_bytes (name_bytes s) = s"
proof -
  have "char_of (unat (of_nat (of_char c) :: u8)) = c" for c
    by (simp add: unat_of_nat take_bit_nat_eq_self)
  then show ?thesis by (simp add: name_of_bytes_def name_bytes_def map_idI)
qed

text \<open>Times of fewer than two to the 32 seconds survive.\<close>

definition small_time :: "utility_time \<Rightarrow> bool" where
  "small_time u \<longleftrightarrow> uint (ut_sec u) < 2 ^ 32 \<and> uint (ut_nsec u) < 2 ^ 32"

lemma ucast_32_64: "uint (x :: i64) < 2 ^ 32 \<Longrightarrow> ucast (ucast x :: u32) = x"
  by (rule word_uint_eq_iff [THEN iffD2])
    (simp add: unsigned_ucast_eq unsigned_take_bit_eq take_bit_int_eq_self)

lemma time_of_stats_time: "small_time u \<Longrightarrow> ut_t (time_of_stats (stats_time_of (ut_t u))) = ut_t u"
  by (simp add: time_of_stats_def stats_time_of_def timespec_to_utility_time_def small_time_def ucast_32_64)

section \<open>The arguments of creation\<close>

text \<open>Every argument is an object, and no collectable one is passed twice.\<close>

fun live_args :: "time_store \<Rightarrow> nat list \<Rightarrow> bool" where
  "live_args h [] = True"
| "live_args h (a # as) =
    (cells h a \<noteq> None \<and> (auto_obj (the (cells h a)) \<longrightarrow> a \<notin> set as) \<and> live_args h as)"

fun collect_all :: "nat list \<Rightarrow> time_store \<Rightarrow> time_store" where
  "collect_all [] h = h"
| "collect_all (a # as) h = collect_all as (collect a (the (cells h a)) h)"

lemma collect_other [simp]: "b \<noteq> a \<or> \<not> auto_obj u \<Longrightarrow> cells (collect a u h) b = cells h b"
  by (auto simp: collect_def)

lemma collect_keeps [simp]: "next_addr (collect a u h) = next_addr h" "malloc_ok (collect a u h) = malloc_ok h"
  by (simp_all add: collect_def)

lemma collect_skip [simp]: "collect a u (h\<lparr>next_addr := n\<rparr>) = (collect a u h)\<lparr>next_addr := n\<rparr>"
  by (simp add: collect_def)

lemma live_args_cong: "(\<And>a. a \<in> set as \<Longrightarrow> cells h' a = cells h a) \<Longrightarrow> live_args h as \<Longrightarrow> live_args h' as"
  by (induction as) auto

lemma take_arg_collects:
  assumes "store_ok h" "live_args h (a # as)"
  shows "take_arg (Some a) h =
      Some (utility_time_to_utility_time (the (cells h a)) utility_time_init, collect_all [a] h) \<and>
    live_args (collect_all [a] h) as \<and> store_ok (collect_all [a] h) \<and>
    (\<forall>b \<in> set as. cells (collect_all [a] h) b = cells h b) \<and>
    next_addr (collect_all [a] h) = next_addr h \<and> malloc_ok (collect_all [a] h) = malloc_ok h"
proof -
  obtain u where u: "cells h a = Some u" using assms(2) by auto
  have same: "\<forall>b \<in> set as. cells (collect a u h) b = cells h b"
    using assms(2) u by (auto intro!: collect_other)
  then show ?thesis
    using read_gc_eq [OF assms(1) u] u assms live_args_cong [of as "collect a u h" h]
    by (auto simp: take_arg_def)
qed

lemma live_args_skip [simp]: "live_args (h\<lparr>next_addr := n\<rparr>) as = live_args h as"
  by (induction as) auto

lemma collect_fresh:
  assumes "store_ok h" "malloc_ok h (next_addr h)"
  shows "collect (next_addr h) (dynobj ts) (alloc ts h) = h\<lparr>next_addr := Suc (next_addr h)\<rparr>"
  using store_okD(3) [OF assms(1), of "next_addr h"]
  by (auto simp: collect_def auto_obj_def alloc_def dynobj_def intro!: time_store.equality)

lemma first_release_eq:
  assumes "store_ok h" "malloc_ok h (next_addr h)"
  shows "first_release a b h =
    Some (ut_t (utility_time_add a b utility_time_init), h\<lparr>next_addr := Suc (next_addr h)\<rparr>)"
proof -
  let ?ts = "ut_t (utility_time_add a b utility_time_init)"
  have "fill_dyn (\<lambda>p h. do { u \<leftarrow> load p h; store p (utility_time_add a b u) h }) h =
      Some (Some (next_addr h), alloc ?ts h)"
    by (rule fill_dyn_fills) (simp_all add: assms(2) store_simps alloc_def dynobj_def utility_time_add_def set_t_def)
  moreover have "store_ok (alloc ?ts h)" "cells (alloc ?ts h) (next_addr h) = Some (dynobj ?ts)"
    using store_ok_alloc [OF assms(1)] by (simp_all, simp add: alloc_def)
  ultimately show ?thesis
    using read_gc_eq [of "alloc ?ts h" "next_addr h" "dynobj ?ts" to_timespec] collect_fresh [OF assms]
    by (simp add: first_release_def to_timespec_gc_def to_timespec_def dynobj_def)
qed

lemma first_release_value:
  "first_release a b h = Some (t, h1) \<Longrightarrow> t = ut_t (utility_time_add a b utility_time_init)"
  by (cases "malloc_ok h (next_addr h)")
    (auto simp: first_release_def fill_dyn_fails fill_dyn_def make_dyn_eq to_timespec_gc_def read_gc_def
      store_simps alloc_def dynobj_def utility_time_add_def to_timespec_def split: bind_splits if_splits)

section \<open>What creation writes\<close>

definition header_of :: "byte_order \<Rightarrow> task \<Rightarrow> task_statistics" where
  "header_of bo tau = \<lparr>ts_byte_order = host_byte_order bo, sizeof_tv_sec = 8, sizeof_tv_nsec = 8,
     sizeof_unsigned_long = 8, ts_aperiodic = (if aperiodic tau then 1 else 0),
     job_statistics_disabled = (if disable_job_statistics tau then 1 else 0),
     ts_wcet = stats_time_of (ut_t (wcet tau)), ts_period = stats_time_of (ut_t (period tau)),
     ts_deadline = stats_time_of (ut_t (tk_deadline tau)), ts_t_0 = stats_time_of (ut_t (t_0 tau)),
     ts_offset = stats_time_of (ut_t (tk_offset tau)),
     ts_job_statistics_overhead = stats_time_of (ut_t (tk_job_statistics_overhead tau)),
     ts_finish_to_start_overhead = stats_time_of (ut_t (tk_finish_to_start_overhead tau)),
     name_len = of_nat (length (tk_name tau))\<rparr>"

lemma create_writes:
  assumes "task_create bo env fs name a1 a2 a3 a4 a5 aper path slots dis a6 a7 h = Some ((0, Some tau), h1)"
  shows "\<exists>w0. fs_create fs path = Some w0 \<and>
    stats_log tau = Open_log (w0\<lparr>ws_out := ws_out w0 @ task_stats_bytes bo (header_of bo tau) @ name_bytes name,
      ws_room := ws_room w0 - (66 + length name)\<rparr>) \<and> 66 + length name \<le> ws_room w0 \<and>
    tk_name tau = name \<and> aperiodic tau = aper \<and> fail_to_close_stats_log tau = 0 \<and>
    disable_job_statistics tau = (slots = 0) \<and>
    (slots = 0 \<longrightarrow> stats_ringbuf tau = None) \<and>
    (slots \<noteq> 0 \<longrightarrow> (\<exists>rb. stats_ringbuf tau = Some rb \<and> ring_log rb [] \<and> slot_count rb = slots \<and>
       overrun_disabled rb = dis)) \<and>
    next_release_time tau = ut_t (utility_time_add (t_0 tau) (tk_offset tau) utility_time_init)"
  using assms create_log [of "ok_ringbuf env" slots dis]
  by (auto simp: task_create_def utility_file_open_for_writing_bin_def header_of_def fwrite_def Let_def
      dest!: first_release_value split: if_splits option.splits bind_splits prod.splits)

text \<open>The task and the final store of a creation that succeeds.\<close>

definition copy_of_arg :: "time_store \<Rightarrow> nat \<Rightarrow> utility_time" where
  "copy_of_arg h a = utility_time_to_utility_time (the (cells h a)) utility_time_init"

definition created :: "byte_order \<Rightarrow> time_store \<Rightarrow> string \<Rightarrow> string \<Rightarrow> nat list \<Rightarrow> bool \<Rightarrow> u64 \<Rightarrow>
    jobstats_ringbuf option \<Rightarrow> wstream \<Rightarrow> task" where
  "created bo h name path as aper slots rb w0 =
    (let c = (\<lambda>i. copy_of_arg h (as ! i));
         tau = \<lparr>tk_name = name, wcet = c 0, period = c 1, tk_deadline = c 2, t_0 = c 3, tk_offset = c 4,
            next_release_time = ut_t (utility_time_add (c 3) (c 4) utility_time_init),
            scratch = utility_time_init, aperiodic = aper, inside_aperiodic_release = False,
            stats_log = No_log, fail_to_close_stats_log = 0, stats_log_path = Some path,
            disable_job_statistics = (slots = 0), stats_ringbuf = rb, oldest_job_pos = 0,
            lost_job_count = 0, tk_write_count = 0, tk_finish_to_start_overhead = c 6,
            tk_job_statistics_overhead = c 5\<rparr>
     in tau\<lparr>stats_log := Open_log (snd (fwrite (task_stats_bytes bo (header_of bo tau) @ name_bytes name) w0))\<rparr>)"

lemma created_simps [simp]:
  "tk_name (created bo h name path as aper slots rb w0) = name"
  "aperiodic (created bo h name path as aper slots rb w0) = aper"
  "stats_ringbuf (created bo h name path as aper slots rb w0) = rb"
  "period (created bo h name path as aper slots rb w0) = copy_of_arg h (as ! 1)"
  by (simp_all add: created_def Let_def)

lemma create_eval:
  assumes h: "store_ok h" "malloc_ok h (next_addr h)" and live: "live_args h [a1, a2, a3, a4, a5, a6, a7]"
    and ok: "ok_task_stats env" "ok_task env" "ok_name env" "ok_path env"
    and f: "fs_create fs path = Some w0"
    and rb: "rb = (if slots = 0 then None else jobstats_ringbuf_create (ok_ringbuf env) slots dis)"
      "slots = 0 \<or> rb \<noteq> None"
  shows "task_create bo env fs name (Some a1) (Some a2) (Some a3) (Some a4) (Some a5) aper path slots dis (Some a6) (Some a7) h =
    Some (if 66 + length name \<le> ws_room w0
          then (0, Some (created bo h name path [a1, a2, a3, a4, a5, a6, a7] aper slots rb w0)) else (- 1, None),
      (collect_all [a1, a2, a3, a4, a5, a6, a7] h)\<lparr>next_addr := Suc (next_addr h)\<rparr>)"
proof -
  define h1 where "h1 = collect_all [a1] h"
  define h2 where "h2 = collect_all [a2] h1"
  define h3 where "h3 = collect_all [a3] h2"
  define h4 where "h4 = collect_all [a4] h3"
  define h5 where "h5 = collect_all [a5] h4"
  define h6 where "h6 = h5\<lparr>next_addr := Suc (next_addr h5)\<rparr>"
  define h7 where "h7 = collect_all [a6] h6"
  note defs = h1_def [symmetric] h2_def [symmetric] h3_def [symmetric] h4_def [symmetric] h5_def [symmetric]
    h7_def [symmetric]
  note t1 = take_arg_collects [OF h(1) live, unfolded defs]
  note t2 = take_arg_collects [of h1 a2 "[a3, a4, a5, a6, a7]", unfolded defs]
  note t3 = take_arg_collects [of h2 a3 "[a4, a5, a6, a7]", unfolded defs]
  note t4 = take_arg_collects [of h3 a4 "[a5, a6, a7]", unfolded defs]
  note t5 = take_arg_collects [of h4 a5 "[a6, a7]", unfolded defs]
  note t6 = take_arg_collects [of h6 a6 "[a7]", unfolded defs]
  note t7 = take_arg_collects [of h7 a7 "[]", unfolded defs]
  note sd = collect_all.simps live_args.simps
  have s5: "store_ok h5 \<and> live_args h5 [a6, a7] \<and> next_addr h5 = next_addr h \<and> malloc_ok h5 = malloc_ok h"
    using t1 t2 t3 t4 t5 by (simp del: sd)
  have s6: "store_ok h6 \<and> live_args h6 [a6, a7]"
    using s5 store_ok_skip [of h5] by (simp add: h6_def del: live_args.simps)
  have fr: "first_release a b h5 = Some (ut_t (utility_time_add a b utility_time_init), h6)" for a b
    using first_release_eq [of h5 a b] s5 h(2) by (simp add: h6_def)
  have args: "take_arg (Some a1) h = Some (copy_of_arg h a1, h1)" "take_arg (Some a2) h1 = Some (copy_of_arg h a2, h2)"
    "take_arg (Some a3) h2 = Some (copy_of_arg h a3, h3)" "take_arg (Some a4) h3 = Some (copy_of_arg h a4, h4)"
    "take_arg (Some a5) h4 = Some (copy_of_arg h a5, h5)" "take_arg (Some a6) h6 = Some (copy_of_arg h a6, h7)"
    "take_arg (Some a7) h7 = Some (copy_of_arg h a7, collect_all [a7] h7)"
    using t1 t2 t3 t4 t5 t6 t7 s6 by (simp_all add: copy_of_arg_def h6_def del: sd)
  have fin: "collect_all [a7] h7 = (collect_all [a1, a2, a3, a4, a5, a6, a7] h)\<lparr>next_addr := Suc (next_addr h)\<rparr>"
    using s5 by (simp add: h7_def h6_def h5_def h4_def h3_def h2_def h1_def)
  note ev = ok f args fr fin utility_file_open_for_writing_bin_def Let_def fwrite_def
  show ?thesis
  proof (cases "slots = 0")
    case True
    then have "rb = None" using rb by simp
    with True show ?thesis
      by (simp add: task_create_def created_def header_of_def ev del: sd)
  next
    case False
    then obtain r where "jobstats_ringbuf_create (ok_ringbuf env) slots dis = Some r" "rb = Some r" using rb by auto
    with False show ?thesis
      by (simp add: task_create_def created_def header_of_def ev del: sd)
  qed
qed

section \<open>Reading a file back\<close>

abbreviation stream_of :: "u8 list \<Rightarrow> u8 rstream" where
  "stream_of bs \<equiv> \<lparr>rs_data = bs, rs_eof = False, rs_err = False, rs_fail = None\<rparr>"

lemma fread_stream: "length bs = n \<Longrightarrow> fread n (stream_of (bs @ rest)) = (bs, stream_of rest)"
  by (simp add: fread_healthy)

text \<open>The callbacks of a reader that takes everything.\<close>

lemma read_jobs_then:
  assumes "\<And>x a. fst (job_fn x a) = 0"
  shows "read_jobs_loop bo junk job_fn (stream_of (concat (map (stats_bytes bo) xs) @ rest)) args =
    read_jobs_loop bo junk job_fn (stream_of rest) (fold (\<lambda>x a. snd (job_fn x a)) xs args)"
proof (induction xs arbitrary: args)
  case (Cons x xs)
  obtain a1 where f: "job_fn x args = (0, a1)" using assms [of x args] by (cases "job_fn x args") auto
  have "job_statistics_read bo junk (stream_of (concat (map (stats_bytes bo) (x # xs)) @ rest)) =
      (0, Some x, stream_of (concat (map (stats_bytes bo) xs) @ rest))"
    using stats_read [of "stream_of (concat (map (stats_bytes bo) (x # xs)) @ rest)" bo x
        "concat (map (stats_bytes bo) xs) @ rest"] by simp
  then show ?case using Cons.IH [of a1] f by (subst read_jobs_loop.simps) simp
qed simp

lemma read_jobs_all:
  assumes "\<And>x a. fst (job_fn x a) = 0"
  shows "\<exists>s1. read_jobs_loop bo junk job_fn (stream_of (concat (map (stats_bytes bo) xs))) args =
    Some (0, s1, fold (\<lambda>x a. snd (job_fn x a)) xs args)"
proof -
  have "\<exists>s1. read_jobs_loop bo junk job_fn (stream_of []) a = Some (0, s1, a)" for a
    using stats_read_end [of "stream_of []" bo junk] by (subst read_jobs_loop.simps) simp
  then show ?thesis using read_jobs_then [of job_fn bo junk xs "[]" args] assms by simp
qed

lemma read_jobs_partial:
  assumes "\<And>x a. fst (job_fn x a) = 0" "0 < length part" "length part < 32"
  shows "\<exists>s1. read_jobs_loop bo junk job_fn (stream_of (concat (map (stats_bytes bo) xs) @ part)) args =
    Some (- 3, s1, fold (\<lambda>x a. snd (job_fn x a)) xs args)"
proof -
  have "\<exists>s1. job_statistics_read bo junk (stream_of part) = (- 2, None, s1)"
    using read_bin_short [of "stream_of part" 32] assms(2,3) by (simp add: job_statistics_read_def)
  then have "\<exists>s1. read_jobs_loop bo junk job_fn (stream_of part) a = Some (- 3, s1, a)" for a
    by (subst read_jobs_loop.simps) auto
  then show ?thesis using read_jobs_then [of job_fn bo junk xs part args] assms(1) by simp
qed

text \<open>The file of a task whose jobs were logged.\<close>

definition task_file :: "byte_order \<Rightarrow> task \<Rightarrow> job_statistics list \<Rightarrow> u8 list" where
  "task_file bo tau xs =
     task_stats_bytes bo (header_of bo tau) @ name_bytes (tk_name tau) @
     (if disable_job_statistics tau then []
      else ringbuf_params_bytes bo \<lparr>rp_oldest_job_pos = oldest_job_pos tau,
             rp_lost_job_count = lost_job_count tau, rp_write_count = tk_write_count tau\<rparr> @
           concat (map (stats_bytes bo) xs))"

definition params_small :: "task \<Rightarrow> bool" where
  "params_small tau \<longleftrightarrow> small_time (wcet tau) \<and> small_time (period tau) \<and> small_time (tk_deadline tau) \<and>
     small_time (t_0 tau) \<and> small_time (tk_offset tau) \<and> small_time (tk_job_statistics_overhead tau) \<and>
     small_time (tk_finish_to_start_overhead tau) \<and> length (tk_name tau) < 2 ^ 32 - 1"

lemma name_len_of:
  assumes "params_small tau"
  shows "unat (name_len (header_of bo tau)) = length (tk_name tau)" "name_len (header_of bo tau) + 1 \<noteq> 0"
proof -
  have l: "length (tk_name tau) < 4294967295" using assms by (simp add: params_small_def)
  then show "unat (name_len (header_of bo tau)) = length (tk_name tau)"
    by (simp add: header_of_def unat_of_nat take_bit_nat_eq_self)
  then show "name_len (header_of bo tau) + 1 \<noteq> 0" using l by (auto simp: unat_word_ariths dest!: arg_cong [where f = unat])
qed

text \<open>The same parameters, as far as the file stores them.\<close>

definition same_params :: "task \<Rightarrow> task \<Rightarrow> bool" where
  "same_params r tau \<longleftrightarrow> tk_name r = tk_name tau \<and> ut_t (wcet r) = ut_t (wcet tau) \<and>
     ut_t (period r) = ut_t (period tau) \<and> ut_t (tk_deadline r) = ut_t (tk_deadline tau) \<and>
     ut_t (t_0 r) = ut_t (t_0 tau) \<and> ut_t (tk_offset r) = ut_t (tk_offset tau) \<and>
     ut_t (tk_job_statistics_overhead r) = ut_t (tk_job_statistics_overhead tau) \<and>
     ut_t (tk_finish_to_start_overhead r) = ut_t (tk_finish_to_start_overhead tau) \<and>
     aperiodic r = aperiodic tau \<and> disable_job_statistics r = disable_job_statistics tau"

lemma read_task_file:
  assumes small: "params_small tau" and en: "\<not> disable_job_statistics tau" and mem: "\<And>n. name_ok n"
    and fns: "\<And>t a. fst (task_fn t a) = 0" "\<And>x a. fst (job_fn x a) = 0"
  shows "\<exists>r s1. task_statistics_read bo junk junk_task name_ok (stream_of (task_file bo tau xs)) task_fn job_fn args =
      Some (0, s1, fold (\<lambda>x a. snd (job_fn x a)) xs (snd (task_fn r args))) \<and>
    same_params r tau \<and> oldest_job_pos r = oldest_job_pos tau \<and> lost_job_count r = lost_job_count tau \<and>
    tk_write_count r = tk_write_count tau"
proof -
  let ?h = "header_of bo tau" let ?jobs = "concat (map (stats_bytes bo) xs)"
  let ?p = "\<lparr>rp_oldest_job_pos = oldest_job_pos tau, rp_lost_job_count = lost_job_count tau, rp_write_count = tk_write_count tau\<rparr>"
  have tf: "task_file bo tau xs = task_stats_bytes bo ?h @ name_bytes (tk_name tau) @ ringbuf_params_bytes bo ?p @ ?jobs"
    using en by (simp add: task_file_def)
  have nl: "unat (name_len ?h) = length (tk_name tau)" "name_len ?h + 1 \<noteq> 0"
    using name_len_of [OF small, of bo] by simp_all
  note r1 = fread_stream [of "task_stats_bytes bo ?h" 66 "name_bytes (tk_name tau) @ ringbuf_params_bytes bo ?p @ ?jobs"]
    and r2 = fread_stream [of "name_bytes (tk_name tau)" "length (tk_name tau)" "ringbuf_params_bytes bo ?p @ ?jobs"]
    and r3 = fread_stream [of "ringbuf_params_bytes bo ?p" 24 ?jobs]
  define r where "r = junk_task\<lparr>tk_name := tk_name tau,
     aperiodic := ts_aperiodic ?h \<noteq> 0, disable_job_statistics := job_statistics_disabled ?h \<noteq> 0,
     wcet := time_of_stats (ts_wcet ?h), period := time_of_stats (ts_period ?h),
     tk_deadline := time_of_stats (ts_deadline ?h), t_0 := time_of_stats (ts_t_0 ?h),
     tk_offset := time_of_stats (ts_offset ?h),
     tk_job_statistics_overhead := time_of_stats (ts_job_statistics_overhead ?h),
     tk_finish_to_start_overhead := time_of_stats (ts_finish_to_start_overhead ?h),
     stats_ringbuf := None, oldest_job_pos := oldest_job_pos tau, lost_job_count := lost_job_count tau,
     tk_write_count := tk_write_count tau\<rparr>"
  have same: "same_params r tau"
    using small by (simp add: same_params_def r_def header_of_def params_small_def time_of_stats_time)
  obtain a1 where f: "task_fn r args = (0, a1)" using fns(1) [of r args] by (cases "task_fn r args") auto
  obtain s1 where jobs: "read_jobs_loop bo junk job_fn (stream_of ?jobs) a1 =
      Some (0, s1, fold (\<lambda>x a. snd (job_fn x a)) xs a1)"
    using read_jobs_all [of job_fn bo junk xs a1] fns(2) by blast
  have hdr: "ts_byte_order ?h = host_byte_order bo" "sizeof_tv_sec ?h = 8" "sizeof_tv_nsec ?h = 8"
    "sizeof_unsigned_long ?h = 8" "job_statistics_disabled ?h = 0"
    using en by (simp_all add: header_of_def)
  have "task_statistics_read bo junk junk_task name_ok (stream_of (task_file bo tau xs)) task_fn job_fn args =
      Some (0, s1, fold (\<lambda>x a. snd (job_fn x a)) xs a1)"
    unfolding task_statistics_read_def tf
    using r1 r2 r3 hdr nl f jobs mem
    by (simp add: task_stats_decode name_decode params.enc_length params.dec_enc Let_def r_def)
  then show ?thesis using same f by (intro exI [of _ r]) (auto simp: r_def)
qed

lemma read_disabled_file:
  assumes small: "params_small tau" and dis: "disable_job_statistics tau" and mem: "\<And>n. name_ok n"
    and fn: "\<And>t a. fst (task_fn t a) = 0"
  shows "\<exists>r s1. task_statistics_read bo junk junk_task name_ok (stream_of (task_file bo tau xs)) task_fn job_fn args =
      Some (- 3, s1, snd (task_fn r args)) \<and> same_params r tau \<and> oldest_job_pos r = - 1"
proof -
  let ?h = "header_of bo tau"
  have tf: "task_file bo tau xs = task_stats_bytes bo ?h @ name_bytes (tk_name tau) @ []"
    using dis by (simp add: task_file_def)
  have nl: "unat (name_len ?h) = length (tk_name tau)" "name_len ?h + 1 \<noteq> 0"
    using name_len_of [OF small, of bo] by simp_all
  note r1 = fread_stream [of "task_stats_bytes bo ?h" 66 "name_bytes (tk_name tau) @ []"]
    and r2 = fread_stream [of "name_bytes (tk_name tau)" "length (tk_name tau)" "[]"]
  define r where "r = junk_task\<lparr>tk_name := tk_name tau,
     aperiodic := ts_aperiodic ?h \<noteq> 0, disable_job_statistics := job_statistics_disabled ?h \<noteq> 0,
     wcet := time_of_stats (ts_wcet ?h), period := time_of_stats (ts_period ?h),
     tk_deadline := time_of_stats (ts_deadline ?h), t_0 := time_of_stats (ts_t_0 ?h),
     tk_offset := time_of_stats (ts_offset ?h),
     tk_job_statistics_overhead := time_of_stats (ts_job_statistics_overhead ?h),
     tk_finish_to_start_overhead := time_of_stats (ts_finish_to_start_overhead ?h),
     stats_ringbuf := None, oldest_job_pos := - 1, lost_job_count := - 1, tk_write_count := - 1\<rparr>"
  have same: "same_params r tau"
    using small by (simp add: same_params_def r_def header_of_def params_small_def time_of_stats_time)
  obtain a1 where f: "task_fn r args = (0, a1)" using fn [of r args] by (cases "task_fn r args") auto
  have hdr: "ts_byte_order ?h = host_byte_order bo" "sizeof_tv_sec ?h = 8" "sizeof_tv_nsec ?h = 8"
    "sizeof_unsigned_long ?h = 8" "job_statistics_disabled ?h = 1"
    using dis by (simp_all add: header_of_def)
  have "task_statistics_read bo junk junk_task name_ok (stream_of (task_file bo tau xs)) task_fn job_fn args =
      Some (- 3, stream_of [], a1)"
    unfolding task_statistics_read_def tf
    using r1 r2 hdr nl f mem
    by (simp add: task_stats_decode name_decode Let_def r_def)
  then show ?thesis using same f by (intro exI [of _ r]) (auto simp: r_def)
qed

section \<open>The end of a task completes its file\<close>

lemma header_of_cong:
  "same_params tau tau1 \<Longrightarrow> header_of bo tau = header_of bo tau1"
  by (simp add: header_of_def same_params_def)

lemma flush_close:
  assumes log: "stats_log tau = Open_log w" "ws_out w = task_stats_bytes bo (header_of bo tau) @ name_bytes (tk_name tau)"
    and en: "\<not> disable_job_statistics tau" and rb: "stats_ringbuf tau = Some rb" "ring_log rb xs"
    and room: "24 + 32 * unat (slot_count rb) \<le> ws_room w" and close: "ws_close_ok w"
  shows "\<exists>tau1 tau2. flush_stats_ringbuf bo tau = Some tau1 \<and>
    close_logging_file tau1 =
      Some (tau2, Some (task_file bo tau1 (window (overrun_disabled rb) (unat (slot_count rb)) xs))) \<and>
    same_params tau1 tau \<and> fail_to_close_stats_log tau2 = fail_to_close_stats_log tau \<and>
    stats_log tau2 = No_log \<and> stats_ringbuf tau2 = None \<and>
    oldest_job_pos tau1 = jobstats_ringbuf_oldest_pos rb \<and> lost_job_count tau1 = jobstats_ringbuf_lost_count rb \<and>
    tk_write_count tau1 = jobstats_ringbuf_write_count rb"
proof -
  let ?p = "\<lparr>rp_oldest_job_pos = jobstats_ringbuf_oldest_pos rb, rp_lost_job_count = jobstats_ringbuf_lost_count rb,
    rp_write_count = jobstats_ringbuf_write_count rb\<rparr>"
  let ?ys = "window (overrun_disabled rb) (unat (slot_count rb)) xs"
  let ?w1 = "w\<lparr>ws_out := ws_out w @ ringbuf_params_bytes bo ?p, ws_room := ws_room w - 24\<rparr>"
  define tau1 where "tau1 = tau\<lparr>oldest_job_pos := jobstats_ringbuf_oldest_pos rb,
    lost_job_count := jobstats_ringbuf_lost_count rb, tk_write_count := jobstats_ringbuf_write_count rb,
    stats_log := Open_log (with_stats bo ?ys ?w1), stats_ringbuf := None\<rparr>"
  have "fwrite (ringbuf_params_bytes bo ?p) w = (True, ?w1)"
    using room by (simp add: fwrite_fits params.enc_length)
  moreover have "jobstats_ringbuf_save bo rb ?w1 = Some (0, with_stats bo ?ys ?w1)"
    using save_correct [OF rb(2), of ?w1 bo] room by simp
  ultimately have fl: "flush_stats_ringbuf bo tau = Some tau1"
    using log(1) en rb(1) by (simp add: flush_stats_ringbuf_def tau1_def)
  have same: "same_params tau1 tau" by (simp add: same_params_def tau1_def)
  define tau2 where "tau2 = tau1\<lparr>stats_log := No_log, stats_log_path := None\<rparr>"
  have "close_logging_file tau1 = Some (tau2, Some (task_file bo tau1 ?ys))"
    using close log(2) en header_of_cong [OF same, of bo]
    by (simp add: close_logging_file_def utility_file_close_def tau2_def tau1_def task_file_def with_stats_def)
  moreover have "fail_to_close_stats_log tau2 = fail_to_close_stats_log tau" "stats_log tau2 = No_log"
    "stats_ringbuf tau2 = None" "oldest_job_pos tau1 = jobstats_ringbuf_oldest_pos rb"
    "lost_job_count tau1 = jobstats_ringbuf_lost_count rb" "tk_write_count tau1 = jobstats_ringbuf_write_count rb"
    by (simp_all add: tau2_def tau1_def)
  ultimately show ?thesis using fl same by blast
qed

section \<open>Properties\<close>


definition args_store :: time_store where
  "args_store = \<lparr>cells = (\<lambda>a. if a < 6 then Some (ut 1 0) else if a = 6 then Some (dynobj \<lparr>tv_sec = 2, tv_nsec = 5\<rparr>) else None),
     heap_objs = {6}, next_addr = 7, malloc_ok = (\<lambda>_. True), garbage = (\<lambda>_. ut 9 9)\<rparr>"

lemma args_store_ok [simp]: "store_ok args_store" "malloc_ok args_store n"
  "live_args args_store [0, 1, 2, 3, 4, 5, 6]" "cells (collect_all [0, 1, 2, 3, 4, 5, 6] args_store) 6 = None"
  by (auto simp: store_ok_def args_store_def ut_def utility_time_init_def set_t_def dynobj_def auto_obj_def
      collect_def split: if_splits)

definition one_file :: "wstream \<Rightarrow> fsys" where
  "one_file w = \<lparr>fs_text = (\<lambda>_. None), fs_bin = (\<lambda>_. None), fs_create = (\<lambda>_. Some w)\<rparr>"

definition good_create :: create_env where
  "good_create = \<lparr>ok_task_stats = True, ok_task = True, ok_name = True, ok_path = True, ok_ringbuf = (True, True)\<rparr>"

lemma good_create_simps [simp]: "ok_task_stats good_create" "ok_task good_create" "ok_name good_create"
  "ok_path good_create" "ok_ringbuf good_create = (True, True)" "fs_create (one_file w) p = Some w"
  by (simp_all add: good_create_def one_file_def)


text \<open>What \<^verbatim>\<open>task_statistics_read\<close> refuses, without calling any callback: a stream that
  ends before the 66 bytes of the header, as the end of the statistics only if there is no byte at
  all, and headers of a foreign byte order or with foreign sizes. After the header and the counters
  it passes on every complete job entry, and reports an error if what remains is not a whole
  entry. A header whose name has the length 0xFFFFFFFF makes it overflow the block it allocates for
  the name.\<close>

theorem task_statistics_read_errors:
  "(length bs < 66 \<longrightarrow> task_statistics_read bo junk junk_task name_ok (stream_of bs) task_fn job_fn args =
      Some (if bs = [] then - 4 else - 3, \<lparr>rs_data = [], rs_eof = True, rs_err = False, rs_fail = None\<rparr>, args)) \<and>
   (ts_byte_order st \<noteq> host_byte_order bo \<or> sizeof_tv_sec st \<noteq> 8 \<or> sizeof_tv_nsec st \<noteq> 8 \<or>
      sizeof_unsigned_long st \<noteq> 8 \<longrightarrow>
    task_statistics_read bo junk junk_task name_ok (stream_of (task_stats_bytes bo st @ rest)) task_fn job_fn args =
      Some (- 3, stream_of rest, args)) \<and>
   (ts_byte_order st = host_byte_order bo \<and> sizeof_tv_sec st = 8 \<and> sizeof_tv_nsec st = 8 \<and>
      sizeof_unsigned_long st = 8 \<and> name_len st = 0xFFFFFFFF \<and> name_ok 0 \<and> rest \<noteq> [] \<longrightarrow>
    task_statistics_read bo junk junk_task name_ok (stream_of (task_stats_bytes bo st @ rest)) task_fn job_fn args = None) \<and>
   (0 < length part \<and> length part < 32 \<and> (\<forall>x a. fst (job_fn x a) = 0) \<longrightarrow>
    (\<exists>s1. read_jobs_loop bo junk job_fn (stream_of (concat (map (stats_bytes bo) xs) @ part)) args =
        Some (- 3, s1, fold (\<lambda>x a. snd (job_fn x a)) xs args)))"
proof (intro conjI impI)
  assume "length bs < 66"
  then show "task_statistics_read bo junk junk_task name_ok (stream_of bs) task_fn job_fn args =
      Some (if bs = [] then - 4 else - 3, \<lparr>rs_data = [], rs_eof = True, rs_err = False, rs_fail = None\<rparr>, args)"
    by (simp add: task_statistics_read_def fread_healthy)
next
  assume "ts_byte_order st \<noteq> host_byte_order bo \<or> sizeof_tv_sec st \<noteq> 8 \<or> sizeof_tv_nsec st \<noteq> 8 \<or>
      sizeof_unsigned_long st \<noteq> 8"
  then show "task_statistics_read bo junk junk_task name_ok (stream_of (task_stats_bytes bo st @ rest)) task_fn job_fn args =
      Some (- 3, stream_of rest, args)"
    using fread_stream [of "task_stats_bytes bo st" 66 rest]
    by (auto simp: task_statistics_read_def task_stats_decode Let_def)
next
  assume a: "ts_byte_order st = host_byte_order bo \<and> sizeof_tv_sec st = 8 \<and> sizeof_tv_nsec st = 8 \<and>
      sizeof_unsigned_long st = 8 \<and> name_len st = 0xFFFFFFFF \<and> name_ok 0 \<and> rest \<noteq> []"
  have "fst (fread (unat (0xFFFFFFFF :: u32)) (stream_of rest)) \<noteq> []"
    using a by (simp add: fread_healthy)
  then show "task_statistics_read bo junk junk_task name_ok (stream_of (task_stats_bytes bo st @ rest)) task_fn job_fn args = None"
    using fread_stream [of "task_stats_bytes bo st" 66 rest] a
    by (simp add: task_statistics_read_def task_stats_decode Let_def split_def)
next
  assume "0 < length part \<and> length part < 32 \<and> (\<forall>x a. fst (job_fn x a) = 0)"
  then show "\<exists>s1. read_jobs_loop bo junk job_fn (stream_of (concat (map (stats_bytes bo) xs) @ part)) args =
        Some (- 3, s1, fold (\<lambda>x a. snd (job_fn x a)) xs args)"
    using read_jobs_partial [of job_fn part bo junk xs args] by blast
qed

definition count_jobs :: "job_statistics \<Rightarrow> nat \<Rightarrow> int \<times> nat" where
  "count_jobs x n = (0, Suc n)"

theorem task_statistics_read_errors_witness:
  "(\<forall>tau. task_statistics_read CPU_BIG_ENDIAN [] tau (\<lambda>_. True) (stream_of [1, 8]) (\<lambda>_ n. (0, n)) count_jobs 0 =
     Some (- 3, \<lparr>rs_data = [], rs_eof = True, rs_err = False, rs_fail = None\<rparr>, 0)) \<and>
   (\<exists>s1. read_jobs_loop CPU_BIG_ENDIAN [] count_jobs
      (stream_of (concat (map (stats_bytes CPU_BIG_ENDIAN) [zero_stats, zero_stats]) @ [7])) 0 = Some (- 3, s1, 2))"
  using task_statistics_read_errors [of "[1, 8]" CPU_BIG_ENDIAN "[]" _ "\<lambda>_. True" "\<lambda>_ n. (0, n)" count_jobs 0 _ _
      "[7]" "[zero_stats, zero_stats]"]
  by (simp add: count_jobs_def numeral_2_eq_2 del: concat.simps list.map)

text \<open>The file of a task created without a ring buffer cannot be read without an error:
  \<^verbatim>\<open>task_statistics_read\<close> passes the right parameters on, with ULONG_MAX for the position of the
  oldest job although it is documented to be zero, and then returns -3, the code of a corrupted
  file, even if the callback accepts.\<close>

theorem disabled_statistics_read_fails:
  assumes "task_create bo env fs name b1 b2 b3 b4 b5 aper path 0 dis b6 b7 h = Some ((0, Some tau), h1)"
    and "fs_create fs path = Some w0" "ws_out w0 = []" "ws_close_ok w0"
    and "params_small tau" "\<forall>n. name_ok n" "\<forall>t a. fst (task_fn t a) = 0"
  shows "\<exists>tau1 log r s1. flush_stats_ringbuf bo tau = Some tau \<and> close_logging_file tau = Some (tau1, Some log) \<and>
    task_statistics_read bo junk junk_task name_ok (stream_of log) task_fn job_fn args = Some (- 3, s1, snd (task_fn r args)) \<and>
    same_params r tau \<and> oldest_job_pos r = - 1"
proof -
  have c: "disable_job_statistics tau" "stats_ringbuf tau = None" "tk_name tau = name"
    "stats_log tau = Open_log (w0\<lparr>ws_out := task_stats_bytes bo (header_of bo tau) @ name_bytes name,
      ws_room := ws_room w0 - (66 + length name)\<rparr>)"
    using create_writes [OF assms(1)] assms(2,3) by auto
  then have "close_logging_file tau = Some (tau\<lparr>stats_log := No_log, stats_log_path := None\<rparr>, Some (task_file bo tau []))"
    using assms(4) by (simp add: close_logging_file_def utility_file_close_def task_file_def)
  moreover have "flush_stats_ringbuf bo tau = Some tau" using c by (simp add: flush_stats_ringbuf_def)
  ultimately show ?thesis
    using read_disabled_file [OF assms(5) c(1), of name_ok task_fn bo junk junk_task "[]" job_fn args] assms(6,7) by auto
qed

theorem disabled_statistics_read_fails_witness:
  "\<exists>tau log s1. (\<exists>h1. task_create CPU_LITTLE_ENDIAN good_create (one_file \<lparr>ws_out = [], ws_room = 70, ws_close_ok = True\<rparr>) ''tau''
      (Some 0) (Some 1) (Some 2) (Some 3) (Some 4) False ''log'' 0 False (Some 5) (Some 6) args_store =
      Some ((0, Some tau), h1)) \<and>
    task_statistics_read CPU_LITTLE_ENDIAN [] tau (\<lambda>_. True) (stream_of log) (\<lambda>_ n. (0, n)) count_jobs 0 = Some (- 3, s1, 0)"
proof -
  let ?w = "\<lparr>ws_out = [], ws_room = 70, ws_close_ok = True\<rparr>"
  let ?tau = "created CPU_LITTLE_ENDIAN args_store ''tau'' ''log'' [0, 1, 2, 3, 4, 5, 6] False 0 None ?w"
  have c: "\<exists>h1. task_create CPU_LITTLE_ENDIAN good_create (one_file ?w) ''tau''
      (Some 0) (Some 1) (Some 2) (Some 3) (Some 4) False ''log'' 0 False (Some 5) (Some 6) args_store = Some ((0, Some ?tau), h1)"
    using create_eval [OF args_store_ok(1,2,3) good_create_simps(1-4), of "one_file ?w" "''log''" ?w None 0 False]
    by (simp del: collect_all.simps live_args.simps One_nat_def)
  then obtain h1 where h1: "task_create CPU_LITTLE_ENDIAN good_create (one_file ?w) ''tau''
      (Some 0) (Some 1) (Some 2) (Some 3) (Some 4) False ''log'' 0 False (Some 5) (Some 6) args_store = Some ((0, Some ?tau), h1)"
    by blast
  have "params_small ?tau"
    by (simp add: params_small_def created_def Let_def small_time_def copy_of_arg_def args_store_def ut_def dynobj_def
      utility_time_to_utility_time_def set_t_def)
  from disabled_statistics_read_fails [OF h1 _ _ _ this, of ?w "\<lambda>_. True" "\<lambda>_ n. (0, n)" "[]" ?tau count_jobs 0]
  show ?thesis using c by auto
qed

end
