(* ===== verification/Task_Run.thy ===== *)
theory Task_Run
  imports Task Utility_Sched
begin

text \<open>
  How a task runs (\<^verbatim>\<open>task_start\<close> of \<^verbatim>\<open>task.c\<close>): the loop of a periodic task, which sleeps until the
  next release time and advances it by the period, the loop of an aperiodic task, which waits
  for its event, and the handlers run at the end of the thread. The measurement of the
  finish-to-start overhead runs the same loops on a task of its own.

  The world \<open>'w\<close> is everything the loops do not own; an environment gives the effect of the system
  calls and of the callbacks on it. The flag \<^verbatim>\<open>stopped\<close> is set from outside and is read from the
  world. The loops may run forever, hence the partial functions.
\<close>

section \<open>The loops\<close>

record 'w task_env =
  sleep_until :: "timespec \<Rightarrow> 'w \<Rightarrow> int \<times> 'w"
  read_clock :: "'w \<Rightarrow> timespec option \<times> 'w"
  run_program :: "'w \<Rightarrow> 'w"
  aperiodic_release :: "'w \<Rightarrow> 'w"
  is_stopped :: "'w \<Rightarrow> bool"

definition advance_release :: "task \<Rightarrow> task" where
  "advance_release tau =
    (let t = timespec_to_utility_time (next_release_time tau) (scratch tau);
         t = utility_time_inc t (period tau)
     in tau\<lparr>scratch := t, next_release_time := to_timespec t\<rparr>)"

text \<open>One iteration; the state is the return code so far, the task and the world.\<close>

definition periodic_step :: "'w task_env \<Rightarrow> int \<times> task \<times> 'w \<Rightarrow> (int \<times> task \<times> 'w) option" where
  "periodic_step env s =
    (case s of (rc, tau, w) \<Rightarrow>
      let (e, w1) = sleep_until env (next_release_time tau) w; rc1 = rc - e in do {
        (j, rb, w2) \<leftarrow> job_start (read_clock env) (run_program env) (stats_ringbuf tau) w1;
        Some (rc1 - j, advance_release (tau\<lparr>stats_ringbuf := rb\<rparr>), w2) })"

definition aperiodic_step :: "'w task_env \<Rightarrow> int \<times> task \<times> 'w \<Rightarrow> (int \<times> task \<times> 'w) option" where
  "aperiodic_step env s =
    (case s of (rc, tau, w) \<Rightarrow>
      let tau1 = tau\<lparr>inside_aperiodic_release := True\<rparr>;
          w1 = aperiodic_release env w;
          tau2 = tau1\<lparr>inside_aperiodic_release := False\<rparr> in do {
        (j, rb, w2) \<leftarrow> job_start (read_clock env) (run_program env) (stats_ringbuf tau2) w1;
        Some (rc - j, tau2\<lparr>stats_ringbuf := rb\<rparr>, w2) })"

definition goes_on :: "'w task_env \<Rightarrow> int \<times> task \<times> 'w \<Rightarrow> bool" where
  "goes_on env s \<longleftrightarrow> fst s = 0 \<and> \<not> is_stopped env (snd (snd s))"

partial_function (option) task_start_periodic :: "'w task_env \<Rightarrow> int \<times> task \<times> 'w \<Rightarrow> (int \<times> task \<times> 'w) option" where
  "task_start_periodic env s = do {
     s1 \<leftarrow> periodic_step env s;
     if goes_on env s1 then task_start_periodic env s1 else Some s1 }"

partial_function (option) task_start_aperiodic :: "'w task_env \<Rightarrow> int \<times> task \<times> 'w \<Rightarrow> (int \<times> task \<times> 'w) option" where
  "task_start_aperiodic env s = do {
     s1 \<leftarrow> aperiodic_step env s;
     if goes_on env s1 then task_start_aperiodic env s1 else Some s1 }"

definition task_loop :: "'w task_env \<Rightarrow> task \<Rightarrow> 'w \<Rightarrow> (int \<times> task \<times> 'w) option" where
  "task_loop env tau w =
    (if aperiodic tau then task_start_aperiodic env (0, tau, w) else task_start_periodic env (0, tau, w))"

text \<open>\<^verbatim>\<open>task_start\<close>: the return code, the task, the file it completed, and the world.\<close>

definition task_start :: "byte_order \<Rightarrow> 'w task_env \<Rightarrow> task \<Rightarrow> 'w \<Rightarrow> (int \<times> task \<times> u8 list option \<times> 'w) option" where
  "task_start bo env tau w = do {
     (rc, tau1, w1) \<leftarrow> task_loop env tau w;
     tau2 \<leftarrow> flush_stats_ringbuf bo tau1;
     (tau3, log) \<leftarrow> close_logging_file tau2;
     Some (rc - fail_to_close_stats_log tau3, tau3, log, w1) }"

section \<open>Measuring the finish-to-start overhead\<close>

text \<open>
  The world of the measuring task: the readings of the clock still to come, the stop counter and
  the flag its program sets.
\<close>

record measure_world =
  readings :: "timespec option list"
  stop_counter :: int
  stopped :: bool

definition run_program_stop_task :: "measure_world \<Rightarrow> measure_world" where
  "run_program_stop_task w = w\<lparr>stopped := (stop_counter w = 0), stop_counter := stop_counter w - 1\<rparr>"

definition measure_clock :: "measure_world \<Rightarrow> timespec option \<times> measure_world" where
  "measure_clock w = (case readings w of [] \<Rightarrow> (None, w) | t # ts \<Rightarrow> (t, w\<lparr>readings := ts\<rparr>))"

text \<open>The results of the calls the measurement thread makes before and after the measurement.\<close>

record measure_env =
  me_lock_rc :: int
  me_enter_max_rc :: int
  me_tmpfile :: "wstream option"
  me_ringbuf_ok :: "bool \<times> bool"
  me_now :: "timespec option"
  me_sleep_errno :: int
  me_seek_ok :: bool

definition measure_task_env :: "measure_env \<Rightarrow> measure_world task_env" where
  "measure_task_env env = \<lparr>sleep_until = (\<lambda>_ w. (me_sleep_errno env, w)), read_clock = measure_clock,
     run_program = run_program_stop_task, aperiodic_release = (\<lambda>w. w), is_stopped = stopped\<rparr>"

definition task_overhead_measurement :: "measure_env \<Rightarrow> task \<Rightarrow> measure_world \<Rightarrow> (int \<times> task \<times> measure_world) option" where
  "task_overhead_measurement env tau w = do {
     (rc, tau1, w1) \<leftarrow> task_loop (measure_task_env env) tau w;
     Some (if rc = 0 then 0 else - 2, tau1, w1) }"

text \<open>
  The body of \<^verbatim>\<open>task_overhead_measurement_thread\<close>: the exit status and the overhead object. The jumps to
  \<^verbatim>\<open>out\<close> before the task is initialised read indeterminate pointers, which is undefined. \<open>tau0\<close> holds
  the members of the local task that are not set, \<open>junk\<close> the uninitialised local statistics.
\<close>

definition task_overhead_measurement_thread :: "byte_order \<Rightarrow> u8 list \<Rightarrow> task \<Rightarrow> measure_env \<Rightarrow> timespec option list \<Rightarrow>
    bool \<Rightarrow> time_store \<Rightarrow> ((int \<times> time_ptr) \<times> time_store) option" where
  "task_overhead_measurement_thread bo junk tau0 env clock_script is_aperiodic h =
    (if me_lock_rc env \<noteq> 0 then None
     else if me_enter_max_rc env \<noteq> 0 then None
     else case me_tmpfile env of
       None \<Rightarrow> Some ((- 2, None), h)
     | Some log \<Rightarrow>
      (case jobstats_ringbuf_create (me_ringbuf_ok env) 2 False of
         None \<Rightarrow> Some ((- 2, None), h)
       | Some rb \<Rightarrow>
        (case me_now env of
           None \<Rightarrow> Some ((- 2, None), h)
         | Some now \<Rightarrow>
            let t0 = timespec_to_utility_time now utility_time_init;
                off = to_utility_time 100 Unit_ms utility_time_init in do {
              (first, h) \<leftarrow> first_release t0 off h;
              let tau = tau0\<lparr>scratch := utility_time_init, aperiodic := is_aperiodic,
                    inside_aperiodic_release := False, stats_log := Open_log log, stats_ringbuf := Some rb,
                    disable_job_statistics := False, period := to_utility_time 0 Unit_ns utility_time_init,
                    t_0 := t0, tk_offset := off, next_release_time := first\<rparr>;
                  w = \<lparr>readings = clock_script, stop_counter = 1, stopped = False\<rparr> in do {
              (rc, tau1, w1) \<leftarrow> task_overhead_measurement env tau w;
              if rc \<noteq> 0 then Some ((- 2, None), h)
              else do {
                (rc, log1) \<leftarrow> jobstats_ringbuf_save bo (the (stats_ringbuf tau1)) log;
                if rc \<noteq> 0 then Some ((- 2, None), h)
                else if \<not> me_seek_ok env then Some ((- 2, None), h)
                else
                  let s = \<lparr>rs_data = ws_out log1, rs_eof = False, rs_err = False, rs_fail = None\<rparr>;
                      (r1, stats1, s1) = job_statistics_read bo junk s;
                      (r2, stats2, s2) = job_statistics_read bo junk s1 in
                  if r1 \<noteq> 0 then Some ((- 2, None), h)
                  else if r2 \<noteq> 0 then Some ((- 2, None), h)
                  else do {
                    (t_release, h) \<leftarrow> fill_dyn (\<lambda>p h. do { u \<leftarrow> load p h; store p (utility_time_add t0 off u) h }) h;
                    (t_start_1, h) \<leftarrow> job_statistics_time_start (the stats1) h;
                    (t_finish_1, h) \<leftarrow> job_statistics_time_finish (the stats1) h;
                    (t_start_2, h) \<leftarrow> job_statistics_time_start (the stats2) h;
                    (a, h) \<leftarrow> utility_time_sub_dyn_gc t_start_1 t_release h;
                    (b, h) \<leftarrow> utility_time_sub_dyn_gc t_start_2 t_finish_1 h;
                    (r, h) \<leftarrow> utility_time_add_dyn_gc a b h;
                    Some ((0, r), h) } } } })))"

definition finish_to_start_overhead :: "bool \<Rightarrow> bool \<Rightarrow> byte_order \<Rightarrow> u8 list \<Rightarrow> task \<Rightarrow> measure_env \<Rightarrow>
    timespec option list \<Rightarrow> bool \<Rightarrow> time_store \<Rightarrow> ((int \<times> time_ptr) \<times> time_store) option" where
  "finish_to_start_overhead create_ok join_ok bo junk tau0 env clock_script is_aperiodic h =
    (if \<not> create_ok then Some ((- 2, None), h)
     else do {
       ((exit_status, r), h1) \<leftarrow> task_overhead_measurement_thread bo junk tau0 env clock_script is_aperiodic h;
       if \<not> join_ok then Some ((- 2, None), h1)
       else if exit_status \<noteq> 0 then Some ((exit_status, None), h1)
       else Some ((0, r), h1) })"

section \<open>Loops that test at the end\<close>

fun iterate :: "('s \<Rightarrow> 's option) \<Rightarrow> nat \<Rightarrow> 's \<Rightarrow> 's option" where
  "iterate step 0 s = Some s"
| "iterate step (Suc n) s = do { s1 \<leftarrow> step s; iterate step n s1 }"

text \<open>
  A loop that returns after its step when a condition on the new state fails, and that is the
  least such function: it returns only by leaving the loop.
\<close>

locale do_while =
  fixes loop :: "'s \<Rightarrow> 's option" and step :: "'s \<Rightarrow> 's option" and continue :: "'s \<Rightarrow> bool"
  assumes unfold: "loop s = do { s1 \<leftarrow> step s; if continue s1 then loop s1 else Some s1 }"
    and least: "loop s = Some s' \<Longrightarrow>
      \<exists>n. iterate step (Suc n) s = Some s' \<and> (\<forall>k < n. continue (the (iterate step (Suc k) s))) \<and> \<not> continue s'"
begin

lemma runs:
  "iterate step (Suc n) s = Some s' \<Longrightarrow> (\<forall>k < n. continue (the (iterate step (Suc k) s))) \<Longrightarrow> \<not> continue s' \<Longrightarrow>
   loop s = Some s'"
proof (induction n arbitrary: s)
  case 0
  then show ?case by (subst unfold) (auto split: bind_splits)
next
  case (Suc n)
  then obtain s1 where s1: "step s = Some s1" "iterate step (Suc n) s1 = Some s'" by (auto split: bind_splits)
  have "continue s1" using Suc.prems(2) s1(1) by (auto dest: spec [of _ 0])
  moreover have "\<forall>k < n. continue (the (iterate step (Suc k) s1))"
    using Suc.prems(2) s1(1) by (auto dest: spec [of _ "Suc _"])
  ultimately show ?case using Suc.IH [OF s1(2)] Suc.prems(3) s1(1) by (subst unfold) simp
qed

lemma iterate_invariant:
  assumes "\<And>s s'. P s \<Longrightarrow> step s = Some s' \<Longrightarrow> P s'" "P s" "iterate step n s = Some s'"
  shows "P s'"
  using assms(2,3) by (induction n arbitrary: s) (auto intro: assms(1) split: bind_splits)

lemma returns_iff:
  "loop s = Some s' \<longleftrightarrow> (\<exists>n. iterate step (Suc n) s = Some s' \<and>
     (\<forall>k < n. continue (the (iterate step (Suc k) s))) \<and> \<not> continue s')"
  using runs least by blast

end

text \<open>A loop that returned did so after finitely many steps.\<close>

lemma loop_step:
  assumes "step s = Some s1" "continue s1"
    "\<exists>n. iterate step (Suc n) s1 = Some s' \<and> (\<forall>k < n. continue (the (iterate step (Suc k) s1))) \<and> \<not> continue s'"
  shows "\<exists>n. iterate step (Suc n) s = Some s' \<and> (\<forall>k < n. continue (the (iterate step (Suc k) s))) \<and> \<not> continue s'"
proof -
  from assms(3) obtain n where n: "iterate step (Suc n) s1 = Some s'"
    "\<forall>k < n. continue (the (iterate step (Suc k) s1))" "\<not> continue s'" by blast
  have "\<forall>k < Suc n. continue (the (iterate step (Suc k) s))"
    using n(2) assms(1,2) by (auto simp: less_Suc_eq_0_disj)
  then show ?thesis using n assms(1) by (intro exI [of _ "Suc n"]) simp
qed

interpretation periodic: do_while "task_start_periodic env" "periodic_step env" "goes_on env" for env
proof
  show "task_start_periodic env s = do { s1 \<leftarrow> periodic_step env s; if goes_on env s1 then task_start_periodic env s1 else Some s1 }" for s
    by (rule task_start_periodic.simps)
next
  fix s s' assume "task_start_periodic env s = Some s'"
  then show "\<exists>n. iterate (periodic_step env) (Suc n) s = Some s' \<and>
      (\<forall>k < n. goes_on env (the (iterate (periodic_step env) (Suc k) s))) \<and> \<not> goes_on env s'"
  proof (induction env s s' rule: task_start_periodic.raw_induct [rotated, consumes 1, case_names step])
    case (step loop env s s')
    then obtain s1 where s1: "periodic_step env s = Some s1" by (auto split: bind_splits)
    show ?case
    proof (cases "goes_on env s1")
      case True
      then have "loop env s1 = Some s'" using step(2) s1 by simp
      from loop_step [of "periodic_step env", OF s1 True step(1) [OF this]] show ?thesis .
    next
      case False
      then show ?thesis using step(2) s1 by (intro exI [of _ 0]) simp
    qed
  qed
qed

interpretation aperiodic: do_while "task_start_aperiodic env" "aperiodic_step env" "goes_on env" for env
proof
  show "task_start_aperiodic env s = do { s1 \<leftarrow> aperiodic_step env s; if goes_on env s1 then task_start_aperiodic env s1 else Some s1 }" for s
    by (rule task_start_aperiodic.simps)
next
  fix s s' assume "task_start_aperiodic env s = Some s'"
  then show "\<exists>n. iterate (aperiodic_step env) (Suc n) s = Some s' \<and>
      (\<forall>k < n. goes_on env (the (iterate (aperiodic_step env) (Suc k) s))) \<and> \<not> goes_on env s'"
  proof (induction env s s' rule: task_start_aperiodic.raw_induct [rotated, consumes 1, case_names step])
    case (step loop env s s')
    then obtain s1 where s1: "aperiodic_step env s = Some s1" by (auto split: bind_splits)
    show ?case
    proof (cases "goes_on env s1")
      case True
      then have "loop env s1 = Some s'" using step(2) s1 by simp
      from loop_step [of "aperiodic_step env", OF s1 True step(1) [OF this]] show ?thesis .
    next
      case False
      then show ?thesis using step(2) s1 by (intro exI [of _ 0]) simp
    qed
  qed
qed

section \<open>Release times\<close>

abbreviation release_ns :: "task \<Rightarrow> int" where
  "release_ns tau \<equiv> ns_of (dynobj (next_release_time tau))"

lemma advance_fields [simp]:
  "period (advance_release tau) = period tau" "stats_ringbuf (advance_release tau) = stats_ringbuf tau"
  "aperiodic (advance_release tau) = aperiodic tau" "stats_log (advance_release tau) = stats_log tau"
  "same_params (advance_release tau) tau2 = same_params tau tau2"
  "fail_to_close_stats_log (advance_release tau) = fail_to_close_stats_log tau"
  "disable_job_statistics (advance_release tau) = disable_job_statistics tau"
  by (simp_all add: advance_release_def same_params_def Let_def)

lemma advance_release_ns:
  assumes "time_ok (dynobj (next_release_time tau))" "time_ok (period tau)"
    "release_ns tau + ns_of (period tau) < time_limit"
  shows "release_ns (advance_release tau) = release_ns tau + ns_of (period tau)"
    "time_ok (dynobj (next_release_time (advance_release tau)))"
proof -
  let ?t = "timespec_to_utility_time (next_release_time tau) (scratch tau)"
  have t: "ut_t ?t = ut_t (dynobj (next_release_time tau))"
    by (simp add: timespec_to_utility_time_def)
  note c = t_congs [OF t]
  have i: "ns_of (utility_time_inc ?t (period tau)) = release_ns tau + ns_of (period tau) \<and>
      time_ok (utility_time_inc ?t (period tau))"
    using ut.inc_ns [of ?t "period tau"] ut.inc_ok [of ?t "period tau"] assms c by simp
  have n: "ut_t (dynobj (next_release_time (advance_release tau))) = ut_t (utility_time_inc ?t (period tau))"
    by (simp add: advance_release_def Let_def to_timespec_def)
  show "release_ns (advance_release tau) = release_ns tau + ns_of (period tau)"
    "time_ok (dynobj (next_release_time (advance_release tau)))"
    using i t_congs [OF n] by simp_all
qed

lemma periodic_step_release:
  "periodic_step env (rc, tau, w) = Some (rc', tau', w') \<Longrightarrow>
   next_release_time tau' = next_release_time (advance_release tau) \<and> period tau' = period tau"
  by (auto simp: periodic_step_def advance_release_def Let_def split: bind_splits prod.splits)

lemma release_after:
  assumes "time_ok (period tau)"
  shows "iterate (periodic_step env) n (rc, tau, w) = Some (rc', tau', w') \<Longrightarrow>
    time_ok (dynobj (next_release_time tau)) \<Longrightarrow> release_ns tau + int n * ns_of (period tau) < time_limit \<Longrightarrow>
    release_ns tau' = release_ns tau + int n * ns_of (period tau) \<and> time_ok (dynobj (next_release_time tau'))"
  using assms
proof (induction n arbitrary: rc tau w)
  case (Suc n)
  obtain rc1 tau1 w1 where s: "periodic_step env (rc, tau, w) = Some (rc1, tau1, w1)"
    and it: "iterate (periodic_step env) n (rc1, tau1, w1) = Some (rc', tau', w')"
    using Suc.prems(1) by (auto split: bind_splits)
  note st = periodic_step_release [OF s]
  have nn: "0 \<le> int n * ns_of (period tau)" using Suc.prems(4) by simp
  then have fits: "release_ns tau + ns_of (period tau) < time_limit"
    using Suc.prems(3) by (simp add: distrib_right)
  note adv = advance_release_ns [OF Suc.prems(2,4) fits]
  have "release_ns tau1 = release_ns tau + ns_of (period tau)" "time_ok (dynobj (next_release_time tau1))"
    using adv st by simp_all
  then show ?case using Suc.IH [OF it] Suc.prems(3,4) st by (simp add: distrib_right)
qed simp

end
