(* ===== verification/Task_Lifecycle.thy ===== *)
theory Task_Lifecycle
  imports Task_Run
begin

text \<open>
  The life of a task from \<^verbatim>\<open>task_create\<close> to the file it leaves behind. The abstract specification
  is a schedule: job \<open>k\<close> of a periodic task is released at the instant \<open>start + k * period\<close>,
  computed in closed form on nanoseconds, and every job runs between two readings of the clock.
  The loops of the code, which advance the release time by one period per job and log into a ring
  buffer, are shown to follow the schedule, so that the file read back gives the parameters of the
  task and the window of the schedule that the ring buffer keeps.
\<close>

section \<open>The schedule\<close>

definition instant :: "int \<Rightarrow> timespec" where
  "instant x = \<lparr>tv_sec = word_of_int (x div 1000000000), tv_nsec = word_of_int (x mod 1000000000)\<rparr>"

text \<open>What happens in the world before job \<open>k\<close>.\<close>

definition release :: "'w task_env \<Rightarrow> bool \<Rightarrow> int \<Rightarrow> int \<Rightarrow> nat \<Rightarrow> 'w \<Rightarrow> 'w" where
  "release env aper start per k w =
    (if aper then aperiodic_release env w else snd (sleep_until env (instant (start + int k * per)) w))"

fun schedule :: "'w task_env \<Rightarrow> (nat \<Rightarrow> 'w \<Rightarrow> 'w) \<Rightarrow> nat \<Rightarrow> nat \<Rightarrow> 'w \<Rightarrow> job_statistics list \<times> 'w" where
  "schedule env rel k 0 w = ([], w)"
| "schedule env rel k (Suc n) w =
    (let (b, w2) = read_clock env (rel k w); (e, w3) = read_clock env (run_program env w2);
         (xs, w4) = schedule env rel (Suc k) n w3
     in (\<lparr>t_begin = the b, t_end = the e\<rparr> # xs, w4))"

lemma length_schedule [simp]: "length (fst (schedule env rel k n w)) = n"
  by (induction n arbitrary: k w) (simp_all add: split_def Let_def)

text \<open>Neither the clock nor the sleep fails.\<close>

definition healthy :: "'w task_env \<Rightarrow> bool" where
  "healthy env \<longleftrightarrow> (\<forall>w. fst (read_clock env w) \<noteq> None) \<and> (\<forall>t w. fst (sleep_until env t w) = 0)"

lemma instant_ns: "time_ok (dynobj t) \<Longrightarrow> instant (ns_of (dynobj t)) = t"
  by (cases t) (simp add: instant_def ns_of_div_mod dynobj_def)

section \<open>The loops follow the schedule\<close>

definition task_step :: "bool \<Rightarrow> 'w task_env \<Rightarrow> int \<times> task \<times> 'w \<Rightarrow> (int \<times> task \<times> 'w) option" where
  "task_step aper env = (if aper then aperiodic_step env else periodic_step env)"

text \<open>A task whose next job is job \<open>k\<close> of the schedule.\<close>

definition due :: "int \<Rightarrow> int \<Rightarrow> nat \<Rightarrow> task \<Rightarrow> bool" where
  "due start per k tau \<longleftrightarrow> aperiodic tau \<or>
     (time_ok (period tau) \<and> ns_of (period tau) = per \<and> time_ok (dynobj (next_release_time tau)) \<and>
      release_ns tau = start + int k * per)"

text \<open>What a job leaves as it is.\<close>

definition same_files :: "task \<Rightarrow> task \<Rightarrow> bool" where
  "same_files tau1 tau \<longleftrightarrow> same_params tau1 tau \<and> stats_log tau1 = stats_log tau \<and>
     fail_to_close_stats_log tau1 = fail_to_close_stats_log tau"

lemma same_files_trans: "same_files a b \<Longrightarrow> same_files b c \<Longrightarrow> same_files a c"
  by (simp add: same_files_def same_params_def)

lemma healthyD:
  assumes "healthy env"
  obtains b w1 where "read_clock env w = (Some b, w1)"
  using assms by (cases "read_clock env w") (auto simp: healthy_def dest: spec [of _ w])

lemma logged_job:
  assumes h: "healthy env" and log: "ring_log rb xs" "Suc (length xs) < 2 ^ 64"
  obtains rb' b w2 e w3 where "read_clock env w = (Some b, w2)" "read_clock env (run_program env w2) = (Some e, w3)"
    "job_start (read_clock env) (run_program env) (Some rb) w = Some (0, Some rb', w3)"
    "ring_log rb' (xs @ [\<lparr>t_begin = b, t_end = e\<rparr>])" "slot_count rb' = slot_count rb"
    "overrun_disabled rb' = overrun_disabled rb"
proof -
  obtain b w2 where b: "read_clock env w = (Some b, w2)" using healthyD [OF h] .
  obtain e w3 where e: "read_clock env (run_program env w2) = (Some e, w3)" using healthyD [OF h] .
  from job_start_logs [where clock = "read_clock env" and program = "run_program env" and w = w, OF log b e]
  obtain rb' x where r: "job_start (read_clock env) (run_program env) (Some rb) w = Some (0, Some rb', w3)"
    "ring_log rb' (xs @ [x])" "slot_count rb' = slot_count rb" "overrun_disabled rb' = overrun_disabled rb"
    "t_begin x = b" "t_end x = e" by auto
  then show ?thesis using that [OF b e r(1) _ r(3,4)] by (cases x) simp
qed

lemma step_follows:
  assumes h: "healthy env" and rb: "stats_ringbuf tau = Some rb" "ring_log rb xs" "Suc (length xs) < 2 ^ 64"
    and d: "due start per k tau" and fits: "start + int (Suc k) * per < time_limit"
  obtains tau' rb' x w' where "task_step (aperiodic tau) env (0, tau, w) = Some (0, tau', w')"
    "schedule env (release env (aperiodic tau) start per) k 1 w = ([x], w')"
    "stats_ringbuf tau' = Some rb'" "ring_log rb' (xs @ [x])" "slot_count rb' = slot_count rb"
    "overrun_disabled rb' = overrun_disabled rb" "due start per (Suc k) tau'" "same_files tau' tau"
proof (cases "aperiodic tau")
  case True
  from logged_job [OF h rb(2,3), of "aperiodic_release env w"]
  obtain rb' b w2 e w3 where j: "read_clock env (aperiodic_release env w) = (Some b, w2)"
    "read_clock env (run_program env w2) = (Some e, w3)"
    "job_start (read_clock env) (run_program env) (Some rb) (aperiodic_release env w) = Some (0, Some rb', w3)"
    "ring_log rb' (xs @ [\<lparr>t_begin = b, t_end = e\<rparr>])" "slot_count rb' = slot_count rb"
    "overrun_disabled rb' = overrun_disabled rb" .
  define tau' where "tau' = tau\<lparr>inside_aperiodic_release := False, stats_ringbuf := Some rb'\<rparr>"
  have "task_step (aperiodic tau) env (0, tau, w) = Some (0, tau', w3)"
    using j(3) rb(1) True by (simp add: task_step_def aperiodic_step_def tau'_def)
  moreover have "schedule env (release env (aperiodic tau) start per) k 1 w = ([\<lparr>t_begin = b, t_end = e\<rparr>], w3)"
    using j(1,2) True by (simp add: release_def)
  ultimately show ?thesis
    using that [of tau' w3 _ rb'] j(4-6) True by (simp add: tau'_def due_def same_files_def same_params_def)
next
  case False
  then have p: "time_ok (period tau)" "ns_of (period tau) = per" "time_ok (dynobj (next_release_time tau))"
    "release_ns tau = start + int k * per" using d by (simp_all add: due_def)
  obtain w1 where s: "sleep_until env (next_release_time tau) w = (0, w1)"
    using h by (metis healthy_def prod.collapse)
  have i: "instant (start + int k * per) = next_release_time tau"
    using instant_ns [OF p(3)] p(4) by simp
  from logged_job [OF h rb(2,3), of w1]
  obtain rb' b w2 e w3 where j: "read_clock env w1 = (Some b, w2)"
    "read_clock env (run_program env w2) = (Some e, w3)"
    "job_start (read_clock env) (run_program env) (Some rb) w1 = Some (0, Some rb', w3)"
    "ring_log rb' (xs @ [\<lparr>t_begin = b, t_end = e\<rparr>])" "slot_count rb' = slot_count rb"
    "overrun_disabled rb' = overrun_disabled rb" .
  define tau1 where "tau1 = tau\<lparr>stats_ringbuf := Some rb'\<rparr>"
  have "task_step (aperiodic tau) env (0, tau, w) = Some (0, advance_release tau1, w3)"
    using j(3) rb(1) s False by (simp add: task_step_def periodic_step_def tau1_def)
  moreover have "schedule env (release env (aperiodic tau) start per) k 1 w = ([\<lparr>t_begin = b, t_end = e\<rparr>], w3)"
    using j(1,2) False i s by (simp add: release_def)
  moreover have "release_ns tau1 + ns_of (period tau1) < time_limit"
    using fits p by (simp add: tau1_def distrib_right algebra_simps)
  then have "due start per (Suc k) (advance_release tau1)"
    using advance_release_ns [of tau1] p by (simp add: due_def tau1_def algebra_simps)
  moreover have "same_params tau1 tau" by (simp add: same_params_def tau1_def)
  then have "same_files (advance_release tau1) tau" by (simp add: same_files_def tau1_def)
  ultimately show ?thesis
    using that [of "advance_release tau1" w3 _ rb'] j(4-6) by (simp add: tau1_def)
qed

lemma schedule_Suc:
  "schedule env rel k 1 w = ([x], w1) \<Longrightarrow>
   schedule env rel k (Suc n) w = (x # fst (schedule env rel (Suc k) n w1), snd (schedule env rel (Suc k) n w1))"
  by (auto simp: split_def Let_def)

lemma iterate_follows:
  assumes h: "healthy env"
  shows "stats_ringbuf tau = Some rb \<Longrightarrow> ring_log rb xs \<Longrightarrow> length xs + n < 2 ^ 64 \<Longrightarrow> due start per k tau \<Longrightarrow>
    0 \<le> per \<Longrightarrow> start + int (k + n) * per < time_limit \<Longrightarrow> aper = aperiodic tau \<Longrightarrow>
    \<exists>tau' rb'. iterate (task_step aper env) n (0, tau, w) =
        Some (0, tau', snd (schedule env (release env aper start per) k n w)) \<and>
      stats_ringbuf tau' = Some rb' \<and> ring_log rb' (xs @ fst (schedule env (release env aper start per) k n w)) \<and>
      slot_count rb' = slot_count rb \<and> overrun_disabled rb' = overrun_disabled rb \<and> same_files tau' tau"
proof (induction n arbitrary: tau rb xs k w)
  case 0
  then show ?case by (simp add: same_files_def same_params_def)
next
  case (Suc n)
  have "int (Suc k) * per \<le> int (k + Suc n) * per" by (rule mult_right_mono) (use Suc.prems(5) in simp_all)
  then have fits: "start + int (Suc k) * per < time_limit" using Suc.prems(6) by linarith
  have "Suc (length xs) < 2 ^ 64" using Suc.prems(3) by simp
  from step_follows [OF h Suc.prems(1,2) this Suc.prems(4) fits]
  obtain tau1 rb1 x w1 where st: "task_step aper env (0, tau, w) = Some (0, tau1, w1)"
    "schedule env (release env aper start per) k 1 w = ([x], w1)"
    "stats_ringbuf tau1 = Some rb1" "ring_log rb1 (xs @ [x])" "slot_count rb1 = slot_count rb"
    "overrun_disabled rb1 = overrun_disabled rb" "due start per (Suc k) tau1" "same_files tau1 tau"
    unfolding Suc.prems(7) .
  have "aper = aperiodic tau1" using st(8) Suc.prems(7) by (simp add: same_files_def same_params_def)
  from Suc.IH [OF st(3,4) _ st(7) Suc.prems(5) _ this, of w1] Suc.prems(3,6)
  obtain tau' rb' where it: "iterate (task_step aper env) n (0, tau1, w1) =
      Some (0, tau', snd (schedule env (release env aper start per) (Suc k) n w1))"
    "stats_ringbuf tau' = Some rb'"
    "ring_log rb' ((xs @ [x]) @ fst (schedule env (release env aper start per) (Suc k) n w1))"
    "slot_count rb' = slot_count rb1" "overrun_disabled rb' = overrun_disabled rb1" "same_files tau' tau1"
    by auto
  have "same_files tau' tau" using same_files_trans [OF it(6) st(8)] .
  then show ?case
    using it st schedule_Suc [OF st(2), of n] by (intro exI [of _ tau'] exI [of _ rb']) simp
qed

text \<open>The task is stopped while job \<open>n\<close> runs, and not earlier.\<close>

definition stops_after :: "'w task_env \<Rightarrow> (nat \<Rightarrow> 'w \<Rightarrow> 'w) \<Rightarrow> nat \<Rightarrow> 'w \<Rightarrow> bool" where
  "stops_after env rel n w \<longleftrightarrow> (\<forall>k \<le> n. is_stopped env (snd (schedule env rel 0 (Suc k) w)) = (k = n))"

lemma task_loop_unfold:
  "iterate (task_step (aperiodic tau) env) (Suc n) (0, tau, w) = Some s' \<Longrightarrow>
   \<forall>k < n. goes_on env (the (iterate (task_step (aperiodic tau) env) (Suc k) (0, tau, w))) \<Longrightarrow> \<not> goes_on env s' \<Longrightarrow>
   task_loop env tau w = Some s'"
  using periodic.runs [of env n "(0, tau, w)" s'] aperiodic.runs [of env n "(0, tau, w)" s']
  by (cases "aperiodic tau") (simp_all add: task_loop_def task_step_def)

lemma loop_follows:
  assumes h: "healthy env" and rb: "stats_ringbuf tau = Some rb" "ring_log rb []" and n: "Suc n < 2 ^ 64"
    and d: "due start per 0 tau" "0 \<le> per" "start + int (Suc n) * per < time_limit"
    and stop: "stops_after env (release env (aperiodic tau) start per) n w"
  shows "\<exists>tau' rb'. task_loop env tau w =
        Some (0, tau', snd (schedule env (release env (aperiodic tau) start per) 0 (Suc n) w)) \<and>
      stats_ringbuf tau' = Some rb' \<and>
      ring_log rb' (fst (schedule env (release env (aperiodic tau) start per) 0 (Suc n) w)) \<and>
      slot_count rb' = slot_count rb \<and> overrun_disabled rb' = overrun_disabled rb \<and> same_files tau' tau"
proof -
  let ?rel = "release env (aperiodic tau) start per" and ?it = "iterate (task_step (aperiodic tau) env)"
  have it: "\<exists>tau' rb'. ?it m (0, tau, w) = Some (0, tau', snd (schedule env ?rel 0 m w)) \<and>
      stats_ringbuf tau' = Some rb' \<and> ring_log rb' (fst (schedule env ?rel 0 m w)) \<and>
      slot_count rb' = slot_count rb \<and> overrun_disabled rb' = overrun_disabled rb \<and> same_files tau' tau"
    if "m \<le> Suc n" for m
  proof -
    have "int m * per \<le> int (Suc n) * per" using that d(2) by (intro mult_right_mono) simp_all
    then have "start + int (0 + m) * per < time_limit" using d(3) by simp
    then show ?thesis using iterate_follows [OF h rb _ d(1,2) _ refl, of m w] n that by simp
  qed
  obtain tau' rb' where e: "?it (Suc n) (0, tau, w) = Some (0, tau', snd (schedule env ?rel 0 (Suc n) w))"
    "stats_ringbuf tau' = Some rb'" "ring_log rb' (fst (schedule env ?rel 0 (Suc n) w))"
    "slot_count rb' = slot_count rb" "overrun_disabled rb' = overrun_disabled rb" "same_files tau' tau"
    using it [of "Suc n"] by blast
  have "goes_on env (the (?it (Suc k) (0, tau, w)))" if "k < n" for k
  proof -
    have "\<not> is_stopped env (snd (schedule env ?rel 0 (Suc k) w))" using stop that by (simp add: stops_after_def del: schedule.simps)
    moreover have "Suc k \<le> Suc n" using that by simp
    from it [OF this] obtain tau1 where "?it (Suc k) (0, tau, w) = Some (0, tau1, snd (schedule env ?rel 0 (Suc k) w))"
      by blast
    ultimately show ?thesis by (simp add: goes_on_def del: iterate.simps schedule.simps)
  qed
  moreover have "\<not> goes_on env (0, tau', snd (schedule env ?rel 0 (Suc n) w))"
    using stop by (simp add: goes_on_def stops_after_def del: schedule.simps)
  ultimately have "task_loop env tau w = Some (0, tau', snd (schedule env ?rel 0 (Suc n) w))"
    using task_loop_unfold [OF e(1)] by blast
  then show ?thesis using e by blast
qed

section \<open>From creation to the file\<close>

lemma created_due:
  assumes "task_create bo env fs name b1 b2 b3 b4 b5 aper path slots dis b6 b7 h = Some ((0, Some tau), h1)"
    and "time_ok (t_0 tau)" "time_ok (tk_offset tau)" "time_ok (period tau)"
    and "ns_of (t_0 tau) + ns_of (tk_offset tau) < time_limit"
  shows "due (ns_of (t_0 tau) + ns_of (tk_offset tau)) (ns_of (period tau)) 0 tau"
proof -
  let ?s = "utility_time_add (t_0 tau) (tk_offset tau) utility_time_init"
  have "next_release_time tau = ut_t ?s" using create_writes [OF assms(1)] by blast
  then have "ut_t (dynobj (next_release_time tau)) = ut_t ?s" by simp
  then show ?thesis
    using add_correct [OF assms(2,3,5), of utility_time_init] t_congs [of "dynobj (next_release_time tau)" ?s] assms(4)
    by (simp add: due_def)
qed

lemma task_start_follows:
  assumes create: "task_create bo env fs name b1 b2 b3 b4 b5 aper path slots dis b6 b7 h = Some ((0, Some tau), h1)"
    and slots: "slots \<noteq> 0"
    and log: "fs_create fs path = Some w0" "ws_out w0 = []" "ws_close_ok w0"
      "66 + length name + 24 + 32 * unat slots \<le> ws_room w0"
    and times: "time_ok (t_0 tau)" "time_ok (tk_offset tau)" "time_ok (period tau)"
      "start = ns_of (t_0 tau) + ns_of (tk_offset tau)" "start + int (Suc n) * ns_of (period tau) < time_limit"
    and world: "healthy tenv" "Suc n < 2 ^ 64" "stops_after tenv (release tenv aper start (ns_of (period tau))) n w"
    and sch: "schedule tenv (release tenv aper start (ns_of (period tau))) 0 (Suc n) w = (xs, w')"
  shows "\<exists>tau1 tau2. task_start bo tenv tau w = Some (0, tau2, Some (task_file bo tau1 (window dis (unat slots) xs)), w') \<and>
    stats_log tau2 = No_log \<and> same_params tau1 tau \<and>
    unat (tk_write_count tau1) = Suc n \<and> unat (lost_job_count tau1) = Suc n - unat slots \<and>
    unat (oldest_job_pos tau1) = (if dis \<or> Suc n \<le> unat slots then 1 else Suc n - unat slots + 1)"
proof -
  let ?per = "ns_of (period tau)"
  from create_writes [OF create] slots log(1,2) obtain rb where c:
    "stats_log tau = Open_log (w0\<lparr>ws_out := task_stats_bytes bo (header_of bo tau) @ name_bytes (tk_name tau),
      ws_room := ws_room w0 - (66 + length name)\<rparr>)" "aperiodic tau = aper" "fail_to_close_stats_log tau = 0"
    "\<not> disable_job_statistics tau" "stats_ringbuf tau = Some rb" "ring_log rb []" "slot_count rb = slots"
    "overrun_disabled rb = dis" by auto
  have p: "0 \<le> ?per" using times(3) by simp
  then have "0 \<le> int (Suc n) * ?per" by (intro mult_nonneg_nonneg) simp_all
  then have "start < time_limit" using times(5) by linarith
  then have d: "due start ?per 0 tau" using created_due [OF create times(1-3)] times(4) by simp
  from loop_follows [OF world(1) c(5,6) world(2) d p times(5), of w] world(3) sch c(2,7,8)
  obtain tau' rb' where l: "task_loop tenv tau w = Some (0, tau', w')" "stats_ringbuf tau' = Some rb'"
    "ring_log rb' xs" "slot_count rb' = slots" "overrun_disabled rb' = dis" "same_files tau' tau"
    by (auto simp del: schedule.simps)
  have len: "length xs = Suc n" using sch length_schedule [of tenv _ 0 "Suc n" w] by (metis fst_conv)
  have sp: "same_params tau' tau" "stats_log tau' = stats_log tau" "fail_to_close_stats_log tau' = 0"
    using l(6) c(3) by (simp_all add: same_files_def)
  have en: "\<not> disable_job_statistics tau'" "tk_name tau' = tk_name tau" using sp(1) c(4) by (simp_all add: same_params_def)
  obtain v where v: "stats_log tau' = Open_log v" "ws_out v = task_stats_bytes bo (header_of bo tau') @ name_bytes (tk_name tau')"
    "24 + 32 * unat (slot_count rb') \<le> ws_room v" "ws_close_ok v"
    using c(1) sp(2) log header_of_cong [OF sp(1), of bo] en(2) l(4) by simp
  from flush_close [OF v(1,2) en(1) l(2,3) v(3,4)]
  obtain tau1 tau2 where fc: "flush_stats_ringbuf bo tau' = Some tau1"
    "close_logging_file tau1 = Some (tau2, Some (task_file bo tau1 (window dis (unat slots) xs)))"
    "same_params tau1 tau'" "fail_to_close_stats_log tau2 = 0" "stats_log tau2 = No_log"
    "oldest_job_pos tau1 = jobstats_ringbuf_oldest_pos rb'" "lost_job_count tau1 = jobstats_ringbuf_lost_count rb'"
    "tk_write_count tau1 = jobstats_ringbuf_write_count rb'" using l(4,5) sp(3) by auto
  have "task_start bo tenv tau w = Some (0, tau2, Some (task_file bo tau1 (window dis (unat slots) xs)), w')"
    using l(1) fc by (simp add: task_start_def)
  moreover have "same_params tau1 tau" using fc(3) sp(1) by (simp add: same_params_def)
  moreover have "unat (tk_write_count tau1) = Suc n"
    using fc(8) ring_logD(4,6) [OF l(3)] len by (simp add: jobstats_ringbuf_write_count_def unat64_of_nat del: of_nat_Suc)
  moreover have "xs \<noteq> []" using len by auto
  ultimately show ?thesis using fc counters [OF l(3)] l(4,5) len by (intro exI [of _ tau1] exI [of _ tau2]) simp
qed

section \<open>Properties\<close>

text \<open>Claim C1. The whole life of a task, periodic or not: a created task whose clock and sleeps do
  not fail, that is stopped in its job \<open>n\<close> and whose log fits the disk, runs the jobs \<open>0\<close> to \<open>n\<close>
  of its schedule, in which job \<open>k\<close> of a periodic task sleeps until exactly
  \<open>t_0 + offset + k * period\<close>, whatever happened before. \<^verbatim>\<open>task_start\<close> returns 0, the log is
  closed, so that \<^verbatim>\<open>task_destroy\<close> is safe, and \<^verbatim>\<open>task_statistics_read\<close> reads from it the
  parameters of the task, the number of its jobs, and the readings of the window of its jobs that
  the ring buffer keeps, oldest first.\<close>

theorem task_life:
  assumes "task_create bo env fs name b1 b2 b3 b4 b5 aper path slots dis b6 b7 h = Some ((0, Some tau), h1)"
    and "slots \<noteq> 0"
    and "fs_create fs path = Some w0" "ws_out w0 = []" "ws_close_ok w0"
      "66 + length name + 24 + 32 * unat slots \<le> ws_room w0"
    and "params_small tau" "time_ok (t_0 tau)" "time_ok (tk_offset tau)" "time_ok (period tau)"
      "start = ns_of (t_0 tau) + ns_of (tk_offset tau)" "start + int (Suc n) * ns_of (period tau) < time_limit"
    and "healthy tenv" "Suc n < 2 ^ 64" "stops_after tenv (release tenv aper start (ns_of (period tau))) n w"
    and "schedule tenv (release tenv aper start (ns_of (period tau))) 0 (Suc n) w = (xs, w')"
    and "\<forall>n. name_ok n" "\<forall>t a. fst (task_fn t a) = 0" "\<forall>x a. fst (job_fn x a) = 0"
  shows "\<exists>tau2 log r s1. task_start bo tenv tau w = Some (0, tau2, Some log, w') \<and> task_destroy tau2 = Some () \<and>
    task_statistics_read bo junk junk_task name_ok (stream_of log) task_fn job_fn args =
      Some (0, s1, fold (\<lambda>x a. snd (job_fn x a)) (window dis (unat slots) xs) (snd (task_fn r args))) \<and>
    same_params r tau \<and> unat (tk_write_count r) = Suc n \<and> unat (lost_job_count r) = Suc n - unat slots \<and>
    unat (oldest_job_pos r) = (if dis \<or> Suc n \<le> unat slots then 1 else Suc n - unat slots + 1)"
proof -
  from task_start_follows [OF assms(1-6) assms(8-16)]
  obtain tau1 tau2 where t: "task_start bo tenv tau w = Some (0, tau2, Some (task_file bo tau1 (window dis (unat slots) xs)), w')"
    "stats_log tau2 = No_log" "same_params tau1 tau"
    "unat (tk_write_count tau1) = Suc n" "unat (lost_job_count tau1) = Suc n - unat slots"
    "unat (oldest_job_pos tau1) = (if dis \<or> Suc n \<le> unat slots then 1 else Suc n - unat slots + 1)" by blast
  have "disable_job_statistics tau = (slots = 0)" using create_writes [OF assms(1)] by blast
  then have small: "params_small tau1" "\<not> disable_job_statistics tau1"
    using assms(2,7) t(3) by (simp_all add: params_small_def same_params_def small_time_def)
  from read_task_file [OF small, of name_ok task_fn job_fn bo junk junk_task "window dis (unat slots) xs" args] assms(17-19)
  obtain r s1 where r: "task_statistics_read bo junk junk_task name_ok
      (stream_of (task_file bo tau1 (window dis (unat slots) xs))) task_fn job_fn args =
      Some (0, s1, fold (\<lambda>x a. snd (job_fn x a)) (window dis (unat slots) xs) (snd (task_fn r args)))"
    "same_params r tau1" "oldest_job_pos r = oldest_job_pos tau1" "lost_job_count r = lost_job_count tau1"
    "tk_write_count r = tk_write_count tau1" by blast
  have "same_params r tau" using r(2) t(3) by (simp add: same_params_def)
  moreover have "task_destroy tau2 = Some ()" using t(2) by (simp add: task_destroy_def)
  ultimately show ?thesis using t r
    by (intro exI [of _ tau2] exI [of _ "task_file bo tau1 (window dis (unat slots) xs)"] exI [of _ r] exI [of _ s1]) simp
qed

definition life_env :: "nat task_env" where
  "life_env = \<lparr>sleep_until = (\<lambda>_ w. (0, w)), read_clock = tick, run_program = id, aperiodic_release = id,
     is_stopped = (\<lambda>w. 6 \<le> w)\<rparr>"

lemma life_env_run:
  "healthy life_env" "stops_after life_env (release life_env False s p) 2 0"
  "snd (schedule life_env (release life_env False s p) 0 3 0) = 6"
proof -
  have r: "release life_env False s p k w = w" for k w by (simp add: release_def life_env_def)
  have e: "read_clock life_env = tick" "run_program life_env = id" "is_stopped life_env = (\<lambda>w. 6 \<le> w)"
    by (simp_all add: life_env_def)
  show "healthy life_env" by (simp add: healthy_def life_env_def tick_def)
  have k: "k \<le> 2 \<longleftrightarrow> k = 0 \<or> k = 1 \<or> k = 2" for k :: nat by arith
  show "stops_after life_env (release life_env False s p) 2 0"
    unfolding stops_after_def k by (auto simp: r e tick_def numeral_2_eq_2)
  show "snd (schedule life_env (release life_env False s p) 0 3 0) = 6"
    by (simp add: r e tick_def numeral_3_eq_3)
qed

definition life_log :: wstream where
  "life_log = \<lparr>ws_out = [], ws_room = 157, ws_close_ok = True\<rparr>"

theorem task_life_witness:
  "\<exists>tau h1 tau2 log s1. task_create CPU_LITTLE_ENDIAN good_create (one_file life_log) ''tau''
      (Some 0) (Some 1) (Some 2) (Some 3) (Some 4) False ''log'' 2 False (Some 5) (Some 6) args_store =
      Some ((0, Some tau), h1) \<and>
    task_start CPU_LITTLE_ENDIAN life_env tau 0 = Some (0, tau2, Some log, 6) \<and>
    task_statistics_read CPU_LITTLE_ENDIAN [] tau (\<lambda>_. True) (stream_of log) (\<lambda>_ n. (0, n)) count_jobs 0 =
      Some (0, s1, 2)"
proof -
  obtain rb where rb: "jobstats_ringbuf_create (ok_ringbuf good_create) 2 False = Some rb"
    by (simp add: jobstats_ringbuf_create_def)
  define tau where "tau = created CPU_LITTLE_ENDIAN args_store ''tau'' ''log'' [0, 1, 2, 3, 4, 5, 6] False 2 (Some rb) life_log"
  have "66 + length ''tau'' \<le> ws_room life_log" by (simp add: life_log_def)
  with create_eval [OF args_store_ok(1,2,3) good_create_simps(1-4), of "one_file life_log" "''log''" life_log "Some rb" 2 False
      CPU_LITTLE_ENDIAN "''tau''" False] rb
  obtain h1 where c: "task_create CPU_LITTLE_ENDIAN good_create (one_file life_log) ''tau''
      (Some 0) (Some 1) (Some 2) (Some 3) (Some 4) False ''log'' 2 False (Some 5) (Some 6) args_store = Some ((0, Some tau), h1)"
    by (auto simp: tau_def simp del: collect_all.simps live_args.simps One_nat_def)
  have u: "ut_t (copy_of_arg args_store a) = ut_t (ut 1 0)" if "a < 6" for a
    using that by (simp add: copy_of_arg_def args_store_def utility_time_to_utility_time_def)
  have t: "ut_t (t_0 tau) = ut_t (ut 1 0)" "ut_t (tk_offset tau) = ut_t (ut 1 0)" "ut_t (period tau) = ut_t (ut 1 0)"
    by (simp_all add: tau_def created_def Let_def u)
  have ok: "time_ok (t_0 tau)" "time_ok (tk_offset tau)" "time_ok (period tau)"
    using t_congs(2) [OF t(1)] t_congs(2) [OF t(2)] t_congs(2) [OF t(3)] by simp_all
  have small: "params_small tau"
    by (simp add: params_small_def tau_def created_def Let_def small_time_def copy_of_arg_def args_store_def ut_def dynobj_def
      utility_time_to_utility_time_def set_t_def)
  have ns: "ns_of (t_0 tau) + ns_of (tk_offset tau) + int (Suc 2) * ns_of (period tau) < time_limit"
    using t_congs(1) [OF t(1)] t_congs(1) [OF t(2)] t_congs(1) [OF t(3)] by (simp add: time_limit_def)
  define xs where "xs = fst (schedule life_env (release life_env False (ns_of (t_0 tau) + ns_of (tk_offset tau)) (ns_of (period tau))) 0 3 0)"
  have sch: "schedule life_env (release life_env False (ns_of (t_0 tau) + ns_of (tk_offset tau)) (ns_of (period tau))) 0 (Suc 2) 0 = (xs, 6)"
    using life_env_run(3) [of "ns_of (t_0 tau) + ns_of (tk_offset tau)" "ns_of (period tau)"]
    by (simp add: xs_def prod_eq_iff numeral_3_eq_3 numeral_2_eq_2)
  have two: "fold (\<lambda>x a. snd (count_jobs x a)) ys (m :: nat) = m + length ys" for ys m
    by (induction ys arbitrary: m) (simp_all add: count_jobs_def)
  have "length xs = 3" by (simp add: xs_def)
  then have "length (window False (unat (2 :: u64)) xs) = 2" by (simp add: window_def)
  with task_life [OF c _ _ _ _ _ small ok refl ns life_env_run(1) _ life_env_run(2) sch, of life_log "\<lambda>_. True" "\<lambda>_ n. (0, n)" count_jobs
      "[]" tau 0]
  show ?thesis using c two by (fastforce simp: life_log_def count_jobs_def)
qed

text \<open>Claim C16. Whatever the sleeps, the clock and the jobs do and return, after \<open>n\<close> jobs the next
  release time of a periodic task is the first one plus \<open>n\<close> periods: release times do not drift.\<close>

theorem periodic_release_no_drift:
  assumes "time_ok (period tau)" "time_ok (dynobj (next_release_time tau))"
    and "release_ns tau + int n * ns_of (period tau) < time_limit"
    and "iterate (periodic_step env) n (rc, tau, w) = Some (rc', tau', w')"
  shows "release_ns tau' = release_ns tau + int n * ns_of (period tau) \<and> ut_t (period tau') = ut_t (period tau) \<and>
    next_release_time tau' = instant (release_ns tau + int n * ns_of (period tau))"
proof -
  have "period tau' = period tau"
    using periodic.iterate_invariant [where P = "\<lambda>s. period (fst (snd s)) = period tau", OF _ _ assms(4)]
      periodic_step_release by fastforce
  moreover note release_after [OF assms(1,4,2,3)]
  ultimately show ?thesis using instant_ns [of "next_release_time tau'"] by simp
qed

theorem periodic_release_no_drift_witness:
  "\<exists>tau tau'. iterate (periodic_step (life_env\<lparr>sleep_until := (\<lambda>_ w. (4, w))\<rparr>)) 2 (0, tau, 0) = Some (- 8, tau', 0) \<and>
     release_ns tau' = 7000000003"
proof -
  define tau where "tau = (created CPU_LITTLE_ENDIAN args_store ''t'' ''l'' [0, 1, 2, 3, 4, 5, 6] False 0 None life_log)
    \<lparr>next_release_time := ut_t (ut 5 3)\<rparr>"
  let ?env = "life_env\<lparr>sleep_until := (\<lambda>_ w. (4, w))\<rparr>"
  have "stats_ringbuf tau = None" by (simp add: tau_def)
  moreover have c: "ut_t (period tau) = ut_t (ut 1 0)" "ut_t (dynobj (next_release_time tau)) = ut_t (ut 5 3)"
    by (simp_all add: tau_def created_def Let_def copy_of_arg_def args_store_def utility_time_to_utility_time_def)
  ultimately obtain tau' where it: "iterate (periodic_step ?env) 2 (0, tau, 0) = Some (- 8, tau', 0)"
    by (simp add: numeral_2_eq_2 periodic_step_def job_start_def life_env_def)
  note p = t_congs [OF c(1)] and r = t_congs [OF c(2)]
  have "release_ns tau' = release_ns tau + int 2 * ns_of (period tau)"
    by (rule periodic_release_no_drift [OF _ _ _ it, THEN conjunct1]) (use p r in \<open>simp_all add: time_limit_def\<close>)
  then show ?thesis using it p r by (intro exI conjI) simp_all
qed

text \<open>When the statistics log cannot be closed, \<^verbatim>\<open>task_start\<close> reports it in its return
  code but leaves the pointer to the stream, which is gone, in the task: the \<^verbatim>\<open>task_destroy\<close> that
  must follow closes it a second time, which is undefined.\<close>

theorem close_failure_double_close:
  assumes "task_loop env tau w = Some (rc, tau1, w1)" "flush_stats_ringbuf bo tau1 = Some tau2"
    and "stats_log tau2 = Open_log v" "\<not> ws_close_ok v"
  shows "\<exists>tau3. task_start bo env tau w = Some (rc - (fail_to_close_stats_log tau2 + 1), tau3, None, w1) \<and>
    task_destroy tau3 = None"
  using assms by (simp add: task_start_def close_logging_file_def utility_file_close_def task_destroy_def)

theorem close_failure_double_close_witness:
  "\<exists>tau tau3 h1. task_create CPU_LITTLE_ENDIAN good_create (one_file (life_log\<lparr>ws_close_ok := False\<rparr>)) ''tau''
      (Some 0) (Some 1) (Some 2) (Some 3) (Some 4) True ''log'' 0 False (Some 5) (Some 6) args_store =
      Some ((0, Some tau), h1) \<and>
    task_start CPU_LITTLE_ENDIAN life_env tau 6 = Some (- 1, tau3, None, 6) \<and> task_destroy tau3 = None"
proof -
  let ?w = "life_log\<lparr>ws_close_ok := False\<rparr>"
  let ?tau = "created CPU_LITTLE_ENDIAN args_store ''tau'' ''log'' [0, 1, 2, 3, 4, 5, 6] True 0 None ?w"
  have "66 + length ''tau'' \<le> ws_room ?w" by (simp add: life_log_def)
  with create_eval [OF args_store_ok(1,2,3) good_create_simps(1-4), of "one_file ?w" "''log''" ?w None 0 False
      CPU_LITTLE_ENDIAN "''tau''" True]
  obtain h1 where c: "task_create CPU_LITTLE_ENDIAN good_create (one_file ?w) ''tau''
      (Some 0) (Some 1) (Some 2) (Some 3) (Some 4) True ''log'' 0 False (Some 5) (Some 6) args_store = Some ((0, Some ?tau), h1)"
    by (auto simp del: collect_all.simps live_args.simps One_nat_def)
  define tau1 where "tau1 = ?tau\<lparr>inside_aperiodic_release := False, stats_ringbuf := None\<rparr>"
  have l: "task_loop life_env ?tau 6 = Some (0, tau1, 6)"
    by (simp add: task_loop_def task_start_aperiodic.simps aperiodic_step_def job_start_def goes_on_def life_env_def tau1_def)
  have f: "flush_stats_ringbuf CPU_LITTLE_ENDIAN tau1 = Some tau1" by (simp add: flush_stats_ringbuf_def tau1_def)
  have v: "stats_log tau1 = Open_log (snd (fwrite (task_stats_bytes CPU_LITTLE_ENDIAN (header_of CPU_LITTLE_ENDIAN
      (?tau\<lparr>stats_log := No_log\<rparr>)) @ name_bytes ''tau'') ?w))" "fail_to_close_stats_log tau1 = 0"
    by (simp_all add: tau1_def created_def Let_def)
  have cl: "\<not> ws_close_ok (snd (fwrite bs ?w))" for bs by (simp add: fwrite_def)
  show ?thesis using close_failure_double_close [OF l f v(1) cl] c v(2) by auto
qed

end
