(* ===== verification/Task_Overhead.thy ===== *)
theory Task_Overhead
  imports Task_Lifecycle
begin

text \<open>
  The measurement of the finish-to-start overhead (\<^verbatim>\<open>finish_to_start_overhead\<close> in \<^verbatim>\<open>task.c\<close>): the
  measuring task runs exactly two jobs, its ring buffer goes through a temporary file, and the
  overhead is the sum of the latency of the first release and of the time from the end of the first
  job to the start of the second.
\<close>

section \<open>The measuring task runs two jobs\<close>

definition measuring_step :: "bool \<Rightarrow> measure_env \<Rightarrow> int \<times> task \<times> measure_world \<Rightarrow>
    (int \<times> task \<times> measure_world) option" where
  "measuring_step aper env = task_step aper (measure_task_env env)"

lemma measure_task_env_simps [simp]:
  "sleep_until (measure_task_env env) = (\<lambda>_ w. (me_sleep_errno env, w))"
  "read_clock (measure_task_env env) = measure_clock"
  "run_program (measure_task_env env) = run_program_stop_task"
  "aperiodic_release (measure_task_env env) = (\<lambda>w. w)" "is_stopped (measure_task_env env) = stopped"
  by (simp_all add: measure_task_env_def)

lemma measuring_job:
  assumes rb: "stats_ringbuf tau = Some rb" "ring_log rb xs" "Suc (length xs) < 2 ^ 64" and s: "me_sleep_errno env = 0"
  shows "\<exists>tau' rb'. measuring_step (aperiodic tau) env
      (0, tau, \<lparr>readings = Some b # Some e # rs, stop_counter = c, stopped = st\<rparr>) =
      Some (0, tau', \<lparr>readings = rs, stop_counter = c - 1, stopped = (c = 0)\<rparr>) \<and>
    stats_ringbuf tau' = Some rb' \<and> ring_log rb' (xs @ [\<lparr>t_begin = b, t_end = e\<rparr>]) \<and>
    slot_count rb' = slot_count rb \<and> overrun_disabled rb' = overrun_disabled rb \<and> aperiodic tau' = aperiodic tau"
proof -
  let ?w = "\<lparr>readings = Some b # Some e # rs, stop_counter = c, stopped = st\<rparr>"
  let ?w1 = "\<lparr>readings = Some e # rs, stop_counter = c, stopped = st\<rparr>"
  let ?w3 = "\<lparr>readings = rs, stop_counter = c - 1, stopped = (c = 0)\<rparr>"
  have c1: "measure_clock ?w = (Some b, ?w1)" by (simp add: measure_clock_def)
  have c2: "measure_clock (run_program_stop_task ?w1) = (Some e, ?w3)"
    by (simp add: measure_clock_def run_program_stop_task_def)
  from job_start_logs [where clock = measure_clock and program = run_program_stop_task and w = ?w, OF rb(2,3) c1 c2]
  obtain rb' x where r: "job_start measure_clock run_program_stop_task (Some rb) ?w = Some (0, Some rb', ?w3)"
    "ring_log rb' (xs @ [x])" "slot_count rb' = slot_count rb" "overrun_disabled rb' = overrun_disabled rb"
    "t_begin x = b" "t_end x = e" by auto
  have "ring_log rb' (xs @ [\<lparr>t_begin = b, t_end = e\<rparr>])" using r(2,5,6) by (cases x) simp
  then show ?thesis using r(1,3,4) rb(1) s
    by (cases "aperiodic tau") (simp_all add: measuring_step_def task_step_def periodic_step_def aperiodic_step_def)
qed

lemma measuring_loop:
  assumes rb: "stats_ringbuf tau = Some rb" "ring_log rb []" and s: "me_sleep_errno env = 0"
  shows "\<exists>tau' rb' w'. task_loop (measure_task_env env) tau
      \<lparr>readings = [Some b1, Some e1, Some b2, Some e2], stop_counter = 1, stopped = False\<rparr> = Some (0, tau', w') \<and>
    stats_ringbuf tau' = Some rb' \<and> ring_log rb' [\<lparr>t_begin = b1, t_end = e1\<rparr>, \<lparr>t_begin = b2, t_end = e2\<rparr>] \<and>
    slot_count rb' = slot_count rb \<and> overrun_disabled rb' = overrun_disabled rb"
proof -
  let ?w = "\<lparr>readings = [Some b1, Some e1, Some b2, Some e2], stop_counter = 1, stopped = False\<rparr>"
  let ?w1 = "\<lparr>readings = [Some b2, Some e2], stop_counter = 0, stopped = False\<rparr>"
  let ?w2 = "\<lparr>readings = [], stop_counter = - 1, stopped = True\<rparr>"
  from measuring_job [OF rb _ s, of b1 e1 "[Some b2, Some e2]" 1 False] obtain tau1 rb1 where j1:
    "measuring_step (aperiodic tau) env (0, tau, ?w) = Some (0, tau1, ?w1)" "stats_ringbuf tau1 = Some rb1"
    "ring_log rb1 [\<lparr>t_begin = b1, t_end = e1\<rparr>]" "slot_count rb1 = slot_count rb"
    "overrun_disabled rb1 = overrun_disabled rb" "aperiodic tau1 = aperiodic tau" by auto
  from measuring_job [OF j1(2,3) _ s, of b2 e2 "[]" 0 False] obtain tau2 rb2 where j2:
    "measuring_step (aperiodic tau) env (0, tau1, ?w1) = Some (0, tau2, ?w2)" "stats_ringbuf tau2 = Some rb2"
    "ring_log rb2 [\<lparr>t_begin = b1, t_end = e1\<rparr>, \<lparr>t_begin = b2, t_end = e2\<rparr>]" "slot_count rb2 = slot_count rb"
    "overrun_disabled rb2 = overrun_disabled rb" using j1 by auto
  have "task_loop (measure_task_env env) tau ?w = Some (0, tau2, ?w2)"
    by (rule task_loop_unfold [of _ _ 1])
      (use j1(1) j2(1) in \<open>simp_all add: measuring_step_def [symmetric] goes_on_def\<close>)
  then show ?thesis using j2 by blast
qed

section \<open>The objects of the calculation\<close>

text \<open>The four operands are allocated first, in the order of the code, and then combined.\<close>

lemma overhead_expression:
  assumes h: "store_ok h" and m: "all_ok h 7"
  shows "(do {
      (t_release, h) \<leftarrow> fill_dyn (\<lambda>p h. do { u \<leftarrow> load p h; store p (utility_time_add t0 off u) h }) h;
      (t_start_1, h) \<leftarrow> timespec_to_utility_time_dyn b1 h;
      (t_finish_1, h) \<leftarrow> timespec_to_utility_time_dyn e1 h;
      (t_start_2, h) \<leftarrow> timespec_to_utility_time_dyn b2 h;
      (a, h) \<leftarrow> utility_time_sub_dyn_gc t_start_1 t_release h;
      (b, h) \<leftarrow> utility_time_sub_dyn_gc t_start_2 t_finish_1 h;
      (r, h) \<leftarrow> utility_time_add_dyn_gc a b h;
      Some ((0 :: int, r), h) }) =
    Some ((0, Some (next_addr h + 6)), alloc (time_op utility_time_add
        (time_op utility_time_sub b1 (ut_t (utility_time_add t0 off utility_time_init)))
        (time_op utility_time_sub b2 e1)) (h\<lparr>next_addr := next_addr h + 6\<rparr>))"
proof -
  let ?n = "next_addr h" and ?r = "ut_t (utility_time_add t0 off utility_time_init)"
  have ok: "malloc_ok h (?n + k)" if "k < 7" for k using m that by (simp add: all_ok_def)
  have ts: "timespec_to_utility_time_dyn t h' = Some (Some (next_addr h'), alloc t h')"
    if "malloc_ok h' (next_addr h')" "store_ok h'" for t h'
    using eval_leaf [of h' "Of_timespec t"] that by simp
  define h1 where "h1 = alloc ?r h"
  define h2 where "h2 = alloc b1 h1"
  define h3 where "h3 = alloc e1 h2"
  define h4 where "h4 = alloc b2 h3"
  have oks: "store_ok h1" "store_ok h2" "store_ok h3" "store_ok h4"
    unfolding h1_def h2_def h3_def h4_def using h by (simp_all add: store_ok_alloc)
  have nx: "next_addr h1 = ?n + 1" "next_addr h2 = ?n + 2" "next_addr h3 = ?n + 3" "next_addr h4 = ?n + 4"
    "malloc_ok h1 = malloc_ok h" "malloc_ok h2 = malloc_ok h" "malloc_ok h3 = malloc_ok h" "malloc_ok h4 = malloc_ok h"
    by (simp_all add: h1_def h2_def h3_def h4_def alloc_def)
  have cl: "cells h4 ?n = Some (dynobj ?r)" "cells h4 (?n + 1) = Some (dynobj b1)" "cells h4 (?n + 2) = Some (dynobj e1)"
    "cells h4 (?n + 3) = Some (dynobj b2)"
    by (simp_all add: h1_def h2_def h3_def h4_def alloc_def)
  have s1: "fill_dyn (\<lambda>p h. do { u \<leftarrow> load p h; store p (utility_time_add t0 off u) h }) h = Some (Some ?n, h1)"
    unfolding h1_def by (rule fill_dyn_fills)
      (use ok [of 0] in \<open>simp_all add: store_simps alloc_def dynobj_def utility_time_add_def set_t_def\<close>)
  have s2: "timespec_to_utility_time_dyn b1 h1 = Some (Some (?n + 1), h2)"
    "timespec_to_utility_time_dyn e1 h2 = Some (Some (?n + 2), h3)"
    "timespec_to_utility_time_dyn b2 h3 = Some (Some (?n + 3), h4)"
    using ts [of h1 b1] ts [of h2 e1] ts [of h3 b2] oks nx ok [of 1] ok [of 2] ok [of 3]
    by (simp_all add: h2_def h3_def h4_def)
  let ?a = "time_op utility_time_sub b1 ?r" and ?b = "time_op utility_time_sub b2 e1"
  define h5 where "h5 = collect ?n (dynobj ?r) (collect (?n + 1) (dynobj b1) (alloc ?a h4))"
  have s3: "utility_time_sub_dyn_gc (Some (?n + 1)) (Some ?n) h4 = Some (Some (?n + 4), h5)"
    using sub.dyn_gc_live [OF oks(4) cl(2,1)] nx ok [of 4] by (simp add: h5_def)
  have ok5: "store_ok h5" unfolding h5_def using oks(4) by (intro store_ok_collect store_ok_alloc)
  have n5: "next_addr h5 = ?n + 5" "malloc_ok h5 = malloc_ok h" using nx by (simp_all add: h5_def alloc_def collect_def)
  have c5: "cells h5 (?n + 3) = Some (dynobj b2)" "cells h5 (?n + 2) = Some (dynobj e1)" "cells h5 (?n + 4) = Some (dynobj ?a)"
    using cl nx by (simp_all add: h5_def alloc_def collect_def)
  define h6 where "h6 = collect (?n + 2) (dynobj e1) (collect (?n + 3) (dynobj b2) (alloc ?b h5))"
  have s4: "utility_time_sub_dyn_gc (Some (?n + 3)) (Some (?n + 2)) h5 = Some (Some (?n + 5), h6)"
    using sub.dyn_gc_live [OF ok5 c5(1,2)] n5 ok [of 5] by (simp add: h6_def)
  have ok6: "store_ok h6" unfolding h6_def using ok5 by (intro store_ok_collect store_ok_alloc)
  have n6: "next_addr h6 = ?n + 6" "malloc_ok h6 = malloc_ok h" using n5 by (simp_all add: h6_def alloc_def collect_def)
  have c6: "cells h6 (?n + 4) = Some (dynobj ?a)" "cells h6 (?n + 5) = Some (dynobj ?b)"
    using c5 n5 by (simp_all add: h6_def alloc_def collect_def)
  have s5: "utility_time_add_dyn_gc (Some (?n + 4)) (Some (?n + 5)) h6 =
      Some (Some (?n + 6), collect (?n + 5) (dynobj ?b) (collect (?n + 4) (dynobj ?a) (alloc (time_op utility_time_add ?a ?b) h6)))"
    using add.dyn_gc_live [OF ok6 c6] n6 ok [of 6] by simp
  have fresh: "cells h a = None" "a \<notin> heap_objs h" if "?n \<le> a" for a using store_okD(3) [OF h that] by simp_all
  have "collect (?n + 5) (dynobj ?b) (collect (?n + 4) (dynobj ?a) (alloc (time_op utility_time_add ?a ?b) h6)) =
      alloc (time_op utility_time_add ?a ?b) (h\<lparr>next_addr := ?n + 6\<rparr>)"
    using fresh by (intro time_store.equality ext)
      (auto simp: h1_def h2_def h3_def h4_def h5_def h6_def alloc_def collect_def)
  then show ?thesis using s1 s2 s3 s4 s5 by simp
qed

section \<open>Properties\<close>

lemma time_op_ns:
  assumes "time_ok (dynobj x)" "time_ok (dynobj y)"
  shows "ns_of (dynobj (time_op utility_time_sub x y)) = max 0 (ns_of (dynobj x) - ns_of (dynobj y)) \<and>
      time_ok (dynobj (time_op utility_time_sub x y))"
    and "ns_of (dynobj x) + ns_of (dynobj y) < time_limit \<Longrightarrow>
      ns_of (dynobj (time_op utility_time_add x y)) = ns_of (dynobj x) + ns_of (dynobj y) \<and>
      time_ok (dynobj (time_op utility_time_add x y))"
  using sub_correct [OF assms, of utility_time_init] add_correct [OF assms, of utility_time_init]
    t_congs [of "dynobj (time_op utility_time_sub x y)" "utility_time_sub (dynobj x) (dynobj y) utility_time_init"]
    t_congs [of "dynobj (time_op utility_time_add x y)" "utility_time_add (dynobj x) (dynobj y) utility_time_init"]
  by (simp_all add: time_op_def)

lemma all_ok_later: "all_ok h (j + k) \<Longrightarrow> all_ok (h\<lparr>next_addr := next_addr h + j\<rparr>) k"
  by (simp add: all_ok_def add.assoc)

lemma measuring_file:
  assumes "ring_log rb [x1, x2]" "slot_count rb = 2" "\<not> overrun_disabled rb" "ws_out log = []" "64 \<le> ws_room log"
  shows "\<exists>log1. jobstats_ringbuf_save bo rb log = Some (0, log1) \<and>
    job_statistics_read bo junk \<lparr>rs_data = ws_out log1, rs_eof = False, rs_err = False, rs_fail = None\<rparr> =
      (0, Some x1, \<lparr>rs_data = stats_bytes bo x2, rs_eof = False, rs_err = False, rs_fail = None\<rparr>) \<and>
    job_statistics_read bo junk \<lparr>rs_data = stats_bytes bo x2, rs_eof = False, rs_err = False, rs_fail = None\<rparr> =
      (0, Some x2, \<lparr>rs_data = [], rs_eof = False, rs_err = False, rs_fail = None\<rparr>)"
  using save_correct [OF assms(1), of log bo] assms(2-5)
    stats_read [of "\<lparr>rs_data = stats_bytes bo x1 @ stats_bytes bo x2, rs_eof = False, rs_err = False, rs_fail = None\<rparr>" bo x1]
    stats_read [of "\<lparr>rs_data = stats_bytes bo x2, rs_eof = False, rs_err = False, rs_fail = None\<rparr>" bo x2 "[]"]
  by (simp add: window_def with_stats_def)

text \<open>The thread, once it may run at the highest priority.\<close>

lemma measurement_run:
  assumes "store_ok h" "all_ok h 8"
    and "me_tmpfile env = Some log" "ws_out log = []" "64 \<le> ws_room log" "me_ringbuf_ok env = (True, True)"
      "me_now env = Some now" "me_sleep_errno env = 0" "me_seek_ok env" "me_lock_rc env = 0" "me_enter_max_rc env = 0"
    and "t0 = timespec_to_utility_time now utility_time_init" "off = to_utility_time 100 Unit_ms utility_time_init"
    and "rel = ut_t (utility_time_add t0 off utility_time_init)"
  shows "task_overhead_measurement_thread bo junk tau0 env [Some b1, Some e1, Some b2, Some e2] aper h =
      Some ((0, Some (next_addr h + 7)), alloc (time_op utility_time_add (time_op utility_time_sub b1 rel)
        (time_op utility_time_sub b2 e1)) (h\<lparr>next_addr := next_addr h + 7\<rparr>))"
proof -
  note t0_def = assms(12) and off_def = assms(13) and rel_def = assms(14)
  let ?h = "h\<lparr>next_addr := next_addr h + 1\<rparr>"
  let ?ts = "time_op utility_time_add (time_op utility_time_sub b1 rel) (time_op utility_time_sub b2 e1)"
  have "malloc_ok h (next_addr h)" using assms(2) by (auto simp: all_ok_def dest: spec [of _ 0])
  from first_release_eq [OF assms(1) this] have fr: "first_release t0 off h = Some (rel, ?h)" by (simp add: rel_def)
  obtain rb where rb: "jobstats_ringbuf_create (me_ringbuf_ok env) 2 False = Some rb"
    using assms(6) by (simp add: jobstats_ringbuf_create_def)
  note rl = create_log [OF rb]
  define tau where "tau = tau0\<lparr>scratch := utility_time_init, aperiodic := aper,
    inside_aperiodic_release := False, stats_log := Open_log log, stats_ringbuf := Some rb,
    disable_job_statistics := False, period := to_utility_time 0 Unit_ns utility_time_init,
    t_0 := t0, tk_offset := off, next_release_time := rel\<rparr>"
  have "stats_ringbuf tau = Some rb" by (simp add: tau_def)
  from measuring_loop [OF this _ assms(8), of b1 e1 b2 e2] rl obtain tau1 rb1 w1 where l:
    "task_loop (measure_task_env env) tau \<lparr>readings = [Some b1, Some e1, Some b2, Some e2], stop_counter = 1, stopped = False\<rparr> =
      Some (0, tau1, w1)" "stats_ringbuf tau1 = Some rb1"
    "ring_log rb1 [\<lparr>t_begin = b1, t_end = e1\<rparr>, \<lparr>t_begin = b2, t_end = e2\<rparr>]" "slot_count rb1 = 2" "\<not> overrun_disabled rb1"
    by auto
  from measuring_file [OF l(3-5) assms(4,5), of bo junk] obtain log1 where f:
    "jobstats_ringbuf_save bo rb1 log = Some (0, log1)"
    "job_statistics_read bo junk \<lparr>rs_data = ws_out log1, rs_eof = False, rs_err = False, rs_fail = None\<rparr> =
      (0, Some \<lparr>t_begin = b1, t_end = e1\<rparr>, \<lparr>rs_data = stats_bytes bo \<lparr>t_begin = b2, t_end = e2\<rparr>, rs_eof = False, rs_err = False, rs_fail = None\<rparr>)"
    "job_statistics_read bo junk \<lparr>rs_data = stats_bytes bo \<lparr>t_begin = b2, t_end = e2\<rparr>, rs_eof = False, rs_err = False, rs_fail = None\<rparr> =
      (0, Some \<lparr>t_begin = b2, t_end = e2\<rparr>, \<lparr>rs_data = [], rs_eof = False, rs_err = False, rs_fail = None\<rparr>)" by blast
  have "store_ok ?h" using store_ok_skip [OF assms(1)] by simp
  moreover have "all_ok ?h 7" using all_ok_later [of h 1 7] assms(2) by simp
  moreover have eqs: "next_addr ?h + 6 = next_addr h + 7" "?h\<lparr>next_addr := next_addr h + 7\<rparr> = h\<lparr>next_addr := next_addr h + 7\<rparr>"
    by simp_all
  ultimately have ex: "(do {
      (t_release, h) \<leftarrow> fill_dyn (\<lambda>p h. do { u \<leftarrow> load p h; store p (utility_time_add t0 off u) h }) ?h;
      (t_start_1, h) \<leftarrow> timespec_to_utility_time_dyn b1 h;
      (t_finish_1, h) \<leftarrow> timespec_to_utility_time_dyn e1 h;
      (t_start_2, h) \<leftarrow> timespec_to_utility_time_dyn b2 h;
      (a, h) \<leftarrow> utility_time_sub_dyn_gc t_start_1 t_release h;
      (b, h) \<leftarrow> utility_time_sub_dyn_gc t_start_2 t_finish_1 h;
      (r, h) \<leftarrow> utility_time_add_dyn_gc a b h;
      Some ((0 :: int, r), h) }) =
    Some ((0, Some (next_addr h + 7)), alloc ?ts (h\<lparr>next_addr := next_addr h + 7\<rparr>))"
    using overhead_expression [of ?h t0 off b1 e1 b2] unfolding eqs rel_def by blast
  show "task_overhead_measurement_thread bo junk tau0 env [Some b1, Some e1, Some b2, Some e2] aper h =
      Some ((0, Some (next_addr h + 7)), alloc ?ts (h\<lparr>next_addr := next_addr h + 7\<rparr>))"
    by (simp only: assms(10,11) task_overhead_measurement_thread_def task_overhead_measurement_def assms(3,7,9) rb fr l f ex Let_def
        t0_def [symmetric] off_def [symmetric] tau_def [symmetric] option.case bind.bind_lunit prod.case if_False if_True
        simp_thms job_statistics_time_start_def job_statistics_time_finish_def job_statistics.simps option.sel)
qed

text \<open>Claim C17. When every call the measuring thread depends on succeeds, the measuring task runs
  exactly two jobs, whichever of the two kinds it is, and the result is a fresh collectable object
  with the sum of the time from the release instant, 100 ms after the start, to the first start,
  and the time from the first finish to the second start, each cut off at zero; every other
  object of the calculation has been freed. When the thread cannot be locked to the CPU, or may not
  use \<^verbatim>\<open>SCHED_FIFO\<close>, which is documented to return -1, the thread jumps to the clean-up of members
  that were never set.\<close>

theorem finish_to_start_overhead_measured:
  assumes "store_ok h" "all_ok h 8"
    and "me_tmpfile env = Some log" "ws_out log = []" "64 \<le> ws_room log" "me_ringbuf_ok env = (True, True)"
      "me_now env = Some now" "me_sleep_errno env = 0" "me_seek_ok env"
    and "time_ok (dynobj now)" "time_ok (dynobj b1)" "time_ok (dynobj e1)" "time_ok (dynobj b2)"
      "ns_of (dynobj now) + 100000000 < time_limit"
    and "first_latency = max 0 (ns_of (dynobj b1) - (ns_of (dynobj now) + 100000000))"
      "second_latency = max 0 (ns_of (dynobj b2) - ns_of (dynobj e1))" "first_latency + second_latency < time_limit"
  shows "if me_lock_rc env \<noteq> 0 \<or> me_enter_max_rc env \<noteq> 0
    then finish_to_start_overhead True True bo junk tau0 env [Some b1, Some e1, Some b2, Some e2] aper h = None
    else \<exists>ts. finish_to_start_overhead True True bo junk tau0 env [Some b1, Some e1, Some b2, Some e2] aper h =
        Some ((0, Some (next_addr h + 7)), alloc ts (h\<lparr>next_addr := next_addr h + 7\<rparr>)) \<and>
      ns_of (dynobj ts) = first_latency + second_latency"
proof (cases "me_lock_rc env \<noteq> 0 \<or> me_enter_max_rc env \<noteq> 0")
  case True
  then show ?thesis by (auto simp: finish_to_start_overhead_def task_overhead_measurement_thread_def)
next
  case False
  define t0 where "t0 = timespec_to_utility_time now utility_time_init"
  define off where "off = to_utility_time 100 Unit_ms utility_time_init"
  define rel where "rel = ut_t (utility_time_add t0 off utility_time_init)"
  note run = measurement_run [OF assms(1-9) _ _ t0_def off_def rel_def, of bo junk tau0 b1 e1 b2 e2 aper]
  have t0: "ut_t t0 = ut_t (dynobj now)" by (simp add: t0_def timespec_to_utility_time_def set_t_def)
  have off: "ns_of off = 100000000" "time_ok off"
    using to_utility_time_correct [of Unit_ms 100 utility_time_init] by (simp_all add: off_def)
  have rel: "ns_of (dynobj rel) = ns_of (dynobj now) + 100000000" "time_ok (dynobj rel)"
    using add_correct [of t0 off utility_time_init] t_congs [OF t0] off assms(10,14)
      t_congs [of "dynobj rel" "utility_time_add t0 off utility_time_init"] by (simp_all add: rel_def)
  note a = time_op_ns(1) [OF assms(11) rel(2)] and b = time_op_ns(1) [OF assms(13,12)]
  have "ns_of (dynobj (time_op utility_time_add (time_op utility_time_sub b1 rel) (time_op utility_time_sub b2 e1))) = first_latency + second_latency"
    using time_op_ns(2) [of "time_op utility_time_sub b1 rel" "time_op utility_time_sub b2 e1"] a b rel(1) assms(15-17)
    by simp
  then show ?thesis using run False by (auto simp: finish_to_start_overhead_def)
qed

definition measuring0 :: measure_env where
  "measuring0 = \<lparr>me_lock_rc = 0, me_enter_max_rc = 0, me_tmpfile = Some \<lparr>ws_out = [], ws_room = 99, ws_close_ok = True\<rparr>,
     me_ringbuf_ok = (True, True), me_now = Some \<lparr>tv_sec = 5, tv_nsec = 0\<rparr>, me_sleep_errno = 0, me_seek_ok = True\<rparr>"

theorem finish_to_start_overhead_measured_witness:
  "\<forall>tau. \<exists>p h1. finish_to_start_overhead True True CPU_BIG_ENDIAN [] tau measuring0
     [Some \<lparr>tv_sec = 5, tv_nsec = 100000007\<rparr>, Some \<lparr>tv_sec = 6, tv_nsec = 0\<rparr>,
      Some \<lparr>tv_sec = 6, tv_nsec = 30\<rparr>, Some \<lparr>tv_sec = 7, tv_nsec = 0\<rparr>] True args_store = Some ((0, Some p), h1) \<and>
     ns_of (the (cells h1 p)) = 37"
proof
  fix tau
  have t: "time_ok (dynobj \<lparr>tv_sec = 5, tv_nsec = 0\<rparr>)" "time_ok (dynobj \<lparr>tv_sec = 5, tv_nsec = 100000007\<rparr>)"
    "time_ok (dynobj \<lparr>tv_sec = 6, tv_nsec = 0\<rparr>)" "time_ok (dynobj \<lparr>tv_sec = 6, tv_nsec = 30\<rparr>)"
    by (simp_all add: time_ok_def dynobj_def)
  have n: "ns_of (dynobj \<lparr>tv_sec = 5, tv_nsec = 0\<rparr>) = 5000000000" "ns_of (dynobj \<lparr>tv_sec = 5, tv_nsec = 100000007\<rparr>) = 5100000007"
    "ns_of (dynobj \<lparr>tv_sec = 6, tv_nsec = 0\<rparr>) = 6000000000" "ns_of (dynobj \<lparr>tv_sec = 6, tv_nsec = 30\<rparr>) = 6000000030"
    by (simp_all add: ns_of_def dynobj_def)
  have m: "me_tmpfile measuring0 = Some \<lparr>ws_out = [], ws_room = 99, ws_close_ok = True\<rparr>" "me_ringbuf_ok measuring0 = (True, True)"
    "me_now measuring0 = Some \<lparr>tv_sec = 5, tv_nsec = 0\<rparr>" "me_sleep_errno measuring0 = 0" "me_seek_ok measuring0"
    "me_lock_rc measuring0 = 0" "me_enter_max_rc measuring0 = 0" by (simp_all add: measuring0_def)
  have al: "all_ok args_store 8" by (simp add: all_ok_def)
  from finish_to_start_overhead_measured [OF args_store_ok(1) al m(1) _ _ m(2,3,4,5) t(1,2,3,4) _ refl refl, of CPU_BIG_ENDIAN "[]" tau _ True]
  show "\<exists>p h1. finish_to_start_overhead True True CPU_BIG_ENDIAN [] tau measuring0
     [Some \<lparr>tv_sec = 5, tv_nsec = 100000007\<rparr>, Some \<lparr>tv_sec = 6, tv_nsec = 0\<rparr>,
      Some \<lparr>tv_sec = 6, tv_nsec = 30\<rparr>, Some \<lparr>tv_sec = 7, tv_nsec = 0\<rparr>] True args_store = Some ((0, Some p), h1) \<and>
     ns_of (the (cells h1 p)) = 37" by (simp add: n m time_limit_def) (fastforce simp: alloc_def)
qed

end
