(* ===== verification/Utility_Time_Temps.thy ===== *)
theory Utility_Time_Temps
  imports Utility_Time_Heap
begin

text \<open>
  Functions that hold several collectable time objects at once: a store is described as a base
  store plus the list of the temporaries alive on top of it, and every operation of
  \<^verbatim>\<open>utility_time.h\<close> used by such functions becomes an equation on that list. At the end of a
  function that frees all it allocates, the list is empty again.
\<close>

definition with_temps :: "time_store \<Rightarrow> nat \<Rightarrow> (nat \<times> timespec) list \<Rightarrow> time_store" where
  "with_temps h n ts = h\<lparr>cells := (\<lambda>a. case map_of ts a of Some v \<Rightarrow> Some (dynobj v) | None \<Rightarrow> cells h a),
     heap_objs := heap_objs h \<union> fst ` set ts, next_addr := n\<rparr>"

text \<open>The temporaries are younger than the base store.\<close>

definition temps_ok :: "time_store \<Rightarrow> nat \<Rightarrow> (nat \<times> timespec) list \<Rightarrow> bool" where
  "temps_ok h n ts \<longleftrightarrow> store_ok h \<and> next_addr h \<le> n \<and> (\<forall>p \<in> set ts. next_addr h \<le> fst p \<and> fst p < n)"

text \<open>The object an address denotes.\<close>

definition look :: "time_store \<Rightarrow> (nat \<times> timespec) list \<Rightarrow> nat \<Rightarrow> utility_time option" where
  "look h ts a = (case map_of ts a of Some v \<Rightarrow> Some (dynobj v) | None \<Rightarrow> cells h a)"

definition drop_temp :: "nat \<Rightarrow> (nat \<times> timespec) list \<Rightarrow> (nat \<times> timespec) list" where
  "drop_temp a ts = filter (\<lambda>p. fst p \<noteq> a) ts"

named_theorems temp_simps \<open>evaluation of operations on temporaries\<close>

lemma with_no_temps: "h\<lparr>next_addr := n\<rparr> = with_temps h n []" "with_temps h (next_addr h) [] = h"
  by (simp_all add: with_temps_def)

lemma with_temps_fields [simp, temp_simps]:
  "next_addr (with_temps h n ts) = n" "malloc_ok (with_temps h n ts) = malloc_ok h"
  "cells (with_temps h n ts) a = look h ts a" "load (Some a) (with_temps h n ts) = look h ts a"
  by (simp_all add: with_temps_def look_def)

lemma look_simps [simp, temp_simps]:
  "look h [] a = cells h a" "look h ((b, v) # ts) a = (if a = b then Some (dynobj v) else look h ts a)"
  by (auto simp: look_def)

lemma drop_temp_simps [simp, temp_simps]:
  "drop_temp a [] = []" "drop_temp a ((b, v) # ts) = (if b = a then drop_temp a ts else (b, v) # drop_temp a ts)"
  by (auto simp: drop_temp_def)

lemma temps_ok_simps [simp, temp_simps]:
  "temps_ok h n [] \<longleftrightarrow> store_ok h \<and> next_addr h \<le> n"
  "temps_ok h n ((b, v) # ts) \<longleftrightarrow> next_addr h \<le> b \<and> b < n \<and> temps_ok h n ts"
  by (auto simp: temps_ok_def)

lemma temps_ok_store: "temps_ok h n ts \<Longrightarrow> store_ok (with_temps h n ts)"
  unfolding store_ok_def temps_ok_def
  by (auto simp: with_temps_def dest!: map_of_SomeD split: option.splits)
    (metis fst_conv image_eqI map_of_eq_None_iff option.distinct(1))+

lemma alloc_temp [temp_simps]: "alloc v (with_temps h n ts) = with_temps h (Suc n) ((n, v) # ts)"
  by (auto simp: alloc_def with_temps_def fun_eq_iff)

lemma collect_temp_obj [temp_simps]:
  assumes "temps_ok h n ts" "next_addr h \<le> a"
  shows "collect a (dynobj v) (with_temps h n ts) = with_temps h n (drop_temp a ts)"
proof -
  have f: "cells h a = None" "a \<notin> heap_objs h" using assms store_okD(3) by (auto simp: temps_ok_def)
  have "map_of (drop_temp a ts) b = (if b = a then None else map_of ts b)" for b
    by (induction ts) (auto simp: drop_temp_def)
  moreover have "fst ` set (drop_temp a ts) = fst ` set ts - {a}" by (auto simp: drop_temp_def)
  ultimately show ?thesis using f
    by (auto simp: collect_def with_temps_def fun_eq_iff intro!: time_store.equality split: option.splits)
qed

lemma collect_plain [temp_simps]: "\<not> auto_obj u \<Longrightarrow> collect a u h = h"
  by (simp add: collect_def)

lemma dynobj_flags [simp]: "dyn_alloc (dynobj v)" "\<not> manual_gc (dynobj v)"
  by (simp_all add: dynobj_def)

section \<open>The operations\<close>

lemma temps_make:
  assumes "malloc_ok h n" "temps_ok h n ts"
  shows "timespec_to_utility_time_dyn v (with_temps h n ts) = Some (Some n, with_temps h (Suc n) ((n, v) # ts))"
  using eval_leaf [of "with_temps h n ts" "Of_timespec v"] temps_ok_store [OF assms(2)] assms(1)
  by (simp add: alloc_temp)

lemma temps_sub_dyn:
  assumes "malloc_ok h n" "temps_ok h n ts" "look h ts x = Some a" "look h ts y = Some b"
  shows "utility_time_sub_dyn (Some x) (Some y) (with_temps h n ts) =
    Some (Some n, with_temps h (Suc n) ((n, time_op utility_time_sub (ut_t a) (ut_t b)) # ts))"
  using sub.fill [of "with_temps h n ts" x a y b] assms temps_ok_store [OF assms(2)]
  by (simp add: utility_time_sub_dyn_def alloc_temp)

lemma temps_add_dyn:
  assumes "malloc_ok h n" "temps_ok h n ts" "look h ts x = Some a" "look h ts y = Some b"
  shows "utility_time_add_dyn (Some x) (Some y) (with_temps h n ts) =
    Some (Some n, with_temps h (Suc n) ((n, time_op utility_time_add (ut_t a) (ut_t b)) # ts))"
  using add.fill [of "with_temps h n ts" x a y b] assms temps_ok_store [OF assms(2)]
  by (simp add: utility_time_add_dyn_def alloc_temp)

lemma temps_sub_dyn_gc:
  assumes "malloc_ok h n" "temps_ok h n ts" "look h ts x = Some a" "look h ts y = Some b" "x \<noteq> y \<or> \<not> auto_obj a"
  shows "utility_time_sub_dyn_gc (Some x) (Some y) (with_temps h n ts) =
    Some (Some n, collect y b (collect x a (with_temps h (Suc n) ((n, time_op utility_time_sub (ut_t a) (ut_t b)) # ts))))"
  using sub.dyn_gc_live [of "with_temps h n ts" x a y b] assms temps_ok_store [OF assms(2)]
  by (simp add: alloc_temp)

lemma temps_add_dyn_gc:
  assumes "malloc_ok h n" "temps_ok h n ts" "look h ts x = Some a" "look h ts y = Some b" "x \<noteq> y \<or> \<not> auto_obj a"
  shows "utility_time_add_dyn_gc (Some x) (Some y) (with_temps h n ts) =
    Some (Some n, collect y b (collect x a (with_temps h (Suc n) ((n, time_op utility_time_add (ut_t a) (ut_t b)) # ts))))"
  using add.dyn_gc_live [of "with_temps h n ts" x a y b] assms temps_ok_store [OF assms(2)]
  by (simp add: alloc_temp)

lemma temps_mul_dyn:
  assumes "malloc_ok h n" "temps_ok h n ts" "look h ts x = Some a"
  shows "utility_time_mul_dyn (Some x) k (with_temps h n ts) =
    Some (Some n, with_temps h (Suc n) ((n, mul_t (ut_t a) k) # ts))"
proof -
  have "x < n" using assms(2,3) store_okD(2) [OF temps_ok_store [OF assms(2)], of x a] by simp
  then have "fill_dyn (utility_time_mul_p (Some x) k) (with_temps h n ts) =
      Some (Some n, alloc (mul_t (ut_t a) k) (with_temps h n ts))"
    using assms mul_p_eq [of _ x a n]
    by (subst fill_dyn_fills [where ts = "mul_t (ut_t a) k"]) (auto simp: alloc_def mul_value dynobj_def)
  then show ?thesis by (simp add: utility_time_mul_dyn_def alloc_temp)
qed

lemma temps_gc:
  assumes "temps_ok h n ts" "map_of ts a = Some v"
  shows "utility_time_gc (Some a) (with_temps h n ts) = Some (with_temps h n (drop_temp a ts))"
    "utility_time_gc_auto (Some a) (with_temps h n ts) = Some (with_temps h n (drop_temp a ts))"
proof -
  have l: "look h ts a = Some (dynobj v)" using assms(2) by (simp add: look_def)
  have m: "a \<in> heap_objs (with_temps h n ts)"
    using store_okD(1) [OF temps_ok_store [OF assms(1)], of a "dynobj v"] l by (simp add: dynobj_def)
  have a: "next_addr h \<le> a" using map_of_SomeD [OF assms(2)] assms(1) by (auto simp: temps_ok_def)
  have "time_free (Some a) (with_temps h n ts) = Some (collect a (dynobj v) (with_temps h n ts))"
    using l m by (simp add: time_free_def collect_def)
  then have "utility_time_gc (Some a) (with_temps h n ts) = Some (collect a (dynobj v) (with_temps h n ts))"
    using l by (simp add: utility_time_gc_def)
  then show "utility_time_gc (Some a) (with_temps h n ts) = Some (with_temps h n (drop_temp a ts))"
    "utility_time_gc_auto (Some a) (with_temps h n ts) = Some (with_temps h n (drop_temp a ts))"
    using collect_temp_obj [OF assms(1) a, of v] l
    by (simp_all add: utility_time_gc_auto_def)
qed

text \<open>\<^verbatim>\<open>utility_time_set_gc_manual\<close> of an object in the store.\<close>

definition set_manual :: "time_ptr \<Rightarrow> time_store \<Rightarrow> time_store option" where
  "set_manual p h = do { u \<leftarrow> load p h; store p (utility_time_set_gc_manual u) h }"

text \<open>An object of the base store under temporaries that is assigned.\<close>

definition assign :: "nat \<Rightarrow> utility_time \<Rightarrow> time_store \<Rightarrow> time_store" where
  "assign a u h = h\<lparr>cells := (cells h)(a \<mapsto> u)\<rparr>"

lemma assign_simps [simp]:
  "next_addr (assign a u h) = next_addr h" "malloc_ok (assign a u h) = malloc_ok h"
  "cells (assign a u h) b = (if b = a then Some u else cells h b)" "assign a v (assign a u h) = assign a v h"
  by (simp_all add: assign_def)

lemma assign_ok: "store_ok h \<Longrightarrow> cells h a = Some u \<Longrightarrow> dyn_alloc v = dyn_alloc u \<Longrightarrow> store_ok (assign a v h)"
  by (auto simp: store_ok_def assign_def split: if_splits)

lemma look_base: "map_of ts a = None \<Longrightarrow> look h ts a = cells h a"
  by (simp add: look_def)

lemma temps_inc_gc:
  assumes "temps_ok h n ts" "map_of ts a = None" "cells h a = Some u" "look h ts b = Some w" "a \<noteq> b" "v = utility_time_inc u w"
  shows "utility_time_inc_gc (Some a) (Some b) (with_temps h n ts) = Some (collect b w (with_temps (assign a v h) n ts))"
    "temps_ok (assign a v h) n ts"
proof -
  have f: "dyn_alloc v = dyn_alloc u" by (simp add: assms(6) utility_time_inc_def utility_time_add_def set_t_def)
  show ok: "temps_ok (assign a v h) n ts" using assms(1,3) f assign_ok unfolding temps_ok_def by simp
  have a: "(with_temps h n ts)\<lparr>cells := (cells (with_temps h n ts))(a \<mapsto> v)\<rparr> = with_temps (assign a v h) n ts"
    using assms(2) by (auto simp: with_temps_def assign_def intro!: time_store.equality split: option.splits)
  have b: "cells (with_temps (assign a v h) n ts) b = Some w" using assms(4,5) by (simp add: look_def split: option.splits)
  have "utility_time_inc_p (Some a) (Some b) (with_temps h n ts) = Some (with_temps (assign a v h) n ts)"
    using add_p_eq [of "with_temps h n ts" a u b w a u] assms(2-4,6) a by (simp add: utility_time_inc_p_def utility_time_inc_def look_base)
  then show "utility_time_inc_gc (Some a) (Some b) (with_temps h n ts) = Some (collect b w (with_temps (assign a v h) n ts))"
    using gc_auto_eq [OF b] store_okD(1) [OF temps_ok_store [OF ok] b] by (simp add: utility_time_inc_gc_def)
qed

lemma temps_units:
  assumes "malloc_ok h n" "temps_ok h n ts"
  shows "to_utility_time_dyn k unit (with_temps h n ts) =
    Some (Some n, with_temps h (Suc n) ((n, ut_t (to_utility_time k unit utility_time_init)) # ts))"
  using eval_leaf [of "with_temps h n ts" "Of_units k unit"] temps_ok_store [OF assms(2)] assms(1) by (simp add: alloc_temp)

definition ms_t :: "int \<Rightarrow> timespec" where
  "ms_t k = ut_t (to_utility_time (of_int k) Unit_ms utility_time_init)"

lemma ms_t:
  assumes "0 \<le> k" "k < 2 ^ 31"
  shows "ns_of (dynobj (ms_t k)) = k * 1000000" "time_ok (dynobj (ms_t k))"
proof -
  have "uint (of_int k :: u64) = k" using assms by (simp add: uint64_of_int)
  then show "ns_of (dynobj (ms_t k)) = k * 1000000" "time_ok (dynobj (ms_t k))"
    using to_utility_time_correct [of Unit_ms "of_int k" utility_time_init]
      t_congs [of "dynobj (ms_t k)" "to_utility_time (of_int k) Unit_ms utility_time_init"] by (simp_all add: ms_t_def)
qed

lemmas temps_ops = temps_make temps_sub_dyn temps_add_dyn temps_sub_dyn_gc temps_add_dyn_gc temps_mul_dyn temps_gc

end
