(* ===== verification/Read_Task_Stats.thy ===== *)
theory Read_Task_Stats
  imports Utility_Time_Temps Task "HOL-Library.Multiset"
begin

text \<open>
  The program that reports on a statistics file (\<^verbatim>\<open>read_task_stats_file.c\<close>): one line per job with
  its lateness, or the cumulative distribution of the response times.

  The callbacks it passes to \<^verbatim>\<open>task_statistics_read\<close> share a \<^verbatim>\<open>struct task_stats\<close>, a record here;
  its members of type \<^verbatim>\<open>utility_time\<close> are objects of the time store, given by their addresses. What
  is printed is a list of pieces; the quotient of two counts, which the program prints as a floating
  point number, is kept as the pair of its operands. \<open>None\<close> is undefined behaviour, in particular
  the use of a NULL pointer after a failed allocation.
\<close>

section \<open>The list of response times\<close>

record response_time_list =
  job_count :: u32
  response_time :: u64

definition new_response_time_list :: "bool \<Rightarrow> u64 \<Rightarrow> response_time_list option" where
  "new_response_time_list mem rt = (if mem then Some \<lparr>job_count = 1, response_time = rt\<rparr> else None)"

text \<open>The unit is changed from nanoseconds to microseconds, rounded to the nearest.\<close>

definition to_us :: "u64 \<Rightarrow> u64" where
  "to_us rt = (if 500 \<le> rt mod 1000 then rt div 1000 + 1 else rt div 1000)"

text \<open>The walk along the list and the insertion at its end; a linked list is a list of nodes.\<close>

fun insert_walk :: "bool \<Rightarrow> u64 \<Rightarrow> response_time_list list \<Rightarrow> response_time_list list" where
  "insert_walk mem rt [] = (case new_response_time_list mem rt of None \<Rightarrow> [] | Some n \<Rightarrow> [n])"
| "insert_walk mem rt (itr # rest) =
    (if response_time itr = rt then itr\<lparr>job_count := job_count itr + 1\<rparr> # rest
     else if rt < response_time itr then
       (case new_response_time_list mem rt of None \<Rightarrow> itr # rest | Some n \<Rightarrow> n # itr # rest)
     else itr # insert_walk mem rt rest)"

definition insert_response_time :: "bool \<Rightarrow> u64 \<Rightarrow> response_time_list list \<Rightarrow> response_time_list list" where
  "insert_response_time mem rt smallest = insert_walk mem (to_us rt) smallest"

section \<open>Printing\<close>

datatype piece = Text string | Ratio u32 u32

datatype cdf_format = NO_CDF | GNUPLOT | MATLAB

fun gnuplot_lines :: "u32 \<Rightarrow> u32 \<Rightarrow> response_time_list list \<Rightarrow> piece list" where
  "gnuplot_lines cummulative jobs [] = []"
| "gnuplot_lines cummulative jobs (itr # rest) =
    (let c = cummulative + job_count itr
     in [Text (fmt_lu (response_time itr) @ [CHR 0x09]), Ratio c jobs, Text [CHR 0x0A]] @ gnuplot_lines c jobs rest)"

definition print_gnuplot_cdf :: "response_time_list list \<Rightarrow> u32 \<Rightarrow> piece list" where
  "print_gnuplot_cdf smallest jobs = gnuplot_lines 0 jobs smallest"

fun matlab_ratios :: "u32 \<Rightarrow> u32 \<Rightarrow> response_time_list list \<Rightarrow> piece list" where
  "matlab_ratios cummulative jobs [] = []"
| "matlab_ratios cummulative jobs (itr # rest) =
    (let c = cummulative + job_count itr in [Text '' '', Ratio c jobs] @ matlab_ratios c jobs rest)"

definition print_matlab_cdf :: "response_time_list list \<Rightarrow> u32 \<Rightarrow> piece list" where
  "print_matlab_cdf smallest jobs =
     [Text ''plot([''] @ map (\<lambda>itr. Text ('' '' @ fmt_lu (response_time itr))) smallest @
     [Text ''], [''] @ matlab_ratios 0 jobs smallest @ [Text ('']);'' @ [CHR 0x0A])]"

definition print_response_time_cdf :: "response_time_list list \<Rightarrow> u32 \<Rightarrow> cdf_format \<Rightarrow> piece list" where
  "print_response_time_cdf smallest jobs fmt =
    (if jobs = 0 then []
     else case fmt of
       GNUPLOT \<Rightarrow> print_gnuplot_cdf smallest jobs
     | MATLAB \<Rightarrow> print_matlab_cdf smallest jobs
     | NO_CDF \<Rightarrow> [])"

text \<open>\<^verbatim>\<open>struct task_stats\<close>.\<close>

record task_stats =
  report :: "piece list"
  at_period :: time_ptr
  at_deadline :: time_ptr
  at_t_0 :: time_ptr
  at_offset :: time_ptr
  nth_job :: u64
  total_job_count :: u64
  late_count :: u32
  suppress_printout :: bool
  first_time :: bool
  response_times :: "response_time_list list"

text \<open>Outcomes of allocations: of a string of a given size, and of the node for a given job.\<close>

record report_env =
  string_ok :: "nat \<Rightarrow> bool"
  node_ok :: "nat \<Rightarrow> bool"

definition emit :: "string \<Rightarrow> task_stats \<Rightarrow> task_stats" where
  "emit s prms = prms\<lparr>report := report prms @ [Text s]\<rparr>"

definition pad :: "nat \<Rightarrow> string \<Rightarrow> string" where
  "pad n s = replicate (n - length s) CHR '' '' @ s"

definition print_utility_time :: "report_env \<Rightarrow> time_ptr \<Rightarrow> string \<Rightarrow> task_stats \<Rightarrow> time_store \<Rightarrow>
    (task_stats \<times> time_store) option" where
  "print_utility_time env t label prms h = do {
     (t_str, h) \<leftarrow> to_string_dyn_gc (string_ok env) t h;
     s \<leftarrow> t_str;
     Some (emit (label @ '': '' @ s @ [CHR 0x0A]) prms, h) }"

text \<open>The printing of a label and a member, as it is nested in the code.\<close>

definition print_member :: "report_env \<Rightarrow> (time_store \<Rightarrow> (time_ptr \<times> time_store) option) \<Rightarrow> string \<Rightarrow>
    task_stats \<times> time_store \<Rightarrow> (task_stats \<times> time_store) option" where
  "print_member env member label s = (case s of (prms, h) \<Rightarrow>
     do { (p, h) \<leftarrow> member h; print_utility_time env p label prms h })"

definition print_task_params :: "report_env \<Rightarrow> task \<Rightarrow> task_stats \<times> time_store \<Rightarrow> (task_stats \<times> time_store) option" where
  "print_task_params env tau s = (case s of (prms, h) \<Rightarrow> do {
     s \<leftarrow> print_member env (task_statistics_wcet tau) ''WCET''
            (emit (''Name: '' @ task_statistics_name tau @ [CHR 0x0A]) prms, h);
     s \<leftarrow> print_member env (task_statistics_period tau) ''Period'' s;
     s \<leftarrow> print_member env (task_statistics_deadline tau) ''Deadline'' s;
     s \<leftarrow> print_member env (task_statistics_t0 tau) ''t_0'' s;
     s \<leftarrow> print_member env (task_statistics_offset tau) ''Offset'' s;
     s \<leftarrow> print_member env (task_statistics_job_statistics_overhead tau) ''Job statistics overhead'' s;
     (prms, h) \<leftarrow> print_member env (task_statistics_finish_to_start_overhead tau) ''Task finish-to-start overhead'' s;
     let prms = emit (''Task is '' @ (if task_statistics_aperiodic tau then ''aperiodic'' else ''periodic'') @ [CHR 0x0A]) prms;
         prms = emit (''Timing recording is '' @ (if task_statistics_job_statistics_disabled tau
                  then ''disabled'' else ''enabled'') @ [CHR 0x0A]) prms
     in Some (emit (''Lost job count: '' @ fmt_lu (task_statistics_lost_job_count tau) @ [CHR 0x0A]) prms, h) })"

definition copy_to :: "(time_store \<Rightarrow> (time_ptr \<times> time_store) option) \<Rightarrow> time_ptr \<Rightarrow> time_store \<Rightarrow> time_store option" where
  "copy_to member dst h = do { (p, h) \<leftarrow> member h; utility_time_to_utility_time_gc p dst h }"

text \<open>Both callbacks return zero unless their behaviour is undefined.\<close>

definition print_task_stats :: "report_env \<Rightarrow> task \<Rightarrow> task_stats \<times> time_store \<Rightarrow> (task_stats \<times> time_store) option" where
  "print_task_stats env tau s = do {
     (prms, h) \<leftarrow> (if suppress_printout (fst s) then Some s else print_task_params env tau s);
     h \<leftarrow> copy_to (task_statistics_period tau) (at_period prms) h;
     h \<leftarrow> copy_to (task_statistics_deadline tau) (at_deadline prms) h;
     h \<leftarrow> copy_to (task_statistics_t0 tau) (at_t_0 prms) h;
     h \<leftarrow> copy_to (task_statistics_offset tau) (at_offset prms) h;
     Some (prms\<lparr>nth_job := task_statistics_oldest_job_pos tau\<rparr>, h) }"

section \<open>The report of a job\<close>

text \<open>
  The pieces the body of \<^verbatim>\<open>print_job_stats\<close> repeats: printing a time that stays alive; printing a
  difference with its sign; printing a time for the last time. When the printout is suppressed, the
  last two only free their object.
\<close>

definition print_time :: "report_env \<Rightarrow> time_ptr \<Rightarrow> task_stats \<Rightarrow> time_store \<Rightarrow> task_stats option" where
  "print_time env p prms h =
    (if suppress_printout prms then Some prms
     else do { u \<leftarrow> load p h; s \<leftarrow> to_string_dyn (string_ok env) u; Some (emit (pad 15 s) prms) })"

definition print_delta :: "report_env \<Rightarrow> char \<Rightarrow> time_ptr \<Rightarrow> task_stats \<Rightarrow> time_store \<Rightarrow>
    (task_stats \<times> time_store) option" where
  "print_delta env sign p prms h =
    (if suppress_printout prms then do { h \<leftarrow> utility_time_gc p h; Some (prms, h) }
     else do {
       (t_str, h) \<leftarrow> to_string_dyn_gc (string_ok env) p h;
       s \<leftarrow> t_str;
       if string_ok env (length s + 2) then Some (emit (pad 15 (sign # s)) prms, h) else None })"

definition print_last :: "report_env \<Rightarrow> time_ptr \<Rightarrow> task_stats \<Rightarrow> time_store \<Rightarrow> (task_stats \<times> time_store) option" where
  "print_last env p prms h =
    (if suppress_printout prms then do { h \<leftarrow> utility_time_gc p h; Some (prms, h) }
     else do {
       (t_str, h) \<leftarrow> to_string_dyn_gc (string_ok env) p h;
       s \<leftarrow> t_str;
       Some (emit (pad 15 s) prms, h) })"

definition print_job_header :: "task_stats \<Rightarrow> task_stats" where
  "print_job_header prms =
    (if suppress_printout prms then prms
     else let prms = (if first_time prms
           then (emit (concat (pad 5 ''#job'' # map (pad 15) [''release'', ''delta_s'', ''start'', ''deadline'',
                   ''delta_f'', ''finish'', ''exec_time'', ''response_time'']) @ [CHR 0x0A]) prms)\<lparr>first_time := False\<rparr>
           else prms)
       in emit (pad 5 (fmt_lu (nth_job prms))) prms)"

text \<open>From the release to the start of the job.\<close>

definition report_start :: "report_env \<Rightarrow> job_statistics \<Rightarrow> task_stats \<Rightarrow> time_store \<Rightarrow>
    ((time_ptr \<times> time_ptr) \<times> task_stats \<times> time_store) option" where
  "report_start env stats prms h = do {
     (p, h) \<leftarrow> utility_time_mul_dyn (at_period prms) (ucast (nth_job prms - 1)) h;
     (t_release, h) \<leftarrow> utility_time_add_dyn_gc (at_offset prms) p h;
     prms \<leftarrow> print_time env t_release prms h;
     (s, h) \<leftarrow> job_statistics_time_start stats h;
     (t_start, h) \<leftarrow> utility_time_sub_dyn_gc s (at_t_0 prms) h;
     a \<leftarrow> load t_release h;
     b \<leftarrow> load t_start h;
     (prms, h) \<leftarrow> (if utility_time_lt a b
        then do { (d, h) \<leftarrow> utility_time_sub_dyn t_start t_release h; print_delta env CHR ''+'' d prms h }
        else do { (d, h) \<leftarrow> utility_time_sub_dyn t_release t_start h; print_delta env CHR ''-'' d prms h });
     prms \<leftarrow> print_time env t_start prms h;
     Some ((t_release, t_start), prms, h) }"

text \<open>From the deadline to the finish of the job; the flag is \<^verbatim>\<open>is_late\<close>.\<close>

definition report_finish :: "report_env \<Rightarrow> job_statistics \<Rightarrow> time_ptr \<Rightarrow> task_stats \<Rightarrow> time_store \<Rightarrow>
    ((time_ptr \<times> bool) \<times> task_stats \<times> time_store) option" where
  "report_finish env stats t_release prms h = do {
     (t_deadline, h) \<leftarrow> utility_time_add_dyn t_release (at_deadline prms) h;
     prms \<leftarrow> print_time env t_deadline prms h;
     (f, h) \<leftarrow> job_statistics_time_finish stats h;
     (t_finish, h) \<leftarrow> utility_time_sub_dyn_gc f (at_t_0 prms) h;
     a \<leftarrow> load t_deadline h;
     b \<leftarrow> load t_finish h;
     (is_late, prms, h) \<leftarrow> (if utility_time_lt a b
        then do {
          (d, h) \<leftarrow> utility_time_sub_dyn t_finish t_deadline h;
          (prms, h) \<leftarrow> print_delta env CHR ''+'' d prms h;
          Some (True, prms\<lparr>late_count := late_count prms + 1\<rparr>, h) }
        else do {
          (d, h) \<leftarrow> utility_time_sub_dyn t_deadline t_finish h;
          (prms, h) \<leftarrow> print_delta env CHR ''-'' d prms h;
          Some (False, prms, h) });
     h \<leftarrow> utility_time_gc t_deadline h;
     prms \<leftarrow> print_time env t_finish prms h;
     Some ((t_finish, is_late), prms, h) }"

definition response_ns :: "timespec \<Rightarrow> u64" where
  "response_ns t = tv_sec t * 1000000000 + tv_nsec t"

definition print_job_stats :: "report_env \<Rightarrow> job_statistics \<Rightarrow> task_stats \<times> time_store \<Rightarrow>
    (task_stats \<times> time_store) option" where
  "print_job_stats env stats s = (case s of (prms, h) \<Rightarrow> do {
     ((t_release, t_start), prms, h) \<leftarrow> report_start env stats (print_job_header prms) h;
     ((t_finish, is_late), prms, h) \<leftarrow> report_finish env stats t_release prms h;
     (exec_time, h) \<leftarrow> utility_time_sub_dyn t_finish t_start h;
     h \<leftarrow> utility_time_gc t_start h;
     (prms, h) \<leftarrow> print_last env exec_time prms h;
     (resp, h) \<leftarrow> utility_time_sub_dyn_gc t_finish t_release h;
     u \<leftarrow> load resp h;
     let prms = prms\<lparr>response_times := insert_response_time (node_ok env (unat (total_job_count prms)))
           (response_ns (to_timespec u)) (response_times prms)\<rparr> in do {
       (prms, h) \<leftarrow> print_last env resp prms h;
       let prms = (if suppress_printout prms then prms
                   else emit ((if is_late then '' LATE'' else []) @ [CHR 0x0A]) prms)
       in Some (prms\<lparr>nth_job := nth_job prms + 1, total_job_count := total_job_count prms + 1\<rparr>, h) } })"

section \<open>The program\<close>

text \<open>What the loop over \<^verbatim>\<open>getopt\<close> makes of the options it finds, with their arguments.\<close>

datatype options = Run cdf_format | Usage | Fatal

definition lower :: "char \<Rightarrow> char" where
  "lower c = (let n = of_char c :: nat in if 65 \<le> n \<and> n \<le> 90 then char_of (n + 32) else c)"

definition strcasecmp_eq :: "string \<Rightarrow> string \<Rightarrow> bool" where
  "strcasecmp_eq a b \<longleftrightarrow> map lower a = map lower b"

fun scan_options :: "cdf_format \<Rightarrow> (char \<times> string) list \<Rightarrow> options" where
  "scan_options fmt [] = Run fmt"
| "scan_options fmt ((optchar, optarg) # rest) =
    (if optchar = CHR ''c'' then
       if strcasecmp_eq ''gnuplot'' optarg then scan_options GNUPLOT rest
       else if strcasecmp_eq ''matlab'' optarg then scan_options MATLAB rest
       else Fatal
     else if optchar = CHR ''h'' then Usage
     else Fatal)"

text \<open>The local structure of \<^verbatim>\<open>main\<close>: its four times are objects that are not on the heap.\<close>

definition main_locals :: "time_store \<Rightarrow> time_store" where
  "main_locals h = h\<lparr>cells := (cells h)(next_addr h \<mapsto> utility_time_init, next_addr h + 1 \<mapsto> utility_time_init,
     next_addr h + 2 \<mapsto> utility_time_init, next_addr h + 3 \<mapsto> utility_time_init), next_addr := next_addr h + 4\<rparr>"

definition initial_stats :: "cdf_format \<Rightarrow> nat \<Rightarrow> task_stats" where
  "initial_stats fmt n = \<lparr>report = [], at_period = Some n, at_deadline = Some (n + 1), at_t_0 = Some (n + 2),
     at_offset = Some (n + 3), nth_job = 0, total_job_count = 0, late_count = 0,
     suppress_printout = (fmt \<noteq> NO_CDF), first_time = True, response_times = []\<rparr>"

definition run_callback :: "('x \<Rightarrow> 's \<Rightarrow> 's option) \<Rightarrow> 'x \<Rightarrow> 's option \<Rightarrow> int \<times> 's option" where
  "run_callback f x s = (0, Option.bind s (f x))"

text \<open>
  \<^verbatim>\<open>main\<close> after the options: the exit status, 1 for \<^verbatim>\<open>fatal_error\<close>, and what was printed. \<open>None\<close>:
  undefined, or the reading of the file does not end.
\<close>

definition read_task_stats_main :: "byte_order \<Rightarrow> u8 list \<Rightarrow> task \<Rightarrow> report_env \<Rightarrow> fsys \<Rightarrow>
    (char \<times> string) list \<Rightarrow> string option \<Rightarrow> time_store \<Rightarrow> (int \<times> task_stats option) option" where
  "read_task_stats_main bo junk junk_task env fs opts task_stat_file h =
    (case scan_options NO_CDF opts of
       Fatal \<Rightarrow> Some (1, None)
     | Usage \<Rightarrow> Some (0, None)
     | Run fmt \<Rightarrow>
        (case task_stat_file of
           None \<Rightarrow> Some (1, None)
         | Some path \<Rightarrow>
            (case utility_file_open_for_reading_bin fs path of
               None \<Rightarrow> Some (1, None)
             | Some stream \<Rightarrow> do {
                (rc, stream, st) \<leftarrow> task_statistics_read bo junk junk_task (string_ok env) stream
                   (run_callback (print_task_stats env)) (run_callback (print_job_stats env))
                   (Some (initial_stats fmt (next_addr h), main_locals h));
                (prms, h) \<leftarrow> st;
                if rc \<noteq> 0 then Some (1, Some prms)
                else Some (0, Some (prms\<lparr>report := report prms @
                  print_response_time_cdf (response_times prms) (ucast (total_job_count prms)) fmt\<rparr>)) })))"

section \<open>The list counts the response times\<close>

text \<open>The multiset a list of nodes stands for.\<close>

fun bag :: "response_time_list list \<Rightarrow> u64 multiset" where
  "bag [] = {#}"
| "bag (n # ns) = replicate_mset (unat (job_count n)) (response_time n) + bag ns"

definition histogram :: "response_time_list list \<Rightarrow> u64 multiset \<Rightarrow> bool" where
  "histogram ts M \<longleftrightarrow> sorted_wrt (<) (map response_time ts) \<and> bag ts = M"

locale counting =
  fixes counts :: "'r \<Rightarrow> 'x multiset \<Rightarrow> bool" and add :: "'x \<Rightarrow> 'r \<Rightarrow> 'r" and cap :: nat
  assumes add_counts: "counts r M \<Longrightarrow> size M + 1 < cap \<Longrightarrow> counts (add x r) (add_mset x M)"
begin

lemma fold_counts: "counts r M \<Longrightarrow> size M + length xs < cap \<Longrightarrow> counts (fold add xs r) (mset xs + M)"
proof (induction xs arbitrary: r M)
  case (Cons x xs)
  then have "counts (add x r) (add_mset x M)" by (intro add_counts) auto
  from Cons.IH [OF this] Cons.prems(2) show ?case by simp
qed simp

end

lemma insert_walk_times:
  "m \<in> set (insert_walk mem x ts) \<Longrightarrow> response_time m = x \<or> (\<exists>n \<in> set ts. response_time m = response_time n)"
  by (induction ts) (auto simp: new_response_time_list_def split: if_splits)

lemma sorted_insert_walk:
  "sorted_wrt (<) (map response_time ts) \<Longrightarrow> sorted_wrt (<) (map response_time (insert_walk mem x ts))"
proof (induction ts)
  case (Cons n ns)
  have "response_time n < response_time m" if "m \<in> set (insert_walk mem x ns)" "response_time n < x" for m
    using insert_walk_times [OF that(1)] that(2) Cons.prems by auto
  then show ?case using Cons by (auto simp: new_response_time_list_def)
qed (simp add: new_response_time_list_def)

lemma unat_add_1: "unat (c :: u32) < 2 ^ 32 - 1 \<Longrightarrow> unat (c + 1) = Suc (unat c)"
  by (simp add: unat_word_ariths)

lemma bag_insert_walk:
  "size (bag ts) + 1 < 2 ^ 32 \<Longrightarrow> bag (insert_walk True x ts) = add_mset x (bag ts)"
  by (induction ts) (auto simp: new_response_time_list_def unat_add_1)

text \<open>When a node cannot be allocated, the list is unchanged unless it has the node already.\<close>

lemma insert_walk_oom:
  "x \<notin> set (map response_time ts) \<Longrightarrow> insert_walk False x ts = ts"
  by (induction ts) (auto simp: new_response_time_list_def)

interpretation response_list: counting histogram "insert_walk True" "2 ^ 32"
  by unfold_locales (auto simp: histogram_def bag_insert_walk intro: sorted_insert_walk)

text \<open>The cumulative counts.\<close>

definition at_most :: "response_time_list list \<Rightarrow> u64 \<Rightarrow> nat" where
  "at_most ts x = size (filter_mset (\<lambda>y. y \<le> x) (bag ts))"

lemma filter_replicate: "{#y \<in># replicate_mset k x. P y#} = (if P x then replicate_mset k x else {#})"
  by (induction k) auto

lemma bag_times: "x \<in># bag ts \<Longrightarrow> x \<in> set (map response_time ts)"
  by (induction ts) (auto split: if_splits)

lemma at_most_Cons_first:
  assumes "\<forall>y \<in> set (map response_time ns). response_time n < y"
  shows "at_most (n # ns) (response_time n) = unat (job_count n)"
proof -
  have "filter_mset (\<lambda>y. y \<le> response_time n) (bag ns) = {#}"
    using assms bag_times [of _ ns] by (fastforce simp: filter_mset_eq_conv)
  then show ?thesis by (simp add: at_most_def filter_replicate)
qed

lemma at_most_Cons_later:
  assumes "response_time n < x"
  shows "at_most (n # ns) x = unat (job_count n) + at_most ns x"
  using assms by (simp add: at_most_def filter_replicate order.strict_implies_order)

lemma gnuplot_lines_eq:
  "sorted_wrt (<) (map response_time ts) \<Longrightarrow>
   gnuplot_lines c jobs ts = concat (map (\<lambda>n. [Text (fmt_lu (response_time n) @ [CHR 0x09]),
     Ratio (c + of_nat (at_most ts (response_time n))) jobs, Text [CHR 0x0A]]) ts)"
proof (induction ts arbitrary: c)
  case (Cons n ns)
  have "at_most (n # ns) (response_time m) = unat (job_count n) + at_most ns (response_time m)" if "m \<in> set ns" for m
    using Cons.prems that by (intro at_most_Cons_later) auto
  moreover have "at_most (n # ns) (response_time n) = unat (job_count n)"
    using Cons.prems by (intro at_most_Cons_first) auto
  ultimately show ?case using Cons by (simp add: Let_def ac_simps cong: map_cong)
qed simp

lemma matlab_ratios_eq:
  "sorted_wrt (<) (map response_time ts) \<Longrightarrow>
   matlab_ratios c jobs ts = concat (map (\<lambda>n. [Text '' '', Ratio (c + of_nat (at_most ts (response_time n))) jobs]) ts)"
proof (induction ts arbitrary: c)
  case (Cons n ns)
  have "at_most (n # ns) (response_time m) = unat (job_count n) + at_most ns (response_time m)" if "m \<in> set ns" for m
    using Cons.prems that by (intro at_most_Cons_later) auto
  moreover have "at_most (n # ns) (response_time n) = unat (job_count n)"
    using Cons.prems by (intro at_most_Cons_first) auto
  ultimately show ?case using Cons by (simp add: Let_def ac_simps cong: map_cong)
qed simp

section \<open>The report of one job\<close>

text \<open>Printing appends to the report and marks the header as printed, or does nothing.\<close>

definition printed :: "task_stats \<Rightarrow> task_stats \<Rightarrow> bool" where
  "printed a b \<longleftrightarrow> b\<lparr>report := [], first_time := True\<rparr> = a\<lparr>report := [], first_time := True\<rparr> \<and>
     (\<exists>ps. report b = report a @ ps) \<and> (suppress_printout a \<longrightarrow> b = a)"

lemma printed_refl [intro, simp]: "printed a a"
  by (simp add: printed_def)

lemma printed_fields:
  assumes "printed a b"
  shows "at_period b = at_period a" "at_deadline b = at_deadline a" "at_t_0 b = at_t_0 a" "at_offset b = at_offset a"
    "nth_job b = nth_job a" "total_job_count b = total_job_count a" "late_count b = late_count a"
    "suppress_printout b = suppress_printout a" "response_times b = response_times a"
    "printed (a\<lparr>late_count := c\<rparr>) (b\<lparr>late_count := c\<rparr>)"
    "printed (a\<lparr>response_times := r\<rparr>) (b\<lparr>response_times := r\<rparr>)"
  using assms unfolding printed_def by (cases a; cases b; auto)+

lemma printed_trans: "printed a b \<Longrightarrow> printed b c \<Longrightarrow> printed a c"
  using printed_fields(8) [of a b] unfolding printed_def by (metis append.assoc)

lemma printed_emit [intro]: "\<not> suppress_printout a \<Longrightarrow> printed a (emit s a)"
  by (cases a) (simp add: printed_def emit_def)

lemma print_job_header_printed: "printed a (print_job_header a)"
  by (cases a) (simp add: print_job_header_def printed_def emit_def Let_def)

lemma to_string_dyn_all: "\<forall>k. ok k \<Longrightarrow> \<exists>str. to_string_dyn ok u = Some str"
  by (simp add: to_string_dyn_def Let_def)

lemma print_time_ok:
  assumes "\<forall>k. string_ok env k" "look h ts a = Some u"
  shows "\<exists>b. print_time env (Some a) prms (with_temps h n ts) = Some b \<and> printed prms b"
  using assms to_string_dyn_all [of "string_ok env" u] by (auto simp: print_time_def)

lemma temps_print:
  assumes "\<forall>k. string_ok env k" "temps_ok h n ts" "map_of ts a = Some v"
  shows "\<exists>str. to_string_dyn_gc (string_ok env) (Some a) (with_temps h n ts) =
    Some (Some str, with_temps h n (drop_temp a ts))"
proof -
  have "look h ts a = Some (dynobj v)" using assms(3) by (simp add: look_def)
  then show ?thesis
    using temps_gc(2) [OF assms(2,3)] to_string_dyn_all [OF assms(1), of "dynobj v"]
    by (auto simp: to_string_dyn_gc_def read_gc_def)
qed

lemma print_delta_ok:
  assumes "\<forall>k. string_ok env k" "temps_ok h n ts" "map_of ts a = Some v"
  shows "\<exists>b. print_delta env c (Some a) prms (with_temps h n ts) = Some (b, with_temps h n (drop_temp a ts)) \<and> printed prms b"
  using temps_gc(1) [OF assms(2,3)] temps_print [OF assms] assms(1) by (auto simp: print_delta_def)

lemma print_last_ok:
  assumes "\<forall>k. string_ok env k" "temps_ok h n ts" "map_of ts a = Some v"
  shows "\<exists>b. print_last env (Some a) prms (with_temps h n ts) = Some (b, with_temps h n (drop_temp a ts)) \<and> printed prms b"
  using temps_gc(1) [OF assms(2,3)] temps_print [OF assms] assms(1) by (auto simp: print_last_def)

text \<open>The members of the shared structure are objects of the base store that nobody collects.\<close>

definition members :: "time_store \<Rightarrow> task_stats \<Rightarrow> utility_time \<Rightarrow> utility_time \<Rightarrow> utility_time \<Rightarrow> utility_time \<Rightarrow> bool" where
  "members h prms per dl t0 off \<longleftrightarrow> store_ok h \<and>
     (\<exists>p d t f. at_period prms = Some p \<and> at_deadline prms = Some d \<and> at_t_0 prms = Some t \<and> at_offset prms = Some f \<and>
       cells h p = Some per \<and> cells h d = Some dl \<and> cells h t = Some t0 \<and> cells h f = Some off) \<and>
     \<not> auto_obj per \<and> \<not> auto_obj dl \<and> \<not> auto_obj t0 \<and> \<not> auto_obj off"

lemma look_old: "temps_ok h n ts \<Longrightarrow> a < next_addr h \<Longrightarrow> look h ts a = cells h a"
  by (induction ts) auto

definition t_rel :: "utility_time \<Rightarrow> utility_time \<Rightarrow> u64 \<Rightarrow> timespec" where
  "t_rel per off k = time_op utility_time_add (ut_t off) (mul_t (ut_t per) (ucast (k - 1)))"

lemma report_start_ok:
  assumes m: "members h prms per dl t0 off" and ok: "all_ok h 5" and s: "\<forall>k. string_ok env k"
  shows "\<exists>b. report_start env stats prms h =
      Some ((Some (next_addr h + 1), Some (next_addr h + 3)), b, with_temps h (next_addr h + 5)
        [(next_addr h + 3, time_op utility_time_sub (t_begin stats) (ut_t t0)),
         (next_addr h + 1, t_rel per off (nth_job prms))]) \<and> printed prms b"
proof -
  define n where "n = next_addr h"
  obtain p d t f where at: "at_period prms = Some p" "at_deadline prms = Some d" "at_t_0 prms = Some t"
      "at_offset prms = Some f"
    and c: "cells h p = Some per" "cells h t = Some t0" "cells h f = Some off" "store_ok h"
      "\<not> auto_obj t0" "\<not> auto_obj off" using m by (auto simp: members_def)
  note old = store_okD(2) [OF c(4) c(1)] store_okD(2) [OF c(4) c(2)] store_okD(2) [OF c(4) c(3)]
  have mo: "malloc_ok h (n + k)" if "k < 5" for k using ok that by (simp add: all_ok_def n_def)
  have mos: "malloc_ok h n" "malloc_ok h (Suc n)" "malloc_ok h (Suc (Suc n))" "malloc_ok h (Suc (Suc (Suc n)))"
    "malloc_ok h (Suc (Suc (Suc (Suc n))))"
    using mo [of 0] mo [of 1] mo [of 2] mo [of 3] mo [of 4] by (simp_all add: eval_nat_numeral)
  let ?r = "t_rel per off (nth_job prms)" and ?s = "time_op utility_time_sub (t_begin stats) (ut_t t0)"
  have h: "h = with_temps h n []" by (simp add: with_no_temps n_def)
  have s1: "utility_time_mul_dyn (Some p) k h = Some (Some n, with_temps h (Suc n) [(n, mul_t (ut_t per) k)])" for k
    using temps_mul_dyn [of h n "[]" p per k] mos c old h by (simp add: n_def)
  have s2: "utility_time_add_dyn_gc (Some f) (Some n) (with_temps h (Suc n) [(n, mul_t (ut_t per) (ucast (nth_job prms - 1)))]) =
      Some (Some (Suc n), with_temps h (Suc (Suc n)) [(Suc n, ?r)])"
    using temps_add_dyn_gc [of h "Suc n" "[(n, mul_t (ut_t per) (ucast (nth_job prms - 1)))]" f off n] mos c old
    by (simp add: n_def t_rel_def temp_simps)
  have s3: "job_statistics_time_start stats (with_temps h (Suc (Suc n)) [(Suc n, ?r)]) =
      Some (Some (Suc (Suc n)), with_temps h (Suc (Suc (Suc n))) [(Suc (Suc n), t_begin stats), (Suc n, ?r)])"
    using temps_make [of h "Suc (Suc n)" "[(Suc n, ?r)]"] mos c(4) by (simp add: job_statistics_time_start_def n_def)
  have s4: "utility_time_sub_dyn_gc (Some (Suc (Suc n))) (Some t)
        (with_temps h (Suc (Suc (Suc n))) [(Suc (Suc n), t_begin stats), (Suc n, ?r)]) =
      Some (Some (Suc (Suc (Suc n))), with_temps h (Suc (Suc (Suc (Suc n)))) [(Suc (Suc (Suc n)), ?s), (Suc n, ?r)])"
    using temps_sub_dyn_gc [of h "Suc (Suc (Suc n))" "[(Suc (Suc n), t_begin stats), (Suc n, ?r)]" "Suc (Suc n)"
        "dynobj (t_begin stats)" t t0] mos c old
    by (simp add: n_def temp_simps)
  let ?ts = "[(Suc (Suc (Suc n)), ?s), (Suc n, ?r)]" and ?n = "Suc (Suc (Suc (Suc n)))"
  have tok: "temps_ok h ?n ?ts" "temps_ok h (Suc ?n) ((?n, v) # ?ts)" for v using c(4) by (simp_all add: n_def)
  have s5: "utility_time_sub_dyn (Some (Suc (Suc (Suc n)))) (Some (Suc n)) (with_temps h ?n ?ts) =
      Some (Some ?n, with_temps h (Suc ?n) ((?n, time_op utility_time_sub ?s ?r) # ?ts))"
    "utility_time_sub_dyn (Some (Suc n)) (Some (Suc (Suc (Suc n)))) (with_temps h ?n ?ts) =
      Some (Some ?n, with_temps h (Suc ?n) ((?n, time_op utility_time_sub ?r ?s) # ?ts))"
    using temps_sub_dyn [OF _ tok(1), of "Suc (Suc (Suc n))" "dynobj ?s" "Suc n" "dynobj ?r"]
      temps_sub_dyn [OF _ tok(1), of "Suc n" "dynobj ?r" "Suc (Suc (Suc n))" "dynobj ?s"] mos by simp_all
  obtain b1 where b1: "print_time env (Some (Suc n)) prms (with_temps h (Suc (Suc n)) [(Suc n, ?r)]) = Some b1" "printed prms b1"
    using print_time_ok [OF s, of h "[(Suc n, ?r)]" "Suc n"] by fastforce
  have dl: "\<exists>b2. print_delta env ch (Some ?n) b1 (with_temps h (Suc ?n) ((?n, v) # ?ts)) =
      Some (b2, with_temps h (Suc ?n) ?ts) \<and> printed b1 b2" for ch v
    using print_delta_ok [OF s tok(2) [of v], where a = ?n] by simp
  have pt: "\<exists>b3. print_time env (Some (Suc (Suc (Suc n)))) b2 (with_temps h (Suc ?n) ?ts) = Some b3 \<and> printed b2 b3" for b2
    using print_time_ok [OF s, of h ?ts "Suc (Suc (Suc n))"] by fastforce
  have nums: "next_addr h + 1 = Suc n" "next_addr h + 3 = Suc (Suc (Suc n))" "next_addr h + 5 = Suc ?n"
    by (simp_all add: n_def)
  show ?thesis
  proof (cases "utility_time_lt (dynobj ?r) (dynobj ?s)")
    case True
    obtain b2 where b2: "print_delta env CHR ''+'' (Some ?n) b1 (with_temps h (Suc ?n) ((?n, time_op utility_time_sub ?s ?r) # ?ts)) =
      Some (b2, with_temps h (Suc ?n) ?ts)" "printed b1 b2" using dl by blast
    obtain b3 where b3: "print_time env (Some (Suc (Suc (Suc n)))) b2 (with_temps h (Suc ?n) ?ts) = Some b3" "printed b2 b3"
      using pt by blast
    show ?thesis unfolding nums report_start_def at
      using True s1 s2 s3 s4 s5 b1 b2 b3 at printed_fields(3) [OF b1(2)] printed_trans [OF printed_trans [OF b1(2) b2(2)] b3(2)]
      by simp
  next
    case False
    obtain b2 where b2: "print_delta env CHR ''-'' (Some ?n) b1 (with_temps h (Suc ?n) ((?n, time_op utility_time_sub ?r ?s) # ?ts)) =
      Some (b2, with_temps h (Suc ?n) ?ts)" "printed b1 b2" using dl by blast
    obtain b3 where b3: "print_time env (Some (Suc (Suc (Suc n)))) b2 (with_temps h (Suc ?n) ?ts) = Some b3" "printed b2 b3"
      using pt by blast
    show ?thesis unfolding nums report_start_def at
      using False s1 s2 s3 s4 s5 b1 b2 b3 at printed_fields(3) [OF b1(2)] printed_trans [OF printed_trans [OF b1(2) b2(2)] b3(2)]
      by simp
  qed
qed

lemma temps_young:
  assumes "temps_ok h n ts" "n \<le> a"
  shows "drop_temp a ts = ts" "look h ts a = None"
  using assms store_okD(3) [of h a] by (induction ts) (auto simp: temps_ok_def)

lemma look_live: "temps_ok h n ts \<Longrightarrow> look h ts a = Some u \<Longrightarrow> a < n"
  using temps_young(2) [of h n ts a] by (cases "a < n") auto

definition is_late :: "timespec \<Rightarrow> timespec \<Rightarrow> bool" where
  "is_late dl fin = utility_time_lt (dynobj dl) (dynobj fin)"

lemma report_finish_ok:
  assumes m: "members h prms per dl t0 off" and t: "temps_ok h n ts" "look h ts r = Some (dynobj rel)"
    and ok: "malloc_ok h n" "malloc_ok h (Suc n)" "malloc_ok h (Suc (Suc n))" "malloc_ok h (Suc (Suc (Suc n)))"
    and s: "\<forall>k. string_ok env k"
    and d: "d = time_op utility_time_add rel (ut_t dl)" and f: "fin = time_op utility_time_sub (t_end stats) (ut_t t0)"
  shows "\<exists>b. report_finish env stats (Some r) prms (with_temps h n ts) =
      Some ((Some (Suc (Suc n)), is_late d fin), b, with_temps h (Suc (Suc (Suc (Suc n)))) ((Suc (Suc n), fin) # ts)) \<and>
    printed (prms\<lparr>late_count := late_count prms + (if is_late d fin then 1 else 0)\<rparr>) b"
proof -
  obtain da ta where at: "at_deadline prms = Some da" "at_t_0 prms = Some ta"
    and c: "cells h da = Some dl" "cells h ta = Some t0" "store_ok h" "\<not> auto_obj t0" using m by (auto simp: members_def)
  note old = store_okD(2) [OF c(3) c(1)] store_okD(2) [OF c(3) c(2)]
  have nn: "next_addr h \<le> n" using t(1) by (simp add: temps_ok_def)
  have l: "look h ts da = Some dl" "look h ts ta = Some t0" using look_old [OF t(1)] old c by simp_all
  have rn: "r < n" using look_live [OF t] .
  have ne: "da \<noteq> n" "ta \<noteq> n" "ta \<noteq> Suc n" "r \<noteq> n" "da \<noteq> Suc n" using old nn rn by auto
  note y = temps_young(1) [OF t(1)]
  have s1: "utility_time_add_dyn (Some r) (Some da) (with_temps h n ts) = Some (Some n, with_temps h (Suc n) ((n, d) # ts))"
    using temps_add_dyn [OF ok(1) t(1,2) l(1)] by (simp add: d)
  have tok: "temps_ok h (Suc n) ((n, d) # ts)" "temps_ok h (Suc (Suc n)) ((Suc n, t_end stats) # (n, d) # ts)"
    "temps_ok h (Suc (Suc (Suc n))) ((Suc (Suc n), fin) # (n, d) # ts)"
    "temps_ok h (Suc (Suc (Suc (Suc n)))) ((Suc (Suc (Suc n)), v) # (Suc (Suc n), fin) # (n, d) # ts)"
    "temps_ok h (Suc (Suc (Suc (Suc n)))) ((Suc (Suc n), fin) # (n, d) # ts)" for v
    using t(1) nn by (auto simp: temps_ok_def)
  have s2: "job_statistics_time_finish stats (with_temps h (Suc n) ((n, d) # ts)) =
      Some (Some (Suc n), with_temps h (Suc (Suc n)) ((Suc n, t_end stats) # (n, d) # ts))"
    using temps_make [OF ok(2) tok(1)] by (simp add: job_statistics_time_finish_def)
  have tok': "temps_ok h (Suc (Suc (Suc n))) ((Suc (Suc n), fin) # (Suc n, t_end stats) # (n, d) # ts)"
    using tok(3) nn by (simp add: temps_ok_def)
  have s3: "utility_time_sub_dyn_gc (Some (Suc n)) (Some ta) (with_temps h (Suc (Suc n)) ((Suc n, t_end stats) # (n, d) # ts)) =
      Some (Some (Suc (Suc n)), with_temps h (Suc (Suc (Suc n))) ((Suc (Suc n), fin) # (n, d) # ts))"
    using temps_sub_dyn_gc [OF ok(3) tok(2), of "Suc n" "dynobj (t_end stats)" ta t0] l ne c(4) y [of "Suc n"]
      collect_temp_obj [OF tok', of "Suc n" "t_end stats"] nn
    by (simp add: f collect_plain)
  have lks: "look h ((Suc (Suc n), fin) # (n, d) # ts) (Suc (Suc n)) = Some (dynobj fin)"
    "look h ((Suc (Suc n), fin) # (n, d) # ts) n = Some (dynobj d)" by simp_all
  let ?n4 = "Suc (Suc (Suc (Suc n)))" and ?ts = "(Suc (Suc n), fin) # (n, d) # ts"
  note s4 = temps_sub_dyn [OF ok(4) tok(3) lks] temps_sub_dyn [OF ok(4) tok(3) lks(2,1)]
  obtain b1 where b1: "print_time env (Some n) prms (with_temps h (Suc n) ((n, d) # ts)) = Some b1" "printed prms b1"
    using print_time_ok [OF s, of h "(n, d) # ts" n] by fastforce
  have dlt: "\<exists>b2. print_delta env ch (Some (Suc (Suc (Suc n)))) b1 (with_temps h ?n4 ((Suc (Suc (Suc n)), v) # ?ts)) =
      Some (b2, with_temps h ?n4 ?ts) \<and> printed b1 b2" for ch v
    using print_delta_ok [OF s tok(4) [of v], where a = "Suc (Suc (Suc n))"] y [of "Suc (Suc (Suc n))"] by simp
  have gc: "utility_time_gc (Some n) (with_temps h ?n4 ?ts) = Some (with_temps h ?n4 ((Suc (Suc n), fin) # ts))"
    using temps_gc(1) [OF tok(5), of n] y [of n] by simp
  have pt: "\<exists>b3. print_time env (Some (Suc (Suc n))) b2 (with_temps h ?n4 ((Suc (Suc n), fin) # ts)) = Some b3 \<and> printed b2 b3" for b2
    using print_time_ok [OF s, of h "(Suc (Suc n), fin) # ts" "Suc (Suc n)"] by fastforce
  show ?thesis
  proof (cases "is_late d fin")
    case True
    obtain b2 where b2: "print_delta env CHR ''+'' (Some (Suc (Suc (Suc n)))) b1
        (with_temps h ?n4 ((Suc (Suc (Suc n)), time_op utility_time_sub fin d) # ?ts)) =
      Some (b2, with_temps h ?n4 ?ts)" "printed b1 b2" using dlt by blast
    obtain b3 where b3: "print_time env (Some (Suc (Suc n))) (b2\<lparr>late_count := late_count b2 + 1\<rparr>)
        (with_temps h ?n4 ((Suc (Suc n), fin) # ts)) = Some b3" "printed (b2\<lparr>late_count := late_count b2 + 1\<rparr>) b3"
      using pt by blast
    have p: "printed prms b2" using printed_trans [OF b1(2) b2(2)] .
    have "printed (prms\<lparr>late_count := late_count prms + 1\<rparr>) b3"
      using printed_trans [OF printed_fields(10) [OF p]] b3(2) printed_fields(7) [OF p] by simp
    then show ?thesis unfolding report_finish_def at
      using True s1 s2 s3 s4 b1 b2 b3 at printed_fields(3) [OF b1(2)] gc by (simp add: is_late_def)
  next
    case False
    obtain b2 where b2: "print_delta env CHR ''-'' (Some (Suc (Suc (Suc n)))) b1
        (with_temps h ?n4 ((Suc (Suc (Suc n)), time_op utility_time_sub d fin) # ?ts)) =
      Some (b2, with_temps h ?n4 ?ts)" "printed b1 b2" using dlt by blast
    obtain b3 where b3: "print_time env (Some (Suc (Suc n))) b2
        (with_temps h ?n4 ((Suc (Suc n), fin) # ts)) = Some b3" "printed b2 b3" using pt by blast
    have "printed prms b3" using printed_trans [OF printed_trans [OF b1(2) b2(2)] b3(2)] .
    then show ?thesis unfolding report_finish_def at
      using False s1 s2 s3 s4 b1 b2 b3 at printed_fields(3) [OF b1(2)] gc by (simp add: is_late_def)
  qed
qed

text \<open>The effect of one job on the counters.\<close>

definition counted :: "report_env \<Rightarrow> bool \<Rightarrow> timespec \<Rightarrow> task_stats \<Rightarrow> task_stats" where
  "counted env late resp prms = prms\<lparr>late_count := late_count prms + (if late then 1 else 0),
     response_times := insert_response_time (node_ok env (unat (total_job_count prms))) (response_ns resp) (response_times prms),
     nth_job := nth_job prms + 1, total_job_count := total_job_count prms + 1\<rparr>"

lemma printed_counted: "printed a b \<Longrightarrow> printed (counted env late resp a) (counted env late resp b)"
  unfolding printed_def by (cases a; cases b) (auto simp: counted_def)

lemma printed_late:
  "printed a b \<Longrightarrow> printed (a\<lparr>nth_job := k, total_job_count := j\<rparr>) (b\<lparr>nth_job := k, total_job_count := j\<rparr>)"
  unfolding printed_def by (cases a; cases b) auto

lemma members_printed: "members h a per dl t0 off \<Longrightarrow> printed a b \<Longrightarrow> members h b per dl t0 off"
  using printed_fields by (fastforce simp: members_def)

lemma print_job_stats_ok:
  assumes m: "members h prms per dl t0 off" and ok: "all_ok h 11" and s: "\<forall>k. string_ok env k"
    and rel: "rel = t_rel per off (nth_job prms)" and fin: "fin = time_op utility_time_sub (t_end stats) (ut_t t0)"
    and d: "d = time_op utility_time_add rel (ut_t dl)" and resp: "resp = time_op utility_time_sub fin rel"
  shows "\<exists>b. print_job_stats env stats (prms, h) = Some (b, h\<lparr>next_addr := next_addr h + 11\<rparr>) \<and>
    printed (counted env (is_late d fin) resp prms) b"
proof -
  define n where "n = next_addr h"
  have mo: "malloc_ok h (n + k)" if "k < 11" for k using ok that by (simp add: all_ok_def n_def)
  let ?st = "time_op utility_time_sub (t_begin stats) (ut_t t0)"
  let ?h0 = "print_job_header prms"
  have h0: "printed prms ?h0" by (rule print_job_header_printed)
  note m0 = members_printed [OF m h0]
  have "all_ok h 5" using ok by (simp add: all_ok_def)
  from report_start_ok [OF m0 this s, of stats] obtain b1 where b1: "report_start env stats ?h0 h =
      Some ((Some (n + 1), Some (n + 3)), b1, with_temps h (n + 5) [(n + 3, ?st), (n + 1, rel)])" "printed ?h0 b1"
    by (auto simp: n_def rel printed_fields(5) [OF h0])
  note p1 = printed_trans [OF h0 b1(2)]
  have st: "store_ok h" using m by (simp add: members_def)
  have tok: "temps_ok h (n + 5) [(n + 3, ?st), (n + 1, rel)]" using st by (simp add: n_def)
  have mo4: "malloc_ok h (n + 5)" "malloc_ok h (Suc (n + 5))" "malloc_ok h (Suc (Suc (n + 5)))" "malloc_ok h (Suc (Suc (Suc (n + 5))))"
    using mo [of 5] mo [of 6] mo [of 7] mo [of 8] by (simp_all add: eval_nat_numeral)
  from report_finish_ok [OF members_printed [OF m p1] tok _ mo4 s d fin, of "n + 1"]
  obtain b2 where b2: "report_finish env stats (Some (n + 1)) b1 (with_temps h (n + 5) [(n + 3, ?st), (n + 1, rel)]) =
      Some ((Some (n + 7), is_late d fin), b2, with_temps h (n + 9) [(n + 7, fin), (n + 3, ?st), (n + 1, rel)])"
    "printed (b1\<lparr>late_count := late_count b1 + (if is_late d fin then 1 else 0)\<rparr>) b2"
    by (auto simp: eval_nat_numeral)
  let ?ts = "[(n + 7, fin), (n + 3, ?st), (n + 1, rel)]"
  have tok2: "temps_ok h (n + 9) ?ts" "temps_ok h (n + 10) ((n + 9, v) # ?ts)"
    "temps_ok h (n + 10) [(n + 9, v), (n + 7, fin), (n + 1, rel)]" "temps_ok h (n + 10) [(n + 7, fin), (n + 1, rel)]"
    "temps_ok h (n + 11) [(n + 10, v), (n + 7, fin), (n + 1, rel)]" "temps_ok h (n + 11) [(n + 10, v), (n + 1, rel)]"
    "temps_ok h (n + 11) [(n + 10, v)]" for v
    using st by (simp_all add: n_def)
  have nums: "Suc (n + 9) = n + 10" "Suc (n + 10) = n + 11" by simp_all
  have e: "utility_time_sub_dyn (Some (n + 7)) (Some (n + 3)) (with_temps h (n + 9) ?ts) =
      Some (Some (n + 9), with_temps h (n + 10) ((n + 9, time_op utility_time_sub fin ?st) # ?ts))"
    using temps_sub_dyn [OF mo [of 9] tok2(1), of "n + 7" "dynobj fin" "n + 3" "dynobj ?st"] unfolding nums by simp
  have g: "utility_time_gc (Some (n + 3)) (with_temps h (n + 10) ((n + 9, v) # ?ts)) =
      Some (with_temps h (n + 10) [(n + 9, v), (n + 7, fin), (n + 1, rel)])" for v
    using temps_gc(1) [OF tok2(2) [of v], where a = "n + 3"] by simp
  obtain b3 where b3: "print_last env (Some (n + 9)) b2 (with_temps h (n + 10)
      [(n + 9, time_op utility_time_sub fin ?st), (n + 7, fin), (n + 1, rel)]) =
      Some (b3, with_temps h (n + 10) [(n + 7, fin), (n + 1, rel)])" "printed b2 b3"
    using print_last_ok [OF s tok2(3), where a = "n + 9"] by fastforce
  have r: "utility_time_sub_dyn_gc (Some (n + 7)) (Some (n + 1)) (with_temps h (n + 10) [(n + 7, fin), (n + 1, rel)]) =
      Some (Some (n + 10), with_temps h (n + 11) [(n + 10, resp)])"
    using temps_sub_dyn_gc [OF mo [of 10] tok2(4), of "n + 7" "dynobj fin" "n + 1" "dynobj rel"]
      collect_temp_obj [OF tok2(5) [of resp], where a = "n + 7"] collect_temp_obj [OF tok2(6) [of resp], where a = "n + 1"]
    unfolding nums by (simp add: resp n_def)
  define b4 where "b4 = b3\<lparr>response_times := insert_response_time (node_ok env (unat (total_job_count b3)))
           (response_ns resp) (response_times b3)\<rparr>"
  obtain b5 where b5: "print_last env (Some (n + 10)) b4 (with_temps h (n + 11) [(n + 10, resp)]) =
      Some (b5, with_temps h (n + 11) [])" "printed b4 b5"
    using print_last_ok [OF s tok2(7), where a = "n + 10"] by fastforce
  let ?late = "is_late d fin"
  define b6 where "b6 = (if suppress_printout b5 then b5 else emit ((if ?late then '' LATE'' else []) @ [CHR 0x0A]) b5)"
  have "printed b5 b6" by (auto simp: b6_def)
  note p6 = printed_trans [OF b5(2) this]
  have nx: "with_temps h (n + 11) [] = h\<lparr>next_addr := next_addr h + 11\<rparr>" by (simp add: with_no_temps n_def)
  have run: "print_job_stats env stats (prms, h) = Some (b6\<lparr>nth_job := nth_job b6 + 1, total_job_count := total_job_count b6 + 1\<rparr>,
      h\<lparr>next_addr := next_addr h + 11\<rparr>)"
    using b1(1) b2(1) e g b3(1) r b5(1) nx
    by (simp add: print_job_stats_def b4_def [symmetric] b6_def [symmetric] Let_def to_timespec_def)
  let ?l = "prms\<lparr>late_count := late_count prms + (if ?late then 1 else 0)\<rparr>"
  have p3: "printed ?l b3"
    using printed_trans [OF printed_trans [OF printed_fields(10) [OF p1] b2(2)] b3(2)] b2(2) printed_fields(7) [OF p1]
    by (metis printed_fields(10) [OF p1] printed_trans b3(2))
  have "b4 = b3\<lparr>response_times := insert_response_time (node_ok env (unat (total_job_count prms))) (response_ns resp) (response_times prms)\<rparr>"
    using printed_fields(6,9) [OF p3] by (simp add: b4_def)
  then have p4: "printed (?l\<lparr>response_times := insert_response_time (node_ok env (unat (total_job_count prms))) (response_ns resp) (response_times prms)\<rparr>) b6"
    using printed_trans [OF printed_fields(11) [OF p3] ] p6 by simp
  have "printed (counted env ?late resp prms) (b6\<lparr>nth_job := nth_job b6 + 1, total_job_count := total_job_count b6 + 1\<rparr>)"
    using printed_late [OF p4, where k = "nth_job prms + 1" and j = "total_job_count prms + 1"] printed_fields(5,6) [OF p4]
    by (simp add: counted_def split del: if_split)
  then show ?thesis using run by blast
qed

section \<open>In nanoseconds\<close>

lemma mul_t_ns:
  assumes "time_ok a" "int (unat n) * ns_of a < time_limit"
  shows "ns_of (dynobj (mul_t (ut_t a) n)) = int (unat n) * ns_of a \<and> time_ok (dynobj (mul_t (ut_t a) n))"
proof -
  have a: "ns_of (dynobj (ut_t a)) = ns_of a" "time_ok (dynobj (ut_t a)) = time_ok a"
    using t_congs [of "dynobj (ut_t a)" a] by simp_all
  let ?u = "utility_time_mul (dynobj (ut_t a)) n utility_time_init"
  show ?thesis
    using mul_correct [of "dynobj (ut_t a)" n utility_time_init] t_congs [of "dynobj (mul_t (ut_t a) n)" ?u] assms a
    by (simp add: mul_t_def)
qed

lemma time_ops_ns:
  assumes "time_ok a" "time_ok b"
  shows "ns_of (dynobj (time_op utility_time_sub (ut_t a) (ut_t b))) = max 0 (ns_of a - ns_of b) \<and>
      time_ok (dynobj (time_op utility_time_sub (ut_t a) (ut_t b)))"
    and "ns_of a + ns_of b < time_limit \<Longrightarrow>
      ns_of (dynobj (time_op utility_time_add (ut_t a) (ut_t b))) = ns_of a + ns_of b \<and>
      time_ok (dynobj (time_op utility_time_add (ut_t a) (ut_t b)))"
proof -
  have c: "ns_of (dynobj (ut_t u)) = ns_of u" "time_ok (dynobj (ut_t u)) = time_ok u" for u
    using t_congs [of "dynobj (ut_t u)" u] by simp_all
  note s = sub_correct [of "dynobj (ut_t a)" "dynobj (ut_t b)" utility_time_init]
    and p = add_correct [of "dynobj (ut_t a)" "dynobj (ut_t b)" utility_time_init]
  show "ns_of (dynobj (time_op utility_time_sub (ut_t a) (ut_t b))) = max 0 (ns_of a - ns_of b) \<and>
      time_ok (dynobj (time_op utility_time_sub (ut_t a) (ut_t b)))"
    using s assms unfolding time_op_def by (simp add: c)
  show "ns_of (dynobj (time_op utility_time_add (ut_t a) (ut_t b))) = ns_of a + ns_of b \<and>
      time_ok (dynobj (time_op utility_time_add (ut_t a) (ut_t b)))" if "ns_of a + ns_of b < time_limit"
    using p assms that unfolding time_op_def by (simp add: c)
qed

lemma response_ns_eq: "response_ns t = word_of_int (ns_of (dynobj t))"
  by (simp add: response_ns_def ns_of_def dynobj_def)

text \<open>The release of the job that follows \<open>k\<close> others, and what is derived from it.\<close>

definition job_release :: "utility_time \<Rightarrow> utility_time \<Rightarrow> nat \<Rightarrow> int" where
  "job_release per off k = ns_of off + int k * ns_of per"

definition job_finish :: "utility_time \<Rightarrow> job_statistics \<Rightarrow> int" where
  "job_finish t0 x = max 0 (ns_of (dynobj (t_end x)) - ns_of t0)"

definition job_late :: "utility_time \<Rightarrow> utility_time \<Rightarrow> utility_time \<Rightarrow> utility_time \<Rightarrow> nat \<Rightarrow> job_statistics \<Rightarrow> bool" where
  "job_late per dl t0 off k x \<longleftrightarrow> job_release per off k + ns_of dl < job_finish t0 x"

definition job_response :: "utility_time \<Rightarrow> utility_time \<Rightarrow> utility_time \<Rightarrow> nat \<Rightarrow> job_statistics \<Rightarrow> u64" where
  "job_response per t0 off k x = word_of_int (max 0 (job_finish t0 x - job_release per off k))"

text \<open>The number of periods is converted to 32 bits.\<close>

definition periods :: "u64 \<Rightarrow> nat" where
  "periods pos = unat (pos - 1) mod 2 ^ 32"

lemma unat_periods: "unat (ucast (pos - 1 :: u64) :: u32) = periods pos"
  by (simp add: periods_def unsigned_ucast_eq take_bit_eq_mod)

lemma job_times:
  assumes "time_ok per" "time_ok dl" "time_ok t0" "time_ok off" "time_ok (dynobj (t_end x))"
    and "job_release per off (periods pos) + ns_of dl < time_limit"
    and "rel = t_rel per off pos" "fin = time_op utility_time_sub (t_end x) (ut_t t0)"
    and "d = time_op utility_time_add rel (ut_t dl)" "resp = time_op utility_time_sub fin rel"
  shows "is_late d fin = job_late per dl t0 off (periods pos) x"
    and "response_ns resp = job_response per t0 off (periods pos) x"
proof -
  let ?k = "ucast (pos - 1) :: u32"
  have lim: "int (unat ?k) * ns_of per < time_limit" "ns_of off + int (unat ?k) * ns_of per < time_limit"
    using assms(6) ns_of_nonneg [OF assms(2)] ns_of_nonneg [OF assms(4)]
    unfolding unat_periods job_release_def by linarith+
  note m = mul_t_ns [OF assms(1) lim(1)]
  have r: "ns_of (dynobj rel) = job_release per off (periods pos) \<and> time_ok (dynobj rel)"
    using time_ops_ns(2) [OF assms(4), of "dynobj (mul_t (ut_t per) ?k)"] m lim(2) assms(7)
    by (simp add: t_rel_def job_release_def unat_periods)
  have f: "ns_of (dynobj fin) = job_finish t0 x \<and> time_ok (dynobj fin)"
    using time_ops_ns(1) [OF assms(5,3)] assms(8) by (simp add: job_finish_def)
  have dd: "ns_of (dynobj d) = job_release per off (periods pos) + ns_of dl" "time_ok (dynobj d)"
    using time_ops_ns(2) [of "dynobj rel" dl] r assms(2,6,9) by simp_all
  show "is_late d fin = job_late per dl t0 off (periods pos) x"
    using lt_is_order [of "dynobj d" "dynobj fin"] order_ns_of(1) [OF dd(2), of "dynobj fin"] f
    by (simp add: is_late_def job_late_def dd(1))
  have "ns_of (dynobj resp) = max 0 (job_finish t0 x - job_release per off (periods pos))"
    using time_ops_ns(1) [of "dynobj fin" "dynobj rel"] r f assms(10) by simp
  then show "response_ns resp = job_response per t0 off (periods pos) x"
    by (simp add: response_ns_eq job_response_def)
qed

end
