(* ===== verification/Read_Task_Report.thy ===== *)
theory Read_Task_Report
  imports Read_Task_Stats
begin

text \<open>
  What \<^verbatim>\<open>read_task_stats_file.c\<close> reports: the rows of a cumulative distribution, the report of one
  job, and the run of the whole program on the file of a task.
\<close>

section \<open>The cumulative distribution\<close>

text \<open>How many responses, rounded to microseconds, were not later than a time.\<close>

definition responses_within :: "u64 list \<Rightarrow> u64 \<Rightarrow> nat" where
  "responses_within rs x = length (filter (\<lambda>r. to_us r \<le> x) rs)"

lemma insert_is_counted: "fold (insert_response_time True) rs ts = fold (insert_walk True) (map to_us rs) ts"
  by (induction rs arbitrary: ts) (simp_all add: insert_response_time_def)

lemma response_histogram:
  assumes "length rs + 1 < 2 ^ 32"
  shows "histogram (fold (insert_response_time True) rs []) (mset (map to_us rs))"
  using response_list.fold_counts [of "[]" "{#}" "map to_us rs"] assms
  by (simp add: insert_is_counted histogram_def)

lemma at_most_responses:
  "histogram ts (mset (map to_us rs)) \<Longrightarrow> at_most ts x = responses_within rs x"
  by (simp add: histogram_def at_most_def responses_within_def flip: mset_map mset_filter)
    (simp add: filter_map o_def)

lemma insert_walk_covers: "x \<in> set (map response_time (insert_walk True x ts))"
  by (induction ts) (auto simp: new_response_time_list_def)

lemma insert_walk_keeps:
  "set (map response_time (insert_walk True x ts)) = insert x (set (map response_time ts))"
  by (induction ts) (auto simp: new_response_time_list_def)

lemma response_times_are:
  "set (map response_time (fold (insert_response_time True) rs ts)) = to_us ` set rs \<union> set (map response_time ts)"
  by (induction rs arbitrary: ts) (auto simp: insert_response_time_def insert_walk_keeps simp del: set_map)

text \<open>Claim C15. For fewer than $2^{32}-1$ jobs whose response times are all recorded, the list holds each
  response time, rounded to microseconds, once and in increasing order, and in both formats the
  value printed for the time $x$ is the number of responses that are at most $x$, over the number
  of jobs.\<close>

theorem cdf_exact:
  assumes "length rs + 1 < 2 ^ 32" "rs \<noteq> []"
  defines "ts \<equiv> fold (insert_response_time True) rs []" and "n \<equiv> of_nat (length rs) :: u32"
  defines "value_at \<equiv> (\<lambda>x. Ratio (of_nat (responses_within rs x)) n)"
  shows "sorted_wrt (<) (map response_time ts) \<and> set (map response_time ts) = to_us ` set rs \<and>
    print_response_time_cdf ts n GNUPLOT =
      concat (map (\<lambda>x. [Text (fmt_lu x @ [CHR 0x09]), value_at x, Text [CHR 0x0A]]) (map response_time ts)) \<and>
    print_response_time_cdf ts n MATLAB =
      [Text ''plot([''] @ map (\<lambda>x. Text ('' '' @ fmt_lu x)) (map response_time ts) @ [Text ''], ['' ] @
      concat (map (\<lambda>x. [Text '' '', value_at x]) (map response_time ts)) @ [Text ('']);'' @ [CHR 0x0A])]"
proof -
  have h: "histogram ts (mset (map to_us rs))" using response_histogram [OF assms(1)] by (simp add: ts_def)
  then have s: "sorted_wrt (<) (map response_time ts)" by (simp add: histogram_def)
  have "unat n = length rs" using assms(1) by (simp add: n_def unat_of_nat take_bit_nat_eq_self)
  then have "n \<noteq> 0" using assms(2) by auto
  then show ?thesis
    using s response_times_are [of rs "[]"] gnuplot_lines_eq [OF s, of 0 n] matlab_ratios_eq [OF s, of 0 n]
    by (simp add: print_response_time_cdf_def print_gnuplot_cdf_def print_matlab_cdf_def value_at_def
        at_most_responses [OF h] ts_def [symmetric] o_def del: set_map)
qed

theorem cdf_exact_witness:
  "fold (insert_response_time True) [2600, 1499, 3499, 700] [] =
     [\<lparr>job_count = 2, response_time = 1\<rparr>, \<lparr>job_count = 2, response_time = 3\<rparr>] \<and>
   print_response_time_cdf (fold (insert_response_time True) [2600, 1499, 3499, 700] []) 4 GNUPLOT =
     [Text (fmt_lu 1 @ [CHR 0x09]), Ratio 2 4, Text [CHR 0x0A], Text (fmt_lu 3 @ [CHR 0x09]), Ratio 4 4, Text [CHR 0x0A]]"
proof -
  have e: "fold (insert_response_time True) [2600, 1499, 3499, 700] [] =
     [\<lparr>job_count = 2, response_time = 1\<rparr>, \<lparr>job_count = 2, response_time = 3\<rparr>]"
    by (simp add: insert_response_time_def to_us_def new_response_time_list_def)
  have "responses_within [2600, 1499, 3499, 700] 1 = 2" "responses_within [2600, 1499, 3499, 700] 3 = 4"
    by (simp_all add: responses_within_def to_us_def word_le_nat_alt)
  then show ?thesis using cdf_exact [of "[2600, 1499, 3499, 700]"] e by simp
qed

section \<open>One job\<close>


lemma initial_stats_simps [simp]:
  "report (initial_stats fmt n) = []" "nth_job (initial_stats fmt n) = 0" "total_job_count (initial_stats fmt n) = 0"
  "late_count (initial_stats fmt n) = 0" "suppress_printout (initial_stats fmt n) = (fmt \<noteq> NO_CDF)"
  "response_times (initial_stats fmt n) = []" "at_period (initial_stats fmt n) = Some n"
  "at_deadline (initial_stats fmt n) = Some (n + 1)" "at_t_0 (initial_stats fmt n) = Some (n + 2)"
  "at_offset (initial_stats fmt n) = Some (n + 3)"
  by (simp_all add: initial_stats_def)

definition sample_store :: time_store where
  "sample_store = main_locals \<lparr>cells = (\<lambda>_. None), heap_objs = {}, next_addr = 0, malloc_ok = (\<lambda>_. True),
     garbage = (\<lambda>_. utility_time_init)\<rparr>"

lemma sample_store_simps [simp]:
  "store_ok sample_store" "malloc_ok sample_store n" "next_addr sample_store = 4" "all_ok sample_store n"
  "cells sample_store 0 = Some utility_time_init" "cells sample_store 1 = Some utility_time_init"
  "cells sample_store 2 = Some utility_time_init" "cells sample_store 3 = Some utility_time_init"
  by (auto simp: sample_store_def main_locals_def store_ok_def utility_time_init_def all_ok_def)


section \<open>The parameters of the task\<close>

text \<open>The members of the shared structure after they are copied from a task.\<close>

definition kept :: "utility_time \<Rightarrow> utility_time" where
  "kept u = utility_time_to_utility_time u utility_time_init"

lemma kept_value: "ut_t (kept u) = ut_t u" "\<not> auto_obj (kept u)"
  by (simp_all add: kept_def utility_time_to_utility_time_def auto_obj_def utility_time_init_def set_t_def)

lemma kept_simps [simp]: "ut_t (kept u) = ut_t u" "\<not> auto_obj (kept u)" "ns_of (kept u) = ns_of u" "time_ok (kept u) = time_ok u"
  using kept_value t_congs [of "kept u" u] by simp_all

lemma copy_again: "utility_time_to_utility_time (dynobj (ut_t u)) c = utility_time_to_utility_time u c"
  by (simp add: utility_time_to_utility_time_def dynobj_def)

lemma collect_new_copy:
  "store_ok h \<Longrightarrow> collect (next_addr h) (dynobj t) (alloc t h) = h\<lparr>next_addr := Suc (next_addr h)\<rparr>"
  using store_okD(3) [of h "next_addr h"]
  by (auto simp: collect_def alloc_def auto_obj_def intro!: time_store.equality)

lemma copy_to_eq:
  assumes "malloc_ok h (next_addr h)" "store_ok h" "cells h d = Some c"
  shows "copy_to (copy_member u) (Some d) h =
    Some (h\<lparr>cells := (cells h)(d \<mapsto> utility_time_to_utility_time u c), next_addr := Suc (next_addr h)\<rparr>)"
proof -
  let ?n = "next_addr h" let ?h = "alloc (ut_t u) h"
  have ne: "d \<noteq> ?n" using store_okD(2) [OF assms(2,3)] by simp
  have c: "cells ?h ?n = Some (dynobj (ut_t u))" "cells ?h d = Some c" using assms(3) ne by (simp_all add: alloc_def)
  let ?h2 = "?h\<lparr>cells := (cells ?h)(d \<mapsto> utility_time_to_utility_time u c)\<rparr>"
  have "utility_time_gc_auto (Some ?n) ?h2 = Some (collect ?n (dynobj (ut_t u)) ?h2)"
    using c ne by (intro gc_auto_eq) (simp_all add: alloc_def)
  moreover have "collect ?n (dynobj (ut_t u)) ?h2 = (collect ?n (dynobj (ut_t u)) ?h)\<lparr>cells :=
      (cells (collect ?n (dynobj (ut_t u)) ?h))(d \<mapsto> utility_time_to_utility_time u c)\<rparr>"
    using ne by (auto simp: collect_def fun_upd_twist)
  ultimately show ?thesis
    using copy_p_eq [OF c] copy_member_eq [OF assms(1), of u]
    by (simp add: copy_to_def utility_time_to_utility_time_gc_def copy_again collect_new_copy [OF assms(2)])
qed

lemma print_member_ok:
  assumes "malloc_ok h (next_addr h)" "store_ok h" "\<forall>k. string_ok env k" "\<not> suppress_printout prms"
  shows "\<exists>b. print_member env (copy_member u) label (prms, h) = Some (b, h\<lparr>next_addr := Suc (next_addr h)\<rparr>) \<and> printed prms b"
proof -
  let ?n = "next_addr h"
  have "temps_ok h (Suc ?n) [(?n, ut_t u)]" using assms(2) by simp
  from temps_print [OF assms(3) this, of ?n "ut_t u"] obtain str where
    "to_string_dyn_gc (string_ok env) (Some ?n) (with_temps h (Suc ?n) [(?n, ut_t u)]) = Some (Some str, with_temps h (Suc ?n) [])"
    by auto
  moreover have "alloc (ut_t u) h = with_temps h (Suc ?n) [(?n, ut_t u)]"
    using alloc_temp [of "ut_t u" h ?n "[]"] by (simp add: with_no_temps)
  ultimately show ?thesis
    using copy_member_eq [OF assms(1), of u] assms(4)
    by (auto simp: print_member_def print_utility_time_def with_no_temps)
qed

lemmas task_accessors = task_statistics_wcet_def task_statistics_period_def task_statistics_deadline_def
  task_statistics_t0_def task_statistics_offset_def task_statistics_job_statistics_overhead_def
  task_statistics_finish_to_start_overhead_def

lemma print_task_params_ok:
  assumes "\<forall>n. malloc_ok h n" "store_ok h" "\<forall>k. string_ok env k" "\<not> suppress_printout prms"
  shows "\<exists>b. print_task_params env tau (prms, h) = Some (b, h\<lparr>next_addr := next_addr h + 7\<rparr>) \<and> printed prms b"
proof -
  have step: "\<exists>c. print_member env (copy_member u) label (b, h\<lparr>next_addr := n\<rparr>) = Some (c, h\<lparr>next_addr := Suc n\<rparr>) \<and> printed prms c"
    if "printed prms b" "next_addr h \<le> n" for u label b n
    using print_member_ok [of "h\<lparr>next_addr := n\<rparr>" env b u label] store_ok_next [OF assms(2) that(2)] assms that
      printed_fields(8) [OF that(1)] printed_trans [OF that(1)] by fastforce
  let ?n = "next_addr h"
  define p0 where "p0 = emit (''Name: '' @ task_statistics_name tau @ [CHR 0x0A]) prms"
  have e: "printed prms p0" using assms(4) by (auto simp: p0_def)
  obtain b1 where b1: "print_member env (copy_member (wcet tau)) ''WCET'' (p0, h) = Some (b1, h\<lparr>next_addr := Suc ?n\<rparr>)" "printed prms b1"
    using step [OF e, where n = "?n" and u = "wcet tau" and label = "''WCET''"] by auto
  obtain b2 where b2: "print_member env (copy_member (period tau)) ''Period'' (b1, h\<lparr>next_addr := Suc ?n\<rparr>) =
      Some (b2, h\<lparr>next_addr := Suc (Suc ?n)\<rparr>)" "printed prms b2" using step [OF b1(2), where n = "Suc ?n" and u = "period tau" and label = "''Period''"] by auto
  obtain b3 where b3: "print_member env (copy_member (tk_deadline tau)) ''Deadline'' (b2, h\<lparr>next_addr := Suc (Suc ?n)\<rparr>) =
      Some (b3, h\<lparr>next_addr := Suc (Suc (Suc ?n))\<rparr>)" "printed prms b3" using step [OF b2(2), where n = "Suc (Suc ?n)" and u = "tk_deadline tau" and label = "''Deadline''"] by auto
  obtain b4 where b4: "print_member env (copy_member (t_0 tau)) ''t_0'' (b3, h\<lparr>next_addr := Suc (Suc (Suc ?n))\<rparr>) =
      Some (b4, h\<lparr>next_addr := Suc (Suc (Suc (Suc ?n)))\<rparr>)" "printed prms b4" using step [OF b3(2), where n = "Suc (Suc (Suc ?n))" and u = "t_0 tau" and label = "''t_0''"] by auto
  obtain b5 where b5: "print_member env (copy_member (tk_offset tau)) ''Offset'' (b4, h\<lparr>next_addr := Suc (Suc (Suc (Suc ?n)))\<rparr>) =
      Some (b5, h\<lparr>next_addr := ?n + 5\<rparr>)" "printed prms b5" using step [OF b4(2), where n = "Suc (Suc (Suc (Suc ?n)))" and u = "tk_offset tau" and label = "''Offset''"] by (auto simp: eval_nat_numeral)
  obtain b6 where b6: "print_member env (copy_member (tk_job_statistics_overhead tau)) ''Job statistics overhead''
      (b5, h\<lparr>next_addr := ?n + 5\<rparr>) = Some (b6, h\<lparr>next_addr := ?n + 6\<rparr>)" "printed prms b6"
    using step [OF b5(2), where n = "?n + 5" and u = "tk_job_statistics_overhead tau" and label = "''Job statistics overhead''"] by (auto simp: eval_nat_numeral)
  obtain b7 where b7: "print_member env (copy_member (tk_finish_to_start_overhead tau)) ''Task finish-to-start overhead''
      (b6, h\<lparr>next_addr := ?n + 6\<rparr>) = Some (b7, h\<lparr>next_addr := ?n + 7\<rparr>)" "printed prms b7"
    using step [OF b6(2), where n = "?n + 6" and u = "tk_finish_to_start_overhead tau" and label = "''Task finish-to-start overhead''"] by (auto simp: eval_nat_numeral)
  have ns: "\<not> suppress_printout b7" using printed_fields(8) [OF b7(2)] assms(4) by simp
  then have "printed prms (emit u (emit v (emit w b7)))" for u v w
    by (intro printed_trans [OF b7(2)] printed_trans [OF printed_emit printed_trans [OF printed_emit printed_emit]])
      (simp_all add: emit_def)
  then show ?thesis
    unfolding print_task_params_def task_accessors Let_def prod.case p0_def [symmetric] by (simp add: b1(1) b2(1) b3(1) b4(1) b5(1) b6(1) b7(1))
qed

text \<open>The store when \<^verbatim>\<open>main\<close> has its parameters, on top of a base store.\<close>

definition param_store :: "time_store \<Rightarrow> nat \<Rightarrow> task \<Rightarrow> time_store" where
  "param_store h n tau = h\<lparr>cells := (cells h)(next_addr h \<mapsto> kept (period tau), next_addr h + 1 \<mapsto> kept (tk_deadline tau),
     next_addr h + 2 \<mapsto> kept (t_0 tau), next_addr h + 3 \<mapsto> kept (tk_offset tau)), next_addr := n\<rparr>"

lemma main_locals_ok: "store_ok h \<Longrightarrow> store_ok (main_locals h)"
  by (auto simp: store_ok_def main_locals_def utility_time_init_def)

lemma kept_not_dyn [simp]: "\<not> dyn_alloc (kept u)"
  by (simp add: kept_def utility_time_to_utility_time_def utility_time_init_def set_t_def)

lemma param_store_ok: "store_ok h \<Longrightarrow> next_addr h + 4 \<le> n \<Longrightarrow> store_ok (param_store h n tau)"
  by (auto simp: store_ok_def param_store_def)

lemma print_task_stats_ok:
  assumes "\<forall>n. malloc_ok h n" "store_ok h" "\<forall>k. string_ok env k"
  shows "\<exists>b n. print_task_stats env tau (initial_stats fmt (next_addr h), main_locals h) =
      Some (b\<lparr>nth_job := oldest_job_pos tau\<rparr>, param_store h n tau) \<and>
    next_addr h + 4 \<le> n \<and> printed (initial_stats fmt (next_addr h)) b"
proof -
  let ?i = "initial_stats fmt (next_addr h)" let ?a = "next_addr h" let ?m = "main_locals h"
  have ok: "store_ok ?m" "\<forall>n. malloc_ok ?m n" "next_addr ?m = ?a + 4"
    using main_locals_ok [OF assms(2)] assms(1) by (simp_all add: main_locals_def)
  obtain b n where b: "(if suppress_printout ?i then Some (?i, ?m) else print_task_params env tau (?i, ?m)) =
      Some (b, ?m\<lparr>next_addr := n\<rparr>)" "printed ?i b" "?a + 4 \<le> n"
  proof (cases "suppress_printout ?i")
    case True
    then show ?thesis using that [of ?i "?a + 4"] ok by (simp add: main_locals_def)
  next
    case False
    then show ?thesis using that print_task_params_ok [OF ok(2,1) assms(3) False, of tau] ok(3) by fastforce
  qed
  have at: "at_period b = Some ?a" "at_deadline b = Some (?a + 1)" "at_t_0 b = Some (?a + 2)" "at_offset b = Some (?a + 3)"
    using printed_fields(1-4) [OF b(2)] by simp_all
  define h0 where "h0 = ?m\<lparr>next_addr := n\<rparr>"
  have h0: "store_ok h0" "\<forall>n. malloc_ok h0 n" "cells h0 ?a = Some utility_time_init" "cells h0 (?a + 1) = Some utility_time_init"
    "cells h0 (?a + 2) = Some utility_time_init" "cells h0 (?a + 3) = Some utility_time_init" "next_addr h0 = n"
    using store_ok_next [OF ok(1), of n] ok b(3) by (simp_all add: h0_def main_locals_def)
  have c: "copy_to (copy_member u) (Some d) k = Some (k\<lparr>cells := (cells k)(d \<mapsto> kept u), next_addr := Suc (next_addr k)\<rparr>)"
    if "\<forall>n. malloc_ok k n" "store_ok k" "cells k d = Some utility_time_init" for u d k
    using copy_to_eq [of k d utility_time_init u] that by (simp add: kept_def)
  have keep: "store_ok (k\<lparr>cells := (cells k)(d \<mapsto> kept u), next_addr := Suc (next_addr k)\<rparr>)"
    if "store_ok k" "d < next_addr k" for k d u
    using that by (auto simp: store_ok_def)
  define h1 where "h1 = h0\<lparr>cells := (cells h0)(?a \<mapsto> kept (period tau)), next_addr := Suc (next_addr h0)\<rparr>"
  define h2 where "h2 = h1\<lparr>cells := (cells h1)(?a + 1 \<mapsto> kept (tk_deadline tau)), next_addr := Suc (next_addr h1)\<rparr>"
  define h3 where "h3 = h2\<lparr>cells := (cells h2)(?a + 2 \<mapsto> kept (t_0 tau)), next_addr := Suc (next_addr h2)\<rparr>"
  define h4 where "h4 = h3\<lparr>cells := (cells h3)(?a + 3 \<mapsto> kept (tk_offset tau)), next_addr := Suc (next_addr h3)\<rparr>"
  have s1: "store_ok h1" unfolding h1_def by (rule keep [OF h0(1)]) (use h0(7) b(3) in simp)
  have s2: "store_ok h2" unfolding h2_def by (rule keep [OF s1]) (use h0(7) b(3) in \<open>simp add: h1_def\<close>)
  have s3: "store_ok h3" unfolding h3_def by (rule keep [OF s2]) (use h0(7) b(3) in \<open>simp add: h1_def h2_def\<close>)
  have e: "copy_to (copy_member (period tau)) (Some ?a) h0 = Some h1"
    "copy_to (copy_member (tk_deadline tau)) (Some (?a + 1)) h1 = Some h2"
    "copy_to (copy_member (t_0 tau)) (Some (?a + 2)) h2 = Some h3"
    "copy_to (copy_member (tk_offset tau)) (Some (?a + 3)) h3 = Some h4"
    using c [of h0 ?a] c [of h1 "?a + 1"] c [of h2 "?a + 2"] c [of h3 "?a + 3"] h0 s1 s2 s3
    by (simp_all add: h1_def h2_def h3_def h4_def)
  have "h4 = param_store h (n + 4) tau"
    by (simp add: h4_def h3_def h2_def h1_def h0_def param_store_def main_locals_def fun_upd_twist)
  then have "print_task_stats env tau (?i, ?m) = Some (b\<lparr>nth_job := oldest_job_pos tau\<rparr>, param_store h (n + 4) tau)"
    using b(1) e at unfolding print_task_stats_def task_accessors h0_def
    by (simp add: task_statistics_oldest_job_pos_def split del: if_split)
  then show ?thesis using b by fastforce
qed

section \<open>The jobs of a task\<close>

text \<open>What the jobs at consecutive positions amount to: whether each is late, and its response time.\<close>

fun job_verdicts :: "task \<Rightarrow> u64 \<Rightarrow> job_statistics list \<Rightarrow> (bool \<times> u64) list" where
  "job_verdicts tau pos [] = []"
| "job_verdicts tau pos (x # xs) =
    (job_late (period tau) (tk_deadline tau) (t_0 tau) (tk_offset tau) (periods pos) x,
     job_response (period tau) (t_0 tau) (tk_offset tau) (periods pos) x) # job_verdicts tau (pos + 1) xs"

text \<open>The times stay in range.\<close>

fun jobs_fit :: "task \<Rightarrow> u64 \<Rightarrow> job_statistics list \<Rightarrow> bool" where
  "jobs_fit tau pos [] \<longleftrightarrow> True"
| "jobs_fit tau pos (x # xs) \<longleftrightarrow> time_ok (dynobj (t_end x)) \<and>
     job_release (period tau) (tk_offset tau) (periods pos) + ns_of (tk_deadline tau) < time_limit \<and>
     jobs_fit tau (pos + 1) xs"

definition good_params :: "task \<Rightarrow> bool" where
  "good_params tau \<longleftrightarrow> time_ok (period tau) \<and> time_ok (tk_deadline tau) \<and> time_ok (t_0 tau) \<and> time_ok (tk_offset tau)"

definition verdict :: "bool \<times> u64 \<Rightarrow> task_stats \<Rightarrow> task_stats" where
  "verdict v prms = prms\<lparr>late_count := late_count prms + (if fst v then 1 else 0),
     response_times := insert_response_time True (snd v) (response_times prms),
     nth_job := nth_job prms + 1, total_job_count := total_job_count prms + 1\<rparr>"

lemma printed_verdict: "printed a b \<Longrightarrow> printed (verdict v a) (verdict v b)"
  unfolding printed_def by (cases a; cases b) (auto simp: verdict_def)

lemma printed_verdicts: "printed a b \<Longrightarrow> printed (fold verdict vs a) (fold verdict vs b)"
  by (induction vs arbitrary: a b) (simp_all add: printed_verdict)

lemma verdict_nth_job [simp]: "nth_job (verdict v prms) = nth_job prms + 1"
  by (simp add: verdict_def)

lemma kept_job_release: "job_release (kept p) (kept f) = job_release p f"
  by (simp add: job_release_def fun_eq_iff)

lemma kept_job: "job_late (kept p) (kept d) (kept t) (kept f) = job_late p d t f" "job_response (kept p) (kept t) (kept f) = job_response p t f"
  by (simp_all add: job_late_def job_response_def job_finish_def kept_job_release fun_eq_iff)

text \<open>The members of the shared structure, in a store that has the parameters of the task.\<close>

definition at_params :: "nat \<Rightarrow> task_stats \<Rightarrow> bool" where
  "at_params a prms \<longleftrightarrow> at_period prms = Some a \<and> at_deadline prms = Some (a + 1) \<and> at_t_0 prms = Some (a + 2) \<and>
     at_offset prms = Some (a + 3)"

lemma at_params_printed: "printed a b \<Longrightarrow> at_params n b = at_params n a"
  by (simp add: at_params_def printed_fields)

lemma at_params_simps [simp]: "at_params n (verdict v prms) = at_params n prms" "at_params n (initial_stats fmt n)"
  "at_params n (prms\<lparr>nth_job := k\<rparr>) = at_params n prms"
  by (simp_all add: at_params_def verdict_def)

lemma members_param_store:
  assumes "store_ok h" "next_addr h + 4 \<le> n" "at_params (next_addr h) prms"
  shows "members (param_store h n tau) prms (kept (period tau)) (kept (tk_deadline tau)) (kept (t_0 tau)) (kept (tk_offset tau))"
  unfolding members_def using param_store_ok [OF assms(1,2), of tau] assms(3)
  by (simp add: at_params_def) (simp add: param_store_def)

lemma one_job:
  assumes "\<forall>n. malloc_ok h n" "store_ok h" "\<forall>k. string_ok env k" "\<forall>k. node_ok env k" "good_params tau"
    and "next_addr h + 4 \<le> n" "at_params (next_addr h) prms" "jobs_fit tau (nth_job prms) (x # xs)"
  shows "\<exists>b. print_job_stats env x (prms, param_store h n tau) = Some (b, param_store h (n + 11) tau) \<and>
    printed (verdict (hd (job_verdicts tau (nth_job prms) (x # xs))) prms) b"
proof -
  let ?h = "param_store h n tau"
  note m = members_param_store [OF assms(2,6,7), of tau]
  have ok: "all_ok ?h 11" using assms(1) by (simp add: all_ok_def param_store_def)
  have t: "is_late d fin = job_late (period tau) (tk_deadline tau) (t_0 tau) (tk_offset tau) (periods (nth_job prms)) x"
    "response_ns resp = job_response (period tau) (t_0 tau) (tk_offset tau) (periods (nth_job prms)) x"
    if "rel = t_rel (kept (period tau)) (kept (tk_offset tau)) (nth_job prms)" "fin = time_op utility_time_sub (t_end x) (ut_t (kept (t_0 tau)))"
      "d = time_op utility_time_add rel (ut_t (kept (tk_deadline tau)))" "resp = time_op utility_time_sub fin rel" for rel fin d resp
    using job_times [OF _ _ _ _ _ _ that] assms(5,8) by (simp_all add: good_params_def kept_job kept_job_release)
  have nx: "?h\<lparr>next_addr := next_addr ?h + 11\<rparr> = param_store h (n + 11) tau" by (simp add: param_store_def)
  show ?thesis
    using print_job_stats_ok [OF m ok assms(3) refl refl refl refl, of x] assms(4) t [OF refl refl refl refl] unfolding nx
    by (simp add: counted_def verdict_def)
qed

lemma all_jobs:
  assumes "\<forall>n. malloc_ok h n" "store_ok h" "\<forall>k. string_ok env k" "\<forall>k. node_ok env k" "good_params tau"
    and "next_addr h + 4 \<le> n" "at_params (next_addr h) prms" "jobs_fit tau (nth_job prms) xs"
  shows "\<exists>b n1. fold (\<lambda>x a. snd (run_callback (print_job_stats env) x a)) xs (Some (prms, param_store h n tau)) =
      Some (b, param_store h n1 tau) \<and> printed (fold verdict (job_verdicts tau (nth_job prms) xs) prms) b"
  using assms(6-8)
proof (induction xs arbitrary: n prms)
  case Nil
  then show ?case by auto
next
  case (Cons x xs)
  from one_job [OF assms(1-5) Cons.prems] obtain b where
    b: "print_job_stats env x (prms, param_store h n tau) = Some (b, param_store h (n + 11) tau)"
    "printed (verdict (hd (job_verdicts tau (nth_job prms) (x # xs))) prms) b" by blast
  let ?v = "hd (job_verdicts tau (nth_job prms) (x # xs))"
  have k: "nth_job b = nth_job prms + 1" using printed_fields(5) [OF b(2)] by simp
  have "at_params (next_addr h) b" using at_params_printed [OF b(2)] Cons.prems(2) by simp
  moreover have "jobs_fit tau (nth_job b) xs" using Cons.prems(3) k by simp
  ultimately obtain c n1 where
    c: "fold (\<lambda>x a. snd (run_callback (print_job_stats env) x a)) xs (Some (b, param_store h (n + 11) tau)) =
      Some (c, param_store h n1 tau)" "printed (fold verdict (job_verdicts tau (nth_job b) xs) b) c"
    using Cons.IH [of "n + 11" b] Cons.prems(1) by auto
  have "printed (fold verdict (job_verdicts tau (nth_job prms) (x # xs)) prms) c"
    using printed_trans [OF printed_verdicts [OF b(2), of "job_verdicts tau (nth_job b) xs"] c(2)] k by simp
  then show ?case using b(1) c(1) by (auto simp: run_callback_def)
qed

lemma verdicts_count:
  "total_job_count (fold verdict vs prms) = total_job_count prms + of_nat (length vs)"
  "late_count (fold verdict vs prms) = late_count prms + of_nat (length (filter fst vs))"
  "response_times (fold verdict vs prms) = fold (insert_response_time True) (map snd vs) (response_times prms)"
  "report (fold verdict vs prms) = report prms" "suppress_printout (fold verdict vs prms) = suppress_printout prms"
  by (induction vs arbitrary: prms) (simp_all add: verdict_def algebra_simps)

lemma length_job_verdicts [simp]: "length (job_verdicts tau pos xs) = length xs"
  by (induction xs arbitrary: pos) simp_all

section \<open>The program\<close>

text \<open>Claim C7. The whole program, on a statistics file as the library writes it for a task with its
  logged jobs: when no allocation fails it exits with success, having counted every job, those
  whose finish is after their release plus relative deadline as late, and recorded all response
  times; each job is judged by the release that its position in the file gives. With \<^verbatim>\<open>-c\<close> nothing
  is printed but the cumulative distribution of these response times. The times
  of the program are those of the file although the objects that hold them are freed.\<close>

theorem statistics_report:
  assumes "params_small tau" "good_params tau" "\<not> disable_job_statistics tau"
    and "\<forall>n. malloc_ok h n" "store_ok h" "\<forall>k. string_ok env k" "\<forall>k. node_ok env k"
    and "scan_options NO_CDF opts = Run fmt" "fs_bin fs path = Some (stream_of (task_file bo tau xs))"
    and "jobs_fit tau (oldest_job_pos tau) xs"
  defines "vs \<equiv> job_verdicts tau (oldest_job_pos tau) xs"
  shows "\<exists>prms. read_task_stats_main bo junk junk_task env fs opts (Some path) h = Some (0, Some prms) \<and>
    total_job_count prms = of_nat (length xs) \<and> late_count prms = of_nat (length (filter fst vs)) \<and>
    response_times prms = fold (insert_response_time True) (map snd vs) [] \<and>
    (fmt \<noteq> NO_CDF \<longrightarrow>
      report prms = print_response_time_cdf (fold (insert_response_time True) (map snd vs) []) (of_nat (length xs)) fmt)"
proof -
  let ?i = "initial_stats fmt (next_addr h)" let ?pos = "oldest_job_pos tau"
  obtain r s1 where r: "task_statistics_read bo junk junk_task (string_ok env) (stream_of (task_file bo tau xs))
      (run_callback (print_task_stats env)) (run_callback (print_job_stats env)) (Some (?i, main_locals h)) =
      Some (0, s1, fold (\<lambda>x a. snd (run_callback (print_job_stats env) x a)) xs
        (snd (run_callback (print_task_stats env) r (Some (?i, main_locals h)))))"
    "same_params r tau" "oldest_job_pos r = ?pos"
    using read_task_file [OF assms(1,3), of "string_ok env" "run_callback (print_task_stats env)"
        "run_callback (print_job_stats env)" bo junk junk_task xs "Some (?i, main_locals h)"] assms(6)
    by (auto simp: run_callback_def)
  obtain b n where b: "print_task_stats env r (?i, main_locals h) = Some (b\<lparr>nth_job := ?pos\<rparr>, param_store h n r)"
    "next_addr h + 4 \<le> n" "printed ?i b"
    using print_task_stats_ok [OF assms(4-6), of r fmt] r(3) by auto
  have k: "ns_of (period r) = ns_of (period tau)" "time_ok (period r) = time_ok (period tau)"
    "ns_of (tk_deadline r) = ns_of (tk_deadline tau)" "time_ok (tk_deadline r) = time_ok (tk_deadline tau)"
    "ns_of (t_0 r) = ns_of (t_0 tau)" "time_ok (t_0 r) = time_ok (t_0 tau)"
    "ns_of (tk_offset r) = ns_of (tk_offset tau)" "time_ok (tk_offset r) = time_ok (tk_offset tau)"
    using r(2) t_congs [of "period r" "period tau"] t_congs [of "tk_deadline r" "tk_deadline tau"] t_congs [of "t_0 r" "t_0 tau"]
      t_congs [of "tk_offset r" "tk_offset tau"] by (simp_all add: same_params_def)
  have j: "jobs_fit r pos ys = jobs_fit tau pos ys \<and> job_verdicts r pos ys = job_verdicts tau pos ys" for pos ys
    by (induction ys arbitrary: pos) (simp_all add: job_late_def job_response_def job_finish_def job_release_def k)
  let ?b = "b\<lparr>nth_job := ?pos\<rparr>"
  have g: "good_params r" using assms(2) by (simp add: good_params_def k)
  have "at_params (next_addr h) ?b" using at_params_printed [OF b(3)] by simp
  then obtain c n1 where c: "fold (\<lambda>x a. snd (run_callback (print_job_stats env) x a)) xs (Some (?b, param_store h n r)) =
      Some (c, param_store h n1 r)" "printed (fold verdict vs ?b) c"
    using all_jobs [OF assms(4-7) g b(2), of ?b xs] assms(10) j by (auto simp: vs_def)
  have f: "total_job_count c = of_nat (length xs)" "late_count c = of_nat (length (filter fst vs))"
    "response_times c = fold (insert_response_time True) (map snd vs) []"
    using printed_fields(6,7,9) [OF c(2)] printed_fields(6,7,9) [OF b(3)] by (simp_all add: verdicts_count vs_def)
  have rep: "report c = []" if "fmt \<noteq> NO_CDF"
    using c(2) b(3) that by (auto simp: printed_def verdicts_count)
  have "read_task_stats_main bo junk junk_task env fs opts (Some path) h = Some (0, Some (c\<lparr>report := report c @
      print_response_time_cdf (response_times c) (ucast (total_job_count c)) fmt\<rparr>))"
    using r(1) b(1) c(1) assms(8,9)
    by (simp add: read_task_stats_main_def utility_file_open_for_reading_bin_def run_callback_def)
  moreover have "ucast (of_nat m :: u64) = (of_nat m :: u32)" for m
    by transfer (simp add: take_bit_of_nat)
  ultimately show ?thesis using f rep by auto
qed

definition sample_task :: "task \<Rightarrow> task" where
  "sample_task tau = tau\<lparr>tk_name := ''tau'', wcet := ut 0 5, period := ut 1 0, tk_deadline := ut 0 500000000,
     t_0 := ut 10 0, tk_offset := ut 0 0, disable_job_statistics := False, tk_finish_to_start_overhead := ut 0 7,
     tk_job_statistics_overhead := ut 0 9, oldest_job_pos := 1, lost_job_count := 0, tk_write_count := 2\<rparr>"

definition sample_jobs :: "job_statistics list" where
  "sample_jobs = [\<lparr>t_begin = \<lparr>tv_sec = 10, tv_nsec = 0\<rparr>, t_end = \<lparr>tv_sec = 10, tv_nsec = 200000000\<rparr>\<rparr>,
     \<lparr>t_begin = \<lparr>tv_sec = 11, tv_nsec = 0\<rparr>, t_end = \<lparr>tv_sec = 11, tv_nsec = 600000000\<rparr>\<rparr>]"

theorem statistics_report_witness:
  "\<forall>tau junk. \<exists>prms. read_task_stats_main CPU_LITTLE_ENDIAN junk tau \<lparr>string_ok = \<lambda>_. True, node_ok = \<lambda>_. True\<rparr>
      \<lparr>fs_text = \<lambda>_. None, fs_bin = (\<lambda>_. Some (stream_of (task_file CPU_LITTLE_ENDIAN (sample_task tau) sample_jobs))),
       fs_create = \<lambda>_. None\<rparr> [(CHR ''c'', ''Matlab'')] (Some ''log'') sample_store = Some (0, Some prms) \<and>
    total_job_count prms = 2 \<and> late_count prms = 1 \<and>
    response_times prms = [\<lparr>job_count = 1, response_time = 200000\<rparr>, \<lparr>job_count = 1, response_time = 600000\<rparr>]"
proof (intro allI)
  fix tau junk
  let ?t = "sample_task tau"
  have p: "params_small ?t" "good_params ?t" "\<not> disable_job_statistics ?t" "oldest_job_pos ?t = 1"
    by (simp_all add: params_small_def good_params_def sample_task_def small_time_def ut_def time_ok_def dynobj_def set_t_def utility_time_init_def)
  have n: "ns_of (period ?t) = 1000000000" "ns_of (tk_deadline ?t) = 500000000" "ns_of (t_0 ?t) = 10000000000" "ns_of (tk_offset ?t) = 0"
    by (simp_all add: sample_task_def ut_def ns_of_def dynobj_def set_t_def utility_time_init_def)
  have e: "ns_of (dynobj \<lparr>tv_sec = 10, tv_nsec = 200000000\<rparr>) = 10200000000" "time_ok (dynobj \<lparr>tv_sec = 10, tv_nsec = 200000000\<rparr>)"
    "ns_of (dynobj \<lparr>tv_sec = 11, tv_nsec = 600000000\<rparr>) = 11600000000" "time_ok (dynobj \<lparr>tv_sec = 11, tv_nsec = 600000000\<rparr>)"
    by (simp_all add: ns_of_def time_ok_def dynobj_def)
  have q: "periods 1 = 0" "periods 2 = 1" by (simp_all add: periods_def)
  have f: "jobs_fit ?t 1 sample_jobs"
    by (simp add: sample_jobs_def job_release_def n e q time_limit_def)
  have v: "job_verdicts ?t 1 sample_jobs = [(False, 200000000), (True, 600000000)]"
    by (simp add: sample_jobs_def job_late_def job_response_def job_finish_def job_release_def n e q)
  have o: "scan_options NO_CDF [(CHR ''c'', ''Matlab'')] = Run MATLAB"
    by code_simp
  have w: "fold (insert_response_time True) [200000000, 600000000] [] =
      [\<lparr>job_count = 1, response_time = 200000\<rparr>, \<lparr>job_count = 1, response_time = 600000\<rparr>]"
    by (simp add: insert_response_time_def to_us_def new_response_time_list_def)
  show "\<exists>prms. read_task_stats_main CPU_LITTLE_ENDIAN junk tau \<lparr>string_ok = \<lambda>_. True, node_ok = \<lambda>_. True\<rparr>
      \<lparr>fs_text = \<lambda>_. None, fs_bin = (\<lambda>_. Some (stream_of (task_file CPU_LITTLE_ENDIAN (sample_task tau) sample_jobs))),
       fs_create = \<lambda>_. None\<rparr> [(CHR ''c'', ''Matlab'')] (Some ''log'') sample_store = Some (0, Some prms) \<and>
    total_job_count prms = 2 \<and> late_count prms = 1 \<and>
    response_times prms = [\<lparr>job_count = 1, response_time = 200000\<rparr>, \<lparr>job_count = 1, response_time = 600000\<rparr>]"
    using statistics_report [OF p(1,2,3) _ _ _ _ o, of sample_store "\<lparr>string_ok = \<lambda>_. True, node_ok = \<lambda>_. True\<rparr>"
        "\<lparr>fs_text = \<lambda>_. None, fs_bin = (\<lambda>_. Some (stream_of (task_file CPU_LITTLE_ENDIAN (sample_task tau) sample_jobs))),
       fs_create = \<lambda>_. None\<rparr>" "''log''" CPU_LITTLE_ENDIAN sample_jobs junk tau] f v w p(4)
    by (auto simp: sample_jobs_def)
qed

end
