(* ===== verification/Task_Stop.thy ===== *)
theory Task_Stop
  imports Task_Run
begin

text \<open>
  Stopping a task (\<^verbatim>\<open>task_stop\<close> of \<^verbatim>\<open>task.c\<close>): two threads, the one that runs \<^verbatim>\<open>task_start\<close> and the
  one that calls \<^verbatim>\<open>task_stop\<close>, over the members \<^verbatim>\<open>stopped\<close> and \<^verbatim>\<open>inside_aperiodic_release\<close> of the task.
  Each thread is a program counter over the statements that touch shared state, a step of either
  is atomic, and the interleavings are the runs of an inductive sys_step relation.

  Threads are cancelled as POSIX does by default: a request stays pending until the thread comes to
  a cancellation point. Whether the program of the task has one, and whether the release function
  always reaches one before it returns, is a parameter. Cancellation in the clean-up handlers
  themselves is not modelled.
\<close>

section \<open>The two threads\<close>

text \<open>A job cut at its program.\<close>

definition job_begin :: "'w task_env \<Rightarrow> jobstats_ringbuf option \<Rightarrow> 'w \<Rightarrow>
    (nat option \<times> jobstats_ringbuf option \<times> int \<times> 'w) option" where
  "job_begin env rbo w =
    (case rbo of
       None \<Rightarrow> Some (None, None, 0, w)
     | Some rb \<Rightarrow>
        let (slot, rb1) = claim_slot rb; (b, w1) = read_clock env w in do {
          rb2 \<leftarrow> (case b of Some t \<Rightarrow> store_slot slot (\<lambda>s. s\<lparr>t_begin := t\<rparr>) rb1 | None \<Rightarrow> Some rb1);
          Some (slot, Some rb2, if b = None then 1 else 0, w1) })"

definition job_end :: "'w task_env \<Rightarrow> nat option \<Rightarrow> jobstats_ringbuf option \<Rightarrow> 'w \<Rightarrow>
    (jobstats_ringbuf option \<times> int \<times> 'w) option" where
  "job_end env slot rbo w =
    (case rbo of
       None \<Rightarrow> Some (None, 0, run_program env w)
     | Some rb \<Rightarrow>
        let (e, w1) = read_clock env (run_program env w) in do {
          rb1 \<leftarrow> (case e of Some t \<Rightarrow> store_slot slot (\<lambda>s. s\<lparr>t_end := t\<rparr>) rb | None \<Rightarrow> Some rb);
          Some (Some rb1, if e = None then 1 else 0, w1) })"

datatype t_pc = T_top | T_wait | T_returned | T_job | T_program | T_check | T_handlers | T_ended

datatype s_pc = S_begin | S_test | S_sleep | S_cancel | S_done

record 'w stop_state =
  t_pc :: t_pc
  s_pc :: s_pc
  st_task :: task
  st_world :: 'w
  st_rc :: int
  st_slot :: "nat option"
  st_job_rc :: int
  st_log :: "u8 list option"
  stop_flag :: bool
  cancelled :: bool

text \<open>
  One step of the thread of the task. The flag \<^verbatim>\<open>stopped\<close> is set by the other thread or by the
  program itself. The thread has ended once the handlers have run.
\<close>

definition thread_step :: "byte_order \<Rightarrow> 'w task_env \<Rightarrow> 'w stop_state \<Rightarrow> 'w stop_state option" where
  "thread_step bo env s = (let tau = st_task s; w = st_world s in
    (case t_pc s of
       T_top \<Rightarrow>
        if aperiodic tau then Some (s\<lparr>st_task := tau\<lparr>inside_aperiodic_release := True\<rparr>, t_pc := T_wait\<rparr>)
        else let (e, w1) = sleep_until env (next_release_time tau) w
             in Some (s\<lparr>st_rc := st_rc s - e, st_world := w1, t_pc := T_job\<rparr>)
     | T_wait \<Rightarrow> Some (s\<lparr>st_world := aperiodic_release env w, t_pc := T_returned\<rparr>)
     | T_returned \<Rightarrow> Some (s\<lparr>st_task := tau\<lparr>inside_aperiodic_release := False\<rparr>, t_pc := T_job\<rparr>)
     | T_job \<Rightarrow> do {
        (slot, rb, j, w1) \<leftarrow> job_begin env (stats_ringbuf tau) w;
        Some (s\<lparr>st_task := tau\<lparr>stats_ringbuf := rb\<rparr>, st_slot := slot, st_job_rc := j, st_world := w1, t_pc := T_program\<rparr>) }
     | T_program \<Rightarrow> do {
        (rb, j, w1) \<leftarrow> job_end env (st_slot s) (stats_ringbuf tau) w;
        let tau1 = tau\<lparr>stats_ringbuf := rb\<rparr>
        in Some (s\<lparr>st_task := (if aperiodic tau then tau1 else advance_release tau1),
             st_rc := st_rc s - (st_job_rc s + j), st_world := w1, t_pc := T_check\<rparr>) }
     | T_check \<Rightarrow>
        Some (s\<lparr>t_pc := (if st_rc s = 0 \<and> \<not> (is_stopped env w \<or> stop_flag s) then T_top else T_handlers)\<rparr>)
     | T_handlers \<Rightarrow> do {
        tau1 \<leftarrow> flush_stats_ringbuf bo tau;
        (tau2, log) \<leftarrow> close_logging_file tau1;
        Some (s\<lparr>st_task := tau2, st_log := log, st_rc := st_rc s - fail_to_close_stats_log tau2, t_pc := T_ended\<rparr>) }
     | T_ended \<Rightarrow> None))"

text \<open>
  One step of \<^verbatim>\<open>task_stop\<close>; the argument is whether \<^verbatim>\<open>clock_nanosleep\<close> succeeds. A request to cancel a
  thread that has ended has no effect.
\<close>

definition stop_step :: "bool \<Rightarrow> 'w stop_state \<Rightarrow> 'w stop_state option" where
  "stop_step sleep_ok s =
    (case s_pc s of
       S_begin \<Rightarrow> Some (s\<lparr>stop_flag := True, s_pc := (if aperiodic (st_task s) then S_test else S_done)\<rparr>)
     | S_test \<Rightarrow> Some (s\<lparr>s_pc := (if \<not> inside_aperiodic_release (st_task s) then S_sleep else S_cancel)\<rparr>)
     | S_sleep \<Rightarrow> Some (s\<lparr>s_pc := (if sleep_ok then S_test else S_cancel)\<rparr>)
     | S_cancel \<Rightarrow> Some (s\<lparr>cancelled := (cancelled s \<or> t_pc s \<noteq> T_ended), s_pc := S_done\<rparr>)
     | S_done \<Rightarrow> None)"

text \<open>Where a pending request is acted upon, and whether the release function always does so.\<close>

record cancel_env =
  program_cancels :: bool
  release_prompt :: bool

definition cancel_point :: "cancel_env \<Rightarrow> t_pc \<Rightarrow> bool" where
  "cancel_point ce pc \<longleftrightarrow> pc = T_wait \<or> pc = T_program \<and> program_cancels ce"

datatype action = Thread t_pc | Killed t_pc | Stopper s_pc t_pc bool

text \<open>When the thread is killed, what it had done to the world at that point is arbitrary.\<close>

inductive sys_step :: "byte_order \<Rightarrow> 'w task_env \<Rightarrow> cancel_env \<Rightarrow> 'w stop_state \<Rightarrow> action \<Rightarrow> 'w stop_state \<Rightarrow> bool"
  for bo env ce where
  thread: "thread_step bo env s = Some s' \<Longrightarrow> \<not> (release_prompt ce \<and> cancelled s \<and> t_pc s = T_wait) \<Longrightarrow>
    sys_step bo env ce s (Thread (t_pc s)) s'"
| killed: "cancelled s \<Longrightarrow> cancel_point ce (t_pc s) \<Longrightarrow>
    sys_step bo env ce s (Killed (t_pc s)) (s\<lparr>t_pc := T_handlers, st_world := w\<rparr>)"
| stopper: "stop_step ok s = Some s' \<Longrightarrow> sys_step bo env ce s (Stopper (s_pc s) (t_pc s) ok) s'"

inductive sys_run :: "byte_order \<Rightarrow> 'w task_env \<Rightarrow> cancel_env \<Rightarrow> 'w stop_state \<Rightarrow> action list \<Rightarrow> 'w stop_state \<Rightarrow> bool"
  for bo env ce where
  run_nil [intro]: "sys_run bo env ce s [] s"
| run_step: "sys_step bo env ce s a s1 \<Longrightarrow> sys_run bo env ce s1 as s' \<Longrightarrow> sys_run bo env ce s (a # as) s'"

inductive_cases sys_step_cases: "sys_step bo env ce s a s'"
inductive_simps sys_run_simps [simp]: "sys_run bo env ce s [] s'" "sys_run bo env ce s (a # as) s'"
inductive_simps sys_step_simps: "sys_step bo env ce s (Thread p) s'" "sys_step bo env ce s (Killed p) s'" "sys_step bo env ce s (Stopper q p ok) s'"

definition stop_init :: "task \<Rightarrow> 'w \<Rightarrow> 'w stop_state" where
  "stop_init tau w = \<lparr>t_pc = T_top, s_pc = S_begin, st_task = tau, st_world = w, st_rc = 0, st_slot = None,
     st_job_rc = 0, st_log = None, stop_flag = False, cancelled = False\<rparr>"

section \<open>Steps\<close>

text \<open>An action of the thread of the task; it is the only one that moves its program counter.\<close>

fun of_thread :: "action \<Rightarrow> bool" where
  "of_thread (Thread _) = True"
| "of_thread (Killed _) = True"
| "of_thread (Stopper _ _ _) = False"

text \<open>The steps at each point of the two threads.\<close>

lemma thread_at:
  "t_pc s = T_top \<Longrightarrow> aperiodic (st_task s) \<Longrightarrow> thread_step bo env s =
     Some (s\<lparr>st_task := (st_task s)\<lparr>inside_aperiodic_release := True\<rparr>, t_pc := T_wait\<rparr>)"
  "t_pc s = T_top \<Longrightarrow> \<not> aperiodic (st_task s) \<Longrightarrow> thread_step bo env s =
     (case sleep_until env (next_release_time (st_task s)) (st_world s) of (e, w1) \<Rightarrow>
       Some (s\<lparr>st_rc := st_rc s - e, st_world := w1, t_pc := T_job\<rparr>))"
  "t_pc s = T_wait \<Longrightarrow> thread_step bo env s = Some (s\<lparr>st_world := aperiodic_release env (st_world s), t_pc := T_returned\<rparr>)"
  "t_pc s = T_returned \<Longrightarrow> thread_step bo env s =
     Some (s\<lparr>st_task := (st_task s)\<lparr>inside_aperiodic_release := False\<rparr>, t_pc := T_job\<rparr>)"
  "t_pc s = T_job \<Longrightarrow> job_begin env (stats_ringbuf (st_task s)) (st_world s) = Some (slot, rb, j, w1) \<Longrightarrow> thread_step bo env s =
     Some (s\<lparr>st_task := (st_task s)\<lparr>stats_ringbuf := rb\<rparr>, st_slot := slot, st_job_rc := j, st_world := w1, t_pc := T_program\<rparr>)"
  "t_pc s = T_program \<Longrightarrow> job_end env (st_slot s) (stats_ringbuf (st_task s)) (st_world s) = Some (rb, j, w1) \<Longrightarrow> thread_step bo env s =
     (let tau1 = (st_task s)\<lparr>stats_ringbuf := rb\<rparr> in
      Some (s\<lparr>st_task := (if aperiodic (st_task s) then tau1 else advance_release tau1),
             st_rc := st_rc s - (st_job_rc s + j), st_world := w1, t_pc := T_check\<rparr>))"
  "t_pc s = T_check \<Longrightarrow> thread_step bo env s =
     Some (s\<lparr>t_pc := (if st_rc s = 0 \<and> \<not> (is_stopped env (st_world s) \<or> stop_flag s) then T_top else T_handlers)\<rparr>)"
  "t_pc s = T_handlers \<Longrightarrow> flush_stats_ringbuf bo (st_task s) = Some tau1 \<Longrightarrow> close_logging_file tau1 = Some (tau2, log) \<Longrightarrow>
     thread_step bo env s = Some (s\<lparr>st_task := tau2, st_log := log, st_rc := st_rc s - fail_to_close_stats_log tau2, t_pc := T_ended\<rparr>)"
  by (simp_all add: thread_step_def Let_def)

lemma stop_at:
  "s_pc s = S_begin \<Longrightarrow> stop_step ok s = Some (s\<lparr>stop_flag := True, s_pc := (if aperiodic (st_task s) then S_test else S_done)\<rparr>)"
  "s_pc s = S_test \<Longrightarrow> stop_step ok s = Some (s\<lparr>s_pc := (if inside_aperiodic_release (st_task s) then S_cancel else S_sleep)\<rparr>)"
  "s_pc s = S_sleep \<Longrightarrow> stop_step ok s = Some (s\<lparr>s_pc := (if ok then S_test else S_cancel)\<rparr>)"
  "s_pc s = S_cancel \<Longrightarrow> stop_step ok s = Some (s\<lparr>cancelled := (cancelled s \<or> t_pc s \<noteq> T_ended), s_pc := S_done\<rparr>)"
  by (simp_all add: stop_step_def)

lemmas sys_at = sys_step_simps thread_at stop_at

lemma flush_keeps: "flush_stats_ringbuf bo tau = Some tau1 \<Longrightarrow>
   inside_aperiodic_release tau1 = inside_aperiodic_release tau \<and> aperiodic tau1 = aperiodic tau"
  by (auto simp: flush_stats_ringbuf_def Let_def split: option.splits if_splits log_file.splits prod.splits bind_splits)

lemma close_keeps: "close_logging_file tau = Some (tau1, log) \<Longrightarrow>
   inside_aperiodic_release tau1 = inside_aperiodic_release tau \<and> aperiodic tau1 = aperiodic tau"
  by (auto simp: close_logging_file_def split: if_splits log_file.splits)

lemma advance_keeps [simp]: "inside_aperiodic_release (advance_release tau) = inside_aperiodic_release tau"
  "aperiodic (advance_release tau) = aperiodic tau" "stats_ringbuf (advance_release tau) = stats_ringbuf tau"
  by (simp_all add: advance_release_def Let_def)

text \<open>Where a step of the thread leads, and what it leaves alone.\<close>

lemma thread_step_frame:
  assumes "thread_step bo env s = Some s'"
  shows "s_pc s' = s_pc s" "stop_flag s' = stop_flag s" "cancelled s' = cancelled s" "aperiodic (st_task s') = aperiodic (st_task s)"
    "t_pc s \<notin> {T_top, T_returned} \<Longrightarrow> inside_aperiodic_release (st_task s') = inside_aperiodic_release (st_task s)"
    "t_pc s' = (case t_pc s of T_top \<Rightarrow> if aperiodic (st_task s) then T_wait else T_job | T_wait \<Rightarrow> T_returned | T_returned \<Rightarrow> T_job
       | T_job \<Rightarrow> T_program | T_program \<Rightarrow> T_check
       | T_check \<Rightarrow> if st_rc s = 0 \<and> \<not> (is_stopped env (st_world s) \<or> stop_flag s) then T_top else T_handlers | _ \<Rightarrow> T_ended)"
  using assms flush_keeps close_keeps
  by (auto simp: thread_step_def Let_def split: t_pc.splits if_splits prod.splits bind_splits)

lemma stop_step_frame:
  assumes "stop_step ok s = Some s'"
  shows "t_pc s' = t_pc s" "st_task s' = st_task s" "stop_flag s \<Longrightarrow> stop_flag s'" "s_pc s \<noteq> S_cancel \<Longrightarrow> cancelled s' = cancelled s"
  using assms by (auto simp: stop_step_def split: s_pc.splits if_splits)

lemma sys_step_cases_full [consumes 1, case_names thread killed stopper]:
  assumes "sys_step bo env ce s a s'"
  obtains "a = Thread (t_pc s)" "thread_step bo env s = Some s'" "\<not> (release_prompt ce \<and> cancelled s \<and> t_pc s = T_wait)"
  | w where "a = Killed (t_pc s)" "cancelled s" "cancel_point ce (t_pc s)" "s' = s\<lparr>t_pc := T_handlers, st_world := w\<rparr>"
  | ok where "a = Stopper (s_pc s) (t_pc s) ok" "stop_step ok s = Some s'"
  using assms by (elim sys_step_cases) (use that in blast)+

text \<open>An invariant of the steps a run takes, which may be limited to some actions.\<close>

lemma sys_run_invariant:
  assumes "sys_run bo env ce s as s'" "P s" "\<forall>a \<in> set as. Q a"
    and "\<And>s a s'. sys_step bo env ce s a s' \<Longrightarrow> P s \<Longrightarrow> Q a \<Longrightarrow> P s'"
  shows "P s'"
  using assms(1-3) by (induction rule: sys_run.induct) (auto intro: assms(4))

lemma sys_run_append:
  "sys_run bo env ce s as s1 \<Longrightarrow> sys_run bo env ce s1 bs s' \<Longrightarrow> sys_run bo env ce s (as @ bs) s'"
  by (induction rule: sys_run.induct) auto

section \<open>A stop that never returns\<close>

text \<open>The task has released its last job, and the stopper waits for the flag of the next release.\<close>

definition missed :: "'w stop_state \<Rightarrow> bool" where
  "missed s \<longleftrightarrow> stop_flag s \<and> aperiodic (st_task s) \<and> \<not> inside_aperiodic_release (st_task s) \<and> \<not> cancelled s \<and>
     s_pc s \<in> {S_test, S_sleep} \<and> t_pc s \<in> {T_job, T_program, T_check, T_handlers, T_ended}"

lemma missed_step:
  assumes "sys_step bo env ce s a s'" "missed s" "\<forall>p. a \<noteq> Stopper S_sleep p False"
  shows "missed s'"
  using assms(1)
proof (cases rule: sys_step_cases_full)
  case thread
  then show ?thesis using thread_step_frame [OF thread(2)] assms(2) by (auto simp: missed_def split: t_pc.splits if_splits)
next
  case (killed w)
  then show ?thesis using assms(2) by (simp add: missed_def)
next
  case (stopper ok)
  then have "s_pc s' \<in> {S_test, S_sleep}"
    using assms(2,3) by (auto simp: stop_step_def missed_def split: s_pc.splits if_splits)
  then show ?thesis using stop_step_frame [OF stopper(2)] assms(2) by (auto simp: missed_def)
qed


section \<open>The end of the task\<close>

text \<open>The steps a thread has left once the flag is set.\<close>

fun steps_left :: "t_pc \<Rightarrow> nat" where
  "steps_left T_top = 7" | "steps_left T_wait = 6" | "steps_left T_returned = 5" | "steps_left T_job = 4"
| "steps_left T_program = 3" | "steps_left T_check = 2" | "steps_left T_handlers = 1" | "steps_left T_ended = 0"

lemma stopped_step:
  assumes "sys_step bo env ce s a s'" "stop_flag s"
  shows "stop_flag s' \<and> (if of_thread a then steps_left (t_pc s') < steps_left (t_pc s) else t_pc s' = t_pc s)"
  using assms(1)
proof (cases rule: sys_step_cases_full)
  case thread
  moreover have "t_pc s \<noteq> T_ended" using thread(2) by (auto simp: thread_step_def Let_def)
  ultimately show ?thesis
    using thread_step_frame(2,6) [OF thread(2)] assms(2) by (cases "t_pc s") simp_all
next
  case (killed w)
  then show ?thesis using assms(2) by (auto simp: cancel_point_def)
next
  case (stopper ok)
  then show ?thesis using stop_step_frame [OF stopper(2)] assms(2) by simp
qed

lemma stopped_job_step:
  assumes "sys_step bo env ce s (Thread T_job) s'"
  shows "steps_left (t_pc s) = 4 \<and> steps_left (t_pc s') = 3"
  using assms
proof (cases rule: sys_step_cases_full)
  case thread
  then have "t_pc s = T_job" by simp
  then show ?thesis using thread_step_frame(6) [OF thread(2)] by simp
qed simp_all


section \<open>Whether the program is killed\<close>

lemma of_bool_step:
  assumes "sys_step bo env ce s a s'" "aperiodic (st_task s)"
  shows "of_bool (a = Thread T_wait) + of_bool (t_pc s \<in> {T_returned, T_job}) =
      (of_bool (a = Thread T_job) + of_bool (t_pc s' \<in> {T_returned, T_job}) :: nat)"
    "of_bool (a = Thread T_job) + of_bool (t_pc s = T_program) =
      (of_bool (a = Thread T_program) + of_bool (a = Killed T_program) + of_bool (t_pc s' = T_program) :: nat)"
    "aperiodic (st_task s')"
  using assms(1)
  by (cases rule: sys_step_cases_full; use assms(2) in \<open>auto dest: thread_step_frame(4,6) stop_step_frame(1,2)
      simp: cancel_point_def split: t_pc.splits if_splits\<close>)+

lemma count_list_Cons: "count_list (a # as) x = of_bool (a = x) + count_list as x"
  by simp

text \<open>In any run, the releases that returned are followed by jobs, and the jobs by completions.\<close>

lemma jobs_balance:
  assumes "sys_run bo env ce s as s'" "aperiodic (st_task s)"
  shows "count_list as (Thread T_wait) + of_bool (t_pc s \<in> {T_returned, T_job}) =
      count_list as (Thread T_job) + of_bool (t_pc s' \<in> {T_returned, T_job})"
    "count_list as (Thread T_job) + of_bool (t_pc s = T_program) =
      count_list as (Thread T_program) + count_list as (Killed T_program) + of_bool (t_pc s' = T_program)"
proof -
  have "count_list as (Thread T_wait) + of_bool (t_pc s \<in> {T_returned, T_job}) =
      count_list as (Thread T_job) + of_bool (t_pc s' \<in> {T_returned, T_job}) \<and>
    count_list as (Thread T_job) + of_bool (t_pc s = T_program) =
      count_list as (Thread T_program) + count_list as (Killed T_program) + of_bool (t_pc s' = T_program)"
    using assms
  proof (induction rule: sys_run.induct)
    case (run_step s a s1 as s')
    note st = of_bool_step [OF run_step(1,4)]
    show ?case using run_step.IH [OF st(3)] st(1,2) unfolding count_list_Cons by linarith
  qed simp
  then show "count_list as (Thread T_wait) + of_bool (t_pc s \<in> {T_returned, T_job}) =
      count_list as (Thread T_job) + of_bool (t_pc s' \<in> {T_returned, T_job})"
    "count_list as (Thread T_job) + of_bool (t_pc s = T_program) =
      count_list as (Thread T_program) + count_list as (Killed T_program) + of_bool (t_pc s' = T_program)"
    by simp_all
qed

lemma cancel_when_waiting:
  assumes "sys_step bo env ce s a s'" "release_prompt ce" "cancelled s \<longrightarrow> t_pc s \<in> {T_wait, T_handlers, T_ended}"
    "\<forall>p ok. a = Stopper S_cancel p ok \<longrightarrow> p = T_wait"
  shows "(cancelled s' \<longrightarrow> t_pc s' \<in> {T_wait, T_handlers, T_ended}) \<and> a \<noteq> Killed T_program"
  using assms(1)
proof (cases rule: sys_step_cases_full)
  case thread
  then show ?thesis using thread_step_frame(3,6) [OF thread(2)] assms(2,3) by (auto split: t_pc.splits)
next
  case (killed w)
  then show ?thesis using assms(3) by auto
next
  case (stopper ok)
  then show ?thesis
    using stop_step_frame [OF stopper(2)] assms(3,4) by (cases "s_pc s = S_cancel") auto
qed


text \<open>Claim C13. The flag alone does not spare the program, although a comment in the code says so:
  when the release function has returned but the flag is not cleared yet, a stopper that is never
  preempted sees the flag and requests the cancellation, which kills the program of
  the job that follows at its first cancellation point. The statistics then hold the
  job without its finish.\<close>

theorem stop_window_kills_program:
  assumes "aperiodic tau" "program_cancels ce"
    and "job_begin env (stats_ringbuf tau) (aperiodic_release env w) = Some (slot, rb, j, w1)"
  shows "\<exists>s. sys_run bo env ce (stop_init tau w)
      [Thread T_top, Thread T_wait, Stopper S_begin T_returned True, Stopper S_test T_returned True,
       Stopper S_cancel T_returned True, Thread T_returned, Thread T_job, Killed T_program] s \<and>
    t_pc s = T_handlers \<and> s_pc s = S_done \<and> stats_ringbuf (st_task s) = rb"
proof -
  let ?t1 = "tau\<lparr>inside_aperiodic_release := True\<rparr>" and ?t2 = "tau\<lparr>inside_aperiodic_release := False\<rparr>"
  let ?s1 = "(stop_init tau w)\<lparr>st_task := ?t1, st_world := aperiodic_release env w, t_pc := T_returned, stop_flag := True,
    s_pc := S_done, cancelled := True\<rparr>"
  let ?s2 = "?s1\<lparr>st_task := ?t2\<lparr>stats_ringbuf := rb\<rparr>, st_slot := slot, st_job_rc := j, st_world := w1, t_pc := T_program\<rparr>"
  let ?s3 = "?s2\<lparr>t_pc := T_handlers, st_world := w1\<rparr>"
  have "sys_run bo env ce (stop_init tau w) [Thread T_top, Thread T_wait, Stopper S_begin T_returned True,
      Stopper S_test T_returned True, Stopper S_cancel T_returned True] ?s1"
    using assms(1) by (simp add: sys_at stop_init_def)
  moreover have "sys_run bo env ce ?s1 [Thread T_returned, Thread T_job] ?s2"
    using assms(3) by (simp add: sys_at)
  moreover have "sys_run bo env ce ?s2 [Killed T_program] ?s3"
    using assms(2) killed [of ?s2 ce bo env w1] by (simp add: cancel_point_def)
  ultimately have "sys_run bo env ce (stop_init tau w) (([Thread T_top, Thread T_wait, Stopper S_begin T_returned True,
      Stopper S_test T_returned True, Stopper S_cancel T_returned True] @ [Thread T_returned, Thread T_job]) @ [Killed T_program]) ?s3"
    by (intro sys_run_append)
  then show ?thesis by (intro exI [of _ ?s3]) (simp del: sys_run_simps(2) add: stop_init_def)
qed

section \<open>The thread alone\<close>

lemma job_phases:
  "job_start (read_clock env) (run_program env) rbo w = do {
     (slot, rb, i, w1) \<leftarrow> job_begin env rbo w;
     (rb1, j, w2) \<leftarrow> job_end env slot rb w1;
     Some (i + j, rb1, w2) }"
  by (auto simp: job_start_def job_begin_def job_end_def Let_def split_def split: option.splits bind_splits)

text \<open>A state of the thread between two iterations, seen as the state of the loop.\<close>

definition at_loop :: "t_pc \<Rightarrow> int \<times> task \<times> 'w \<Rightarrow> 'w stop_state \<Rightarrow> bool" where
  "at_loop pc x s \<longleftrightarrow> t_pc s = pc \<and> x = (st_rc s, st_task s, st_world s) \<and> s_pc s = S_begin \<and> \<not> stop_flag s \<and> \<not> cancelled s"

definition loop_body :: "bool \<Rightarrow> 'w task_env \<Rightarrow> int \<times> task \<times> 'w \<Rightarrow> (int \<times> task \<times> 'w) option" where
  "loop_body aper env = (if aper then aperiodic_step env else periodic_step env)"

lemma body_steps:
  assumes "at_loop T_top x s" "loop_body (aperiodic (fst (snd x))) env x = Some x1"
  shows "\<exists>as s1. sys_run bo env ce s as s1 \<and> list_all (\<lambda>a. \<exists>p. a = Thread p) as \<and> at_loop T_check x1 s1 \<and>
    aperiodic (fst (snd x1)) = aperiodic (fst (snd x))"
proof (cases "aperiodic (st_task s)")
  case True
  let ?t = "(st_task s)\<lparr>inside_aperiodic_release := False\<rparr>"
  obtain slot rb i w1 rb1 j w2 where b: "job_begin env (stats_ringbuf (st_task s)) (aperiodic_release env (st_world s)) = Some (slot, rb, i, w1)"
    "job_end env slot rb w1 = Some (rb1, j, w2)" "x1 = (st_rc s - (i + j), ?t\<lparr>stats_ringbuf := rb1\<rparr>, w2)"
    using assms True by (auto simp: loop_body_def at_loop_def aperiodic_step_def job_phases split: bind_splits)
  let ?s1 = "s\<lparr>st_task := ?t\<lparr>stats_ringbuf := rb1\<rparr>, st_slot := slot, st_job_rc := i, st_rc := st_rc s - (i + j), st_world := w2, t_pc := T_check\<rparr>"
  have r: "sys_run bo env ce s [Thread T_top, Thread T_wait, Thread T_returned, Thread T_job, Thread T_program] ?s1"
    using assms(1) True b by (simp add: sys_at at_loop_def Let_def)
  have "at_loop T_check x1 ?s1 \<and> aperiodic (fst (snd x1)) = aperiodic (fst (snd x))"
    using assms(1) b(3) True by (simp add: at_loop_def)
  moreover have "list_all (\<lambda>a. \<exists>p. a = Thread p) [Thread T_top, Thread T_wait, Thread T_returned, Thread T_job, Thread T_program]" by simp
  ultimately show ?thesis using r by blast
next
  case False
  obtain e w0 where e: "sleep_until env (next_release_time (st_task s)) (st_world s) = (e, w0)" by (cases "sleep_until env (next_release_time (st_task s)) (st_world s)")
  obtain slot rb i w1 rb1 j w2 where b: "job_begin env (stats_ringbuf (st_task s)) w0 = Some (slot, rb, i, w1)"
    "job_end env slot rb w1 = Some (rb1, j, w2)"
    "x1 = (st_rc s - e - (i + j), advance_release ((st_task s)\<lparr>stats_ringbuf := rb1\<rparr>), w2)"
    using assms False e by (auto simp: loop_body_def at_loop_def periodic_step_def job_phases Let_def split: bind_splits)
  let ?s1 = "s\<lparr>st_task := advance_release ((st_task s)\<lparr>stats_ringbuf := rb1\<rparr>), st_slot := slot, st_job_rc := i,
    st_rc := st_rc s - e - (i + j), st_world := w2, t_pc := T_check\<rparr>"
  have r: "sys_run bo env ce s [Thread T_top, Thread T_job, Thread T_program] ?s1"
    using assms(1) False b e by (simp add: sys_at at_loop_def Let_def)
  have "at_loop T_check x1 ?s1 \<and> aperiodic (fst (snd x1)) = aperiodic (fst (snd x))"
    using assms(1) b(3) False by (simp add: at_loop_def)
  moreover have "list_all (\<lambda>a. \<exists>p. a = Thread p) [Thread T_top, Thread T_job, Thread T_program]" by simp
  ultimately show ?thesis using r by blast
qed

lemma check_step:
  assumes "at_loop T_check x s"
  shows "\<exists>s1. sys_run bo env ce s [Thread T_check] s1 \<and> at_loop (if goes_on env x then T_top else T_handlers) x s1"
  using assms by (auto simp: sys_step_simps thread_step_def at_loop_def goes_on_def Let_def)

lemma loop_runs:
  assumes "iterate (loop_body (aperiodic (fst (snd x))) env) (Suc n) x = Some x'" "at_loop T_top x s"
    and "\<forall>k < n. goes_on env (the (iterate (loop_body (aperiodic (fst (snd x))) env) (Suc k) x))" "\<not> goes_on env x'"
  shows "\<exists>as s1. sys_run bo env ce s as s1 \<and> list_all (\<lambda>a. \<exists>p. a = Thread p) as \<and> at_loop T_handlers x' s1"
  using assms
proof (induction n arbitrary: x s)
  case 0
  obtain as s1 where 1: "sys_run bo env ce s as s1" "list_all (\<lambda>a. \<exists>p. a = Thread p) as" "at_loop T_check x' s1"
    using body_steps [OF 0(2), of env x' bo ce] 0(1) by (auto split: bind_splits)
  obtain s2 where "sys_run bo env ce s1 [Thread T_check] s2" "at_loop T_handlers x' s2"
    using check_step [OF 1(3), of bo env ce] 0(4) by auto
  then show ?case using sys_run_append [OF 1(1), of "[Thread T_check]" s2] 1(2)
    by (intro exI [of _ "as @ [Thread T_check]"] exI [of _ s2]) (simp del: sys_run_simps(2))
next
  case (Suc n)
  let ?b = "loop_body (aperiodic (fst (snd x))) env"
  obtain x1 where x1: "?b x = Some x1" "iterate ?b (Suc n) x1 = Some x'"
    using Suc.prems(1) by (auto split: bind_splits)
  obtain as s1 where 1: "sys_run bo env ce s as s1" "list_all (\<lambda>a. \<exists>p. a = Thread p) as" "at_loop T_check x1 s1"
    "aperiodic (fst (snd x1)) = aperiodic (fst (snd x))"
    using body_steps [OF Suc.prems(2) x1(1), of bo ce] by blast
  have "goes_on env x1" using Suc.prems(3) x1(1) by (auto dest: spec [of _ 0])
  then obtain s2 where 2: "sys_run bo env ce s1 [Thread T_check] s2" "at_loop T_top x1 s2"
    using check_step [OF 1(3), of bo env ce] by auto
  have "\<forall>k < n. goes_on env (the (iterate ?b (Suc k) x1))"
    using Suc.prems(3) x1(1) by (auto dest: spec [of _ "Suc _"])
  then obtain bs s3 where 3: "sys_run bo env ce s2 bs s3" "list_all (\<lambda>a. \<exists>p. a = Thread p) bs" "at_loop T_handlers x' s3"
    using Suc.IH [of x1 s2] x1(2) 2(2) 1(4) Suc.prems(4) by auto
  then show ?case using sys_run_append [OF sys_run_append [OF 1(1) 2(1)] 3(1)] 1(2)
    by (intro exI [of _ "(as @ [Thread T_check]) @ bs"] exI [of _ s3]) (simp del: sys_run_simps(2))
qed


section \<open>Instances\<close>

definition stop_env :: "nat task_env" where
  "stop_env = \<lparr>sleep_until = (\<lambda>_ w. (0, w)), read_clock = (\<lambda>w. (Some \<lparr>tv_sec = of_nat w, tv_nsec = 0\<rparr>, Suc w)),
     run_program = id, aperiodic_release = id, is_stopped = (\<lambda>w. 2 \<le> w)\<rparr>"

definition bare_task :: "bool \<Rightarrow> task \<Rightarrow> task" where
  "bare_task aper tau = tau\<lparr>aperiodic := aper, inside_aperiodic_release := False, stats_ringbuf := None, stats_log := No_log,
     fail_to_close_stats_log := 0\<rparr>"

lemma bare_task_simps [simp]: "aperiodic (bare_task aper tau) = aper" "stats_ringbuf (bare_task aper tau) = None"
  "stats_log (bare_task aper tau) = No_log" "fail_to_close_stats_log (bare_task aper tau) = 0"
  by (simp_all add: bare_task_def)

lemmas run_system = sys_at stop_init_def cancel_point_def Let_def stop_env_def
  job_begin_def job_end_def flush_stats_ringbuf_def close_logging_file_def




theorem stop_window_kills_program_witness:
  "\<forall>tau bo. \<exists>s. sys_run bo stop_env \<lparr>program_cancels = True, release_prompt = True\<rparr> (stop_init (bare_task True tau) 0)
      [Thread T_top, Thread T_wait, Stopper S_begin T_returned True, Stopper S_test T_returned True,
       Stopper S_cancel T_returned True, Thread T_returned, Thread T_job, Killed T_program] s"
proof (intro allI)
  fix tau bo
  have "job_begin stop_env (stats_ringbuf (bare_task True tau)) (aperiodic_release stop_env 0) = Some (None, None, 0, 0)"
    by (simp add: job_begin_def stop_env_def)
  from stop_window_kills_program [OF _ _ this]
  show "\<exists>s. sys_run bo stop_env \<lparr>program_cancels = True, release_prompt = True\<rparr> (stop_init (bare_task True tau) 0)
      [Thread T_top, Thread T_wait, Stopper S_begin T_returned True, Stopper S_test T_returned True,
       Stopper S_cancel T_returned True, Thread T_returned, Thread T_job, Killed T_program] s"
    using bare_task_simps(1) [of True tau] by (metis cancel_env.select_convs(1))
qed


end
