(* ===== verification/C_Strings.thy ===== *)
theory C_Strings
  imports Utility_File
begin

text \<open>
  Strings of the C library in memory: an array of characters, in which a string is the
  characters from an offset up to the next NUL. \<^verbatim>\<open>atoi\<close>, \<^verbatim>\<open>strtoul\<close>, \<^verbatim>\<open>strcasecmp\<close>, \<^verbatim>\<open>strtok\<close> and
  \<^verbatim>\<open>snprintf\<close>, and what the last two do to strings that lie in one array one after the other.
\<close>

text \<open>What a program makes of its command line.\<close>

datatype 'o parsed = Parsed 'o | Help | Bad_option

text \<open>The loop around \<^verbatim>\<open>getopt\<close> of every program, over the options and arguments that \<^verbatim>\<open>getopt\<close> returns.\<close>

fun getopt_loop :: "(char \<Rightarrow> string \<Rightarrow> 'o \<Rightarrow> 'o parsed) \<Rightarrow> (char \<times> string) list \<Rightarrow> 'o \<Rightarrow> 'o parsed" where
  "getopt_loop opt [] cfg = Parsed cfg"
| "getopt_loop opt ((optchar, optarg) # rest) cfg =
    (case opt optchar optarg cfg of
       Parsed cfg1 \<Rightarrow> getopt_loop opt rest cfg1
     | r \<Rightarrow> r)"

lemma getopt_loop_invariant:
  "getopt_loop opt opts start = Parsed cfg \<Longrightarrow> P start \<Longrightarrow>
   (\<And>c a before after. opt c a before = Parsed after \<Longrightarrow> P before \<Longrightarrow> P after) \<Longrightarrow> P cfg"
  by (induction opt opts start rule: getopt_loop.induct) (auto split: parsed.splits)

section \<open>Conversions and comparison\<close>

text \<open>\<^verbatim>\<open>atoi\<close>: the value of \<^verbatim>\<open>strtol\<close>, which saturates, converted to an \<^verbatim>\<open>int\<close>.\<close>

definition atoi :: "string \<Rightarrow> int" where
  "atoi s =
    (let s1 = dropWhile isspace s;
         neg = (s1 \<noteq> [] \<and> hd s1 = CHR ''-'');
         s2 = (if s1 \<noteq> [] \<and> (hd s1 = CHR ''-'' \<or> hd s1 = CHR ''+'') then tl s1 else s1);
         n = int (dec_value (takeWhile isdigit s2));
         v = (if neg then max (- (2 ^ 63)) (- n) else min (2 ^ 63 - 1) n)
     in sint (word_of_int v :: 32 word))"

lemma atoi_bound: "atoi s < 2 ^ 31"
  using sint_lt [of "word_of_int v :: 32 word" for v] by (simp add: atoi_def Let_def)

text \<open>\<^verbatim>\<open>strtoul(s, &end, 10)\<close>: the value, and the string at \<^verbatim>\<open>end\<close>.\<close>

definition strtoul10 :: "string \<Rightarrow> u64 \<times> string" where
  "strtoul10 s =
    (let s1 = dropWhile isspace s;
         s2 = (if s1 \<noteq> [] \<and> (hd s1 = CHR ''-'' \<or> hd s1 = CHR ''+'') then tl s1 else s1)
     in if s2 = [] \<or> \<not> isdigit (hd s2) then (0, s) else (strtoull10 s, dropWhile isdigit s2))"

definition to_lower :: "char \<Rightarrow> char" where
  "to_lower c = (if 65 \<le> (of_char c :: nat) \<and> (of_char c :: nat) \<le> 90 then char_of (of_char c + 32 :: nat) else c)"

text \<open>Whether \<^verbatim>\<open>strcasecmp\<close> returns zero.\<close>

definition strcasecmp_eq :: "string \<Rightarrow> string \<Rightarrow> bool" where
  "strcasecmp_eq s t \<longleftrightarrow> map to_lower s = map to_lower t"

section \<open>Strings in memory\<close>

abbreviation NUL :: char where "NUL \<equiv> CHR 0x00"

text \<open>The string at an offset; undefined when the array ends before its NUL.\<close>

definition cstr_at :: "char list \<Rightarrow> nat \<Rightarrow> string option" where
  "cstr_at mem i = (if i \<le> length mem \<and> NUL \<in> set (drop i mem) then Some (c_string (drop i mem)) else None)"

text \<open>Storing a string with its NUL at an offset.\<close>

definition put_string :: "char list \<Rightarrow> nat \<Rightarrow> string \<Rightarrow> char list option" where
  "put_string mem i s =
    (if i + length s < length mem then Some (take i mem @ s @ NUL # drop (i + length s + 1) mem) else None)"

text \<open>\<^verbatim>\<open>snprintf(mem + i, n, ...)\<close> of a conversion that gives \<open>s\<close>.\<close>

definition snprintf_at :: "char list \<Rightarrow> nat \<Rightarrow> nat \<Rightarrow> string \<Rightarrow> char list option" where
  "snprintf_at mem i n s = (if n = 0 then Some mem else put_string mem i (snprintf_out n s))"

text \<open>The first token of a string: how many delimiters precede it, the token, and what follows it.\<close>

definition first_token :: "string \<Rightarrow> string \<Rightarrow> nat \<times> string \<times> string" where
  "first_token delims s =
    (let s1 = dropWhile (\<lambda>c. c \<in> set delims) s
     in (length s - length s1, takeWhile (\<lambda>c. c \<notin> set delims) s1, dropWhile (\<lambda>c. c \<notin> set delims) s1))"

text \<open>
  \<^verbatim>\<open>strtok\<close> from a position: the offset of the token (\<open>None\<close> for NULL), the memory, in which the token
  has been ended by a NUL, and the position the next call starts from.
\<close>

definition strtok_from :: "string \<Rightarrow> char list \<Rightarrow> nat \<Rightarrow> (nat option \<times> char list \<times> nat) option" where
  "strtok_from delims mem pos = do {
     s \<leftarrow> cstr_at mem pos;
     let (skipped, tok, rest) = first_token delims s; start = pos + skipped; e = start + length tok
     in if tok = [] then Some (None, mem, start)
        else if rest = [] then Some (Some start, mem, e)
        else Some (Some start, mem[e := NUL], e + 1) }"

lemma length_c_string: "NUL \<in> set xs \<Longrightarrow> length (c_string xs) < length xs"
  by (induction xs) (auto simp: c_string_def)

lemma cstr_at_inside: "cstr_at mem pos = Some s \<Longrightarrow> pos + length s < length mem"
  using length_c_string [of "drop pos mem"] by (auto simp: cstr_at_def split: if_splits)

lemma first_token_length:
  assumes "first_token delims s = (skipped, tok, rest)"
  shows "length s = skipped + length tok + length rest"
proof -
  let ?s1 = "dropWhile (\<lambda>c. c \<in> set delims) s"
  have "length ?s1 \<le> length s" by (rule length_dropWhile_le)
  moreover have "length ?s1 = length tok + length rest"
    using assms by (metis first_token_def length_append prod.inject takeWhile_dropWhile_id)
  ultimately show ?thesis using assms by (auto simp: first_token_def Let_def)
qed

lemma strtok_from_advances:
  assumes "strtok_from delims mem pos = Some (Some tok, mem1, pos1)"
  shows "length mem1 = length mem \<and> pos < pos1 \<and> pos1 \<le> length mem"
proof -
  obtain s where s: "cstr_at mem pos = Some s" using assms by (auto simp: strtok_from_def split: bind_splits)
  obtain k t r where f: "first_token delims s = (k, t, r)" by (metis surj_pair)
  show ?thesis using assms s f cstr_at_inside [OF s] first_token_length [OF f]
    by (cases "t = []"; cases "r = []") (auto simp: strtok_from_def Let_def)
qed

text \<open>A loop that calls \<^verbatim>\<open>strtok\<close> until it returns NULL: the tokens and the memory.\<close>

lemma strtok_from_measure:
  "strtok_from delims mem pos = Some (Some tok, mem1, pos1) \<Longrightarrow> length mem1 - pos1 < length mem - pos"
  using strtok_from_advances [of delims mem pos tok mem1 pos1] by linarith

function strtok_loop :: "string \<Rightarrow> char list \<Rightarrow> nat \<Rightarrow> (nat list \<times> char list) option" where
  "strtok_loop delims mem pos =
    (case strtok_from delims mem pos of
       None \<Rightarrow> None
     | Some (None, mem1, pos1) \<Rightarrow> Some ([], mem1)
     | Some (Some tok, mem1, pos1) \<Rightarrow>
         do { (toks, mem2) \<leftarrow> strtok_loop delims mem1 pos1; Some (tok # toks, mem2) })"
  by pat_completeness auto
termination
  by (relation "measure (\<lambda>(_, mem, pos). length mem - pos)") (auto dest: strtok_from_measure)

declare strtok_loop.simps [simp del]

section \<open>The words of a string\<close>

lemma first_token_shorter: "first_token delims s = (k, t, r) \<Longrightarrow> t \<noteq> [] \<Longrightarrow> length r < length s"
  using first_token_length [of delims s k t r] by (cases t) auto

function words :: "string \<Rightarrow> string \<Rightarrow> string list" where
  "words delims s = (case first_token delims s of (k, t, r) \<Rightarrow> if t = [] then [] else t # words delims r)"
  by pat_completeness auto
termination
  by (relation "measure (\<lambda>(_, s). length s)") (auto dest: first_token_shorter [OF sym])

declare words.simps [simp del]

lemma words_Nil [simp]: "words delims [] = []"
  by (subst words.simps) (simp add: first_token_def)

lemma words_delimiter [simp]: "c \<in> set delims \<Longrightarrow> words delims (c # s) = words delims s"
proof -
  assume c: "c \<in> set delims"
  have "first_token delims (c # s) = (Suc (fst (first_token delims s)), snd (first_token delims s))"
    using c length_dropWhile_le [of "\<lambda>c. c \<in> set delims" s] by (simp add: first_token_def Let_def Suc_diff_le)
  then show ?thesis by (subst (1 2) words.simps) (simp split: prod.splits)
qed

lemma words_word:
  assumes "t \<noteq> []" "\<forall>c\<in>set t. c \<notin> set delims" "r = [] \<or> hd r \<in> set delims"
  shows "words delims (t @ r) = t # words delims r"
proof -
  have d: "dropWhile (\<lambda>c. c \<in> set delims) (t @ r) = t @ r" using assms(1,2) by (cases t) auto
  have "takeWhile (\<lambda>c. c \<notin> set delims) (t @ r) = t" "dropWhile (\<lambda>c. c \<notin> set delims) (t @ r) = r"
    using assms(2,3) by (cases r; simp add: takeWhile_append dropWhile_append)+
  then have "first_token delims (t @ r) = (0, t, r)" by (simp add: first_token_def Let_def d)
  then show ?thesis using assms(1) by (subst words.simps) simp
qed

text \<open>Where a string is cut into its first word and the rest.\<close>

lemma first_token_split:
  assumes "first_token delims s = (k, t, r)"
  shows "\<exists>a. s = a @ t @ r \<and> length a = k \<and> set a \<subseteq> set delims \<and> (\<forall>c\<in>set t. c \<notin> set delims) \<and>
    (r = [] \<or> hd r \<in> set delims) \<and> (t = [] \<longrightarrow> r = [])"
proof (intro exI conjI)
  let ?d = "\<lambda>c. c \<in> set delims" let ?n = "\<lambda>c. c \<notin> set delims"
  let ?a = "takeWhile ?d s" let ?s1 = "dropWhile ?d s"
  have t: "t = takeWhile ?n ?s1" "r = dropWhile ?n ?s1" "k = length s - length ?s1"
    using assms by (simp_all add: first_token_def Let_def)
  show split: "s = ?a @ t @ r" by (simp add: t)
  show "length ?a = k" using t(3) by (metis length_append takeWhile_dropWhile_id diff_add_inverse2)
  show "set ?a \<subseteq> set delims" by (auto dest: set_takeWhileD)
  show "\<forall>c\<in>set t. c \<notin> set delims" unfolding t(1) by (auto dest: set_takeWhileD)
  show "r = [] \<or> hd r \<in> set delims" unfolding t(2) using hd_dropWhile [of ?n ?s1] by auto
  show "t = [] \<longrightarrow> r = []"
  proof
    assume "t = []"
    then have "?s1 = [] \<or> \<not> ?n (hd ?s1)" unfolding t(1) by (cases ?s1) (auto split: if_splits)
    then have "?s1 = []" using hd_dropWhile [of ?d s] by auto
    then show "r = []" unfolding t(2) by (simp only: dropWhile.simps)
  qed
qed

lemma words_delimiters [simp]: "set a \<subseteq> set delims \<Longrightarrow> words delims (a @ s) = words delims s"
  by (induction a) auto

lemma words_append:
  assumes "c \<in> set delims" shows "words delims (s @ c # u) = words delims s @ words delims u"
proof (induction "length s" arbitrary: s rule: less_induct)
  case less
  obtain k t r where f: "first_token delims s = (k, t, r)" by (metis surj_pair)
  from first_token_split [OF f] obtain a where a: "s = a @ t @ r" "set a \<subseteq> set delims" "\<forall>c\<in>set t. c \<notin> set delims"
    "r = [] \<or> hd r \<in> set delims" "t = [] \<longrightarrow> r = []" by blast
  show ?case
  proof (cases "t = []")
    case True
    then show ?thesis using a assms words_delimiters [OF a(2), of "[]"] by simp
  next
    case False
    have "words delims (s @ c # u) = words delims (t @ (r @ c # u))" using a(1,2) by simp
    also have "\<dots> = t # words delims (r @ c # u)"
      using False a(3,4) assms by (intro words_word) (cases r; simp)+
    also have "\<dots> = (t # words delims r) @ words delims u"
      using less [of r] first_token_shorter [OF f False] by simp
    also have "t # words delims r = words delims s" using f False by (subst (2) words.simps) simp
    finally show ?thesis .
  qed
qed

section \<open>Strings one after the other\<close>

text \<open>Strings at increasing offsets from a position on, none reaching into the next.\<close>

fun laid_out :: "char list \<Rightarrow> nat \<Rightarrow> nat list \<Rightarrow> string list \<Rightarrow> bool" where
  "laid_out mem lo [] [] \<longleftrightarrow> True"
| "laid_out mem lo (i # offs) (s # ss) \<longleftrightarrow>
     lo \<le> i \<and> take (length s + 1) (drop i mem) = s @ [NUL] \<and> NUL \<notin> set s \<and> laid_out mem (i + length s + 1) offs ss"
| "laid_out mem lo _ _ \<longleftrightarrow> False"

lemma laid_out_lower: "laid_out mem lo offs ss \<Longrightarrow> lo' \<le> lo \<Longrightarrow> laid_out mem lo' offs ss"
  by (cases "(mem, lo, offs, ss)" rule: laid_out.cases) auto

lemma laid_out_length: "laid_out mem lo offs ss \<Longrightarrow> length offs = length ss"
  by (induction mem lo offs ss rule: laid_out.induct) auto

lemma drop_above: "drop j xs = drop j ys \<Longrightarrow> j \<le> m \<Longrightarrow> drop m xs = drop m ys"
  by (metis drop_drop le_add_diff_inverse2)

lemma laid_out_frame:
  "drop lo mem = drop lo mem' \<Longrightarrow> laid_out mem lo offs ss \<longleftrightarrow> laid_out mem' lo offs ss"
proof (induction mem lo offs ss rule: laid_out.induct)
  case (2 mem lo i offs s ss)
  have "drop j mem = drop j mem'" if "lo \<le> j" for j
    by (rule drop_above [OF 2(2) that])
  then show ?case using 2(1) by (cases "lo \<le> i") auto
qed auto

lemma c_string_id [simp]: "NUL \<notin> set s \<Longrightarrow> c_string s = s"
  by (induction s) (auto simp: c_string_def)

lemma cstr_at_stored:
  assumes "take (length s + 1) (drop i mem) = s @ [NUL]" "NUL \<notin> set s"
  shows "cstr_at mem i = Some s"
proof -
  obtain r where d: "drop i mem = s @ NUL # r"
    using assms(1) by (metis append.assoc append_Cons append_Nil append_take_drop_id)
  then have "i < length mem" by (cases "i < length mem") simp_all
  moreover have "c_string (s @ NUL # r) = s" using assms(2) by simp
  ultimately show ?thesis using d by (simp add: cstr_at_def)
qed

lemma laid_out_string: "laid_out mem lo offs ss \<Longrightarrow> k < length ss \<Longrightarrow> cstr_at mem (offs ! k) = Some (ss ! k)"
proof (induction mem lo offs ss arbitrary: k rule: laid_out.induct)
  case (2 mem lo i offs s ss)
  then show ?case using cstr_at_stored [of s i mem] by (cases k) auto
qed auto

lemma cstr_at_append [simp]: "NUL \<notin> set s \<Longrightarrow> cstr_at (p @ s @ NUL # u) (length p) = Some s"
  by (simp add: cstr_at_def)

text \<open>The tokens of a string lie one after the other in the memory it had.\<close>

lemma strtok_loop_words:
  "NUL \<notin> set s \<Longrightarrow> \<exists>offs s1. strtok_loop delims (p @ s @ NUL # u) (length p) = Some (offs, p @ s1 @ NUL # u) \<and>
     length s1 = length s \<and> laid_out (p @ s1 @ NUL # u) (length p) offs (words delims s)"
proof (induction "length s" arbitrary: p s rule: less_induct)
  case less
  obtain k t r where f: "first_token delims s = (k, t, r)" by (metis surj_pair)
  from first_token_split [OF f] obtain a where a: "s = a @ t @ r" "length a = k" "\<forall>c\<in>set t. c \<notin> set delims"
    "r = [] \<or> hd r \<in> set delims" "t = [] \<longrightarrow> r = []" by blast
  have w: "words delims s = (if t = [] then [] else t # words delims r)" using f by (subst words.simps) simp
  have shorter: "t \<noteq> [] \<Longrightarrow> length r < length s" using first_token_shorter [OF f] .
  have c: "cstr_at (p @ s @ NUL # u) (length p) = Some s" using less.prems by simp
  consider "t = []" | "t \<noteq> []" "r = []" | d r' where "t \<noteq> []" "r = d # r'" by (cases r) auto
  then show ?case
  proof cases
    case 1
    then show ?thesis using c f w by (subst strtok_loop.simps) (simp add: strtok_from_def Let_def)
  next
    case 2
    let ?p = "p @ a @ t"
    from less.hyps [of "[]" ?p] 2(1) a(1) obtain offs where
      "strtok_loop delims (?p @ [] @ NUL # u) (length ?p) = Some (offs, ?p @ [] @ NUL # u)"
      "laid_out (?p @ NUL # u) (length ?p) offs []" by auto
    moreover from this have "offs = []" by (cases offs) auto
    ultimately show ?thesis using 2 c f w a(1,2) less.prems
      by (intro exI [of _ "[length p + k]"] exI [of _ s], subst strtok_loop.simps)
        (auto simp: strtok_from_def Let_def add.assoc)
  next
    case (3 d r')
    let ?p = "p @ a @ t @ [NUL]"
    have "NUL \<notin> set r'" "length r' < length s" using less.prems a(1) 3 shorter by auto
    from less.hyps [OF this(2,1), of ?p] obtain offs r1 where
      IH: "strtok_loop delims (?p @ r' @ NUL # u) (length ?p) = Some (offs, ?p @ r1 @ NUL # u)"
      "length r1 = length r'" "laid_out (?p @ r1 @ NUL # u) (length ?p) offs (words delims r')" by blast
    have "(p @ s @ NUL # u)[length p + k + length t := NUL] = ?p @ r' @ NUL # u"
      using a(1,2) 3 by (simp add: list_update_append)
    then have "strtok_from delims (p @ s @ NUL # u) (length p) =
        Some (Some (length p + k), ?p @ r' @ NUL # u, length ?p)"
      using c f 3 a(2) by (simp add: strtok_from_def Let_def)
    then have "strtok_loop delims (p @ s @ NUL # u) (length p) = Some ((length p + k) # offs, ?p @ r1 @ NUL # u)"
      using IH(1) by (subst strtok_loop.simps) simp
    moreover have "laid_out (?p @ r1 @ NUL # u) (length p) ((length p + k) # offs) (words delims s)"
      using IH(3) w 3 a less.prems by (auto simp: add.assoc)
    ultimately show ?thesis using IH(2) a(1) 3
      by (intro exI [of _ "(length p + k) # offs"] exI [of _ "a @ t @ NUL # r1"]) simp
  qed
qed

section \<open>Overwriting one of several strings\<close>

lemma put_string_frame:
  assumes "put_string mem i s = Some mem1"
  shows "length mem1 = length mem" "take i mem1 = take i mem" "drop (i + length s + 1) mem1 = drop (i + length s + 1) mem"
    "take (length s + 1) (drop i mem1) = s @ [NUL]"
  using assms by (auto simp: put_string_def drop_Cons' split: if_splits)

lemma laid_out_above: "laid_out mem lo offs ss \<Longrightarrow> k < length ss \<Longrightarrow> lo \<le> offs ! k"
proof (induction mem lo offs ss arbitrary: k rule: laid_out.induct)
  case (2 mem lo i offs s ss)
  then show ?case by (cases k) fastforce+
qed auto

lemma take_drop_below:
  assumes "take j xs = take j ys" "i + n \<le> j" shows "take n (drop i xs) = take n (drop i ys)"
proof -
  have "take (n + i) xs = take (n + i) (take j xs)" "take (n + i) ys = take (n + i) (take j ys)"
    using assms(2) by (simp_all add: min_absorb1 min_absorb2)
  then show ?thesis using assms(1) by (simp add: take_drop)
qed

text \<open>The string keeps what precedes the place it is overwritten at, and the others are not touched.\<close>

lemma laid_out_put:
  assumes "laid_out mem lo offs ss" "k < length ss" "d + length t \<le> length (ss ! k)" "NUL \<notin> set t"
    "put_string mem (offs ! k + d) t = Some mem1"
  shows "laid_out mem1 lo offs (ss[k := take d (ss ! k) @ t])"
  using assms(1-3,5)
proof (induction mem lo offs ss arbitrary: k rule: laid_out.induct)
  case (2 mem lo i offs s ss)
  note put = put_string_frame [OF 2(5)]
  show ?case
  proof (cases k)
    case 0
    have fits: "d + length t \<le> length s" using 2(4) 0 by simp
    have s: "take (length s + 1) (drop i mem) = s @ [NUL]" using 2(2) by simp
    have "take d (drop i mem1) = take d (drop i mem)"
      by (rule take_drop_below [OF put(2)]) (simp add: 0)
    also have "\<dots> = take d (take (length s + 1) (drop i mem))" using fits by (simp add: min_absorb1)
    also have "\<dots> = take d s" using s fits by simp
    finally have "take d (drop i mem1) = take d s" .
    moreover have "take (length t + 1) (drop d (drop i mem1)) = t @ [NUL]"
      using put(4) by (simp add: 0 add.commute)
    ultimately have "take (d + (length t + 1)) (drop i mem1) = take d s @ t @ [NUL]" by (simp only: take_add)
    moreover have len: "length (take d s @ t) = d + length t" using fits by simp
    ultimately have new: "take (length (take d s @ t) + 1) (drop i mem1) = (take d s @ t) @ [NUL]" by (simp add: add.assoc)
    have "drop (i + length s + 1) mem1 = drop (i + length s + 1) mem"
      by (rule drop_above [OF put(3)]) (use fits 0 in simp)
    then have rest: "laid_out mem1 (i + length s + 1) offs ss"
      using laid_out_frame [of "i + length s + 1" mem1 mem offs ss] 2(2) by simp
    have "i + length (take d s @ t) + 1 \<le> i + length s + 1" unfolding len using fits by linarith
    then have "laid_out mem1 (i + length (take d s @ t) + 1) offs ss" by (rule laid_out_lower [OF rest])
    moreover have "NUL \<notin> set (take d s @ t)" using 2(2) assms(4) by (auto dest: in_set_takeD)
    moreover have "lo \<le> i" using 2(2) by simp
    ultimately show ?thesis unfolding 0 by (simp only: nth_Cons_0 list_update_code laid_out.simps new simp_thms)
  next
    case (Suc k')
    have rest: "laid_out mem (i + length s + 1) offs ss" "k' < length ss" using 2(2,3) Suc by simp_all
    have "take (length s + 1) (drop i mem1) = take (length s + 1) (drop i mem)"
      by (rule take_drop_below [OF put(2)]) (use laid_out_above [OF rest] Suc in simp)
    moreover have "laid_out mem1 (i + length s + 1) offs (ss[k' := take d (ss ! k') @ t])"
      using 2(1) rest 2(4,5) Suc by simp
    ultimately show ?thesis using 2(2) Suc by simp
  qed
qed auto

lemma laid_out_room: "laid_out mem lo offs ss \<Longrightarrow> k < length ss \<Longrightarrow> offs ! k + length (ss ! k) < length mem"
  using cstr_at_inside laid_out_string by metis

text \<open>What \<^verbatim>\<open>snprintf\<close> leaves of a string, when it is given the length of the string as the size of the buffer.\<close>

lemma laid_out_snprintf:
  assumes "laid_out mem lo offs ss" "k < length ss" "d \<le> length (ss ! k)" "NUL \<notin> set t"
  defines "n \<equiv> length (ss ! k) - d"
  shows "\<exists>mem1. snprintf_at mem (offs ! k + d) n t = Some mem1 \<and> length mem1 = length mem \<and>
    laid_out mem1 lo offs (if n = 0 then ss else ss[k := take d (ss ! k) @ take (n - 1) t])"
proof (cases "n = 0")
  case False
  let ?t = "take (n - 1) t"
  have l: "length ?t \<le> n - 1" by simp
  then have "offs ! k + d + length ?t < length mem" using laid_out_room [OF assms(1,2)] assms(3) False unfolding n_def by linarith
  then obtain mem1 where m: "put_string mem (offs ! k + d) ?t = Some mem1" by (simp add: put_string_def)
  have "d + length ?t \<le> length (ss ! k)" using l assms(3) unfolding n_def by linarith
  then have "laid_out mem1 lo offs (ss[k := take d (ss ! k) @ ?t])"
    using assms(4) by (intro laid_out_put [OF assms(1,2) _ _ m]) (auto dest: in_set_takeD)
  then show ?thesis using m put_string_frame(1) [OF m] False by (simp add: snprintf_at_def snprintf_out_def)
qed (use assms in \<open>simp add: snprintf_at_def\<close>)

end
