(* ===== verification/Utility_CPU.thy ===== *)
theory Utility_CPU
  imports Complex_Main Utility_Time_Heap Utility_File Utility_Sched
begin

text \<open>
  The functions of \<^verbatim>\<open>utility_cpu.c\<close>: the affinity of the calling thread, the governor and the
  frequencies of a CPU as files of sysfs, and the search for the length of a busy loop.

  The files are a map from paths to contents. What writing a string to a file changes (with sysfs,
  possibly other files as well), which files can be opened and closed, where reading fails and
  what can be allocated are given by an environment. The state also has the paths of the streams that were
  opened and not closed, the affinity of the thread, and a world \<open>'w\<close> in which time passes.

  A value of type \<^verbatim>\<open>double\<close> is a rational number, and each operation on them is exact up to a
  rounding function, a parameter; infinities and not-a-number do not occur. The type \<^verbatim>\<open>unsigned long\<close>
  is a word of any length up to 64, since this part of the program assembles for 32-bit machines only.
\<close>

section \<open>Files of the system\<close>

datatype open_result = Opened | Open_denied | Open_failed

record 'w sys_env =
  sys_write :: "string \<Rightarrow> string \<Rightarrow> (string \<Rightarrow> string option) \<Rightarrow> (string \<Rightarrow> string option)"
  sys_fopen_w :: "string \<Rightarrow> open_result"
  sys_close_ok :: "string \<Rightarrow> bool"
  sys_read_fail :: "string \<Rightarrow> nat option"
  sys_mem :: "nat \<Rightarrow> bool"
  sys_fill :: char
  sys_affinity_ok :: "int set \<Rightarrow> bool"
  sys_thread_ok :: "bool \<times> bool"
  sys_clock :: "'w \<Rightarrow> timespec option \<times> 'w"
  sys_spin :: "nat \<Rightarrow> 'w \<Rightarrow> 'w"
  sys_round :: "rat \<Rightarrow> rat"

record 'w sys_state =
  sys_files :: "string \<Rightarrow> string option"
  sys_open :: "string list"
  affinity :: "int set"
  sys_world :: 'w

definition sys_open_text :: "'w sys_env \<Rightarrow> string \<Rightarrow> 'w sys_state \<Rightarrow> char rstream option \<times> 'w sys_state" where
  "sys_open_text env path s =
    (case sys_files s path of
       None \<Rightarrow> (None, s)
     | Some content \<Rightarrow> (Some \<lparr>rs_data = content, rs_eof = False, rs_err = False, rs_fail = sys_read_fail env path\<rparr>,
         s\<lparr>sys_open := path # sys_open s\<rparr>))"

definition sys_close_text :: "string \<Rightarrow> 'w sys_state \<Rightarrow> 'w sys_state" where
  "sys_close_text path s = s\<lparr>sys_open := remove1 path (sys_open s)\<rparr>"

text \<open>Opening for writing; what was printed is written when the stream is closed.\<close>

definition sys_open_write :: "'w sys_env \<Rightarrow> string \<Rightarrow> 'w sys_state \<Rightarrow> open_result \<times> 'w sys_state" where
  "sys_open_write env path s =
    (case sys_fopen_w env path of Opened \<Rightarrow> (Opened, s\<lparr>sys_open := path # sys_open s\<rparr>) | r \<Rightarrow> (r, s))"

definition sys_close_write :: "'w sys_env \<Rightarrow> string \<Rightarrow> string \<Rightarrow> 'w sys_state \<Rightarrow> int \<times> 'w sys_state" where
  "sys_close_write env path text s = (let s = s\<lparr>sys_open := remove1 path (sys_open s)\<rparr> in
     if sys_close_ok env path then (0, s\<lparr>sys_files := sys_write env path text (sys_files s)\<rparr>) else (- 1, s))"

section \<open>Affinity\<close>

text \<open>\<^verbatim>\<open>CPU_SET\<close> on an empty set: a CPU the set has no bit for is ignored.\<close>

definition cpu_bit :: "int \<Rightarrow> int set" where
  "cpu_bit cpu = (if 0 \<le> cpu \<and> cpu < 1024 then {cpu} else {})"

definition lock_me_to_cpu :: "'w sys_env \<Rightarrow> int \<Rightarrow> 'w sys_state \<Rightarrow> int \<times> 'w sys_state" where
  "lock_me_to_cpu env which_cpu s =
    (if \<not> sys_affinity_ok env (cpu_bit which_cpu) then (- 1, s) else (0, s\<lparr>affinity := cpu_bit which_cpu\<rparr>))"

definition enter_UP_mode :: "'w sys_env \<Rightarrow> 'w sys_state \<Rightarrow> int \<times> 'w sys_state" where
  "enter_UP_mode env s = lock_me_to_cpu env 0 s"

text \<open>The loop over the lines of \<^verbatim>\<open>/proc/cpuinfo\<close>: the last status, the count, and the stream.\<close>

definition is_processor_line :: "string \<Rightarrow> bool" where
  "is_processor_line line \<longleftrightarrow> take 9 line = ''processor'' \<and>
     (case drop 9 line of [] \<Rightarrow> False | c # _ \<Rightarrow> isspace c \<or> c = CHR '':'')"

function count_processors :: "(nat \<Rightarrow> bool) \<Rightarrow> char \<Rightarrow> char list option \<Rightarrow> char rstream \<Rightarrow> int \<Rightarrow> (int \<times> int) option" where
  "count_processors mem_ok fill buffer stream proc_count =
    (case utility_file_readln mem_ok fill stream buffer 1024 of
       None \<Rightarrow> None
     | Some (rc, buffer1, stream1) \<Rightarrow>
         if rc = - 1 \<or> rc = - 2 then Some (rc, proc_count)
         else count_processors mem_ok fill buffer1 stream1
           (if is_processor_line (c_string (the buffer1)) then proc_count + 1 else proc_count))"
  by pat_completeness auto
termination
  by (relation "measure (\<lambda>(_, _, _, s, _). length (rs_data s) + (if rs_eof s then 0 else 1))")
    (auto dest: readln_shrinks)

declare count_processors.simps [simp del]

definition get_last_cpu :: "'w sys_env \<Rightarrow> 'w sys_state \<Rightarrow> (int \<times> 'w sys_state) option" where
  "get_last_cpu env s =
    (case sys_open_text env ''/proc/cpuinfo'' s of
       (None, s) \<Rightarrow> Some (- 1, s)
     | (Some stream, s) \<Rightarrow> do {
         (rc, proc_count) \<leftarrow> count_processors (sys_mem env) (sys_fill env) None stream 0;
         let s = sys_close_text ''/proc/cpuinfo'' s
         in Some (if rc = - 2 then - 1 else proc_count - 1, s) })"

definition unlock_me :: "'w sys_env \<Rightarrow> 'w sys_state \<Rightarrow> (int \<times> 'w sys_state) option" where
  "unlock_me env s = do {
     (last_cpu_id, s) \<leftarrow> get_last_cpu env s;
     if last_cpu_id = - 1 then Some (- 1, s)
     else
       let cpuset = (\<Union>i \<in> {0 .. last_cpu_id}. cpu_bit i)
       in if \<not> sys_affinity_ok env cpuset then Some (- 1, s) else Some (0, s\<lparr>affinity := cpuset\<rparr>) }"

section \<open>The governor and the frequencies of a CPU\<close>

definition show_int :: "int \<Rightarrow> string" where
  "show_int i = (if i < 0 then CHR ''-'' # show_nat (nat (- i)) else show_nat (nat i))"

definition cpufreq_path :: "int \<Rightarrow> string \<Rightarrow> string" where
  "cpufreq_path which_cpu name = ''/sys/devices/system/cpu/cpu'' @ show_int which_cpu @ ''/cpufreq/'' @ name"

record cpu_freq_governor =
  gov_cpu :: int
  linux_cpu_governor_name :: string

definition cpu_freq_get_governor :: "'w sys_env \<Rightarrow> int \<Rightarrow> 'w sys_state \<Rightarrow> (cpu_freq_governor option \<times> 'w sys_state) option" where
  "cpu_freq_get_governor env which_cpu s =
    (if \<not> sys_mem env 16 then Some (None, s)
     else let path = cpufreq_path which_cpu ''scaling_governor'' in
      (case sys_open_text env path s of
         (None, s) \<Rightarrow> Some (None, s)
       | (Some stream, s) \<Rightarrow> do {
           (rc, buffer, _) \<leftarrow> utility_file_readln (sys_mem env) (sys_fill env) stream None 32;
           let s = sys_close_text path s
           in Some (if rc = 0 then Some \<lparr>gov_cpu = which_cpu, linux_cpu_governor_name = c_string (the buffer)\<rparr> else None, s) }))"

definition cpu_freq_restore_governor :: "'w sys_env \<Rightarrow> cpu_freq_governor \<Rightarrow> 'w sys_state \<Rightarrow> int \<times> 'w sys_state" where
  "cpu_freq_restore_governor env governor s =
    (let path = cpufreq_path (gov_cpu governor) ''scaling_governor'' in
     case sys_open_write env path s of
       (Open_denied, s) \<Rightarrow> (- 2, s)
     | (Open_failed, s) \<Rightarrow> (- 1, s)
     | (Opened, s) \<Rightarrow>
        let (rc, s) = sys_close_write env path (linux_cpu_governor_name governor) s
        in if rc \<noteq> 0 then (- 1, s) else (0, s))"

text \<open>The list of frequencies: each ends at a space; what follows the last space is no entry.\<close>

fun frequency_loop :: "string \<Rightarrow> string \<Rightarrow> u64 list" where
  "frequency_loop start [] = []"
| "frequency_loop start (c # cs) =
    (if isspace c then strtoull10 start * 1000 # frequency_loop [] cs else frequency_loop (start @ [c]) cs)"

text \<open>
  \<^verbatim>\<open>cpu_freq_available\<close>: the list, \<open>None\<close> for NULL, and its length. The list is stored without a check
  of its allocation.
\<close>

definition cpu_freq_available :: "'w sys_env \<Rightarrow> int \<Rightarrow> 'w sys_state \<Rightarrow> ((u64 list option \<times> int) \<times> 'w sys_state) option" where
  "cpu_freq_available env which_cpu s =
    (let path = cpufreq_path which_cpu ''scaling_available_frequencies'' in
     case sys_open_text env path s of
       (None, s) \<Rightarrow> Some ((None, - 1), s)
     | (Some stream, s) \<Rightarrow> do {
         (rc, buffer, _) \<leftarrow> utility_file_readln (sys_mem env) (sys_fill env) stream None 256;
         let s = sys_close_text path s in
         if rc = - 2 then Some ((None, - 1), s)
         else if rc = - 1 then Some ((None, 0), s)
         else
           let line = c_string (the buffer);
               frequency_count = length (filter isspace line) in
           if frequency_count = 0 then Some ((None, 0), s)
           else if \<not> sys_mem env (8 * frequency_count) then None
           else Some ((Some (frequency_loop [] line), int frequency_count), s) })"

definition cpu_freq_set :: "'w sys_env \<Rightarrow> int \<Rightarrow> u64 \<Rightarrow> 'w sys_state \<Rightarrow> int \<times> 'w sys_state" where
  "cpu_freq_set env which_cpu new_freq s =
    (let governor_path = cpufreq_path which_cpu ''scaling_governor'';
         speed_path = cpufreq_path which_cpu ''scaling_setspeed'' in
     case sys_open_write env governor_path s of
       (Open_denied, s) \<Rightarrow> (- 2, s)
     | (Open_failed, s) \<Rightarrow> (- 1, s)
     | (Opened, s) \<Rightarrow>
        (case sys_open_write env speed_path s of
           (Open_denied, s) \<Rightarrow> (- 2, s)
         | (Open_failed, s) \<Rightarrow> (- 1, s)
         | (Opened, s) \<Rightarrow>
            let (_, s) = sys_close_write env governor_path ''userspace'' s;
                (_, s) = sys_close_write env speed_path (fmt_lu (new_freq div 1000)) s
            in (0, s)))"

definition cpu_freq_get :: "'w sys_env \<Rightarrow> int \<Rightarrow> 'w sys_state \<Rightarrow> (u64 \<times> 'w sys_state) option" where
  "cpu_freq_get env which_cpu s =
    (let path = cpufreq_path which_cpu ''scaling_cur_freq'' in
     case sys_open_text env path s of
       (None, s) \<Rightarrow> Some (0, s)
     | (Some stream, s) \<Rightarrow> do {
         (rc, buffer, _) \<leftarrow> utility_file_readln (sys_mem env) (sys_fill env) stream None 32;
         if rc = - 1 then Some (0, s)
         else if rc = - 2 then Some (0, s)
         else Some (strtoull10 (c_string (the buffer)) * 1000, sys_close_text path s) })"

text \<open>\<^verbatim>\<open>enter_UP_mode_freq_max\<close>: the return code and the governor to restore later.\<close>

definition enter_UP_mode_freq_max :: "'w sys_env \<Rightarrow> 'w sys_state \<Rightarrow>
    ((int \<times> cpu_freq_governor option) \<times> 'w sys_state) option" where
  "enter_UP_mode_freq_max env s =
    (let (rc, s) = enter_UP_mode env s in
     if rc = - 1 then Some ((- 2, None), s)
     else do {
       ((freqs, freqs_len), s) \<leftarrow> cpu_freq_available env 0 s;
       if freqs_len \<le> 0 then Some ((- 2, None), s)
       else do {
         fs \<leftarrow> freqs;
         (default_gov, s) \<leftarrow> cpu_freq_get_governor env 0 s;
         (case default_gov of
            None \<Rightarrow> Some ((- 2, None), s)
          | Some gov \<Rightarrow>
             let (r, s) = cpu_freq_set env 0 (fs ! 0) s in
             if r = - 2 then Some ((- 1, None), s)
             else if r = - 1 then
               let (r1, s) = cpu_freq_restore_governor env gov s in Some ((- 2, None), s)
             else Some ((0, Some gov), s)) } })"

definition cpu_freq_set_max :: "'w sys_env \<Rightarrow> int \<Rightarrow> 'w sys_state \<Rightarrow> (int \<times> 'w sys_state) option" where
  "cpu_freq_set_max env which_cpu s = do {
     ((freqlist, freqlist_len), s) \<leftarrow> cpu_freq_available env which_cpu s;
     if freqlist_len = - 1 then Some (- 1, s)
     else do {
       fs \<leftarrow> freqlist;
       Some (cpu_freq_set env which_cpu (fs ! 0) s) } }"

section \<open>The last CPU\<close>

lemma count_processors_lines:
  assumes "\<forall>n. mem_ok n"
  shows "rs_fail s = None \<Longrightarrow> \<not> rs_err s \<Longrightarrow> count_processors mem_ok fill buffer s c =
    Some (- 1, c + int (length (filter (\<lambda>l. is_processor_line (c_string l))
      (if rs_eof s then [] else split_lines (rs_data s)))))"
proof (induction "length (rs_data s) + (if rs_eof s then 0 else 1)" arbitrary: s buffer c rule: less_induct)
  case less
  show ?case
  proof (cases "rs_eof s")
    case True
    then show ?thesis by (subst count_processors.simps) (simp add: utility_file_readln_def)
  next
    case False
    define t where "t = s\<lparr>rs_data := tl (dropWhile not_nl (rs_data s)), rs_eof := dropWhile not_nl (rs_data s) = []\<rparr>"
    have t: "rs_data t = tl (dropWhile not_nl (rs_data s))" "rs_eof t = (dropWhile not_nl (rs_data s) = [])"
        "rs_fail t = rs_fail s" "rs_err t = rs_err s" by (simp_all add: t_def)
    let ?l = "takeWhile not_nl (rs_data s)"
    obtain mem where r: "utility_file_readln mem_ok fill s buffer 1024 = Some (0, Some mem, t)"
      and c: "c_string mem = c_string ?l"
      using readln_line [of 1024 mem_ok s fill buffer] assms less.prems False unfolding t_def by auto
    have sh: "length (rs_data t) + (if rs_eof t then 0 else 1) < length (rs_data s) + (if rs_eof s then 0 else 1)"
      using readln_shrinks [OF r] by simp
    have lines: "split_lines (rs_data s) = ?l # (if rs_eof t then [] else split_lines (rs_data t))"
      unfolding t by (rule split_lines_unfold)
    show ?thesis
      using less.hyps [OF sh, of "Some mem"] less.prems r c False lines t(3,4)
      by (subst count_processors.simps) simp
  qed
qed

text \<open>The lines that name a processor, in a text.\<close>

definition processors :: "string \<Rightarrow> nat" where
  "processors text = length (filter (\<lambda>l. is_processor_line (c_string l)) (split_lines text))"

lemma last_cpu_eq:
  assumes "sys_files s ''/proc/cpuinfo'' = Some text" "sys_read_fail env ''/proc/cpuinfo'' = None" "\<forall>n. sys_mem env n"
  shows "get_last_cpu env s = Some (int (processors text) - 1, s)"
  using assms count_processors_lines [of "sys_mem env" "\<lparr>rs_data = text, rs_eof = False, rs_err = False, rs_fail = None\<rparr>" "sys_fill env" None 0]
  by (simp add: get_last_cpu_def sys_open_text_def sys_close_text_def processors_def)

text \<open>\<^verbatim>\<open>get_last_cpu\<close> is the number of lines of \<^verbatim>\<open>/proc/cpuinfo\<close> that name a processor, less
  one (so -1 if there is none), and leaves no stream open; \<^verbatim>\<open>unlock_me\<close> then lets the thread run on
  exactly those processors that \<^verbatim>\<open>lock_me_to_cpu\<close> can select, and fails if there are none.\<close>

theorem unlock_undoes_lock:
  assumes "sys_files s ''/proc/cpuinfo'' = Some text" "sys_read_fail env ''/proc/cpuinfo'' = None" "\<forall>n. sys_mem env n"
    and "processors text \<le> 1024" "\<forall>m. sys_affinity_ok env m \<longleftrightarrow> m \<noteq> {} \<and> m \<subseteq> {0 ..< int (processors text)}"
  shows "get_last_cpu env s = Some (int (processors text) - 1, s) \<and>
    fst (lock_me_to_cpu env cpu s) = (if 0 \<le> cpu \<and> cpu < int (processors text) then 0 else - 1) \<and>
    unlock_me env (snd (lock_me_to_cpu env cpu s)) =
      (if processors text = 0 then Some (- 1, s)
       else Some (0, s\<lparr>affinity := {0 ..< int (processors text)}\<rparr>))"
proof -
  let ?n = "processors text" let ?s = "snd (lock_me_to_cpu env cpu s)"
  have l: "get_last_cpu env ?s = Some (int ?n - 1, ?s)"
    using last_cpu_eq [of ?s] assms(1-3) by (simp add: lock_me_to_cpu_def)
  have bit: "sys_affinity_ok env (cpu_bit cpu) \<longleftrightarrow> 0 \<le> cpu \<and> cpu < int ?n"
    using assms(4,5) by (auto simp: cpu_bit_def)
  have u: "(\<Union>i \<in> {0 .. int ?n - 1}. cpu_bit i) = {0 ..< int ?n}" using assms(4) by (auto simp: cpu_bit_def)
  have ok: "sys_affinity_ok env {0 ..< int ?n}" if "?n \<noteq> 0" using assms(5) that by simp
  have "unlock_me env ?s = (if ?n = 0 then Some (- 1, ?s) else Some (0, ?s\<lparr>affinity := {0 ..< int ?n}\<rparr>))"
    using l u ok by (simp add: unlock_me_def)
  then show ?thesis using last_cpu_eq [OF assms(1-3)] bit by (auto simp: lock_me_to_cpu_def)
qed

definition sample_cpuinfo :: string where
  "sample_cpuinfo = ''processor : 0\<newline>model name : x\<newline>\<newline>processor: 1\<newline>processors: 2\<newline>''"

text \<open>A system whose files read as what was last written to them.\<close>

definition plain_env :: "nat sys_env" where
  "plain_env = \<lparr>sys_write = (\<lambda>path text files. files(path \<mapsto> text @ [CHR 0x0A])), sys_fopen_w = (\<lambda>_. Opened),
     sys_close_ok = (\<lambda>_. True), sys_read_fail = (\<lambda>_. None), sys_mem = (\<lambda>_. True), sys_fill = CHR 0x00,
     sys_affinity_ok = (\<lambda>m. m \<noteq> {} \<and> m \<subseteq> {0 ..< 2}), sys_thread_ok = (True, True),
     sys_clock = (\<lambda>w. (Some \<lparr>tv_sec = of_nat w, tv_nsec = 0\<rparr>, w)), sys_spin = (\<lambda>n w. w + n), sys_round = id\<rparr>"

lemma plain_env_simps [simp]:
  "sys_write plain_env path text files = files(path \<mapsto> text @ [CHR 0x0A])" "sys_fopen_w plain_env path = Opened"
  "sys_close_ok plain_env path" "sys_read_fail plain_env path = None" "sys_mem plain_env n"
  "sys_affinity_ok plain_env m \<longleftrightarrow> m \<noteq> {} \<and> m \<subseteq> {0 ..< 2}"
  by (simp_all add: plain_env_def)

definition plain_state :: "(string \<Rightarrow> string option) \<Rightarrow> nat sys_state" where
  "plain_state files = \<lparr>sys_files = files, sys_open = [], affinity = {}, sys_world = 0\<rparr>"

lemma plain_state_simps [simp]: "sys_files (plain_state files) = files" "sys_open (plain_state files) = []"
  by (simp_all add: plain_state_def)

theorem unlock_undoes_lock_witness:
  "unlock_me plain_env (snd (lock_me_to_cpu plain_env 1 (plain_state [''/proc/cpuinfo'' \<mapsto> sample_cpuinfo]))) =
     Some (0, (plain_state [''/proc/cpuinfo'' \<mapsto> sample_cpuinfo])\<lparr>affinity := {0 ..< 2}\<rparr>)"
proof -
  have p: "processors sample_cpuinfo = 2"
    by (simp add: processors_def sample_cpuinfo_def is_processor_line_def c_string_def isspace_def)
  show ?thesis
    using unlock_undoes_lock [of "plain_state [''/proc/cpuinfo'' \<mapsto> sample_cpuinfo]" sample_cpuinfo plain_env 1] by (simp add: p)
qed

section \<open>Setting the frequency\<close>

text \<open>The first line of a file.\<close>

definition first_line :: "string \<Rightarrow> string" where
  "first_line text = c_string (takeWhile not_nl text)"

lemma readln_first:
  assumes "sys_read_fail env path = None" "\<forall>n. sys_mem env n" "0 < inc"
  shows "\<exists>mem s1. utility_file_readln (sys_mem env) (sys_fill env)
      \<lparr>rs_data = text, rs_eof = False, rs_err = False, rs_fail = sys_read_fail env path\<rparr> None inc = Some (0, Some mem, s1) \<and>
    c_string mem = first_line text"
  using readln_line [of inc "sys_mem env" "\<lparr>rs_data = text, rs_eof = False, rs_err = False, rs_fail = sys_read_fail env path\<rparr>"
      "sys_fill env" None] assms by (auto simp: first_line_def)

lemma get_governor_eq:
  assumes "sys_files s (cpufreq_path cpu ''scaling_governor'') = Some text"
    "sys_read_fail env (cpufreq_path cpu ''scaling_governor'') = None" "\<forall>n. sys_mem env n"
  shows "cpu_freq_get_governor env cpu s = Some (Some \<lparr>gov_cpu = cpu, linux_cpu_governor_name = first_line text\<rparr>, s)"
  using readln_first [OF assms(2,3), of 32 "text"] assms
  by (auto simp: cpu_freq_get_governor_def sys_open_text_def sys_close_text_def Let_def)

lemma length_frequency_loop: "length (frequency_loop start cs) = length (filter isspace cs)"
  by (induction start cs rule: frequency_loop.induct) simp_all

lemma available_eq:
  assumes "sys_files s (cpufreq_path cpu ''scaling_available_frequencies'') = Some text"
    "sys_read_fail env (cpufreq_path cpu ''scaling_available_frequencies'') = None" "\<forall>n. sys_mem env n"
  shows "cpu_freq_available env cpu s = Some
    (let fs = frequency_loop [] (first_line text) in (if fs = [] then (None, 0) else (Some fs, int (length fs)), s))"
proof -
  let ?fs = "frequency_loop [] (first_line text)"
  have "?fs = [] \<longleftrightarrow> length (filter isspace (first_line text)) = 0"
    using length_frequency_loop [of "[]" "first_line text"] by (metis length_0_conv)
  then show ?thesis
    using readln_first [OF assms(2,3), of 256 "text"] assms length_frequency_loop [of "[]" "first_line text"]
    by (auto simp: cpu_freq_available_def sys_open_text_def sys_close_text_def Let_def)
qed

text \<open>The list of frequencies the file gives: entries that end in a space.\<close>

lemma frequency_loop_app:
  "\<forall>c \<in> set w. \<not> isspace c \<Longrightarrow> frequency_loop start (w @ cs) = frequency_loop (start @ w) cs"
  by (induction w arbitrary: start) simp_all

lemma frequency_words:
  "\<forall>w \<in> set ws. \<forall>c \<in> set w. \<not> isspace c \<Longrightarrow>
   frequency_loop [] (concat (map (\<lambda>w. w @ '' '') ws)) = map (\<lambda>w. strtoull10 w * 1000) ws"
  by (induction ws) (simp_all add: frequency_loop_app isspace_def)


definition sample_sysfs :: "string \<Rightarrow> string option" where
  "sample_sysfs = [cpufreq_path 0 ''scaling_governor'' \<mapsto> ''ondemand\<newline>'',
     cpufreq_path 0 ''scaling_available_frequencies'' \<mapsto> ''2000 800 \<newline>'']"


text \<open>Three failures of the functions on the frequency. If the file of the frequency cannot be
  opened, \<^verbatim>\<open>cpu_freq_set\<close> writes nothing, but never closes the stream of the governor it opened
  first, and \<^verbatim>\<open>enter_UP_mode_freq_max\<close> then returns without a governor. If the current frequency
  cannot be read, \<^verbatim>\<open>cpu_freq_get\<close> returns zero and never closes its stream. If the CPU has no list of
  frequencies, which the documentation allows, \<^verbatim>\<open>cpu_freq_set_max\<close> reads through the NULL pointer.\<close>

theorem frequency_failures:
  assumes "\<forall>n. sys_mem env n"
  shows "(sys_fopen_w env (cpufreq_path cpu ''scaling_governor'') = Opened \<and>
      sys_fopen_w env (cpufreq_path cpu ''scaling_setspeed'') = Open_denied \<longrightarrow>
      cpu_freq_set env cpu freq s = (- 2, s\<lparr>sys_open := cpufreq_path cpu ''scaling_governor'' # sys_open s\<rparr>)) \<and>
    (sys_files s (cpufreq_path cpu ''scaling_cur_freq'') = Some content \<and>
      sys_read_fail env (cpufreq_path cpu ''scaling_cur_freq'') = Some 0 \<longrightarrow>
      cpu_freq_get env cpu s = Some (0, s\<lparr>sys_open := cpufreq_path cpu ''scaling_cur_freq'' # sys_open s\<rparr>)) \<and>
    (sys_files s (cpufreq_path cpu ''scaling_available_frequencies'') = Some [] \<and>
      sys_read_fail env (cpufreq_path cpu ''scaling_available_frequencies'') = None \<longrightarrow>
      cpu_freq_available env cpu s = Some ((None, 0), s) \<and> cpu_freq_set_max env cpu s = None)"
proof (intro conjI impI)
  assume "sys_fopen_w env (cpufreq_path cpu ''scaling_governor'') = Opened \<and>
      sys_fopen_w env (cpufreq_path cpu ''scaling_setspeed'') = Open_denied"
  then show "cpu_freq_set env cpu freq s = (- 2, s\<lparr>sys_open := cpufreq_path cpu ''scaling_governor'' # sys_open s\<rparr>)"
    by (simp add: cpu_freq_set_def sys_open_write_def Let_def)
next
  assume "sys_files s (cpufreq_path cpu ''scaling_cur_freq'') = Some content \<and>
      sys_read_fail env (cpufreq_path cpu ''scaling_cur_freq'') = Some 0"
  then show "cpu_freq_get env cpu s = Some (0, s\<lparr>sys_open := cpufreq_path cpu ''scaling_cur_freq'' # sys_open s\<rparr>)"
    using assms by (simp add: cpu_freq_get_def sys_open_text_def utility_file_readln_def line_buffer_def
      readln_loop.simps [of _ _ _ _ 0] fgetc_def)
next
  assume "sys_files s (cpufreq_path cpu ''scaling_available_frequencies'') = Some [] \<and>
      sys_read_fail env (cpufreq_path cpu ''scaling_available_frequencies'') = None"
  then show a: "cpu_freq_available env cpu s = Some ((None, 0), s)" "cpu_freq_set_max env cpu s = None"
    using available_eq [of s cpu "[]" env] assms by (simp_all add: cpu_freq_set_max_def first_line_def c_string_def)
qed

theorem frequency_failures_witness:
  "cpu_freq_set_max plain_env 3 (plain_state [cpufreq_path 3 ''scaling_available_frequencies'' \<mapsto> []]) = None \<and>
   sys_open (snd (cpu_freq_set (plain_env\<lparr>sys_fopen_w := (\<lambda>path. if path = cpufreq_path 3 ''scaling_governor'' then Opened else Open_denied)\<rparr>)
     3 1000 (plain_state Map.empty))) = [cpufreq_path 3 ''scaling_governor'']"
  using frequency_failures [of plain_env 3 1000 "plain_state [cpufreq_path 3 ''scaling_available_frequencies'' \<mapsto> []]"]
    frequency_failures [of "plain_env\<lparr>sys_fopen_w := (\<lambda>path. if path = cpufreq_path 3 ''scaling_governor'' then Opened else Open_denied)\<rparr>"
      3 1000 "plain_state Map.empty"]
  by (simp add: cpufreq_path_def)

end
