(* ===== verification/Utility_Busyloop.thy ===== *)
theory Utility_Busyloop
  imports Utility_CPU
begin

text \<open>
  Keeping a CPU busy for a given time (\<^verbatim>\<open>utility_cpu.c\<close>): the busy loop, its measurement, the search
  for the number of repetitions that takes a given time, and the object made of it.
\<close>

section \<open>The busy loop\<close>

lemma counts_down: "(i :: u32) + 1 \<noteq> n \<Longrightarrow> unat (n - (i + 1) - 1) < unat (n - i - 1)"
proof -
  assume "i + 1 \<noteq> n"
  then have "n - i - 1 \<noteq> 0" by (auto simp: algebra_simps)
  then have "unat (n - i - 1 - 1) < unat (n - i - 1)"
    by (metis diff_less measure_unat unat_minus_one unat_gt_0 zero_less_one)
  then show ?thesis by (simp add: algebra_simps)
qed

text \<open>
  The instructions count in 32 bits and stop when the counter is equal to the low half of the
  argument; the number of repetitions.
\<close>

function busyloop_iterations :: "u32 \<Rightarrow> u32 \<Rightarrow> nat" where
  "busyloop_iterations i loop_count =
    (if i + 1 = loop_count then 1 else Suc (busyloop_iterations (i + 1) loop_count))"
  by pat_completeness auto
termination
  by (relation "measure (\<lambda>(i, n). unat (n - i - 1))") (use counts_down in auto)

declare busyloop_iterations.simps [simp del]

definition busyloop :: "'w sys_env \<Rightarrow> 'l::len word \<Rightarrow> 'w \<Rightarrow> 'w" where
  "busyloop env loop_count w = sys_spin env (busyloop_iterations 0 (ucast loop_count)) w"

section \<open>Floating point\<close>

definition timespec_to_sec :: "(rat \<Rightarrow> rat) \<Rightarrow> timespec \<Rightarrow> rat" where
  "timespec_to_sec rnd t =
     rnd (rnd (of_int (sint (tv_sec t))) + rnd (rnd (of_int (sint (tv_nsec t))) / 1000000000))"

text \<open>The conversion to an integer is undefined out of its range.\<close>

definition duration_to_loop_count :: "(rat \<Rightarrow> rat) \<Rightarrow> u64 \<Rightarrow> rat \<Rightarrow> u64 option" where
  "duration_to_loop_count rnd frequency duration =
    (let x = rnd (rnd (of_nat (unat frequency)) * duration) in
     if - 1 < x \<and> x < 2 ^ 64 then Some (if x < 0 then 0 else of_int \<lfloor>x\<rfloor>) else None)"

definition busyloop_measurement :: "'w sys_env \<Rightarrow> 'l::len word \<Rightarrow> 'w \<Rightarrow> rat \<times> 'w" where
  "busyloop_measurement env loop_count w =
    (let (c0, w) = sys_clock env w;
         (c1, w) = sys_clock env w;
         (t_begin, w) = sys_clock env w;
         (t_end, w) = sys_clock env w;
         (u_begin, w) = sys_clock env w;
         w = busyloop env loop_count w;
         (u_end, w) = sys_clock env w;
         sec = timespec_to_sec (sys_round env) in
     if None \<in> {c0, c1, t_begin, t_end, u_begin, u_end} then (- 1, w)
     else
       let adjustment = sys_round env (sec (the t_end) - sec (the t_begin));
           actual_duration = sys_round env (sec (the u_end) - sec (the u_begin))
       in (sys_round env (actual_duration - adjustment), w))"

section \<open>The search\<close>

text \<open>\<^verbatim>\<open>unsigned long\<close> has \<open>LENGTH('l)\<close> bits; a shift by the 64 bits of \<^verbatim>\<open>unsigned long long\<close> is undefined.\<close>

definition loop_count_too_long :: "'l::len itself \<Rightarrow> u64 \<Rightarrow> bool option" where
  "loop_count_too_long T loop_count =
    (if LENGTH('l) < 64 then Some (push_bit LENGTH('l) 1 - 1 < loop_count) else None)"

text \<open>The loop from pass \<open>nth_pass\<close> on: exit status, loop count and world. The number of the pass is an \<^verbatim>\<open>int\<close>.\<close>

function busyloop_search :: "'w sys_env \<Rightarrow> rat \<Rightarrow> rat \<Rightarrow> u32 \<Rightarrow> u64 \<Rightarrow> nat \<Rightarrow> 'l::len word \<Rightarrow> 'w \<Rightarrow>
    (int \<times> 'l word \<times> 'w) option" where
  "busyloop_search env duration search_tolerance search_max_passes curr_freq nth_pass loop_count w =
    (if unat search_max_passes < nth_pass then Some (0, loop_count, w)
     else if 2 ^ 31 \<le> nth_pass then None
     else
       let (actual_duration, w1) = busyloop_measurement env loop_count w in
       if actual_duration < 0 then Some (- 3, loop_count, w1)
       else if nth_pass = unat search_max_passes then Some (0, loop_count, w1)
       else
         let delta = sys_round env (actual_duration - duration) in
         if delta < 0 then
           if - search_tolerance \<le> delta then Some (0, loop_count, w1)
           else do {
             d \<leftarrow> duration_to_loop_count (sys_round env) curr_freq (- delta);
             if ucast (loop_count div 10) < d then Some (- 3, loop_count, w1)
             else do {
               too_long \<leftarrow> loop_count_too_long TYPE('l) (ucast loop_count);
               if too_long then Some (- 4, loop_count, w1)
               else busyloop_search env duration search_tolerance search_max_passes curr_freq (nth_pass + 1)
                 (loop_count + ucast d) w1 } }
         else
           if delta \<le> search_tolerance then Some (0, loop_count, w1)
           else do {
             d \<leftarrow> duration_to_loop_count (sys_round env) curr_freq delta;
             if ucast loop_count < d then Some (- 2, loop_count, w1)
             else busyloop_search env duration search_tolerance search_max_passes curr_freq (nth_pass + 1)
               (loop_count - ucast d) w1 })"
  by pat_completeness auto
termination
  by (relation "measure (\<lambda>(_, _, _, m, _, k, _, _). unat m + 1 - k)") auto

declare busyloop_search.simps [simp del]

text \<open>\<^verbatim>\<open>busyloop_search_thread\<close>: a thread of its own, locked to the CPU, with the highest priority.\<close>

definition busyloop_search_thread :: "'w sys_env \<Rightarrow> sched_env \<Rightarrow> sched_class \<Rightarrow> int \<Rightarrow> rat \<Rightarrow> rat \<Rightarrow> u32 \<Rightarrow> u64 \<Rightarrow>
    'l::len word \<Rightarrow> 'w sys_state \<Rightarrow> (int \<times> 'l word \<times> 'w) option" where
  "busyloop_search_thread env senv class which_cpu duration tolerance max_passes curr_freq loop_count s =
    (if fst (lock_me_to_cpu env which_cpu s) \<noteq> 0 then Some (- 3, loop_count, sys_world s)
     else
       let rc = fst (sched_fifo_enter_max senv class None) in
       if rc = 0 then busyloop_search env duration tolerance max_passes curr_freq 1 loop_count (sys_world s)
       else if rc = - 1 then Some (- 1, loop_count, sys_world s)
       else Some (- 3, loop_count, sys_world s))"

section \<open>The object\<close>

record 'n cpu_busyloop =
  bl_which_cpu :: int
  bl_frequency :: u64
  bl_loop_count :: 'n
  bl_duration :: utility_time

text \<open>What \<^verbatim>\<open>*result\<close> is set to, if it is.\<close>

datatype 'n busyloop_result = Not_set | Set_null | Busyloop "'n cpu_busyloop"

definition create_cpu_busyloop :: "'w sys_env \<Rightarrow> sched_env \<Rightarrow> sched_class \<Rightarrow> int \<Rightarrow> time_ptr \<Rightarrow> time_ptr \<Rightarrow> u32 \<Rightarrow>
    time_store \<Rightarrow> 'w sys_state \<Rightarrow> ((int \<times> 'l::len word busyloop_result) \<times> time_store \<times> 'w sys_state) option" where
  "create_cpu_busyloop env senv class which_cpu duration search_tolerance search_max_passes h s = do {
     (curr_freq, s) \<leftarrow> cpu_freq_get env which_cpu s;
     d \<leftarrow> load duration h;
     let secs = timespec_to_sec (sys_round env) (to_timespec d) in do {
     loop_count \<leftarrow> duration_to_loop_count (sys_round env) curr_freq secs;
     too_long \<leftarrow> loop_count_too_long TYPE('l) loop_count;
     if too_long then Some ((- 4, Not_set), h, s)
     else do {
       (rc, loop_count, s) \<leftarrow>
         (if 0 < search_max_passes then do {
            tol \<leftarrow> load search_tolerance h;
            if \<not> fst (sys_thread_ok env) then Some (- 3, loop_count, s)
            else do {
              (exit_status, n :: 'l word, w) \<leftarrow> busyloop_search_thread env senv class which_cpu secs
                (timespec_to_sec (sys_round env) (to_timespec tol)) search_max_passes curr_freq (ucast loop_count) s;
              let s = s\<lparr>sys_world := w\<rparr> in
              if \<not> snd (sys_thread_ok env) then Some (- 3, loop_count, s)
              else if exit_status \<noteq> 0 then Some (exit_status, loop_count, s)
              else Some (0, ucast n, s) } }
          else Some (0, loop_count, s));
       if rc \<noteq> 0 then Some ((rc, Set_null), h, s)
       else if \<not> sys_mem env 40 then Some ((- 3, Set_null), h, s)
       else do {
         u \<leftarrow> load duration h;
         h \<leftarrow> utility_time_gc_auto duration h;
         h \<leftarrow> utility_time_gc_auto search_tolerance h;
         Some ((0, Busyloop \<lparr>bl_which_cpu = which_cpu, bl_frequency = curr_freq, bl_loop_count = ucast loop_count,
           bl_duration = utility_time_to_utility_time u utility_time_init\<rparr>), h, s) } } } }"

definition cpu_busyloop_id :: "'l::len word cpu_busyloop \<Rightarrow> int" where
  "cpu_busyloop_id obj = bl_which_cpu obj"

definition cpu_busyloop_frequency :: "'l::len word cpu_busyloop \<Rightarrow> u64" where
  "cpu_busyloop_frequency obj = bl_frequency obj"

definition cpu_busyloop_duration :: "'l::len word cpu_busyloop \<Rightarrow> time_store \<Rightarrow> (time_ptr \<times> time_store) option" where
  "cpu_busyloop_duration obj =
     fill_dyn (\<lambda>p h. do { c \<leftarrow> load p h; store p (utility_time_to_utility_time (bl_duration obj) c) h })"

definition keep_cpu_busy :: "'w sys_env \<Rightarrow> 'l::len word cpu_busyloop \<Rightarrow> 'w \<Rightarrow> 'w" where
  "keep_cpu_busy env arg w = busyloop env (bl_loop_count arg) w"

section \<open>How long the loop runs\<close>

lemma busyloop_runs: "busyloop_iterations i n = Suc (unat (n - i - 1))"
proof (induction i n rule: busyloop_iterations.induct)
  case (1 i n)
  show ?case
  proof (cases "i + 1 = n")
    case True
    then have "n - i - 1 = 0" by auto
    then show ?thesis using True by (subst busyloop_iterations.simps) simp
  next
    case False
    then have nz: "n - i - 1 \<noteq> 0" by (auto simp: algebra_simps)
    have "unat (n - (i + 1) - 1) = unat (n - i - 1) - 1" using nz unat_minus_one [OF nz] by (simp add: algebra_simps)
    then show ?thesis using 1 [OF False] False nz by (subst busyloop_iterations.simps) (simp add: unat_gt_0)
  qed
qed

lemma busyloop_count:
  "busyloop_iterations 0 n = (if n = 0 then 2 ^ 32 else unat n)"
proof (cases "n = 0")
  case True
  then show ?thesis by (simp add: busyloop_runs unsigned_minus_1_eq_mask mask_eq_exp_minus_1)
next
  case False
  then show ?thesis using unat_minus_one [OF False] by (simp add: busyloop_runs unat_gt_0)
qed

section \<open>What the search returns\<close>

lemma loop_count_fits:
  "LENGTH('l) < 64 \<Longrightarrow> loop_count_too_long TYPE('l) (ucast (n :: 'l::len word)) = Some False"
proof -
  assume l: "LENGTH('l) < 64"
  have "uint n < 2 ^ LENGTH('l)" by (rule unsigned_less)
  moreover have "uint (push_bit LENGTH('l) 1 - 1 :: u64) = 2 ^ LENGTH('l) - 1"
    using l uint_mask_eq [where 'a = 64, of "LENGTH('l)"] by (simp add: push_bit_of_1 mask_eq_exp_minus_1)
  moreover have "uint (ucast n :: u64) = uint n"
    using l by (intro uint_up_ucast) (simp add: is_up)
  ultimately have "\<not> (push_bit LENGTH('l) 1 - 1 < (ucast n :: u64))" unfolding word_less_def by linarith
  then show ?thesis using l by (simp add: loop_count_too_long_def)
qed

text \<open>Measuring the loop counts of a list one after the other.\<close>

fun measured :: "'w sys_env \<Rightarrow> 'l::len word list \<Rightarrow> 'w \<Rightarrow> (rat \<times> 'w)" where
  "measured env [] w = (0, w)"
| "measured env [n] w = busyloop_measurement env n w"
| "measured env (n # ns) w = measured env ns (snd (busyloop_measurement env n w))"

lemma measured_Cons: "ns \<noteq> [] \<Longrightarrow> measured env (n # ns) w = measured env ns (snd (busyloop_measurement env n w))"
  by (cases ns) simp_all

definition close_enough :: "'w sys_env \<Rightarrow> rat \<Rightarrow> rat \<Rightarrow> rat \<Rightarrow> bool" where
  "close_enough env duration tolerance actual \<longleftrightarrow>
     (let delta = sys_round env (actual - duration) in - tolerance \<le> delta \<and> delta \<le> tolerance)"

text \<open>One pass: it is the last, or the search goes on with another loop count.\<close>

lemma search_pass:
  assumes "busyloop_search env duration tol m freq k (n :: 'l::len word) w = Some (rc, n1, w1)"
    "k \<le> unat m" "LENGTH('l) < 64" "busyloop_measurement env n w = (actual, w2)" "0 \<le> tol"
  shows "n1 = n \<and> w1 = w2 \<and> (rc = 0 \<and> 0 \<le> actual \<and> (close_enough env duration tol actual \<or> k = unat m) \<or> rc = - 2 \<or> rc = - 3) \<or>
    k < unat m \<and> (\<exists>n2. busyloop_search env duration tol m freq (Suc k) n2 w2 = Some (rc, n1, w1))"
proof -
  let ?d = "sys_round env (actual - duration)"
  have "\<not> unat m < k" "k < 2 ^ 31" using assms(1,2)
    by (simp, subst (asm) busyloop_search.simps) (auto split: if_splits)
  then show ?thesis
    using assms(1,2,4,5) loop_count_fits [OF assms(3), of n] unfolding close_enough_def Let_def
    by (subst (asm) busyloop_search.simps) (auto simp: Let_def split: if_splits bind_splits)
qed

lemma search_from:
  assumes "busyloop_search env duration tol m freq k (n :: 'l::len word) w = Some (rc, n1, w1)"
    "k \<le> unat m" "LENGTH('l) < 64" "0 \<le> tol"
  shows "\<exists>ns. length ns + k \<le> Suc (unat m) \<and> ns \<noteq> [] \<and> hd ns = n \<and> last ns = n1 \<and> w1 = snd (measured env ns w) \<and>
    (rc = 0 \<and> 0 \<le> fst (measured env ns w) \<and>
       (close_enough env duration tol (fst (measured env ns w)) \<or> length ns + k = Suc (unat m)) \<or>
     rc = - 2 \<or> rc = - 3)"
  using assms(1,2)
proof (induction "unat m - k" arbitrary: k n w)
  case 0
  obtain actual w2 where ms: "busyloop_measurement env n w = (actual, w2)" by fastforce
  from search_pass [OF 0(2,3) assms(3) ms assms(4)] show ?case
    using 0(1,3) ms by (intro exI [of _ "[n]"]) auto
next
  case (Suc j)
  obtain actual w2 where ms: "busyloop_measurement env n w = (actual, w2)" by fastforce
  from search_pass [OF Suc(3,4) assms(3) ms assms(4)] show ?case
  proof (elim disjE conjE)
    assume "k < unat m" "\<exists>n2. busyloop_search env duration tol m freq (Suc k) n2 w2 = Some (rc, n1, w1)"
    then obtain n2 where n2: "busyloop_search env duration tol m freq (Suc k) n2 w2 = Some (rc, n1, w1)" "k < unat m" by blast
    then obtain ns where ns: "length ns + Suc k \<le> Suc (unat m)" "ns \<noteq> []" "hd ns = n2" "last ns = n1"
      "w1 = snd (measured env ns w2)"
      "rc = 0 \<and> 0 \<le> fst (measured env ns w2) \<and>
        (close_enough env duration tol (fst (measured env ns w2)) \<or> length ns + Suc k = Suc (unat m)) \<or> rc = - 2 \<or> rc = - 3"
      using Suc(1) [of "Suc k" n2 w2] Suc(2) by fastforce
    then show ?thesis using ms measured_Cons [OF ns(2), of env n w] by (intro exI [of _ "n # ns"]) auto
  qed (use ms Suc(4) in \<open>intro exI [of _ "[n]"], simp\<close>)+
qed

text \<open>The search returns unless a product of a frequency and a duration is out of range.\<close>

lemma search_returns:
  fixes n :: "'l::len word"
  assumes "LENGTH('l) < 64" "unat m < 2 ^ 31" "0 < k"
    and "\<And>(n :: 'l word) w x. 0 \<le> fst (busyloop_measurement env n w) \<Longrightarrow> \<bar>x\<bar> = \<bar>sys_round env (fst (busyloop_measurement env n w) - duration)\<bar> \<Longrightarrow> 0 \<le> x \<Longrightarrow>
      duration_to_loop_count (sys_round env) freq x \<noteq> None"
  shows "busyloop_search env duration tol m freq k n w \<noteq> None"
  using assms(2,3)
proof (induction "Suc (unat m) - k" arbitrary: k n w)
  case 0
  then show ?case by (subst busyloop_search.simps) simp
next
  case (Suc j)
  obtain actual w2 where ms: "busyloop_measurement env n w = (actual, w2)" by fastforce
  let ?d = "sys_round env (actual - duration)"
  have d: "0 \<le> actual \<Longrightarrow> ?d < 0 \<Longrightarrow> duration_to_loop_count (sys_round env) freq (- ?d) \<noteq> None"
    "0 \<le> actual \<Longrightarrow> \<not> ?d < 0 \<Longrightarrow> duration_to_loop_count (sys_round env) freq ?d \<noteq> None"
    using assms(4) [of n w "- ?d"] assms(4) [of n w ?d] ms by simp_all
  have IH: "\<exists>r. busyloop_search env duration tol m freq (Suc k) n2 w2 = Some r" for n2 :: "'l word"
    using Suc(1) [of "Suc k" n2 w2] Suc(2-4) by auto
  show ?case
    using ms d IH Suc(2-4) loop_count_fits [OF assms(1), of n]
    by (cases "actual < 0"; cases "?d < 0"; subst busyloop_search.simps) (auto simp: Let_def split: bind_splits)
qed

text \<open>Claim C19. Where \<^verbatim>\<open>unsigned long\<close> is shorter than 64 bits, and as long as frequencies times
  durations are below $2^{64}$, the search returns after at most \<^verbatim>\<open>search_max_passes\<close>
  measurements. If it returns zero, the loop count it leaves is the one it measured last, and
  that measurement was within the tolerance, or the last pass; otherwise it returns -2 or -3, never
  the -4 that the test for a count that is too long is there for. The busy loop itself ends for every
  count, after \<open>loop_count\<close> repetitions, but after $2^{32}$ if it is zero.\<close>

theorem busyloop_search_result:
  fixes n :: "'l::len word"
  assumes "LENGTH('l) < 64" "0 < m" "unat m < 2 ^ 31" "0 \<le> tol"
    and "\<forall>(n :: 'l word) w x. 0 \<le> fst (busyloop_measurement env n w) \<and> \<bar>x\<bar> = \<bar>sys_round env (fst (busyloop_measurement env n w) - duration)\<bar> \<and> 0 \<le> x \<longrightarrow>
      duration_to_loop_count (sys_round env) freq x \<noteq> None"
  shows "(\<exists>rc ns w1. busyloop_search env duration tol m freq 1 n w = Some (rc, last ns, w1) \<and>
      hd ns = n \<and> 0 < length ns \<and> length ns \<le> unat m \<and> w1 = snd (measured env ns w) \<and>
      (rc = 0 \<and> 0 \<le> fst (measured env ns w) \<and>
         (close_enough env duration tol (fst (measured env ns w)) \<or> length ns = unat m) \<or> rc = - 2 \<or> rc = - 3)) \<and>
    busyloop_iterations 0 c = (if c = 0 then 2 ^ 32 else unat c)"
proof (rule conjI)
  obtain rc n1 w1 where r: "busyloop_search env duration tol m freq 1 n w = Some (rc, n1, w1)"
    using search_returns [OF assms(1,3), of 1 env duration freq tol n w] assms(5) by auto
  have "1 \<le> unat m" using assms(2) by (simp add: word_less_nat_alt)
  from search_from [OF r this assms(1,4)] r
  show "\<exists>rc ns w1. busyloop_search env duration tol m freq 1 n w = Some (rc, last ns, w1) \<and>
      hd ns = n \<and> 0 < length ns \<and> length ns \<le> unat m \<and> w1 = snd (measured env ns w) \<and>
      (rc = 0 \<and> 0 \<le> fst (measured env ns w) \<and>
         (close_enough env duration tol (fst (measured env ns w)) \<or> length ns = unat m) \<or> rc = - 2 \<or> rc = - 3)"
    by fastforce
qed (rule busyloop_count)

text \<open>A CPU that repeats the loop once a second, and the search for five seconds from seven repetitions.\<close>

lemma plain_measurement:
  "busyloop_measurement plain_env (n :: u32) w =
    (rat_of_int (sint (word_of_nat (w + busyloop_iterations 0 n) :: i64)) - rat_of_int (sint (word_of_nat w :: i64)), w + busyloop_iterations 0 n)"
  by (simp add: busyloop_measurement_def busyloop_def plain_env_def timespec_to_sec_def)

lemma plain_duration:
  assumes "0 \<le> fst (busyloop_measurement plain_env (n :: u32) w)" "\<bar>x\<bar> = \<bar>fst (busyloop_measurement plain_env n w) - 5\<bar>" "0 \<le> x"
  shows "duration_to_loop_count (sys_round plain_env) 1 x \<noteq> None"
proof -
  let ?a = "word_of_nat (w + busyloop_iterations 0 n) :: i64" let ?b = "word_of_nat w :: i64"
  have "sint ?a < 2 ^ 63" "- (2 ^ 63) \<le> sint ?b"
    using sint_lt [of ?a] sint_ge [of ?b] by simp_all
  then have "sint ?a - sint ?b < 2 ^ 64" by simp
  then have "rat_of_int (sint ?a - sint ?b) < rat_of_int (2 ^ 64)"
    by (simp only: of_int_less_iff)
  then have "fst (busyloop_measurement plain_env n w) < 2 ^ 64" by (simp add: plain_measurement)
  then have "x < 2 ^ 64" using assms by (simp add: abs_if split: if_splits)
  then show ?thesis using assms(3) by (simp add: duration_to_loop_count_def plain_env_def)
qed

theorem busyloop_search_result_witness:
  "\<exists>ns :: u32 list. busyloop_search plain_env 5 0 3 1 1 (7 :: u32) 0 = Some (0, 5, 12) \<and> last ns = 5 \<and> hd ns = 7 \<and> length ns \<le> 3 \<and>
    snd (measured plain_env ns 0) = 12 \<and> busyloop_iterations 0 9 = 9"
proof -
  have c: "busyloop_iterations 0 7 = 7" "busyloop_iterations 0 5 = 5" by (simp_all add: busyloop_count)
  have r: "sys_round plain_env = id" by (simp add: plain_env_def)
  have rr: "sys_round plain_env x = x" for x by (simp add: r)
  have s2: "busyloop_search plain_env 5 0 3 1 2 (5 :: u32) 7 = Some (0, 5, 12)"
    by (subst busyloop_search.simps) (simp add: plain_measurement c r)
  have e: "busyloop_search plain_env 5 0 3 1 1 (7 :: u32) 0 = Some (0, 5, 12)"
    by (subst busyloop_search.simps) (simp add: plain_measurement c r duration_to_loop_count_def s2 s2 [unfolded numeral_2_eq_2])
  have all: "\<forall>(n :: u32) w x. 0 \<le> fst (busyloop_measurement plain_env n w) \<and>
      \<bar>x\<bar> = \<bar>sys_round plain_env (fst (busyloop_measurement plain_env n w) - 5)\<bar> \<and> 0 \<le> x \<longrightarrow>
      duration_to_loop_count (sys_round plain_env) 1 x \<noteq> None"
    by (metis plain_duration rr)
  from busyloop_search_result [OF _ _ _ _ all, where m = 3 and tol = 0 and n = 7 and w = 0 and c = 9]
  obtain rc ns w1 where ns: "busyloop_search plain_env 5 0 3 1 1 (7 :: u32) 0 = Some (rc, last ns, w1)" "hd ns = 7"
    "length ns \<le> 3" "w1 = snd (measured plain_env ns 0)" "busyloop_iterations 0 9 = 9" by auto
  then have "last ns = 5" "w1 = 12" using e by simp_all
  then show ?thesis using e ns by (intro exI [of _ ns]) simp
qed

end
