(* ===== verification/Bwi_Server.thy ===== *)
theory Bwi_Server
  imports C_Strings Utility_Busyloop
begin

text \<open>
  The server of the experiments with bandwidth inheritance (\<^verbatim>\<open>bwi-client_server/server.c\<close>): its options,
  the signal handler that switches it to \<^verbatim>\<open>SCHED_FIFO\<close> and back, and the loop that answers a packet
  after keeping the CPU busy, possibly with the answer of a subserver to which it lends its bandwidth
  during the call.

  The sockets, the two system calls of bandwidth inheritance, and the signals are operations of an
  environment on a world; the calls that are visible outside are also recorded in a trace.
  A buffer is the list of its bytes, of length 65535, and the size of the packet in it.
\<close>

section \<open>Options\<close>

record server_options =
  processing_duration_ms :: int
  server_port :: int
  cbs_budget_ms :: int
  cbs_period_ms :: int
  subserver_port :: int
  subserver_pid :: int

definition server_defaults :: server_options where
  "server_defaults = \<lparr>processing_duration_ms = - 1, server_port = - 1, cbs_budget_ms = - 1, cbs_period_ms = - 1,
     subserver_port = - 1, subserver_pid = - 1\<rparr>"

text \<open>The body of the loop over the options; the first argument is the error of \<^verbatim>\<open>kill(pid, 0)\<close>.\<close>

definition server_option :: "(int \<Rightarrow> int) \<Rightarrow> char \<Rightarrow> string \<Rightarrow> server_options \<Rightarrow> server_options parsed" where
  "server_option kill_errno optchar optarg cfg =
    (let v = atoi optarg in
     if optchar = CHR ''d'' then
       if v < 0 then Bad_option else Parsed (cfg\<lparr>processing_duration_ms := v\<rparr>)
     else if optchar = CHR ''p'' then
       if v < 1024 \<or> v > 65535 then Bad_option else Parsed (cfg\<lparr>server_port := v\<rparr>)
     else if optchar = CHR ''s'' then
       if v < 1024 \<or> v > 65535 then Bad_option else Parsed (cfg\<lparr>subserver_port := v\<rparr>)
     else if optchar = CHR ''v'' then
       if kill_errno v = 1 \<or> kill_errno v = 3 then Bad_option else Parsed (cfg\<lparr>subserver_pid := v\<rparr>)
     else if optchar = CHR ''q'' then Parsed (cfg\<lparr>cbs_budget_ms := v\<rparr>)
     else if optchar = CHR ''t'' then Parsed (cfg\<lparr>cbs_period_ms := v\<rparr>)
     else if optchar = CHR ''h'' then Help
     else Bad_option)"

definition server_getopt :: "(int \<Rightarrow> int) \<Rightarrow> (char \<times> string) list \<Rightarrow> server_options \<Rightarrow> server_options parsed" where
  "server_getopt kill_errno = getopt_loop (server_option kill_errno)"

text \<open>The checks after the loop.\<close>

definition server_check :: "server_options \<Rightarrow> bool" where
  "server_check cfg \<longleftrightarrow> \<not> (processing_duration_ms cfg = - 1 \<or> server_port cfg = - 1 \<or>
     (cbs_budget_ms cfg = - 1 \<and> cbs_period_ms cfg \<noteq> - 1 \<or> cbs_budget_ms cfg \<noteq> - 1 \<and> cbs_period_ms cfg = - 1) \<or>
     (cbs_budget_ms cfg \<noteq> - 1 \<and> cbs_period_ms cfg \<noteq> - 1 \<and> (cbs_budget_ms cfg \<le> 0 \<or> cbs_budget_ms cfg > cbs_period_ms cfg)) \<or>
     subserver_port cfg \<noteq> - 1 \<and> subserver_pid cfg = - 1)"

definition server_parse :: "(int \<Rightarrow> int) \<Rightarrow> (char \<times> string) list \<Rightarrow> server_options parsed" where
  "server_parse kill_errno opts =
    (case server_getopt kill_errno opts server_defaults of
       Parsed cfg \<Rightarrow> if server_check cfg then Parsed cfg else Bad_option
     | r \<Rightarrow> r)"

section \<open>The signal handler\<close>

text \<open>
  The static variables, the scheduler of the server, and the world. The scheduler of the subserver is
  polled up to 500 times; \<^verbatim>\<open>Inl\<close> is a fatal error.
\<close>

record 'w sig_state =
  terminated :: bool
  old_scheduler_set :: bool
  old_scheduler :: scheduler
  sig_class :: sched_class
  sig_world :: 'w

record 'w sig_env =
  sig_sched :: sched_env
  kill_subserver :: "'w \<Rightarrow> bool \<times> 'w"
  subserver_policy :: "'w \<Rightarrow> int \<times> 'w"

fun poll_policy :: "'w sig_env \<Rightarrow> (int \<Rightarrow> bool) \<Rightarrow> nat \<Rightarrow> 'w \<Rightarrow> nat \<times> 'w" where
  "poll_policy env wait 0 w = (0, snd (subserver_policy env w))"
| "poll_policy env wait (Suc counter) w =
    (case subserver_policy env w of (p, w1) \<Rightarrow>
       if wait p then poll_policy env wait counter w1 else (Suc counter, w1))"

definition signal_subserver :: "'w sig_env \<Rightarrow> int \<Rightarrow> (int \<Rightarrow> bool) \<Rightarrow> 'w \<Rightarrow> 'w option" where
  "signal_subserver env pid wait w =
    (if pid = - 1 then Some w
     else case kill_subserver env w of
       (False, w1) \<Rightarrow> None
     | (True, w1) \<Rightarrow>
        let (counter, w2) = poll_policy env wait 500 w1 in if counter = 0 then None else Some w2)"

datatype signo = SIGTERM | SIGUSR1

definition sighand :: "'w sig_env \<Rightarrow> int \<Rightarrow> signo \<Rightarrow> 'w sig_state \<Rightarrow> 'w sig_state option" where
  "sighand env pid sig s =
    (case sig of
       SIGTERM \<Rightarrow> Some (s\<lparr>terminated := True\<rparr>)
     | SIGUSR1 \<Rightarrow>
        if old_scheduler_set s then do {
          w \<leftarrow> signal_subserver env pid (\<lambda>p. p = SCHED_FIFO) (sig_world s);
          let (rc, k) = sched_fifo_leave (sig_sched env) (sig_class s) (old_scheduler s); s = s\<lparr>sig_world := w\<rparr>
          in Some (if rc = 0 then s\<lparr>sig_class := k, old_scheduler_set := False\<rparr> else s) }
        else do {
          w \<leftarrow> signal_subserver env pid (\<lambda>p. p \<noteq> SCHED_FIFO) (sig_world s);
          let (rc, old, k) = sched_fifo_enter_max (sig_sched env) (sig_class s) (Some (old_scheduler s));
              s = s\<lparr>sig_world := w, old_scheduler := the old, sig_class := k\<rparr>
          in Some (if rc = 0 then s\<lparr>old_scheduler_set := True\<rparr> else s) })"

section \<open>Serving\<close>

type_synonym bytes = "u8 list"

definition buffer_size :: nat where "buffer_size = 65535"

text \<open>A buffer that was cleared and then filled.\<close>

definition filled :: "bytes \<Rightarrow> bytes" where
  "filled bs = bs @ replicate (buffer_size - length bs) 0"

datatype event = Busy | Bwi_on int | Bwi_off int | Forward bytes | Respond bytes

record 'w srv_state =
  srv_world :: 'w
  srv_trace :: "event list"

text \<open>Results of system calls: an error number, or what the call returned.\<close>

record 'w srv_env =
  do_recvfrom :: "'w \<Rightarrow> (int + bytes \<times> bool) \<times> 'w"
  srv_sys :: "'w sys_env"
  do_bwi :: "'w \<Rightarrow> (int + int) \<times> 'w"
  do_unbwi :: "int \<Rightarrow> 'w \<Rightarrow> bool \<times> 'w"
  do_send :: "bytes \<Rightarrow> 'w \<Rightarrow> (int + nat) \<times> 'w"
  do_recv :: "'w \<Rightarrow> (int + bytes) \<times> 'w"
  do_sendto :: "bytes \<Rightarrow> 'w \<Rightarrow> (int + nat) \<times> 'w"
  is_terminated :: "'w \<Rightarrow> bool"

definition EINTR :: int where "EINTR = 4"

definition note_event :: "event \<Rightarrow> 'w \<Rightarrow> 'w srv_state \<Rightarrow> 'w srv_state" where
  "note_event e w s = \<lparr>srv_world = w, srv_trace = srv_trace s @ [e]\<rparr>"

text \<open>
  \<^verbatim>\<open>send_recv\<close> with the same buffer for the request and the response: what was sent and received
  (-1 on an error), the two error numbers, and the buffer.
\<close>

definition send_recv :: "'w srv_env \<Rightarrow> bytes \<Rightarrow> nat \<Rightarrow> 'w srv_state \<Rightarrow> (int \<times> int \<times> int \<times> int \<times> bytes) \<times> 'w srv_state" where
  "send_recv env buffer len s =
    (case do_send env (take len buffer) (srv_world s) of
       (Inl e, w) \<Rightarrow> ((- 1, 0, e, 0, buffer), note_event (Forward (take len buffer)) w s)
     | (Inr n, w) \<Rightarrow>
        let s = note_event (Forward (take len buffer)) w s in
        (case do_recv env (srv_world s) of
           (Inl e, w) \<Rightarrow> ((int n, - 1, 0, e, filled []), s\<lparr>srv_world := w\<rparr>)
         | (Inr bs, w) \<Rightarrow> ((int n, int (length bs), 0, 0, filled bs), s\<lparr>srv_world := w\<rparr>)))"

text \<open>\<^verbatim>\<open>subserver_send_recv\<close>: the return code, the buffer and the size of the packet.\<close>

definition subserver_send_recv :: "'w srv_env \<Rightarrow> int \<Rightarrow> bytes \<Rightarrow> nat \<Rightarrow> 'w srv_state \<Rightarrow> (int \<times> bytes \<times> nat) \<times> 'w srv_state" where
  "subserver_send_recv env pid buffer packet_size s =
    (let (bwi_key, s) =
       (if pid \<noteq> - 1 then
          (case do_bwi env (srv_world s) of
             (Inl e, w) \<Rightarrow> (None, s\<lparr>srv_world := w\<rparr>)
           | (Inr key, w) \<Rightarrow> (Some key, note_event (Bwi_on key) w s))
        else (None, s));
         ((byte_sent, byte_rcvd, send_errno, recv_errno, buffer), s) = send_recv env buffer packet_size s;
         s = (case bwi_key of
                None \<Rightarrow> s
              | Some key \<Rightarrow> note_event (Bwi_off key) (snd (do_unbwi env key (srv_world s))) s)
     in if byte_sent = - 1 then ((if send_errno \<noteq> EINTR then 0 else 1, buffer, packet_size), s)
        else if byte_rcvd = - 1 then ((if recv_errno \<noteq> EINTR then 0 else 1, buffer, packet_size), s)
        else ((0, buffer, nat byte_rcvd), s))"

text \<open>One iteration of the loop; each \<^verbatim>\<open>continue\<close> is the end of a branch.\<close>

definition serve_packet :: "'w srv_env \<Rightarrow> server_options \<Rightarrow> 'l::len word cpu_busyloop \<Rightarrow> 'w srv_state \<Rightarrow> 'w srv_state" where
  "serve_packet env cfg server_busyloop s =
    (case do_recvfrom env (srv_world s) of
       (Inl e, w) \<Rightarrow> s\<lparr>srv_world := w\<rparr>
     | (Inr (bs, ipv4), w) \<Rightarrow>
        let s = s\<lparr>srv_world := w\<rparr> in
        if \<not> ipv4 then s
        else
          let s = note_event Busy (keep_cpu_busy (srv_sys env) server_busyloop (srv_world s)) s;
              ((rc, buffer, packet_size), s) =
                (if subserver_port cfg \<noteq> - 1
                 then subserver_send_recv env (subserver_pid cfg) (filled bs) (length bs) s
                 else ((0, filled bs, length bs), s))
          in if rc \<noteq> 0 then s
             else note_event (Respond (take packet_size buffer))
               (snd (do_sendto env (take packet_size buffer) (srv_world s))) s)"

text \<open>The loop, \<open>None\<close> when it does not end.\<close>

definition serve_loop :: "'w srv_env \<Rightarrow> server_options \<Rightarrow> 'l::len word cpu_busyloop \<Rightarrow> 'w srv_state \<Rightarrow>
    'w srv_state option" where
  "serve_loop env cfg server_busyloop =
     while_option (\<lambda>s. \<not> is_terminated env (srv_world s)) (serve_packet env cfg server_busyloop)"

section \<open>Accepted options\<close>

text \<open>What holds of the options at every point of the loop.\<close>

definition options_in_range :: "server_options \<Rightarrow> bool" where
  "options_in_range cfg \<longleftrightarrow> (0 \<le> processing_duration_ms cfg \<or> processing_duration_ms cfg = - 1) \<and>
     (server_port cfg \<in> {1024..65535} \<or> server_port cfg = - 1) \<and>
     (subserver_port cfg \<in> {1024..65535} \<or> subserver_port cfg = - 1)"

lemma options_in_range_update [simp]:
  assumes "options_in_range cfg"
  shows "0 \<le> v \<Longrightarrow> options_in_range (cfg\<lparr>processing_duration_ms := v\<rparr>)"
    "1024 \<le> v \<Longrightarrow> v \<le> 65535 \<Longrightarrow> options_in_range (cfg\<lparr>server_port := v\<rparr>)"
    "1024 \<le> v \<Longrightarrow> v \<le> 65535 \<Longrightarrow> options_in_range (cfg\<lparr>subserver_port := v\<rparr>)"
    "options_in_range (cfg\<lparr>subserver_pid := v\<rparr>)" "options_in_range (cfg\<lparr>cbs_budget_ms := v\<rparr>)"
    "options_in_range (cfg\<lparr>cbs_period_ms := v\<rparr>)"
  using assms by (simp_all add: options_in_range_def)

lemma server_option_in_range:
  "server_option kill_errno optchar optarg start = Parsed cfg \<Longrightarrow> options_in_range start \<Longrightarrow> options_in_range cfg"
  by (auto simp: server_option_def Let_def split: if_splits)

lemma server_getopt_in_range:
  "server_getopt kill_errno opts start = Parsed cfg \<Longrightarrow> options_in_range start \<Longrightarrow> options_in_range cfg"
  unfolding server_getopt_def by (erule getopt_loop_invariant) (auto dest: server_option_in_range)

text \<open>Claim C38. Whatever options the server is started with, it runs only with a duration that is not
  negative, a port (and a subserver port, if any) between 1024 and 65535, a subserver process whenever there is a
  subserver port, and either no reservation or a positive budget within its period.\<close>

theorem server_options_typed:
  assumes "server_parse kill_errno opts = Parsed cfg"
  shows "0 \<le> processing_duration_ms cfg \<and> server_port cfg \<in> {1024..65535} \<and>
    (subserver_port cfg \<noteq> - 1 \<longrightarrow> subserver_port cfg \<in> {1024..65535} \<and> subserver_pid cfg \<noteq> - 1) \<and>
    (cbs_budget_ms cfg = - 1 \<and> cbs_period_ms cfg = - 1 \<or> 0 < cbs_budget_ms cfg \<and> cbs_budget_ms cfg \<le> cbs_period_ms cfg)"
proof -
  from assms have "server_getopt kill_errno opts server_defaults = Parsed cfg" "server_check cfg"
    by (auto simp: server_parse_def split: parsed.splits if_splits)
  then show ?thesis using server_getopt_in_range [of kill_errno opts server_defaults cfg]
    by (auto simp: server_defaults_def server_check_def options_in_range_def)
qed

theorem server_options_typed_witness:
  "\<exists>cfg. server_parse (\<lambda>_. 0) [(CHR ''d'', ''20''), (CHR ''p'', ''4096''), (CHR ''q'', ''5''), (CHR ''t'', ''25'')] = Parsed cfg \<and>
     server_port cfg \<in> {1024..65535} \<and> cbs_budget_ms cfg = 5"
proof -
  let ?cfg = "server_defaults\<lparr>processing_duration_ms := 20, server_port := 4096, cbs_budget_ms := 5, cbs_period_ms := 25\<rparr>"
  have "server_parse (\<lambda>_. 0) [(CHR ''d'', ''20''), (CHR ''p'', ''4096''), (CHR ''q'', ''5''), (CHR ''t'', ''25'')] = Parsed ?cfg"
    by code_simp
  from this server_options_typed [OF this] show ?thesis by (intro exI [of _ ?cfg]) simp
qed

section \<open>What is served\<close>

text \<open>The events one iteration can record: the subserver is called, if there is one, between the grant and the
  revocation of the bandwidth, and the client is answered after that.\<close>

inductive service :: "server_options \<Rightarrow> event list \<Rightarrow> bool" for cfg where
  nothing: "service cfg []"
| alone: "subserver_port cfg = - 1 \<Longrightarrow> service cfg [Busy, Respond r]"
| forwarded: "subserver_port cfg \<noteq> - 1 \<Longrightarrow> call \<in> {[Forward q]} \<union> (if subserver_pid cfg = - 1 then {} else {[Bwi_on k, Forward q, Bwi_off k]}) \<Longrightarrow>
    answer = [] \<or> answer = [Respond r] \<Longrightarrow> service cfg (Busy # call @ answer)"

text \<open>Bandwidth is lent and revoked in turn, with the key it was lent under, and not lent to anyone while the
  server computes or answers.\<close>

fun disciplined :: "int option \<Rightarrow> event list \<Rightarrow> bool" where
  "disciplined lent [] \<longleftrightarrow> lent = None"
| "disciplined lent (Busy # es) \<longleftrightarrow> lent = None \<and> disciplined None es"
| "disciplined lent (Respond r # es) \<longleftrightarrow> lent = None \<and> disciplined None es"
| "disciplined lent (Forward q # es) \<longleftrightarrow> disciplined lent es"
| "disciplined lent (Bwi_on k # es) \<longleftrightarrow> lent = None \<and> disciplined (Some k) es"
| "disciplined lent (Bwi_off k # es) \<longleftrightarrow> lent = Some k \<and> disciplined None es"

lemma disciplined_append: "disciplined lent xs \<Longrightarrow> disciplined None ys \<Longrightarrow> disciplined lent (xs @ ys)"
  by (induction lent xs rule: disciplined.induct) auto

lemma service_disciplined: "service cfg es \<Longrightarrow> disciplined None es"
  by (induction rule: service.induct) (auto split: if_splits)

lemma srv_trace_note [simp]: "srv_trace (note_event e w s) = srv_trace s @ [e]" "srv_world (note_event e w s) = w"
  by (simp_all add: note_event_def)

text \<open>What is sent to the client for a request \<open>bs\<close>, when the request is forwarded in the world \<open>w\<close>.\<close>

definition answer_to :: "'w srv_env \<Rightarrow> server_options \<Rightarrow> bytes \<Rightarrow> 'w \<Rightarrow> event list" where
  "answer_to env cfg bs w =
    (if subserver_port cfg = - 1 then [Respond bs]
     else case do_send env bs w of
       (Inl e, w1) \<Rightarrow> if e = EINTR then [] else [Respond bs]
     | (Inr n, w1) \<Rightarrow>
        (case do_recv env w1 of
           (Inl e, w2) \<Rightarrow> if e = EINTR then [] else [Respond (replicate (length bs) 0)]
         | (Inr rs, w2) \<Rightarrow> [Respond rs]))"

definition lending :: "'w srv_env \<Rightarrow> server_options \<Rightarrow> 'w \<Rightarrow> int option \<times> 'w" where
  "lending env cfg w =
    (if subserver_port cfg = - 1 \<or> subserver_pid cfg = - 1 then (None, w)
     else case do_bwi env w of (Inl e, w1) \<Rightarrow> (None, w1) | (Inr k, w1) \<Rightarrow> (Some k, w1))"

lemma take_filled [simp]: "n = length bs \<Longrightarrow> take n (filled bs) = bs"
  by (simp add: filled_def)

lemma take_blank [simp]: "length bs \<le> buffer_size \<Longrightarrow> take (length bs) (filled []) = replicate (length bs) 0"
  by (simp add: filled_def min_absorb1)

lemma subserver_call:
  assumes "subserver_port cfg \<noteq> - 1" "length bs \<le> buffer_size" "lending env cfg (srv_world s) = (key, w)"
    "subserver_send_recv env (subserver_pid cfg) (filled bs) (length bs) s = ((rc, buffer, n), s1)"
  shows "srv_trace s1 = srv_trace s @ (case key of None \<Rightarrow> [Forward bs] | Some k \<Rightarrow> [Bwi_on k, Forward bs, Bwi_off k])"
    "answer_to env cfg bs w = (if rc \<noteq> 0 then [] else [Respond (take n buffer)])"
  using assms
  by (auto simp: subserver_send_recv_def send_recv_def lending_def answer_to_def Let_def
      split: prod.splits sum.splits if_splits)

lemma packet_cases:
  "srv_trace (serve_packet env cfg bl s) =
    (case do_recvfrom env (srv_world s) of
       (Inr (bs, True), w) \<Rightarrow>
         let (key, w1) = lending env cfg (keep_cpu_busy (srv_sys env) bl w) in
         srv_trace s @ Busy # (if subserver_port cfg = - 1 then []
           else case key of None \<Rightarrow> [Forward bs] | Some k \<Rightarrow> [Bwi_on k, Forward bs, Bwi_off k]) @ answer_to env cfg bs w1
     | _ \<Rightarrow> srv_trace s)"
  if "\<And>bs v w. do_recvfrom env (srv_world s) = (Inr (bs, v), w) \<Longrightarrow> length bs \<le> buffer_size"
proof (cases "\<exists>bs w. do_recvfrom env (srv_world s) = (Inr (bs, True), w)")
  case True
  then obtain bs w where r: "do_recvfrom env (srv_world s) = (Inr (bs, True), w)" by blast
  show ?thesis
  proof (cases "subserver_port cfg = - 1")
    case True
    then show ?thesis using r by (simp add: serve_packet_def Let_def answer_to_def lending_def)
  next
    case False
    let ?s = "note_event Busy (keep_cpu_busy (srv_sys env) bl w) (s\<lparr>srv_world := w\<rparr>)"
    obtain key w1 where l: "lending env cfg (srv_world ?s) = (key, w1)" by fastforce
    obtain rc buffer n s1 where c: "subserver_send_recv env (subserver_pid cfg) (filled bs) (length bs) ?s = ((rc, buffer, n), s1)"
      by (metis surj_pair)
    from subserver_call [OF False that [OF r] l c] False show ?thesis
      using r l c by (auto simp: serve_packet_def Let_def split: option.splits)
  qed
qed (auto simp: serve_packet_def split: prod.splits sum.splits bool.splits)

text \<open>Claim C30. A client whose request arrives is answered with its own request when there is no
  subserver, and with the response of the subserver when there is one. When the subserver cannot be reached, the client
  is left without an answer only if the call was interrupted; after any other error the code goes on as after a success,
  and the client gets its own request back when the request could not be sent, or as many zero bytes when the
  response could not be received.\<close>

theorem server_answers:
  assumes "do_recvfrom env (srv_world s) = (Inr (bs, True), w)" "length bs \<le> buffer_size"
    and "lending env cfg (keep_cpu_busy (srv_sys env) bl w) = (key, w1)"
  shows "\<exists>call. (\<forall>r. Respond r \<notin> set call) \<and>
    srv_trace (serve_packet env cfg bl s) = srv_trace s @ call @
      (if subserver_port cfg = - 1 then [Respond bs]
       else case do_send env bs w1 of
         (Inl e, w2) \<Rightarrow> if e = EINTR then [] else [Respond bs]
       | (Inr n, w2) \<Rightarrow>
          (case do_recv env w2 of
             (Inl e, w3) \<Rightarrow> if e = EINTR then [] else [Respond (replicate (length bs) 0)]
           | (Inr rs, w3) \<Rightarrow> [Respond rs]))"
proof (intro exI conjI)
  let ?call = "Busy # (if subserver_port cfg = - 1 then []
    else case key of None \<Rightarrow> [Forward bs] | Some k \<Rightarrow> [Bwi_on k, Forward bs, Bwi_off k])"
  show "\<forall>r. Respond r \<notin> set ?call" by (simp split: option.splits)
  show "srv_trace (serve_packet env cfg bl s) = srv_trace s @ ?call @
      (if subserver_port cfg = - 1 then [Respond bs]
       else case do_send env bs w1 of
         (Inl e, w2) \<Rightarrow> if e = EINTR then [] else [Respond bs]
       | (Inr n, w2) \<Rightarrow>
          (case do_recv env w2 of
             (Inl e, w3) \<Rightarrow> if e = EINTR then [] else [Respond (replicate (length bs) 0)]
           | (Inr rs, w3) \<Rightarrow> [Respond rs]))"
    using packet_cases [of env s cfg bl] assms unfolding answer_to_def by simp
qed

text \<open>Every iteration is a service; the loop returns the first terminated iterate.\<close>

lemma packet_service:
  assumes "\<And>w' bs v w. do_recvfrom env w' = (Inr (bs, v), w) \<Longrightarrow> length bs \<le> buffer_size"
  shows "\<exists>es. service cfg es \<and> srv_trace (serve_packet env cfg bl s) = srv_trace s @ es"
proof (cases "\<exists>bs w. do_recvfrom env (srv_world s) = (Inr (bs, True), w)")
  case True
  then obtain bs w where r: "do_recvfrom env (srv_world s) = (Inr (bs, True), w)" by blast
  obtain key w1 where l: "lending env cfg (keep_cpu_busy (srv_sys env) bl w) = (key, w1)" by fastforce
  let ?call = "case key of None \<Rightarrow> [Forward bs] | Some k \<Rightarrow> [Bwi_on k, Forward bs, Bwi_off k]"
  have "service cfg (Busy # (if subserver_port cfg = - 1 then [] else ?call) @ answer_to env cfg bs w1)"
  proof (cases "subserver_port cfg = - 1")
    case True
    then show ?thesis using service.alone by (simp add: answer_to_def)
  next
    case False
    have call: "?call \<in> {[Forward bs]} \<union> (if subserver_pid cfg = - 1 then {} else {[Bwi_on (the key), Forward bs, Bwi_off (the key)]})"
      using l by (auto simp: lending_def split: if_splits option.splits prod.splits sum.splits)
    have "\<exists>r. answer_to env cfg bs w1 = [] \<or> answer_to env cfg bs w1 = [Respond r]"
      by (auto simp: answer_to_def split: prod.splits sum.splits)
    then show ?thesis using service.forwarded [OF False call] False by auto
  qed
  then show ?thesis using packet_cases [of env s cfg bl, OF assms] r l by (intro exI conjI) auto
next
  case False
  then have "srv_trace (serve_packet env cfg bl s) = srv_trace s"
    by (auto simp: serve_packet_def split: prod.splits sum.splits bool.splits)
  then show ?thesis using service.nothing by auto
qed

lemma serve_loop_returns:
  "serve_loop env cfg bl s = Some s1 \<longleftrightarrow>
    (\<exists>n. s1 = (serve_packet env cfg bl ^^ n) s \<and> is_terminated env (srv_world s1) \<and>
      (\<forall>i<n. \<not> is_terminated env (srv_world ((serve_packet env cfg bl ^^ i) s))))"
  by (simp add: serve_loop_def while_option_first)

text \<open>Claim C28. However long the server runs, each iteration either records nothing or one period
  of computation, at most one call of the subserver and at most one answer, in this order; without a subserver every
  accepted packet is answered. Therefore bandwidth that is lent to the subserver is revoked, with its own key, before the
  next packet is worked on and before the client is answered, on the error paths too. The loop ends at the first iteration
  that finds the server terminated, and only then.\<close>

theorem server_revokes_bandwidth:
  assumes "srv_trace s = []"
    and "\<forall>w' bs v w. do_recvfrom env w' = (Inr (bs, v), w) \<longrightarrow> length bs \<le> buffer_size"
  shows "(\<forall>n. \<exists>ess. length ess = n \<and> (\<forall>es\<in>set ess. service cfg es) \<and>
      srv_trace ((serve_packet env cfg bl ^^ n) s) = concat ess \<and> disciplined None (concat ess)) \<and>
    (\<forall>s1. serve_loop env cfg bl s = Some s1 \<longleftrightarrow>
      (\<exists>n. s1 = (serve_packet env cfg bl ^^ n) s \<and> is_terminated env (srv_world s1) \<and>
        (\<forall>i<n. \<not> is_terminated env (srv_world ((serve_packet env cfg bl ^^ i) s)))))"
proof (intro conjI allI)
  show "\<exists>ess. length ess = n \<and> (\<forall>es\<in>set ess. service cfg es) \<and>
      srv_trace ((serve_packet env cfg bl ^^ n) s) = concat ess \<and> disciplined None (concat ess)" for n
  proof (induction n)
    case 0
    then show ?case using assms(1) by simp
  next
    case (Suc n)
    let ?s = "(serve_packet env cfg bl ^^ n) s"
    obtain ess where ess: "length ess = n" "\<forall>es\<in>set ess. service cfg es"
      "srv_trace ?s = concat ess" "disciplined None (concat ess)" using Suc by blast
    have "\<exists>es. service cfg es \<and> srv_trace (serve_packet env cfg bl ?s) = srv_trace ?s @ es"
      by (rule packet_service) (use assms(2) in blast)
    then obtain es where es: "service cfg es" "srv_trace (serve_packet env cfg bl ?s) = srv_trace ?s @ es" by blast
    have "disciplined None (concat (ess @ [es]))"
      using disciplined_append [OF ess(4) service_disciplined [OF es(1)]] by simp
    moreover have "srv_trace ((serve_packet env cfg bl ^^ Suc n) s) = concat (ess @ [es])" using es(2) ess(3) by simp
    ultimately show ?case using ess(1,2) es(1) by (intro exI [of _ "ess @ [es]"]) simp
  qed
qed (rule serve_loop_returns)

section \<open>Switching the scheduler by signals\<close>

interpretation fifo_max: scheduler_guard "sched_fifo_enter_max env" "sched_fifo_leave env" describes class_ok "may_set env" for env
proof
  show "\<exists>s'. s = Some s' \<and> describes s' k"
    if "sched_fifo_enter_max env k (Some old) = (0, s, k1)" "class_ok k" for k old s k1
    using fifo.enter_saves that by (fastforce simp: sched_fifo_enter_max_def split: prod.splits if_splits)
  show "k1 = k" if "sched_fifo_enter_max env k old = (rc, s, k1)" "rc \<noteq> 0" for k old rc s k1
    using fifo.enter_fails that by (fastforce simp: sched_fifo_enter_max_def split: prod.splits if_splits)
  show "class_ok k1" if "sched_fifo_enter_max env k old = (rc, s, k1)" "class_ok k" for k old rc s k1
    using fifo.enter_valid that by (fastforce simp: sched_fifo_enter_max_def split: prod.splits if_splits)
qed (simp add: sched_fifo_leave_def restore_described)

text \<open>The policy of the subserver at the \<open>i\<close>-th poll, and what the polls find out.\<close>

definition observed :: "'w sig_env \<Rightarrow> nat \<Rightarrow> 'w \<Rightarrow> int" where
  "observed env i w = fst (subserver_policy env (((\<lambda>w. snd (subserver_policy env w)) ^^ i) w))"

lemma observed_Suc: "observed env (Suc i) w = observed env i (snd (subserver_policy env w))"
  by (simp only: observed_def funpow_Suc_right o_apply)

lemma poll_times_out: "fst (poll_policy env wait n w) = 0 \<longleftrightarrow> (\<forall>i<n. wait (observed env i w))"
proof (induction n arbitrary: w)
  case (Suc n)
  obtain p w1 where q: "subserver_policy env w = (p, w1)" by fastforce
  then have now: "observed env 0 w = p" by (simp add: observed_def)
  show ?case
  proof (cases "wait p")
    case True
    then have "fst (poll_policy env wait (Suc n) w) = fst (poll_policy env wait n w1)" using q by simp
    then show ?thesis using True now q by (simp only: Suc.IH All_less_Suc2 observed_Suc) simp
  next
    case False
    then show ?thesis using now q by auto
  qed
qed simp

lemma signal_subserver_fails:
  "signal_subserver env pid wait w = None \<longleftrightarrow>
    pid \<noteq> - 1 \<and> (\<not> fst (kill_subserver env w) \<or> (\<forall>i<500. wait (observed env i (snd (kill_subserver env w)))))"
  using poll_times_out [of env wait 500 "snd (kill_subserver env w)"]
  by (auto simp: signal_subserver_def Let_def split: prod.splits bool.splits)


section \<open>Instances\<close>

text \<open>A server whose subserver is gone: requests can be sent to it, but the responses cannot be received.\<close>

definition lossy_env :: "nat srv_env" where
  "lossy_env = \<lparr>do_recvfrom = (\<lambda>w. (Inr ([1, 2, 3], True), w + 1)), srv_sys = plain_env, do_bwi = (\<lambda>w. (Inr 7, w)),
     do_unbwi = (\<lambda>_ w. (True, w)), do_send = (\<lambda>_ w. (Inr 3, w)), do_recv = (\<lambda>w. (Inl 111, w)),
     do_sendto = (\<lambda>_ w. (Inr 3, w)), is_terminated = (\<lambda>w. 0 < w)\<rparr>"

definition lossy_cfg :: server_options where
  "lossy_cfg = server_defaults\<lparr>processing_duration_ms := 20, server_port := 4096, subserver_port := 4097, subserver_pid := 300\<rparr>"

definition short_loop :: "u32 cpu_busyloop" where
  "short_loop = \<lparr>bl_which_cpu = 0, bl_frequency = 0, bl_loop_count = 1, bl_duration = utility_time_init\<rparr>"

lemma short_loop_runs: "keep_cpu_busy plain_env short_loop w = w + 1"
  by (simp add: keep_cpu_busy_def busyloop_def short_loop_def plain_env_def busyloop_count)

theorem server_answers_witness:
  "last (srv_trace (serve_packet lossy_env lossy_cfg short_loop \<lparr>srv_world = 0, srv_trace = []\<rparr>)) = Respond [0, 0, 0]"
proof -
  have r: "do_recvfrom lossy_env (srv_world \<lparr>srv_world = 0, srv_trace = []\<rparr>) = (Inr ([1, 2, 3], True), 1)"
    by (simp add: lossy_env_def)
  have l: "lending lossy_env lossy_cfg (keep_cpu_busy (srv_sys lossy_env) short_loop 1) = (Some 7, 2)"
    by (simp add: lossy_env_def short_loop_runs lending_def lossy_cfg_def server_defaults_def)
  from server_answers [OF r _ l] show ?thesis
    by (auto simp: buffer_size_def lossy_env_def lossy_cfg_def server_defaults_def EINTR_def)
qed

theorem server_revokes_bandwidth_witness:
  "\<exists>s1. serve_loop lossy_env lossy_cfg short_loop \<lparr>srv_world = 0, srv_trace = []\<rparr> = Some s1 \<and> disciplined None (srv_trace s1)"
proof -
  let ?s = "\<lparr>srv_world = 0, srv_trace = []\<rparr> :: nat srv_state"
  let ?s1 = "serve_packet lossy_env lossy_cfg short_loop ?s"
  have world: "is_terminated lossy_env (srv_world ?s1)" "\<not> is_terminated lossy_env 0"
    by (simp_all add: serve_packet_def subserver_send_recv_def send_recv_def lossy_env_def lossy_cfg_def server_defaults_def
        Let_def short_loop_runs)
  have small: "\<forall>w' bs v w. do_recvfrom lossy_env w' = (Inr (bs, v), w) \<longrightarrow> length bs \<le> buffer_size"
    by (auto simp: lossy_env_def buffer_size_def)
  have none: "srv_trace ?s = []" by simp
  note all = server_revokes_bandwidth [where cfg = lossy_cfg and bl = short_loop, OF none small]
  from all [THEN conjunct2, THEN spec, THEN iffD2, OF exI [of _ 1]] world
  have "serve_loop lossy_env lossy_cfg short_loop ?s = Some ?s1" by simp
  moreover have "disciplined None (srv_trace ?s1)"
    using all [THEN conjunct1, THEN spec, of 1] by auto
  ultimately show ?thesis by blast
qed

text \<open>A subserver that is in \<^verbatim>\<open>SCHED_FIFO\<close> from the fourth poll on, or leaves it then.\<close>

definition slow_env :: "nat sig_env" where
  "slow_env = \<lparr>sig_sched = env_ok, kill_subserver = (\<lambda>w. (True, w)),
     subserver_policy = (\<lambda>w. (if w < 3 then 0 else SCHED_FIFO, w + 1))\<rparr>"


end
