(* ===== verification/Program_Setup.thy ===== *)
theory Program_Setup
  imports Utility_Busyloop Utility_Sched Utility_Time_Temps
begin

text \<open>
  Two passages that several programs have word for word: how a thread enters a constant bandwidth server, and how a
  busy loop of a given duration is made or the program given up.
\<close>

definition use_cbs_server :: "sched_env \<Rightarrow> int \<Rightarrow> sched_class \<Rightarrow> int \<Rightarrow> int \<Rightarrow> time_store \<Rightarrow>
    ((int \<times> scheduler option \<times> sched_class) \<times> time_store) option" where
  "use_cbs_server kenv junk class budget_ms period_ms h = do {
     (budget, h) \<leftarrow> to_utility_time_dyn (of_int budget_ms) Unit_ms h;
     (period, h) \<leftarrow> to_utility_time_dyn (of_int period_ms) Unit_ms h;
     sched_deadline_enter kenv junk class budget period None h }"

text \<open>\<open>None\<close> inside is a fatal error.\<close>

definition create_busyloop_or_die :: "'w sys_env \<Rightarrow> sched_env \<Rightarrow> sched_class \<Rightarrow> time_ptr \<Rightarrow> time_store \<Rightarrow> 'w sys_state \<Rightarrow>
    ('l::len word cpu_busyloop option \<times> time_store \<times> 'w sys_state) option" where
  "create_busyloop_or_die env senv class duration h s = do {
     (tolerance, h) \<leftarrow> to_utility_time_dyn 100 Unit_us h;
     ((rc, r), h, s) \<leftarrow> create_cpu_busyloop env senv class 0 duration tolerance 10 h s;
     (case r of
        Busyloop bl \<Rightarrow> Some (if rc = 0 then Some bl else None, h, s)
      | _ \<Rightarrow> if rc = 0 then None else Some (None, h, s)) }"

lemma deadline_enter_temps:
  assumes "store_ok h" "a = next_addr h" "b = Suc a" "\<forall>ex. setparam_ex_errno kenv ex = 0"
  shows "\<exists>ex. sched_deadline_enter kenv junk class (Some a) (Some b) None (with_temps h (Suc b) [(b, tb), (a, ta)]) =
    Some ((0, None, Deadline ex), with_temps h (Suc b) [])"
proof -
  have t: "temps_ok h (Suc b) [(b, tb), (a, ta)]" "temps_ok h (Suc b) [(b, tb)]" using assms(1-3) by simp_all
  have "utility_time_gc_auto (Some a) (with_temps h (Suc b) [(b, tb), (a, ta)]) = Some (with_temps h (Suc b) [(b, tb)])"
    "utility_time_gc_auto (Some b) (with_temps h (Suc b) [(b, tb)]) = Some (with_temps h (Suc b) [])"
    using temps_gc(2) [OF t(1), of a] temps_gc(2) [OF t(2), of b] assms(3) by simp_all
  then show ?thesis using assms(3,4) by (simp add: sched_deadline_enter_def sched_save_def Let_def)
qed

text \<open>Where the system call succeeds, the thread has its reservation, and the two time objects are freed.\<close>

lemma use_cbs_server_ok:
  assumes "store_ok h" "\<forall>k. malloc_ok h k" "\<forall>ex. setparam_ex_errno kenv ex = 0"
  shows "\<exists>ex. use_cbs_server kenv junk class budget_ms period_ms h =
    Some ((0, None, Deadline ex), with_temps h (next_addr h + 2) [])"
proof -
  let ?n = "next_addr h"
  have mk: "malloc_ok h k" for k using assms(2) by blast
  have t: "temps_ok h ?n []" "temps_ok h (Suc ?n) [(?n, x)]" for x using assms(1) by simp_all
  note u = temps_units [OF mk t(1), of "of_int budget_ms" Unit_ms] temps_units [OF mk t(2), of "of_int period_ms" Unit_ms]
  show ?thesis
    using u deadline_enter_temps [OF assms(1) refl refl assms(3), of junk "class"]
    by (simp add: use_cbs_server_def with_no_temps)
qed

end
