(* ===== verification/Bwi_Client.thy ===== *)
theory Bwi_Client
  imports Bwi_Server Program_Setup Task_Lifecycle
begin

text \<open>
  The client of the experiments with bandwidth inheritance (\<^verbatim>\<open>bwi-client_server/client.c\<close>): its options, the job
  it executes periodically, and the end of the program. How it accounts for the overheads is the subject of theory
  \<open>Bwi_Client_Overhead\<close>.

  The client is a periodic task: the job is the program of a task of theory \<open>Task_Run\<close>, and the process
  itself is the world of that task. System calls are operations of an environment on an outer world;
  what the client does visibly is recorded in a trace. When a job ends the process, by a fatal error,
  the status of the process says so and nothing else happens in it.
\<close>

section \<open>Options\<close>

record client_options =
  prologue_duration_ms :: int
  epilogue_duration_ms :: int
  expected_waiting_ms :: int
  cl_period_ms :: int
  offset_ms :: int
  cl_server_port :: int
  cl_server_pid :: int
  use_bwi :: bool
  cl_stopping_iteration :: int
  cl_ftrace_iteration :: int
  cl_budget_ms :: int
  cl_limit :: int
  duration_ms :: int
  stats_file_path :: "string option"

definition client_defaults :: client_options where
  "client_defaults = \<lparr>prologue_duration_ms = - 1, epilogue_duration_ms = - 1, expected_waiting_ms = - 1,
     cl_period_ms = - 1, offset_ms = - 1, cl_server_port = - 1, cl_server_pid = - 1, use_bwi = False,
     cl_stopping_iteration = - 1, cl_ftrace_iteration = - 1, cl_budget_ms = - 1, cl_limit = - 1,
     duration_ms = - 1, stats_file_path = None\<rparr>"

text \<open>The body of the loop over the options.\<close>

definition client_option :: "char \<Rightarrow> string \<Rightarrow> client_options \<Rightarrow> client_options parsed" where
  "client_option optchar optarg cfg =
    (let v = atoi optarg in
     if optchar = CHR ''d'' then if v < 0 then Bad_option else Parsed (cfg\<lparr>offset_ms := v\<rparr>)
     else if optchar = CHR ''x'' then if v \<le> 0 then Bad_option else Parsed (cfg\<lparr>duration_ms := v\<rparr>)
     else if optchar = CHR ''l'' then if v \<le> 0 then Bad_option else Parsed (cfg\<lparr>cl_limit := v\<rparr>)
     else if optchar = CHR ''1'' then if v < 0 then Bad_option else Parsed (cfg\<lparr>prologue_duration_ms := v\<rparr>)
     else if optchar = CHR ''2'' then if v < 0 then Bad_option else Parsed (cfg\<lparr>expected_waiting_ms := v\<rparr>)
     else if optchar = CHR ''3'' then if v < 0 then Bad_option else Parsed (cfg\<lparr>epilogue_duration_ms := v\<rparr>)
     else if optchar = CHR ''q'' then if v \<le> 0 then Bad_option else Parsed (cfg\<lparr>cl_budget_ms := v\<rparr>)
     else if optchar = CHR ''t'' then if v \<le> 0 then Bad_option else Parsed (cfg\<lparr>cl_period_ms := v\<rparr>)
     else if optchar = CHR ''p'' then
       if v < 1024 \<or> v > 65535 then Bad_option else Parsed (cfg\<lparr>cl_server_port := v\<rparr>)
     else if optchar = CHR ''b'' then Parsed (cfg\<lparr>use_bwi := True\<rparr>)
     else if optchar = CHR ''v'' then Parsed (cfg\<lparr>cl_server_pid := v\<rparr>)
     else if optchar = CHR ''i'' then Parsed (cfg\<lparr>cl_stopping_iteration := v\<rparr>)
     else if optchar = CHR ''r'' then Parsed (cfg\<lparr>cl_ftrace_iteration := v\<rparr>)
     else if optchar = CHR ''s'' then Parsed (cfg\<lparr>stats_file_path := Some optarg\<rparr>)
     else if optchar = CHR ''h'' then Help
     else Bad_option)"

definition client_getopt :: "(char \<times> string) list \<Rightarrow> client_options \<Rightarrow> client_options parsed" where
  "client_getopt = getopt_loop client_option"

text \<open>Addition of two \<^verbatim>\<open>int\<close>, undefined on overflow.\<close>

definition add_int :: "int \<Rightarrow> int \<Rightarrow> int option" where
  "add_int a b = (if - (2 ^ 31) \<le> a + b \<and> a + b < 2 ^ 31 then Some (a + b) else None)"

definition client_wcet :: "client_options \<Rightarrow> int option" where
  "client_wcet cfg = do {
     a \<leftarrow> add_int (prologue_duration_ms cfg) (expected_waiting_ms cfg);
     add_int a (epilogue_duration_ms cfg) }"

text \<open>The checks after the loop; \<open>None\<close> is undefined.\<close>

definition client_check :: "client_options \<Rightarrow> bool option" where
  "client_check cfg =
    (if prologue_duration_ms cfg = - 1 \<or> expected_waiting_ms cfg = - 1 \<or> epilogue_duration_ms cfg = - 1 \<or>
        duration_ms cfg = - 1 \<or> cl_period_ms cfg = - 1 \<or> cl_period_ms cfg > duration_ms cfg then Some False
     else do {
       too_short \<leftarrow>
         (if cl_budget_ms cfg = - 1 then do { sum \<leftarrow> client_wcet cfg; Some (sum > cl_period_ms cfg) }
          else Some (cl_budget_ms cfg > cl_period_ms cfg));
       Some (\<not> (too_short \<or> cl_server_port cfg = - 1 \<or> stats_file_path cfg = None \<or> cl_server_pid cfg = - 1 \<or>
         (cl_ftrace_iteration cfg = - 1 \<and> cl_limit cfg \<noteq> - 1) \<or> (cl_ftrace_iteration cfg = 0 \<and> cl_limit cfg = - 1))) })"

text \<open>\<^verbatim>\<open>response_time_limit_ms\<close> and \<^verbatim>\<open>iteration_limit\<close>.\<close>

definition client_limits :: "client_options \<Rightarrow> (int \<times> int) option" where
  "client_limits cfg =
    (if cl_ftrace_iteration cfg = 0 \<and> cl_limit cfg \<noteq> - 1 then Some (cl_limit cfg, - 1)
     else if cl_ftrace_iteration cfg > 0 \<and> cl_limit cfg = - 1 then Some (- 1, cl_ftrace_iteration cfg)
     else if cl_ftrace_iteration cfg > 0 \<and> cl_limit cfg \<noteq> - 1 then do {
       n \<leftarrow> add_int (cl_ftrace_iteration cfg) (cl_limit cfg); Some (- 1, n - 1) }
     else Some (- 1, - 1))"

definition client_parse :: "(char \<times> string) list \<Rightarrow> client_options parsed option" where
  "client_parse opts =
    (case client_getopt opts client_defaults of
       Parsed cfg \<Rightarrow> do { ok \<leftarrow> client_check cfg; Some (if ok then Parsed cfg else Bad_option) }
     | r \<Rightarrow> Some r)"

section \<open>The job\<close>

datatype complaint = Request_truncated | Response_corrupted | Response_differs

datatype client_event = Prologue | Epilogue | Ftrace string | Lend int | Revoke int | Unblock | Block |
  Request bytes | Complain complaint | Stop_program

datatype status = Running | Exited | Undefined

text \<open>
  What does not change in \<^verbatim>\<open>struct client_prog_prms\<close>; \<open>ftrace_file\<close> is whether the file is open. The length is
  that of the request.
\<close>

record 'l client_prms =
  prologue_busyloop :: "'l cpu_busyloop"
  request :: bytes
  epilogue_busyloop :: "'l cpu_busyloop"
  server_pid :: int
  stopping_iteration :: int
  ftrace_iteration :: int
  ftrace_iteration_limit :: int
  ftrace_file :: bool
  ftrace_response_time :: utility_time
  prms_period :: utility_time

record 'w client_state =
  cl_status :: status
  nth_iteration :: int
  cl_next_release :: utility_time
  ftrace_response_time_hit :: int
  cl_world :: 'w
  cl_trace :: "client_event list"

text \<open>The results of system calls are an error number or what the call returned.\<close>

record 'w client_env =
  cl_sys :: "'w sys_env"
  cl_bwi :: "int \<Rightarrow> 'w \<Rightarrow> int option \<times> 'w"
  cl_unbwi :: "int \<Rightarrow> 'w \<Rightarrow> bool \<times> 'w"
  cl_send :: "bytes \<Rightarrow> 'w \<Rightarrow> (int + nat) \<times> 'w"
  cl_recv :: "nat \<Rightarrow> 'w \<Rightarrow> (int + bytes) \<times> 'w"

definition emit :: "client_event \<Rightarrow> 'w client_state \<Rightarrow> 'w client_state" where
  "emit e s = s\<lparr>cl_trace := cl_trace s @ [e]\<rparr>"

definition fatal :: "'w client_state \<Rightarrow> 'w client_state" where
  "fatal s = s\<lparr>cl_status := Exited\<rparr>"

text \<open>The rest of a function, unless the process is gone.\<close>

definition running :: "('w client_state \<Rightarrow> 'w client_state) \<Rightarrow> 'w client_state \<Rightarrow> 'w client_state" where
  "running f s = (if cl_status s = Running then f s else s)"

text \<open>\<^verbatim>\<open>fprintf(prms->ftrace_file, ...)\<close>, undefined for NULL.\<close>

definition ftrace_print :: "'l client_prms \<Rightarrow> string \<Rightarrow> 'w client_state \<Rightarrow> 'w client_state" where
  "ftrace_print prms str s = (if ftrace_file prms then emit (Ftrace str) s else s\<lparr>cl_status := Undefined\<rparr>)"

text \<open>
  \<^verbatim>\<open>send_recv\<close>: what was sent and received (-1 on an error), the two error numbers, and the buffer of the
  response. A response that is too long is cut.
\<close>

definition client_send_recv :: "'w client_env \<Rightarrow> bytes \<Rightarrow> bytes \<Rightarrow> 'w \<Rightarrow> (int \<times> int \<times> int \<times> int \<times> bytes) \<times> 'w" where
  "client_send_recv env data buffer w =
    (case cl_send env data w of
       (Inl e, w) \<Rightarrow> ((- 1, 0, e, 0, buffer), w)
     | (Inr n, w) \<Rightarrow>
        let buf_len = length buffer; zeros = replicate buf_len 0 in
        (case cl_recv env buf_len w of
           (Inl e, w) \<Rightarrow> ((int n, - 1, 0, e, zeros), w)
         | (Inr bs, w) \<Rightarrow>
            let got = take buf_len bs in ((int n, int (length got), 0, 0, got @ drop (length got) zeros), w)))"

definition job_prologue :: "'w client_env \<Rightarrow> 'l::len word client_prms \<Rightarrow> 'w client_state \<Rightarrow> 'w client_state" where
  "job_prologue env prms s =
    (if nth_iteration s = 2 ^ 31 - 1 then s\<lparr>cl_status := Undefined\<rparr>
     else
       let s = s\<lparr>nth_iteration := nth_iteration s + 1\<rparr>;
           s = emit Prologue (s\<lparr>cl_world := keep_cpu_busy (cl_sys env) (prologue_busyloop prms) (cl_world s)\<rparr>)
       in if nth_iteration s = ftrace_iteration prms then ftrace_print prms ''1'' s else s)"

definition job_lend :: "'w client_env \<Rightarrow> 'l client_prms \<Rightarrow> 'w client_state \<Rightarrow> int option \<times> 'w client_state" where
  "job_lend env prms s =
    (if cl_status s = Running \<and> server_pid prms \<noteq> - 1 then
       (case cl_bwi env (server_pid prms) (cl_world s) of
          (None, w) \<Rightarrow> (None, fatal (s\<lparr>cl_world := w\<rparr>))
        | (Some key, w) \<Rightarrow> (Some key, emit (Lend key) (s\<lparr>cl_world := w\<rparr>)))
     else (None, s))"

definition job_request :: "'w client_env \<Rightarrow> 'l client_prms \<Rightarrow> 'w client_state \<Rightarrow>
    (int \<times> int \<times> int \<times> int \<times> bytes) \<times> 'w client_state" where
  "job_request env prms s =
    (let response = replicate (length (request prms)) 0;
         (r, w) = client_send_recv env (request prms) response (cl_world s)
     in (r, emit Block (emit (Request (request prms)) (emit Unblock s)\<lparr>cl_world := w\<rparr>)))"

definition job_revoke :: "'w client_env \<Rightarrow> 'l client_prms \<Rightarrow> int option \<Rightarrow> 'w client_state \<Rightarrow> 'w client_state" where
  "job_revoke env prms bwi_key s =
    (let s = (case bwi_key of
                None \<Rightarrow> s
              | Some key \<Rightarrow>
                 (case cl_unbwi env key (cl_world s) of
                    (False, w) \<Rightarrow> fatal (s\<lparr>cl_world := w\<rparr>)
                  | (True, w) \<Rightarrow> emit (Revoke key) (s\<lparr>cl_world := w\<rparr>)))
     in running (\<lambda>s. if nth_iteration s = ftrace_iteration_limit prms then ftrace_print prms ''0'' s else s) s)"

text \<open>The response time is found too long once; the result of \<^verbatim>\<open>clock_gettime\<close> is not tested.\<close>

definition job_response_time :: "'w client_env \<Rightarrow> 'l client_prms \<Rightarrow> 'w client_state \<Rightarrow> 'w client_state" where
  "job_response_time env prms s =
    (if ftrace_iteration prms = 0 \<and> ftrace_response_time_hit s = 0 then
       (case sys_clock (cl_sys env) (cl_world s) of
          (None, w) \<Rightarrow> s\<lparr>cl_status := Undefined, cl_world := w\<rparr>
        | (Some t_now, w) \<Rightarrow>
           let t = timespec_to_utility_time t_now utility_time_init;
               t = utility_time_sub t (cl_next_release s) t;
               s = s\<lparr>cl_world := w\<rparr>;
               s = (if utility_time_gt t (ftrace_response_time prms)
                    then ftrace_print prms ''0'' (s\<lparr>ftrace_response_time_hit := nth_iteration s\<rparr>) else s)
           in running (\<lambda>s. s\<lparr>cl_next_release := utility_time_inc (cl_next_release s) (prms_period prms)\<rparr>) s)
     else s)"

definition job_results :: "'l client_prms \<Rightarrow> int \<times> int \<times> int \<times> int \<times> bytes \<Rightarrow> 'w client_state \<Rightarrow> 'w client_state" where
  "job_results prms results s =
    (case results of (byte_sent, byte_rcvd, send_errno, recv_errno, response) \<Rightarrow>
      let len = int (length (request prms));
          s = (if byte_sent = - 1 then if send_errno \<noteq> EINTR then fatal s else s
               else if byte_sent \<noteq> len then emit (Complain Request_truncated) s else s);
          s = running (\<lambda>s.
               if byte_rcvd = - 1 then if recv_errno \<noteq> EINTR then fatal s else s
               else if byte_rcvd \<noteq> len then emit (Complain Response_corrupted) s
               else if request prms \<noteq> response then emit (Complain Response_differs) s else s) s
      in running (\<lambda>s. if nth_iteration s = stopping_iteration prms then emit Stop_program s else s) s)"

text \<open>The job up to the end of the epilogue; the results mean nothing when the process is gone before.\<close>

definition job_service :: "'w client_env \<Rightarrow> 'l::len word client_prms \<Rightarrow> 'w client_state \<Rightarrow>
    (int \<times> int \<times> int \<times> int \<times> bytes) \<times> 'w client_state" where
  "job_service env prms s =
    (let (bwi_key, s) = job_lend env prms (job_prologue env prms s) in
     if cl_status s \<noteq> Running then ((0, 0, 0, 0, []), s)
     else
       let (results, s) = job_request env prms s;
           s = job_revoke env prms bwi_key s
       in (results, running (\<lambda>s. emit Epilogue (s\<lparr>cl_world := keep_cpu_busy (cl_sys env) (epilogue_busyloop prms) (cl_world s)\<rparr>)) s))"

definition client_prog :: "'w client_env \<Rightarrow> 'l::len word client_prms \<Rightarrow> 'w client_state \<Rightarrow> 'w client_state" where
  "client_prog env prms = running (\<lambda>s.
     let (results, s) = job_service env prms s;
         s = running (job_response_time env prms) s
     in running (job_results prms results) s)"

section \<open>The thread of the task\<close>

text \<open>
  The process as the world of the task. A process that is gone executes nothing more; that its loop stops is
  how the model leaves it.
\<close>

definition client_task_env :: "'w task_env \<Rightarrow> 'w client_env \<Rightarrow> 'l::len word client_prms \<Rightarrow> 'w client_state task_env" where
  "client_task_env tenv env prms = \<lparr>
     sleep_until = (\<lambda>t s. case sleep_until tenv t (cl_world s) of (e, w) \<Rightarrow> (e, s\<lparr>cl_world := w\<rparr>)),
     read_clock = (\<lambda>s. case read_clock tenv (cl_world s) of (t, w) \<Rightarrow> (t, s\<lparr>cl_world := w\<rparr>)),
     run_program = client_prog env prms,
     aperiodic_release = (\<lambda>s. s),
     is_stopped = (\<lambda>s. cl_status s \<noteq> Running \<or> is_stopped tenv (cl_world s))\<rparr>"

text \<open>
  The state of the job before the first one, the end of the thread, and what \<^verbatim>\<open>main\<close> makes of the options.
  The release time is an object of the store while the task is created.
\<close>

datatype thread_end = Thread_failed | Process_gone | Thread_done task "u8 list option"

definition make_prms :: "client_options \<Rightarrow> int \<times> int \<Rightarrow> 'l cpu_busyloop \<times> 'l cpu_busyloop \<Rightarrow> bool \<Rightarrow> 'l client_prms" where
  "make_prms cfg limits bls file =
    \<lparr>prologue_busyloop = fst bls, request = name_bytes ''Hello!'' @ [0], epilogue_busyloop = snd bls,
     server_pid = (if use_bwi cfg then cl_server_pid cfg else - 1),
     stopping_iteration = cl_stopping_iteration cfg, ftrace_iteration = cl_ftrace_iteration cfg,
     ftrace_iteration_limit = snd limits, ftrace_file = file,
     ftrace_response_time = (if fst limits \<noteq> - 1
       then to_utility_time (of_int (fst limits)) Unit_ms utility_time_init else utility_time_init),
     prms_period = to_utility_time (of_int (cl_period_ms cfg)) Unit_ms utility_time_init\<rparr>"

definition client_thread :: "byte_order \<Rightarrow> create_env \<Rightarrow> fsys \<Rightarrow> int \<Rightarrow> sched_env \<Rightarrow> sched_class \<Rightarrow> 'w task_env \<Rightarrow> 'w client_env \<Rightarrow>
    client_options \<Rightarrow> 'l::len word client_prms \<Rightarrow> time_ptr \<Rightarrow> time_ptr \<Rightarrow> time_ptr \<Rightarrow> 'w client_state \<Rightarrow> time_store \<Rightarrow>
    (thread_end \<times> 'w client_state \<times> time_store) option" where
  "client_thread bo cenv fs junk kenv class tenv env cfg prms job_stats_overhead task_overhead release_ptr s h = do {
     wcet_ms \<leftarrow> client_wcet cfg;
     ((rc, old, class), h) \<leftarrow> use_cbs_server kenv junk class (if cl_budget_ms cfg = - 1 then wcet_ms else cl_budget_ms cfg)
       (cl_period_ms cfg) h;
     if rc \<noteq> 0 then Some (Thread_failed, s, h)
     else case read_clock tenv (cl_world s) of
       (None, w) \<Rightarrow> Some (Process_gone, fatal (s\<lparr>cl_world := w\<rparr>), h)
     | (Some t_now, w) \<Rightarrow> do {
        let s = s\<lparr>cl_world := w\<rparr>;
        (a, h) \<leftarrow> timespec_to_utility_time_dyn t_now h;
        (b, h) \<leftarrow> to_utility_time_dyn 1 Unit_s h;
        h \<leftarrow> utility_time_add_gc a b release_ptr h;
        u \<leftarrow> load release_ptr h;
        let s = s\<lparr>cl_next_release := u\<rparr>;
        (wcet, h) \<leftarrow> to_utility_time_dyn (of_int wcet_ms) Unit_ms h;
        (period, h) \<leftarrow> to_utility_time_dyn (of_int (cl_period_ms cfg)) Unit_ms h;
        (deadline, h) \<leftarrow> to_utility_time_dyn (of_int (cl_period_ms cfg)) Unit_ms h;
        (offset, h) \<leftarrow> to_utility_time_dyn (of_int (if offset_ms cfg = - 1 then 0 else offset_ms cfg)) Unit_ms h;
        ((rc, tau), h) \<leftarrow> task_create bo cenv fs ''client'' wcet period deadline release_ptr offset False
          (the (stats_file_path cfg)) (of_int (duration_ms cfg div cl_period_ms cfg)) True
          job_stats_overhead task_overhead h;
        if rc \<noteq> 0 then Some (Process_gone, fatal s, h)
        else do {
          let s = (if ftrace_iteration prms = 0 then ftrace_print prms ''1'' s else s);
          (rc, tau, log, s) \<leftarrow> task_start bo (client_task_env tenv env prms) (the tau) s;
          Some (if cl_status s \<noteq> Running then Process_gone
                else if rc \<noteq> 0 then Thread_failed else Thread_done tau log, s, h) } } }"

section \<open>The end of the program\<close>

text \<open>What \<^verbatim>\<open>main\<close> does to the tracing when it gets \<^verbatim>\<open>SIGTERM\<close>, and after the thread has been joined: the job it
  reports, if any.\<close>

definition client_terminated :: "'l client_prms \<Rightarrow> 'w client_state \<Rightarrow> 'w client_state" where
  "client_terminated prms s =
    (if ftrace_iteration prms = 0 \<and> ftrace_response_time_hit s = 0 then ftrace_print prms ''0'' s else s)"

definition client_finish :: "task \<Rightarrow> time_ptr \<Rightarrow> time_ptr \<Rightarrow> time_ptr \<Rightarrow> 'w client_state \<Rightarrow> time_store \<Rightarrow>
    (int option \<times> time_store) option" where
  "client_finish tau job_stats_overhead task_overhead overhead s h = do {
     u \<leftarrow> task_destroy tau;
     h \<leftarrow> utility_time_gc job_stats_overhead h;
     h \<leftarrow> utility_time_gc task_overhead h;
     h \<leftarrow> utility_time_gc overhead h;
     Some (if ftrace_response_time_hit s \<noteq> 0 then Some (ftrace_response_time_hit s) else None, h) }"

text \<open>
  The two threads at the end: \<^verbatim>\<open>SIGUSR2\<close> is blocked in the thread of the task except around \<^verbatim>\<open>send_recv\<close>, and
  \<^verbatim>\<open>main\<close> sends it, after \<^verbatim>\<open>task_stop\<close>, so that the thread does not stay in \<^verbatim>\<open>recv\<close>. A signal
  that is blocked stays pending; one that is not blocked runs an empty handler, and makes \<^verbatim>\<open>recv\<close>
  return if the thread is in it. Sending a datagram does not block.
\<close>

datatype job_pc = J_release | J_closed | J_open | J_recv | J_received | J_check | J_ended

datatype main_pc = M_sigwait | M_stop | M_kill | M_join | M_out

record race =
  r_job :: job_pc
  r_main :: main_pc
  r_stop :: bool
  r_pending :: bool

definition job_moves :: "race \<Rightarrow> race option" where
  "job_moves r =
    (case r_job r of
       J_release \<Rightarrow> Some (r\<lparr>r_job := J_closed\<rparr>)
     | J_closed \<Rightarrow> Some (r\<lparr>r_job := J_open, r_pending := False\<rparr>)
     | J_open \<Rightarrow> Some (r\<lparr>r_job := J_recv\<rparr>)
     | J_recv \<Rightarrow> None
     | J_received \<Rightarrow> Some (r\<lparr>r_job := J_check\<rparr>)
     | J_check \<Rightarrow> Some (r\<lparr>r_job := (if r_stop r then J_ended else J_release)\<rparr>)
     | J_ended \<Rightarrow> None)"

definition main_moves :: "race \<Rightarrow> race option" where
  "main_moves r =
    (case r_main r of
       M_sigwait \<Rightarrow> Some (r\<lparr>r_main := M_stop\<rparr>)
     | M_stop \<Rightarrow> Some (r\<lparr>r_main := M_kill, r_stop := True\<rparr>)
     | M_kill \<Rightarrow>
        Some (r\<lparr>r_main := M_join,
          r_job := (if r_job r = J_recv then J_received else r_job r),
          r_pending := (r_pending r \<or> r_job r \<in> {J_release, J_closed, J_check})\<rparr>)
     | M_join \<Rightarrow> if r_job r = J_ended then Some (r\<lparr>r_main := M_out\<rparr>) else None
     | M_out \<Rightarrow> None)"

datatype race_action = Job | Answer | Main

inductive race_step :: "race \<Rightarrow> race_action \<Rightarrow> race \<Rightarrow> bool" where
  job: "job_moves r = Some r' \<Longrightarrow> race_step r Job r'"
| answer: "r_job r = J_recv \<Longrightarrow> race_step r Answer (r\<lparr>r_job := J_received\<rparr>)"
| main: "main_moves r = Some r' \<Longrightarrow> race_step r Main r'"

inductive race_run :: "race \<Rightarrow> race_action list \<Rightarrow> race \<Rightarrow> bool" where
  race_nil: "race_run r [] r"
| race_Cons: "race_step r a r1 \<Longrightarrow> race_run r1 as r' \<Longrightarrow> race_run r (a # as) r'"

inductive_simps race_step_simps: "race_step r Job r'" "race_step r Answer r'" "race_step r Main r'"
inductive_simps race_run_simps [simp]: "race_run r [] r'" "race_run r (a # as) r'"

section \<open>Accepted options\<close>

text \<open>What holds of the options at every point of the loop.\<close>

definition client_in_range :: "client_options \<Rightarrow> bool" where
  "client_in_range cfg \<longleftrightarrow> - 1 \<le> prologue_duration_ms cfg \<and> - 1 \<le> expected_waiting_ms cfg \<and> - 1 \<le> epilogue_duration_ms cfg \<and>
     - 1 \<le> offset_ms cfg \<and> (cl_server_port cfg \<in> {1024..65535} \<or> cl_server_port cfg = - 1) \<and>
     (cl_limit cfg = - 1 \<or> 0 < cl_limit cfg) \<and> (cl_budget_ms cfg = - 1 \<or> 0 < cl_budget_ms cfg) \<and>
     (cl_period_ms cfg = - 1 \<or> 0 < cl_period_ms cfg)"

lemma client_in_range_update [simp]:
  assumes "client_in_range cfg"
  shows "0 \<le> v \<Longrightarrow> client_in_range (cfg\<lparr>prologue_duration_ms := v\<rparr>)" "0 \<le> v \<Longrightarrow> client_in_range (cfg\<lparr>expected_waiting_ms := v\<rparr>)"
    "0 \<le> v \<Longrightarrow> client_in_range (cfg\<lparr>epilogue_duration_ms := v\<rparr>)" "0 \<le> v \<Longrightarrow> client_in_range (cfg\<lparr>offset_ms := v\<rparr>)"
    "1024 \<le> v \<Longrightarrow> v \<le> 65535 \<Longrightarrow> client_in_range (cfg\<lparr>cl_server_port := v\<rparr>)" "0 < v \<Longrightarrow> client_in_range (cfg\<lparr>cl_limit := v\<rparr>)"
    "0 < v \<Longrightarrow> client_in_range (cfg\<lparr>cl_budget_ms := v\<rparr>)" "0 < v \<Longrightarrow> client_in_range (cfg\<lparr>cl_period_ms := v\<rparr>)"
    "client_in_range (cfg\<lparr>duration_ms := v\<rparr>)" "client_in_range (cfg\<lparr>use_bwi := b\<rparr>)" "client_in_range (cfg\<lparr>cl_server_pid := v\<rparr>)"
    "client_in_range (cfg\<lparr>cl_stopping_iteration := v\<rparr>)" "client_in_range (cfg\<lparr>cl_ftrace_iteration := v\<rparr>)"
    "client_in_range (cfg\<lparr>stats_file_path := p\<rparr>)"
  using assms by (simp_all add: client_in_range_def)

lemma client_option_in_range:
  "client_option optchar optarg start = Parsed cfg \<Longrightarrow> client_in_range start \<Longrightarrow> client_in_range cfg"
  by (auto simp: client_option_def Let_def split: if_split_asm)

lemma client_getopt_in_range:
  "client_getopt opts start = Parsed cfg \<Longrightarrow> client_in_range start \<Longrightarrow> client_in_range cfg"
  unfolding client_getopt_def by (erule getopt_loop_invariant) (auto dest: client_option_in_range)

lemma client_parse_in_range: "client_getopt opts client_defaults = Parsed cfg \<Longrightarrow> client_in_range cfg"
  by (erule client_getopt_in_range) (simp add: client_in_range_def client_defaults_def)

lemma client_wcet_eq:
  assumes "0 \<le> prologue_duration_ms cfg" "0 \<le> expected_waiting_ms cfg" "0 \<le> epilogue_duration_ms cfg"
    and "span_ms = prologue_duration_ms cfg + expected_waiting_ms cfg + epilogue_duration_ms cfg"
  shows "client_wcet cfg = (if span_ms < 2 ^ 31 then Some span_ms else None)"
  using assms by (auto simp: client_wcet_def add_int_def split: bind_splits)

text \<open>Claim C40. The client goes on only with durations that are not negative, a positive period within the duration of
  the experiment, hence at least one slot in the ring buffer, a port from 1024 on, and a file for the statistics; without \<^verbatim>\<open>-q\<close>
  the three durations fit into the period, with \<^verbatim>\<open>-q\<close> only the budget must. Hence an overflow of
  their sum is possible, either in the check or, with \<^verbatim>\<open>-q\<close>, after it; and the process
  identifier of the server can be anything but -1.\<close>

lemma client_accepted:
  assumes "client_check cfg = Some True" "client_in_range cfg"
  shows "0 \<le> prologue_duration_ms cfg" "0 \<le> expected_waiting_ms cfg" "0 \<le> epilogue_duration_ms cfg" "- 1 \<le> offset_ms cfg"
    "0 < cl_period_ms cfg" "cl_period_ms cfg \<le> duration_ms cfg" "cl_server_port cfg \<in> {1024..65535}"
    "stats_file_path cfg \<noteq> None" "cl_server_pid cfg \<noteq> - 1"
    "cl_budget_ms cfg = - 1 \<longrightarrow> (\<exists>t. client_wcet cfg = Some t \<and> t \<le> cl_period_ms cfg)"
    "cl_budget_ms cfg \<noteq> - 1 \<longrightarrow> 0 < cl_budget_ms cfg \<and> cl_budget_ms cfg \<le> cl_period_ms cfg"
    "cl_ftrace_iteration cfg = 0 \<longrightarrow> 0 < cl_limit cfg" "cl_limit cfg \<noteq> - 1 \<longrightarrow> cl_ftrace_iteration cfg \<noteq> - 1"
  using assms by (auto simp: client_check_def client_in_range_def split: if_splits bind_splits)

theorem client_options_typed:
  assumes "client_getopt opts client_defaults = Parsed cfg"
    and "span_ms = prologue_duration_ms cfg + expected_waiting_ms cfg + epilogue_duration_ms cfg"
  shows "(client_parse opts = None \<longrightarrow> 2 ^ 31 \<le> span_ms \<and> cl_budget_ms cfg = - 1) \<and>
    (client_parse opts = Some (Parsed cfg) \<longrightarrow>
      0 \<le> prologue_duration_ms cfg \<and> 0 \<le> expected_waiting_ms cfg \<and> 0 \<le> epilogue_duration_ms cfg \<and> - 1 \<le> offset_ms cfg \<and>
      0 < cl_period_ms cfg \<and> 1 \<le> duration_ms cfg div cl_period_ms cfg \<and>
      cl_server_port cfg \<in> {1024..65535} \<and> stats_file_path cfg \<noteq> None \<and> cl_server_pid cfg \<noteq> - 1 \<and>
      (if cl_budget_ms cfg = - 1 then span_ms \<le> cl_period_ms cfg else 0 < cl_budget_ms cfg \<and> cl_budget_ms cfg \<le> cl_period_ms cfg) \<and>
      (cl_ftrace_iteration cfg = 0 \<longrightarrow> (\<exists>l > 0. client_limits cfg = Some (l, - 1))) \<and>
      (client_wcet cfg = None \<longleftrightarrow> 2 ^ 31 \<le> span_ms))"
proof -
  note r = client_parse_in_range [OF assms(1)]
  note w = client_wcet_eq [OF _ _ _ assms(2)]
  have p: "client_parse opts = do { ok \<leftarrow> client_check cfg; Some (if ok then Parsed cfg else Bad_option) }"
    using assms(1) by (simp add: client_parse_def)
  have "2 ^ 31 \<le> span_ms \<and> cl_budget_ms cfg = - 1" if "client_parse opts = None"
    using that p r w by (auto simp: client_check_def client_in_range_def split: if_splits bind_splits)
  moreover have "(0 \<le> prologue_duration_ms cfg \<and> 0 \<le> expected_waiting_ms cfg \<and> 0 \<le> epilogue_duration_ms cfg \<and> - 1 \<le> offset_ms cfg \<and>
      0 < cl_period_ms cfg \<and> 1 \<le> duration_ms cfg div cl_period_ms cfg \<and>
      cl_server_port cfg \<in> {1024..65535} \<and> stats_file_path cfg \<noteq> None \<and> cl_server_pid cfg \<noteq> - 1) \<and>
      (if cl_budget_ms cfg = - 1 then span_ms \<le> cl_period_ms cfg else 0 < cl_budget_ms cfg \<and> cl_budget_ms cfg \<le> cl_period_ms cfg) \<and>
      (cl_ftrace_iteration cfg = 0 \<longrightarrow> (\<exists>l > 0. client_limits cfg = Some (l, - 1))) \<and>
      (client_wcet cfg = None \<longleftrightarrow> 2 ^ 31 \<le> span_ms)" if "client_parse opts = Some (Parsed cfg)"
  proof -
    have "client_check cfg = Some True" using that p by (auto split: bind_splits if_splits)
    note a = client_accepted [OF this r]
    have "cl_period_ms cfg div cl_period_ms cfg \<le> duration_ms cfg div cl_period_ms cfg" using a(5,6) by (intro zdiv_mono1)
    then have "1 \<le> duration_ms cfg div cl_period_ms cfg" using a(5) by simp
    moreover have "client_wcet cfg = (if span_ms < 2 ^ 31 then Some span_ms else None)" using w a(1-3) by blast
    moreover from this have "cl_budget_ms cfg = - 1 \<Longrightarrow> span_ms \<le> cl_period_ms cfg" using a(10) by (auto split: if_splits)
    ultimately show ?thesis using a by (auto simp: client_limits_def)
  qed
  ultimately show ?thesis by blast
qed

text \<open>A client that is started with a word instead of the identifier of its server.\<close>

theorem client_options_typed_witness:
  "\<exists>cfg. client_getopt [(CHR ''1'', ''10''), (CHR ''2'', ''5''), (CHR ''3'', ''20''), (CHR ''t'', ''100''), (CHR ''x'', ''950''),
      (CHR ''p'', ''4096''), (CHR ''s'', ''stats''), (CHR ''v'', ''server'')] client_defaults = Parsed cfg \<and>
    cl_server_pid cfg = 0 \<and> duration_ms cfg div cl_period_ms cfg = 9 \<and> client_wcet cfg = Some 35"
proof -
  let ?opts = "[(CHR ''1'', ''10''), (CHR ''2'', ''5''), (CHR ''3'', ''20''), (CHR ''t'', ''100''), (CHR ''x'', ''950''),
      (CHR ''p'', ''4096''), (CHR ''s'', ''stats''), (CHR ''v'', ''server'')]"
  let ?cfg = "client_defaults\<lparr>prologue_duration_ms := 10, expected_waiting_ms := 5, epilogue_duration_ms := 20, cl_period_ms := 100,
      duration_ms := 950, cl_server_port := 4096, stats_file_path := Some ''stats'', cl_server_pid := 0\<rparr>"
  have g: "client_getopt ?opts client_defaults = Parsed ?cfg" by code_simp
  have p: "client_parse ?opts = Some (Parsed ?cfg)" by code_simp
  have "client_wcet ?cfg \<noteq> None" using client_options_typed [OF g refl] p by simp
  then show ?thesis using g by (intro exI [of _ ?cfg]) (auto simp: client_wcet_def add_int_def client_defaults_def)
qed

section \<open>Bandwidth and signals during the jobs\<close>

text \<open>
  What a trace may hold: the key of the bandwidth that is lent, and whether the signal that
  interrupts \<^verbatim>\<open>recv\<close> is unblocked; \<open>None\<close> after an event that is out of place. A request is sent only
  while the signal is unblocked and, if the server is to run with the bandwidth of the client, the bandwidth lent.
\<close>

fun bwi_next :: "bool \<Rightarrow> (int option \<times> bool) option \<Rightarrow> client_event \<Rightarrow> (int option \<times> bool) option" where
  "bwi_next lends None e = None"
| "bwi_next lends (Some (key, unblocked)) e =
    (case e of
       Lend k \<Rightarrow> if key = None \<and> \<not> unblocked then Some (Some k, unblocked) else None
     | Revoke k \<Rightarrow> if key = Some k \<and> \<not> unblocked then Some (None, unblocked) else None
     | Unblock \<Rightarrow> if \<not> unblocked then Some (key, True) else None
     | Block \<Rightarrow> if unblocked then Some (key, False) else None
     | Request _ \<Rightarrow> if unblocked \<and> (lends \<longleftrightarrow> key \<noteq> None) then Some (key, unblocked) else None
     | _ \<Rightarrow> if key = None \<and> \<not> unblocked then Some (key, unblocked) else None)"

definition bwi_state :: "bool \<Rightarrow> client_event list \<Rightarrow> (int option \<times> bool) option" where
  "bwi_state lends es = foldl (bwi_next lends) (Some (None, False)) es"

abbreviation is_request :: "client_event \<Rightarrow> bool" where
  "is_request e \<equiv> (case e of Request _ \<Rightarrow> True | _ \<Rightarrow> False)"

abbreviation requests :: "client_event list \<Rightarrow> nat" where
  "requests es \<equiv> length (filter is_request es)"

lemma bwi_state_append [simp]: "bwi_state lends (es @ ds) = foldl (bwi_next lends) (bwi_state lends es) ds"
  by (simp add: bwi_state_def)

lemma emit_simps [simp]:
  "cl_trace (emit e s) = cl_trace s @ [e]" "cl_status (emit e s) = cl_status s" "nth_iteration (emit e s) = nth_iteration s"
  "cl_next_release (emit e s) = cl_next_release s" "ftrace_response_time_hit (emit e s) = ftrace_response_time_hit s"
  "cl_world (emit e s) = cl_world s"
  by (simp_all add: emit_def)

lemma fatal_simps [simp]:
  "cl_trace (fatal s) = cl_trace s" "cl_status (fatal s) = Exited" "nth_iteration (fatal s) = nth_iteration s"
  "cl_next_release (fatal s) = cl_next_release s" "ftrace_response_time_hit (fatal s) = ftrace_response_time_hit s"
  by (simp_all add: fatal_def)

text \<open>A part of a job that neither lends nor sends anything: it only goes on in the same state.\<close>

definition keeps_bwi :: "'w client_state \<Rightarrow> 'w client_state \<Rightarrow> bool" where
  "keeps_bwi s t \<longleftrightarrow> (\<forall>lends. bwi_state lends (cl_trace s) = Some (None, False) \<longrightarrow> bwi_state lends (cl_trace t) = Some (None, False)) \<and>
     requests (cl_trace t) = requests (cl_trace s) \<and> nth_iteration t = nth_iteration s"

lemma keeps_bwi_trans: "keeps_bwi s t \<Longrightarrow> keeps_bwi t u \<Longrightarrow> keeps_bwi s u"
  by (auto simp: keeps_bwi_def)

lemma keeps_bwi_same:
  "cl_trace t = cl_trace s \<Longrightarrow> nth_iteration t = nth_iteration s \<Longrightarrow> keeps_bwi s t"
  by (simp add: keeps_bwi_def)

lemma keeps_bwi_emit:
  "e \<in> {Prologue, Epilogue, Stop_program} \<or> (\<exists>str. e = Ftrace str) \<or> (\<exists>c. e = Complain c) \<Longrightarrow> keeps_bwi s (emit e s)"
  by (auto simp: keeps_bwi_def)

lemma keeps_bwi_ftrace: "keeps_bwi s (ftrace_print prms str s)"
  by (simp add: ftrace_print_def keeps_bwi_emit keeps_bwi_same)

lemma keeps_bwi_running: "keeps_bwi s t \<Longrightarrow> keeps_bwi t (f t) \<Longrightarrow> keeps_bwi s (running f t)"
  by (auto simp: running_def intro: keeps_bwi_trans)

lemma keeps_response_time: "keeps_bwi s (job_response_time env prms s)"
proof (cases "ftrace_iteration prms = 0 \<and> ftrace_response_time_hit s = 0")
  case True
  obtain t w where c: "sys_clock (cl_sys env) (cl_world s) = (t, w)" by fastforce
  have "keeps_bwi s (ftrace_print prms ''0'' (s\<lparr>cl_world := w, ftrace_response_time_hit := h\<rparr>))" for h
    by (rule keeps_bwi_trans [OF keeps_bwi_same keeps_bwi_ftrace]) simp_all
  moreover have "keeps_bwi s (running (\<lambda>s. s\<lparr>cl_next_release := v s\<rparr>) t)" if "keeps_bwi s t" for v t
    using that by (rule keeps_bwi_running) (rule keeps_bwi_same, simp_all)
  moreover have "keeps_bwi s (s\<lparr>cl_world := w\<rparr>)" "keeps_bwi s (s\<lparr>cl_status := Undefined, cl_world := w\<rparr>)"
    by (rule keeps_bwi_same; simp)+
  ultimately show ?thesis using True c
    by (cases t) (simp_all add: job_response_time_def Let_def)
next
  case False
  then show ?thesis by (auto simp: job_response_time_def intro: keeps_bwi_same)
qed

lemma keeps_results: "keeps_bwi s (job_results prms results s)"
proof -
  obtain sent rcvd e1 e2 response where r: "results = (sent, rcvd, e1, e2, response)" by (cases results)
  let ?len = "int (length (request prms))"
  let ?f = "\<lambda>s :: 'a client_state. if rcvd = - 1 then if e2 \<noteq> EINTR then fatal s else s
    else if rcvd \<noteq> ?len then emit (Complain Response_corrupted) s
    else if request prms \<noteq> response then emit (Complain Response_differs) s else s"
  let ?g = "\<lambda>s :: 'a client_state. if nth_iteration s = stopping_iteration prms then emit Stop_program s else s"
  let ?s1 = "if sent = - 1 then if e1 \<noteq> EINTR then fatal s else s
    else if sent \<noteq> ?len then emit (Complain Request_truncated) s else s"
  have k: "keeps_bwi t (fatal t)" "keeps_bwi t t" "keeps_bwi t (emit (Complain c) t)" "keeps_bwi t (emit Stop_program t)"
    for t :: "'a client_state" and c by (simp_all add: keeps_bwi_same keeps_bwi_emit)
  have "keeps_bwi s ?s1" using k by simp
  moreover have "keeps_bwi t (?f t)" "keeps_bwi t (?g t)" for t using k by simp_all
  ultimately have "keeps_bwi s (running ?g (running ?f ?s1))" by (intro keeps_bwi_running)
  then show ?thesis by (simp add: r job_results_def Let_def)
qed

text \<open>What is known of a process after a part of a job: all of it, if it goes on, and how it ended otherwise.\<close>

definition tidy :: "bool \<Rightarrow> 'w client_state \<Rightarrow> bool" where
  "tidy lends s \<longleftrightarrow> (case cl_status s of
     Running \<Rightarrow> bwi_state lends (cl_trace s) = Some (None, False) \<and> int (requests (cl_trace s)) = nth_iteration s
   | Exited \<Rightarrow> (\<exists>key. bwi_state lends (cl_trace s) = Some (key, False))
   | Undefined \<Rightarrow> True)"

lemma prologue_tidy:
  assumes "bwi_state lends (cl_trace s) = Some (None, False)" "cl_status s = Running"
  shows "bwi_state lends (cl_trace (job_prologue env prms s)) = Some (None, False)"
    "cl_status (job_prologue env prms s) = Running \<Longrightarrow> nth_iteration (job_prologue env prms s) = nth_iteration s + 1"
    "requests (cl_trace (job_prologue env prms s)) = requests (cl_trace s)" "cl_status (job_prologue env prms s) \<noteq> Exited"
  using assms by (auto simp: job_prologue_def ftrace_print_def Let_def)

lemma lend_tidy:
  assumes "bwi_state lends (cl_trace s) = Some (None, False)" "lends \<longleftrightarrow> server_pid prms \<noteq> - 1" "job_lend env prms s = (key, t)"
  shows "requests (cl_trace t) = requests (cl_trace s)" "nth_iteration t = nth_iteration s"
    "cl_status t = Running \<Longrightarrow> bwi_state lends (cl_trace t) = Some (key, False) \<and> (lends \<longleftrightarrow> key \<noteq> None)"
    "cl_status t \<noteq> Running \<Longrightarrow> bwi_state lends (cl_trace t) = Some (None, False)" "cl_status t = Running \<Longrightarrow> cl_status s = Running"
  using assms by (auto simp: job_lend_def split: prod.splits option.splits if_splits)

lemma request_tidy:
  assumes "bwi_state lends (cl_trace s) = Some (key, False)" "lends \<longleftrightarrow> key \<noteq> None" "job_request env prms s = (r, t)"
  shows "bwi_state lends (cl_trace t) = Some (key, False)" "requests (cl_trace t) = Suc (requests (cl_trace s))"
    "nth_iteration t = nth_iteration s" "cl_status t = cl_status s"
  using assms by (auto simp: job_request_def Let_def split: prod.splits)

lemma revoke_tidy:
  assumes "bwi_state lends (cl_trace s) = Some (key, False)" "cl_status s = Running"
  shows "requests (cl_trace (job_revoke env prms key s)) = requests (cl_trace s)"
    "nth_iteration (job_revoke env prms key s) = nth_iteration s"
    "cl_status (job_revoke env prms key s) = Exited \<Longrightarrow> bwi_state lends (cl_trace (job_revoke env prms key s)) = Some (key, False)"
    "cl_status (job_revoke env prms key s) = Running \<Longrightarrow> bwi_state lends (cl_trace (job_revoke env prms key s)) = Some (None, False)"
proof -
  obtain s1 where s1: "job_revoke env prms key s =
      running (\<lambda>s. if nth_iteration s = ftrace_iteration_limit prms then ftrace_print prms ''0'' s else s) s1"
    and t: "requests (cl_trace s1) = requests (cl_trace s)" "nth_iteration s1 = nth_iteration s" "cl_status s1 \<noteq> Undefined"
      "cl_status s1 = Exited \<Longrightarrow> bwi_state lends (cl_trace s1) = Some (key, False)"
      "cl_status s1 = Running \<Longrightarrow> bwi_state lends (cl_trace s1) = Some (None, False)"
  proof (cases key)
    case None
    then show ?thesis using that [of s] assms by (simp add: job_revoke_def)
  next
    case (Some k)
    obtain ok w where "cl_unbwi env k (cl_world s) = (ok, w)" by fastforce
    then show ?thesis using Some assms
      by (cases ok; intro that [of "if ok then emit (Revoke k) (s\<lparr>cl_world := w\<rparr>) else fatal (s\<lparr>cl_world := w\<rparr>)"])
        (simp_all add: job_revoke_def)
  qed
  have "keeps_bwi s1 (job_revoke env prms key s)" unfolding s1
    by (rule keeps_bwi_running) (simp_all add: keeps_bwi_same keeps_bwi_ftrace)
  moreover have "cl_status (job_revoke env prms key s) = Running \<Longrightarrow> cl_status s1 = Running"
    "cl_status (job_revoke env prms key s) = Exited \<Longrightarrow> job_revoke env prms key s = s1 \<and> cl_status s1 = Exited"
    unfolding s1 by (auto simp: running_def ftrace_print_def split: if_splits)
  ultimately show "requests (cl_trace (job_revoke env prms key s)) = requests (cl_trace s)"
    "nth_iteration (job_revoke env prms key s) = nth_iteration s"
    "cl_status (job_revoke env prms key s) = Exited \<Longrightarrow> bwi_state lends (cl_trace (job_revoke env prms key s)) = Some (key, False)"
    "cl_status (job_revoke env prms key s) = Running \<Longrightarrow> bwi_state lends (cl_trace (job_revoke env prms key s)) = Some (None, False)"
    using t by (auto simp: keeps_bwi_def)
qed

lemma tidy_service:
  assumes "tidy (server_pid prms \<noteq> - 1) s" "cl_status s = Running"
  shows "tidy (server_pid prms \<noteq> - 1) (snd (job_service env prms s)) \<and>
    (cl_status (snd (job_service env prms s)) = Running \<longrightarrow> nth_iteration (snd (job_service env prms s)) = nth_iteration s + 1)"
proof -
  let ?lends = "server_pid prms \<noteq> - 1"
  let ?s1 = "job_prologue env prms s"
  have s: "bwi_state ?lends (cl_trace s) = Some (None, False)" "int (requests (cl_trace s)) = nth_iteration s"
    using assms by (simp_all add: tidy_def)
  note 1 = prologue_tidy [OF s(1) assms(2), of env prms]
  obtain key s2 where l: "job_lend env prms ?s1 = (key, s2)" by fastforce
  note 2 = lend_tidy [OF 1(1) refl l]
  show ?thesis
  proof (cases "cl_status s2 = Running")
    case False
    then have "job_service env prms s = ((0, 0, 0, 0, []), s2)" using l by (simp add: job_service_def)
    then show ?thesis using False 2(4) by (cases "cl_status s2") (auto simp: tidy_def)
  next
    case True
    obtain r s3 where q: "job_request env prms s2 = (r, s3)" by fastforce
    note b = 2(3) [OF True]
    note 3 = request_tidy [OF b [THEN conjunct1] b [THEN conjunct2] q]
    have "cl_status s3 = Running" using 3(4) True by simp
    note 4 = revoke_tidy [OF 3(1) this, of env prms]
    let ?s4 = "job_revoke env prms key s3"
    have "job_service env prms s =
        (r, running (\<lambda>s. emit Epilogue (s\<lparr>cl_world := keep_cpu_busy (cl_sys env) (epilogue_busyloop prms) (cl_world s)\<rparr>)) ?s4)"
      using l q True by (simp add: job_service_def)
    moreover have "int (requests (cl_trace s3)) = nth_iteration s3" "nth_iteration s3 = nth_iteration s + 1"
      using 3(2,3) 2(1,2,5) True 1(2,3) s(2) by simp_all
    ultimately show ?thesis using 4 by (cases "cl_status ?s4") (auto simp: tidy_def running_def)
  qed
qed

lemma tidy_keeps: "keeps_bwi s (f s) \<Longrightarrow> tidy lends s \<Longrightarrow> tidy lends (running f s)"
  by (auto simp: keeps_bwi_def tidy_def running_def split: status.splits)

lemma running_nth: "keeps_bwi s (f s) \<Longrightarrow> nth_iteration (running f s) = nth_iteration s"
  by (simp add: keeps_bwi_def running_def)

lemma running_status: "cl_status (running f s) = Running \<Longrightarrow> cl_status s = Running"
  by (simp add: running_def split: if_splits)

lemma tidy_prog:
  assumes "tidy (server_pid prms \<noteq> - 1) s"
  shows "tidy (server_pid prms \<noteq> - 1) (client_prog env prms s)"
    "cl_status (client_prog env prms s) = Running \<Longrightarrow> nth_iteration (client_prog env prms s) = nth_iteration s + 1 \<and> cl_status s = Running"
proof -
  obtain r s1 where sv: "job_service env prms s = (r, s1)" by fastforce
  let ?t = "running (job_results prms r) (running (job_response_time env prms) s1)"
  have p: "client_prog env prms s = (if cl_status s = Running then ?t else s)" using sv by (simp add: client_prog_def running_def [of _ s])
  have 1: "tidy (server_pid prms \<noteq> - 1) ?t \<and> (cl_status ?t = Running \<longrightarrow> nth_iteration ?t = nth_iteration s + 1)" if "cl_status s = Running"
  proof -
    note 1 = tidy_service [OF assms that, of env, unfolded sv snd_conv]
    have "tidy (server_pid prms \<noteq> - 1) ?t" using 1 by (intro tidy_keeps keeps_results keeps_response_time) simp
    moreover have "cl_status ?t = Running \<Longrightarrow> cl_status s1 = Running" by (drule running_status)+
    ultimately show ?thesis using 1 by (simp add: running_nth keeps_results keeps_response_time)
  qed
  then show "tidy (server_pid prms \<noteq> - 1) (client_prog env prms s)" using assms p by simp
  show "nth_iteration (client_prog env prms s) = nth_iteration s + 1 \<and> cl_status s = Running"
    if "cl_status (client_prog env prms s) = Running" using 1 that p by (auto split: if_splits)
qed

text \<open>A job is defined if the clock can be read and the file of the trace is open when it is written.\<close>

definition job_defined :: "'w client_env \<Rightarrow> 'l client_prms \<Rightarrow> bool" where
  "job_defined env prms \<longleftrightarrow> (\<forall>w. fst (sys_clock (cl_sys env) w) \<noteq> None) \<and>
     (ftrace_file prms \<or> ftrace_iteration prms = - 1 \<and> ftrace_iteration_limit prms = - 1)"

lemma running_defined:
  "cl_status s \<noteq> Undefined \<Longrightarrow> (cl_status s = Running \<Longrightarrow> cl_status (f s) \<noteq> Undefined) \<Longrightarrow> cl_status (running f s) \<noteq> Undefined"
  by (simp add: running_def)

lemma service_defined:
  assumes "job_defined env prms" "cl_status s = Running" "0 \<le> nth_iteration s" "nth_iteration s < 2 ^ 31 - 1"
  shows "cl_status (snd (job_service env prms s)) \<noteq> Undefined"
proof -
  let ?s1 = "job_prologue env prms s"
  have 1: "cl_status ?s1 = Running \<and> nth_iteration ?s1 = nth_iteration s + 1"
    using assms by (auto simp: job_prologue_def ftrace_print_def job_defined_def Let_def)
  obtain key s2 where l: "job_lend env prms ?s1 = (key, s2)" by fastforce
  then have 2: "cl_status s2 \<noteq> Undefined \<and> nth_iteration s2 = nth_iteration ?s1"
    using 1 by (auto simp: job_lend_def split: if_splits option.splits prod.splits)
  obtain r s3 where q: "job_request env prms s2 = (r, s3)" by fastforce
  then have 3: "cl_status s3 = cl_status s2 \<and> nth_iteration s3 = nth_iteration s2" by (auto simp: job_request_def Let_def split: prod.splits)
  let ?h = "\<lambda>s. if nth_iteration s = ftrace_iteration_limit prms then ftrace_print prms ''0'' s else s"
  have h: "cl_status (running ?h t) \<noteq> Undefined" if "nth_iteration t = nth_iteration s2" "cl_status t \<noteq> Undefined" for t :: "'a client_state"
    using that assms(1,3) 1 2 by (auto simp: running_def ftrace_print_def job_defined_def)
  have "cl_status (job_revoke env prms key s3) \<noteq> Undefined" if "cl_status s2 = Running"
    using 3 that by (cases key) (simp_all add: job_revoke_def h split: prod.split bool.split)
  then have "cl_status s2 = Running \<Longrightarrow> cl_status (running (\<lambda>s. emit Epilogue (s\<lparr>cl_world := w s\<rparr>)) (job_revoke env prms key s3)) \<noteq> Undefined"
    for w by (simp add: running_defined)
  then show ?thesis using l q 2 3 by (simp add: job_service_def)
qed

lemma prog_defined:
  assumes "job_defined env prms" "cl_status s = Running" "0 \<le> nth_iteration s" "nth_iteration s < 2 ^ 31 - 1"
  shows "cl_status (client_prog env prms s) \<noteq> Undefined"
proof -
  obtain r s1 where sv: "job_service env prms s = (r, s1)" by fastforce
  obtain sent rcvd e1 e2 response where r: "r = (sent, rcvd, e1, e2, response)" by (cases r)
  have "cl_status s1 \<noteq> Undefined" using service_defined [OF assms] sv by simp
  moreover have "cl_status (job_response_time env prms t) \<noteq> Undefined" if "cl_status t = Running" for t
  proof -
    obtain x w where c: "sys_clock (cl_sys env) (cl_world t) = (x, w)" by fastforce
    have "fst (sys_clock (cl_sys env) (cl_world t)) \<noteq> None" using assms(1) unfolding job_defined_def by blast
    then obtain now where "x = Some now" using c by auto
    then show ?thesis using c assms(1) that by (auto simp: job_response_time_def job_defined_def running_def ftrace_print_def Let_def)
  qed
  moreover have "cl_status (job_results prms r t) \<noteq> Undefined" if "cl_status t = Running" for t :: "'a client_state"
    using that unfolding r job_results_def Let_def prod.case by (intro running_defined) (auto simp: running_def)
  ultimately show ?thesis using assms(2) sv by (simp add: client_prog_def running_def [of _ s] running_defined)
qed

text \<open>One iteration of the loop of the task.\<close>

lemma client_job:
  assumes "periodic_step (client_task_env tenv env prms) (rc, tau, s) = Some (rc', tau', s')"
  shows "\<exists>w w1. s' = (client_prog env prms (s\<lparr>cl_world := w\<rparr>))\<lparr>cl_world := w1\<rparr>"
proof -
  obtain e s1 rb where 1: "sleep_until (client_task_env tenv env prms) (next_release_time tau) s = (e, s1)"
    "job_start (read_clock (client_task_env tenv env prms)) (client_prog env prms) (stats_ringbuf tau) s1 = Some rb" "s' = snd (snd rb)"
    using assms by (auto simp: periodic_step_def client_task_env_def Let_def split: prod.splits bind_splits)
  have clock: "\<exists>w. snd (read_clock (client_task_env tenv env prms) t) = t\<lparr>cl_world := w\<rparr>" for t :: "'a client_state"
    by (auto simp: client_task_env_def split: prod.splits)
  obtain w where s1: "s1 = s\<lparr>cl_world := w\<rparr>" using 1(1) by (auto simp: client_task_env_def split: prod.splits)
  show ?thesis
  proof (cases "stats_ringbuf tau")
    case None
    then have "s' = (client_prog env prms s1)\<lparr>cl_world := cl_world (client_prog env prms s1)\<rparr>" using 1 by (auto simp: job_start_def)
    then show ?thesis using s1 by blast
  next
    case (Some r)
    obtain b s2 where b: "read_clock (client_task_env tenv env prms) s1 = (b, s2)" by fastforce
    obtain e s3 where e: "read_clock (client_task_env tenv env prms) (client_prog env prms s2) = (e, s3)" by fastforce
    have "s' = s3" using 1(2,3) Some job_start_eq [where program = "client_prog env prms" and rb = r, OF b e] by (auto split: prod.splits option.splits if_splits)
    moreover obtain w2 where "s2 = s1\<lparr>cl_world := w2\<rparr>" using clock [of s1] b by auto
    moreover obtain w3 where "s3 = (client_prog env prms s2)\<lparr>cl_world := w3\<rparr>" using clock [of "client_prog env prms s2"] e by auto
    ultimately show ?thesis using s1 by auto
  qed
qed

lemma tidy_world [simp]: "tidy lends (s\<lparr>cl_world := w\<rparr>) = tidy lends s"
  by (cases "cl_status s") (simp_all add: tidy_def)

lemma prog_gone: "cl_status s \<noteq> Running \<Longrightarrow> client_prog env prms s = s"
  by (simp add: client_prog_def running_def)

lemma client_jobs:
  "iterate (periodic_step (client_task_env tenv env prms)) n (rc, tau, s) = Some (rc', tau', s') \<Longrightarrow>
   tidy (server_pid prms \<noteq> - 1) s \<Longrightarrow> tidy (server_pid prms \<noteq> - 1) s' \<and>
   (cl_status s' = Running \<longrightarrow> cl_status s = Running \<and> nth_iteration s' = nth_iteration s + int n)"
proof (induction n arbitrary: rc tau s)
  case (Suc n)
  obtain rc1 tau1 s1 where st: "periodic_step (client_task_env tenv env prms) (rc, tau, s) = Some (rc1, tau1, s1)"
    and it: "iterate (periodic_step (client_task_env tenv env prms)) n (rc1, tau1, s1) = Some (rc', tau', s')"
    using Suc.prems(1) by (auto split: bind_splits)
  obtain w w1 where s1: "s1 = (client_prog env prms (s\<lparr>cl_world := w\<rparr>))\<lparr>cl_world := w1\<rparr>" using client_job [OF st] by blast
  have "tidy (server_pid prms \<noteq> - 1) (s\<lparr>cl_world := w\<rparr>)" using Suc.prems(2) by simp
  note p = tidy_prog [OF this, of env]
  have "tidy (server_pid prms \<noteq> - 1) s1" using p(1) s1 by simp
  from Suc.IH [OF it this] show ?case using p(2) s1 by auto
qed simp

lemma jobs_defined:
  "iterate (periodic_step (client_task_env tenv env prms)) n (rc, tau, s) = Some (rc', tau', s') \<Longrightarrow>
   job_defined env prms \<Longrightarrow> tidy (server_pid prms \<noteq> - 1) s \<Longrightarrow> cl_status s \<noteq> Undefined \<Longrightarrow>
   (cl_status s = Running \<Longrightarrow> 0 \<le> nth_iteration s \<and> nth_iteration s + int n < 2 ^ 31) \<Longrightarrow> cl_status s' \<noteq> Undefined"
proof (induction n arbitrary: rc tau s)
  case (Suc n)
  obtain rc1 tau1 s1 where st: "periodic_step (client_task_env tenv env prms) (rc, tau, s) = Some (rc1, tau1, s1)"
    and it: "iterate (periodic_step (client_task_env tenv env prms)) n (rc1, tau1, s1) = Some (rc', tau', s')"
    using Suc.prems(1) by (auto split: bind_splits)
  obtain w w1 where s1: "s1 = (client_prog env prms (s\<lparr>cl_world := w\<rparr>))\<lparr>cl_world := w1\<rparr>" using client_job [OF st] by blast
  have "tidy (server_pid prms \<noteq> - 1) (s\<lparr>cl_world := w\<rparr>)" using Suc.prems(3) by simp
  note p = tidy_prog [OF this, of env]
  have "cl_status (client_prog env prms (s\<lparr>cl_world := w\<rparr>)) \<noteq> Undefined"
    using Suc.prems(2,4,5) prog_defined [of env prms "s\<lparr>cl_world := w\<rparr>"] prog_gone [of "s\<lparr>cl_world := w\<rparr>" env prms]
    by (cases "cl_status s = Running") simp_all
  then show ?case using Suc.IH [OF it Suc.prems(2)] p s1 Suc.prems(5) by auto
qed simp


section \<open>Stopping the trace\<close>

lemma ftrace_print_simps [simp]:
  "cl_next_release (ftrace_print prms str s) = cl_next_release s"
  "ftrace_response_time_hit (ftrace_print prms str s) = ftrace_response_time_hit s"
  "nth_iteration (ftrace_print prms str s) = nth_iteration s" "cl_world (ftrace_print prms str s) = cl_world s"
  by (simp_all add: ftrace_print_def)

definition same_release :: "'w client_state \<Rightarrow> 'w client_state \<Rightarrow> bool" where
  "same_release s t \<longleftrightarrow> cl_next_release t = cl_next_release s \<and> ftrace_response_time_hit t = ftrace_response_time_hit s"

lemma same_release_trans: "same_release s t \<Longrightarrow> same_release t u \<Longrightarrow> same_release s u"
  by (simp add: same_release_def)

lemma same_release_running: "same_release s t \<Longrightarrow> same_release t (f t) \<Longrightarrow> same_release s (running f t)"
  by (simp add: same_release_def running_def)

lemma same_release_service: "same_release s (snd (job_service env prms s))"
proof -
  let ?s1 = "job_prologue env prms s"
  have 1: "same_release s ?s1" by (simp add: same_release_def job_prologue_def Let_def)
  obtain key s2 where l: "job_lend env prms ?s1 = (key, s2)" by fastforce
  then have 2: "same_release s s2"
    using 1 by (auto simp: same_release_def job_lend_def split: if_splits option.splits prod.splits)
  obtain r s3 where q: "job_request env prms s2 = (r, s3)" by fastforce
  then have 3: "same_release s s3" using 2 by (auto simp: same_release_def job_request_def Let_def split: prod.splits)
  have "same_release s (job_revoke env prms key s3)"
    using 3 by (cases key) (simp_all add: same_release_def job_revoke_def running_def Let_def split: prod.split bool.split)
  then have "same_release s (running (\<lambda>s. emit Epilogue (s\<lparr>cl_world := w s\<rparr>)) (job_revoke env prms key s3))" for w
    by (rule same_release_running) (simp add: same_release_def)
  then show ?thesis using l q 2 by (simp add: job_service_def)
qed

lemma same_release_results: "same_release s (job_results prms results s)"
proof -
  obtain sent rcvd e1 e2 response where r: "results = (sent, rcvd, e1, e2, response)" by (cases results)
  show ?thesis unfolding r job_results_def prod.case Let_def
    by (intro same_release_running) (simp_all add: same_release_def)
qed

text \<open>What a job finds out about its response time.\<close>

lemma response_time_found:
  assumes "ftrace_iteration prms = 0" "ftrace_response_time_hit s = 0" "cl_status s = Running"
    and sv: "job_service env prms s = (r, s1)" "cl_status s1 = Running" "sys_clock (cl_sys env) (cl_world s1) = (Some now, w)"
    and late: "late \<longleftrightarrow> utility_time_gt (utility_time_sub (timespec_to_utility_time now utility_time_init) (cl_next_release s)
      (timespec_to_utility_time now utility_time_init)) (ftrace_response_time prms)"
    and opened: "ftrace_file prms"
  shows "ftrace_response_time_hit (client_prog env prms s) = (if late then nth_iteration s1 else 0)"
    "cl_next_release (client_prog env prms s) = utility_time_inc (cl_next_release s) (prms_period prms)"
proof -
  have same: "cl_next_release s1 = cl_next_release s" "ftrace_response_time_hit s1 = 0"
    using same_release_service [of s env prms] sv(1) assms(2) by (simp_all add: same_release_def)
  have p: "client_prog env prms s = running (job_results prms r) (job_response_time env prms s1)"
    using assms(3) sv by (simp add: client_prog_def running_def)
  have t: "ftrace_response_time_hit (job_response_time env prms s1) = (if late then nth_iteration s1 else 0) \<and>
    cl_next_release (job_response_time env prms s1) = utility_time_inc (cl_next_release s) (prms_period prms)"
    using same assms(1) sv(2,3) late opened by (simp add: job_response_time_def Let_def running_def ftrace_print_def)
  have "same_release (job_response_time env prms s1) (client_prog env prms s)"
    unfolding p by (rule same_release_running [OF _ same_release_results]) (simp add: same_release_def)
  then show "ftrace_response_time_hit (client_prog env prms s) = (if late then nth_iteration s1 else 0)"
    "cl_next_release (client_prog env prms s) = utility_time_inc (cl_next_release s) (prms_period prms)"
    using t by (simp_all add: same_release_def)
qed

lemma service_nth:
  assumes "cl_status s = Running" "job_service env prms s = (r, s1)" "cl_status s1 = Running"
  shows "nth_iteration s1 = nth_iteration s + 1"
proof -
  let ?s1 = "job_prologue env prms s"
  have 1: "cl_status ?s1 = Running \<Longrightarrow> nth_iteration ?s1 = nth_iteration s + 1"
    by (auto simp: job_prologue_def Let_def)
  obtain key s2 where l: "job_lend env prms ?s1 = (key, s2)" by fastforce
  then have 2: "nth_iteration s2 = nth_iteration ?s1" "cl_status s2 = Running \<Longrightarrow> cl_status ?s1 = Running"
    by (auto simp: job_lend_def split: if_splits option.splits prod.splits)
  obtain q s3 where q: "job_request env prms s2 = (q, s3)" by fastforce
  then have 3: "nth_iteration s3 = nth_iteration s2" by (auto simp: job_request_def Let_def split: prod.splits)
  have "nth_iteration (job_revoke env prms key s3) = nth_iteration s3"
    by (cases key) (simp_all add: job_revoke_def running_def Let_def split: prod.split bool.split)
  moreover have "cl_status s2 = Running" using l assms(2,3) by (auto simp: job_service_def split: if_splits)
  ultimately show ?thesis using l q 1 2 3 assms(2) by (auto simp: job_service_def running_def Let_def split: if_splits)
qed

lemma next_release_step:
  assumes "periodic_step (client_task_env tenv env prms) (rc, tau, s) = Some (rc', tau', s')"
    and "ftrace_iteration prms = 0" "ftrace_file prms" "cl_status s' = Running" "ftrace_response_time_hit s' = 0"
  shows "cl_next_release s' = utility_time_inc (cl_next_release s) (prms_period prms)" "ftrace_response_time_hit s = 0" "cl_status s = Running"
proof -
  obtain w w1 where s': "s' = (client_prog env prms (s\<lparr>cl_world := w\<rparr>))\<lparr>cl_world := w1\<rparr>" using client_job [OF assms(1)] by blast
  let ?s = "s\<lparr>cl_world := w\<rparr>"
  have t: "cl_status (client_prog env prms ?s) = Running" "ftrace_response_time_hit (client_prog env prms ?s) = 0" using assms(4,5) s' by simp_all
  then have s: "cl_status s = Running" by (auto simp: client_prog_def running_def split: if_splits)
  obtain r s1 where sv: "job_service env prms ?s = (r, s1)" by fastforce
  have same: "ftrace_response_time_hit s1 = ftrace_response_time_hit s"
    using same_release_service [of ?s env prms] sv by (simp add: same_release_def)
  have p: "client_prog env prms ?s = running (job_results prms r) (running (job_response_time env prms) s1)"
    using s sv by (simp add: client_prog_def running_def [of _ ?s])
  have s2: "cl_status (running (job_response_time env prms) s1) = Running" using t(1) unfolding p by (rule running_status)
  then have s1: "cl_status s1 = Running" by (rule running_status)
  show h: "ftrace_response_time_hit s = 0"
  proof (rule ccontr)
    assume a: "ftrace_response_time_hit s \<noteq> 0"
    then have "running (job_response_time env prms) s1 = s1" using same by (simp add: running_def job_response_time_def)
    then have "same_release s1 (client_prog env prms ?s)" unfolding p
      by (intro same_release_running [OF _ same_release_results]) (simp add: same_release_def)
    then show False using a same t(2) by (simp add: same_release_def)
  qed
  obtain x w2 where c: "sys_clock (cl_sys env) (cl_world s1) = (x, w2)" by fastforce
  have "x \<noteq> None"
  proof
    assume "x = None"
    then show False using s2 s1 c same h assms(2) by (simp add: running_def job_response_time_def)
  qed
  then obtain now where "sys_clock (cl_sys env) (cl_world s1) = (Some now, w2)" using c by auto
  from response_time_found(2) [OF assms(2) _ _ sv s1 this refl assms(3)] h s
  show "cl_next_release s' = utility_time_inc (cl_next_release s) (prms_period prms)" by (simp add: s')
  show "cl_status s = Running" by (rule s)
qed

lemma still_tracing:
  "iterate (periodic_step (client_task_env tenv env prms)) n (rc, tau, s) = Some (rc', tau', s') \<Longrightarrow>
   ftrace_iteration prms = 0 \<Longrightarrow> ftrace_file prms \<Longrightarrow> cl_status s' = Running \<Longrightarrow> ftrace_response_time_hit s' = 0 \<Longrightarrow>
   cl_status s = Running" "iterate (periodic_step (client_task_env tenv env prms)) n (rc, tau, s) = Some (rc', tau', s') \<Longrightarrow>
   ftrace_iteration prms = 0 \<Longrightarrow> ftrace_file prms \<Longrightarrow> cl_status s' = Running \<Longrightarrow> ftrace_response_time_hit s' = 0 \<Longrightarrow>
   ftrace_response_time_hit s = 0"
  by (induction n arbitrary: rc tau s) (fastforce dest: next_release_step(2,3) split: bind_splits)+

lemma next_release_after:
  assumes "ftrace_iteration prms = 0" "ftrace_file prms" "time_ok (prms_period prms)"
  shows "iterate (periodic_step (client_task_env tenv env prms)) n (rc, tau, s) = Some (rc', tau', s') \<Longrightarrow>
    cl_status s' = Running \<Longrightarrow> ftrace_response_time_hit s' = 0 \<Longrightarrow> time_ok (cl_next_release s) \<Longrightarrow>
    ns_of (cl_next_release s) + int n * ns_of (prms_period prms) < time_limit \<Longrightarrow>
    ns_of (cl_next_release s') = ns_of (cl_next_release s) + int n * ns_of (prms_period prms) \<and> time_ok (cl_next_release s') \<and>
    cl_status s = Running \<and> ftrace_response_time_hit s = 0"
proof (induction n arbitrary: rc tau s)
  case (Suc n)
  obtain rc1 tau1 s1 where st: "periodic_step (client_task_env tenv env prms) (rc, tau, s) = Some (rc1, tau1, s1)"
    and it: "iterate (periodic_step (client_task_env tenv env prms)) n (rc1, tau1, s1) = Some (rc', tau', s')"
    using Suc.prems(1) by (auto split: bind_splits)
  note still = still_tracing [OF it assms(1,2) Suc.prems(2,3)]
  note step = next_release_step [OF st assms(1,2) still]
  have nn: "0 \<le> int n * ns_of (prms_period prms)" using assms(3) by simp
  then have "ns_of (cl_next_release s) + ns_of (prms_period prms) < time_limit" using Suc.prems(5) by (simp add: distrib_right)
  note inc = inc_correct [OF Suc.prems(4) assms(3) this]
  show ?case using Suc.IH [OF it Suc.prems(2,3)] inc step Suc.prems(5) by (simp add: distrib_right)
qed simp


section \<open>The last request\<close>

text \<open>The steps that are left to the two threads when the job has its response.\<close>

fun last_steps :: "job_pc \<Rightarrow> main_pc \<Rightarrow> nat" where
  "last_steps J_received M_join = 3"
| "last_steps J_check M_join = 2"
| "last_steps J_ended M_join = 1"
| "last_steps _ _ = 0"

definition leaving :: "race \<Rightarrow> bool" where
  "leaving r \<longleftrightarrow> r_stop r \<and> (r_main r = M_join \<and> r_job r \<in> {J_received, J_check, J_ended} \<or> r_main r = M_out \<and> r_job r = J_ended)"

definition lost :: "race \<Rightarrow> bool" where
  "lost r \<longleftrightarrow> r_main r = M_join \<and> r_job r \<in> {J_release, J_closed, J_open, J_recv}"

lemma leaving_step:
  "race_step r a r' \<Longrightarrow> leaving r \<Longrightarrow> leaving r' \<and> last_steps (r_job r) (r_main r) = Suc (last_steps (r_job r') (r_main r'))"
  by (erule race_step.cases) (auto simp: leaving_def job_moves_def main_moves_def)

lemma leaving_goes_on: "leaving r \<Longrightarrow> r_main r = M_out \<or> (\<exists>a r'. a \<noteq> Answer \<and> race_step r a r')"
  by (auto simp: leaving_def race_step.simps job_moves_def main_moves_def)

lemma lost_step: "race_step r a r' \<Longrightarrow> lost r \<Longrightarrow> a \<noteq> Answer \<Longrightarrow> lost r'"
  by (erule race_step.cases) (auto simp: lost_def job_moves_def main_moves_def)

lemma leaving_run: "race_run r as r' \<Longrightarrow> leaving r \<Longrightarrow> leaving r' \<and> length as + last_steps (r_job r') (r_main r') = last_steps (r_job r) (r_main r)"
  by (induction rule: race_run.induct) (auto dest: leaving_step)

lemma lost_run: "race_run r as r' \<Longrightarrow> lost r \<Longrightarrow> Answer \<notin> set as \<Longrightarrow> lost r'"
  by (induction rule: race_run.induct) (auto dest: lost_step)

lemma last_steps_bound: "last_steps p q \<le> 3"
  by (cases p; cases q) simp_all

text \<open>Claim C26. The signal that is to keep the client from being stuck in \<^verbatim>\<open>recv\<close> is lost unless it comes after
  \<^verbatim>\<open>recv\<close> was entered: if the thread sleeps until its release, works on its prologue, or has unblocked the
  signal but not yet entered \<^verbatim>\<open>recv\<close>, then without an answer of the server \<^verbatim>\<open>main\<close> never gets past \<^verbatim>\<open>pthread_join\<close>, however
  the two threads are scheduled, and once in \<^verbatim>\<open>recv\<close> only an answer makes a step possible. Sent during \<^verbatim>\<open>recv\<close> or later,
  the signal makes both threads end after at most three more steps, without an answer and without blocking.\<close>

theorem interrupt_can_be_lost:
  assumes "race_run r (Main # as) r'" "r_main r = M_kill" "r_stop r" "Answer \<notin> set as"
  shows "if r_job r \<in> {J_release, J_closed, J_open}
    then r_main r' = M_join \<and> r_job r' \<in> {J_release, J_closed, J_open, J_recv} \<and>
      (r_job r' = J_recv \<longrightarrow> (\<forall>a r2. race_step r' a r2 \<longrightarrow> a = Answer))
    else length as \<le> 3 \<and> (r_main r' = M_out \<or> (\<exists>a r2. a \<noteq> Answer \<and> race_step r' a r2))"
proof -
  obtain r1 where r1: "main_moves r = Some r1" "race_run r1 as r'" using assms(1) by (auto simp: race_step_simps)
  show ?thesis
  proof (cases "r_job r \<in> {J_release, J_closed, J_open}")
    case True
    then have "lost r1" using r1(1) assms(2) by (auto simp: main_moves_def lost_def)
    then have "lost r'" using lost_run r1(2) assms(4) by blast
    moreover from this have "a = Answer" if "r_job r' = J_recv" "race_step r' a r2" for a r2
      using that by (auto simp: lost_def race_step.simps job_moves_def main_moves_def)
    ultimately show ?thesis using True by (auto simp: lost_def)
  next
    case False
    then have "leaving r1" using r1(1) assms(2,3) by (cases "r_job r") (auto simp: main_moves_def leaving_def)
    from leaving_run [OF r1(2) this] have "leaving r'" "length as \<le> 3"
      using last_steps_bound [of "r_job r1" "r_main r1"] by simp_all
    then show ?thesis using leaving_goes_on False by simp
  qed
qed

theorem interrupt_can_be_lost_witness:
  "\<exists>r'. race_run \<lparr>r_job = J_closed, r_main = M_kill, r_stop = True, r_pending = False\<rparr> [Main, Job, Job] r' \<and> r_main r' = M_join \<and>
    (\<forall>a r2. race_step r' a r2 \<longrightarrow> a = Answer)"
proof -
  let ?r = "\<lparr>r_job = J_closed, r_main = M_kill, r_stop = True, r_pending = False\<rparr>"
  let ?s = "\<lparr>r_job = J_recv, r_main = M_join, r_stop = True, r_pending = False\<rparr>"
  have run: "race_run ?r [Main, Job, Job] ?s" by (simp add: race_step_simps main_moves_def job_moves_def)
  from interrupt_can_be_lost [OF run] show ?thesis using run by (intro exI [of _ ?s]) simp
qed

section \<open>Instances\<close>

text \<open>A client that lends its bandwidth to server 300 with key 7, and whose first response is corrupted.\<close>

definition client_env0 :: "nat client_env" where
  "client_env0 = \<lparr>cl_sys = plain_env, cl_bwi = (\<lambda>_ w. (Some 7, w)), cl_unbwi = (\<lambda>_ w. (True, w)),
     cl_send = (\<lambda>bs w. (Inr (length bs), w)), cl_recv = (\<lambda>_ w. (Inr [1, 2, 3], w))\<rparr>"

definition task_env0 :: "nat task_env" where
  "task_env0 = \<lparr>sleep_until = (\<lambda>_ w. (0, w)), read_clock = (\<lambda>w. (None, w)), run_program = id, aperiodic_release = id,
     is_stopped = (\<lambda>_. False)\<rparr>"

definition cfg0 :: client_options where
  "cfg0 = client_defaults\<lparr>use_bwi := True, cl_server_pid := 300, cl_period_ms := 100, cl_ftrace_iteration := 0, cl_limit := 20\<rparr>"

definition client_state0 :: "nat client_state" where
  "client_state0 = \<lparr>cl_status = Running, nth_iteration = 0, cl_next_release = ut 0 0, ftrace_response_time_hit = 0, cl_world = 0, cl_trace = []\<rparr>"



end
