(* ===== verification/Bwi_Client_Overhead.thy ===== *)
theory Bwi_Client_Overhead
  imports Bwi_Client Program_Setup Task_Overhead
begin

text \<open>
  How the client (\<^verbatim>\<open>bwi-client_server/client.c\<close>) accounts for the overheads: it measures how long a request
  takes, adds what the jobs and the releases of a task cost, and makes one of the two busy loops of its job shorter by
  the sum.
\<close>

section \<open>Measuring\<close>

text \<open>
  The thread that measures how long a request takes when the client and the server both run at the highest
  priority of \<^verbatim>\<open>SCHED_FIFO\<close>. \<open>Inl\<close> is a fatal error. The server is signalled as the server signals its subserver.
\<close>

definition send_recv_overhead_measurement_thread :: "'w client_env \<Rightarrow> 'w sig_env \<Rightarrow> sched_class \<Rightarrow> int \<Rightarrow> bytes \<Rightarrow>
    'w \<Rightarrow> time_store \<Rightarrow> ((unit + time_ptr) \<times> 'w \<times> time_store) option" where
  "send_recv_overhead_measurement_thread env senv class pid req w h =
    (case signal_subserver senv pid (\<lambda>p. p \<noteq> SCHED_FIFO) w of
       None \<Rightarrow> Some (Inl (), w, h)
     | Some w \<Rightarrow>
        if fst (sched_fifo_enter_max (sig_sched senv) class None) \<noteq> 0 then Some (Inl (), w, h)
        else (case sys_clock (cl_sys env) w of
           (None, w) \<Rightarrow> Some (Inl (), w, h)
         | (Some t1, w) \<Rightarrow>
            let ((byte_sent, byte_rcvd, send_errno, recv_errno, response), w) =
              client_send_recv env req (replicate (length req) 0) w in
            (case sys_clock (cl_sys env) w of
               (None, w) \<Rightarrow> Some (Inl (), w, h)
             | (Some t2, w) \<Rightarrow>
                (case signal_subserver senv pid (\<lambda>p. p = SCHED_FIFO) w of
                   None \<Rightarrow> Some (Inl (), w, h)
                 | Some w \<Rightarrow> do {
                    (a, h) \<leftarrow> timespec_to_utility_time_dyn t2 h;
                    (b, h) \<leftarrow> timespec_to_utility_time_dyn t1 h;
                    (overhead, h) \<leftarrow> utility_time_sub_dyn_gc a b h;
                    Some (if byte_sent = int (length req) \<and> byte_rcvd = int (length req) \<and> req = response
                          then Inr overhead else Inl (), w, h) }))))"

definition measure_send_recv_overhead :: "bool \<times> bool \<Rightarrow> 'w client_env \<Rightarrow> 'w sig_env \<Rightarrow> sched_class \<Rightarrow> int \<Rightarrow> bytes \<Rightarrow>
    'w \<Rightarrow> time_store \<Rightarrow> ((unit + time_ptr) \<times> 'w \<times> time_store) option" where
  "measure_send_recv_overhead thread_ok env senv class pid req w h =
    (if \<not> fst thread_ok then Some (Inl (), w, h)
     else do {
       (r, w, h) \<leftarrow> send_recv_overhead_measurement_thread env senv class pid req w h;
       Some (if snd thread_ok then r else Inl (), w, h) })"

text \<open>From the measured communication time on; the sum is stored in \<open>overhead\<close>.\<close>

definition sum_overheads :: "time_ptr \<Rightarrow> time_ptr \<Rightarrow> time_ptr \<Rightarrow> time_ptr \<Rightarrow> int \<Rightarrow> time_store \<Rightarrow> time_store option" where
  "sum_overheads overhead job_stats_overhead task_overhead comm_overhead waiting_ms h = do {
     (comm_real, h) \<leftarrow> to_utility_time_dyn (of_int waiting_ms) Unit_ms h;
     (comm_overhead, h) \<leftarrow> utility_time_sub_dyn_gc comm_overhead comm_real h;
     h \<leftarrow> utility_time_inc_gc overhead job_stats_overhead h;
     h \<leftarrow> utility_time_inc_gc overhead task_overhead h;
     utility_time_inc_gc overhead comm_overhead h }"

text \<open>
  The measurements of \<^verbatim>\<open>main\<close>, as calls on the store and the world: the pointers to the three overheads.
  What is printed of them is not kept.
\<close>

definition measure_overheads :: "(time_store \<Rightarrow> ((int \<times> time_ptr) \<times> time_store) option) \<Rightarrow>
    (time_store \<Rightarrow> ((int \<times> time_ptr) \<times> time_store) option) \<Rightarrow>
    ('w \<Rightarrow> time_store \<Rightarrow> ((unit + time_ptr) \<times> 'w \<times> time_store) option) \<Rightarrow> int \<Rightarrow> 'w \<Rightarrow> time_store \<Rightarrow>
    ((unit + time_ptr \<times> time_ptr \<times> time_ptr) \<times> 'w \<times> time_store) option" where
  "measure_overheads call_job_overhead call_task_overhead call_comm_overhead waiting_ms w h = do {
     (overhead, h) \<leftarrow> to_utility_time_dyn 0 Unit_ms h;
     h \<leftarrow> set_manual overhead h;
     ((rc, job_stats_overhead), h) \<leftarrow> call_job_overhead h;
     if rc \<noteq> 0 then Some (Inl (), w, h)
     else do {
       h \<leftarrow> set_manual job_stats_overhead h;
       ((rc, task_overhead), h) \<leftarrow> call_task_overhead h;
       if rc \<noteq> 0 then Some (Inl (), w, h)
       else do {
         h \<leftarrow> set_manual task_overhead h;
         (r, w, h) \<leftarrow> call_comm_overhead w h;
         (case r of
            Inl u \<Rightarrow> Some (Inl u, w, h)
          | Inr comm_overhead \<Rightarrow> do {
             h \<leftarrow> sum_overheads overhead job_stats_overhead task_overhead comm_overhead waiting_ms h;
             Some (Inr (overhead, job_stats_overhead, task_overhead), w, h) }) } } }"

section \<open>Charging\<close>

text \<open>The durations of the two busy loops, \<open>None\<close> when none can accommodate the overheads.\<close>

definition charge_overheads :: "int \<Rightarrow> int \<Rightarrow> time_ptr \<Rightarrow> time_store \<Rightarrow> ((time_ptr \<times> time_ptr) option \<times> time_store) option" where
  "charge_overheads prologue_ms epilogue_ms overhead h = do {
     (prologue, h) \<leftarrow> to_utility_time_dyn (of_int prologue_ms) Unit_ms h;
     (epilogue, h) \<leftarrow> to_utility_time_dyn (of_int epilogue_ms) Unit_ms h;
     p \<leftarrow> load prologue h; e \<leftarrow> load epilogue h; v \<leftarrow> load overhead h;
     if utility_time_gt e v then do {
       (epilogue, h) \<leftarrow> utility_time_sub_dyn_gc epilogue overhead h;
       Some (Some (prologue, epilogue), h) }
     else if utility_time_gt p v then do {
       (prologue, h) \<leftarrow> utility_time_sub_dyn_gc prologue overhead h;
       Some (Some (prologue, epilogue), h) }
     else Some (None, h) }"

text \<open>The two busy loops, \<open>None\<close> on a fatal error.\<close>

definition client_busyloops :: "'w sys_env \<Rightarrow> sched_env \<Rightarrow> sched_class \<Rightarrow> client_options \<Rightarrow> time_ptr \<Rightarrow> time_store \<Rightarrow> 'w sys_state \<Rightarrow>
    (('l::len word cpu_busyloop \<times> 'l word cpu_busyloop) option \<times> time_store \<times> 'w sys_state) option" where
  "client_busyloops env senv class cfg overhead h s = do {
     (d, h) \<leftarrow> charge_overheads (prologue_duration_ms cfg) (epilogue_duration_ms cfg) overhead h;
     (case d of
        None \<Rightarrow> Some (None, h, s)
      | Some (prologue, epilogue) \<Rightarrow> do {
         (b1, h, s) \<leftarrow> create_busyloop_or_die env senv class prologue h s;
         if b1 = None then Some (None, h, s)
         else do {
           (b2, h, s) \<leftarrow> create_busyloop_or_die env senv class epilogue h s;
           Some (if b2 = None then None else Some (the b1, the b2), h, s) } }) }"

section \<open>The sum and the durations\<close>

text \<open>The sum, with the communication overhead as the only temporary before, and none after.\<close>

lemma sum_overheads_eq:
  assumes t: "temps_ok h n [(c, tc)]" and m: "malloc_ok h n" "malloc_ok h (Suc n)"
    and o: "cells h a = Some u" "cells h j = Some uj" "cells h f = Some uf" "a \<noteq> j" "a \<noteq> f" "\<not> auto_obj uj" "\<not> auto_obj uf"
    and v: "v = utility_time_inc (utility_time_inc (utility_time_inc u uj) uf) (dynobj (time_op utility_time_sub tc (ms_t waiting)))"
  shows "sum_overheads (Some a) (Some j) (Some f) (Some c) waiting (with_temps h n [(c, tc)]) =
    Some (with_temps (assign a v h) (n + 2) [])" "temps_ok (assign a v h) (n + 2) []"
proof -
  let ?d = "time_op utility_time_sub tc (ms_t waiting)" and ?u1 = "utility_time_inc u uj" and ?n2 = "Suc (Suc n)"
  let ?u2 = "utility_time_inc ?u1 uf"
  have ok: "store_ok h" "next_addr h \<le> c" "c < n" using t by simp_all
  have old: "a < next_addr h" "j < next_addr h" "f < next_addr h" using store_okD(2) [OF ok(1)] o by auto
  have k: "map_of [(Suc n, ?d)] b = None" if "b < next_addr h" for b using that ok by simp
  note 1 = temps_units [OF m(1) t, of "of_int waiting" Unit_ms, folded ms_t_def]
  have t2: "temps_ok h (Suc n) [(n, ms_t waiting), (c, tc)]" using ok by simp
  have 2: "utility_time_sub_dyn_gc (Some c) (Some n) (with_temps h (Suc n) [(n, ms_t waiting), (c, tc)]) =
      Some (Some (Suc n), with_temps h ?n2 [(Suc n, ?d)])"
    using temps_sub_dyn_gc [OF m(2) t2, of c "dynobj tc" n "dynobj (ms_t waiting)"] ok by (simp add: collect_temp_obj)
  have t3: "temps_ok h ?n2 [(Suc n, ?d)]" using ok by simp
  have l: "look h [(Suc n, ?d)] j = Some uj" using o(2) old(2) ok by simp
  note 3 = temps_inc_gc [OF t3 k [OF old(1)] o(1) l o(4) refl, unfolded collect_plain [OF o(6)]]
  have l2: "cells (assign a ?u1 h) a = Some ?u1" "look (assign a ?u1 h) [(Suc n, ?d)] f = Some uf"
    using o(3,5) old(3) ok by simp_all
  note 4 = temps_inc_gc [OF 3(2) k [OF old(1)] l2 o(5) refl, unfolded collect_plain [OF o(7)] assign_simps]
  have l3: "cells (assign a ?u2 h) a = Some ?u2" "look (assign a ?u2 h) [(Suc n, ?d)] (Suc n) = Some (dynobj ?d)" "a \<noteq> Suc n"
    using old(1) ok by simp_all
  note 5 = temps_inc_gc [OF 4(2) k [OF old(1)] l3 refl, folded v, unfolded assign_simps]
  have "collect (Suc n) (dynobj ?d) (with_temps (assign a v h) ?n2 [(Suc n, ?d)]) = with_temps (assign a v h) ?n2 []"
    using collect_temp_obj [OF 5(2), of "Suc n" ?d] ok by simp
  then show "sum_overheads (Some a) (Some j) (Some f) (Some c) waiting (with_temps h n [(c, tc)]) =
    Some (with_temps (assign a v h) (n + 2) [])"
    using 1 2 3(1) 4(1) 5(1) by (simp add: sum_overheads_def)
  show "temps_ok (assign a v h) (n + 2) []" using 5(2) by simp
qed

text \<open>Both durations are new objects, and nothing else is left.\<close>

lemma charge_overheads_eq:
  assumes t: "temps_ok h n []" and m: "\<forall>k. malloc_ok h k" and o: "cells h a = Some u" "\<not> auto_obj u"
  shows "charge_overheads prologue_ms epilogue_ms (Some a) (with_temps h n []) =
    Some (if utility_time_gt (dynobj (ms_t epilogue_ms)) u then
        (Some (Some n, Some (n + 2)), with_temps h (n + 3) [(n + 2, time_op utility_time_sub (ms_t epilogue_ms) (ut_t u)), (n, ms_t prologue_ms)])
      else if utility_time_gt (dynobj (ms_t prologue_ms)) u then
        (Some (Some (n + 2), Some (n + 1)), with_temps h (n + 3) [(n + 2, time_op utility_time_sub (ms_t prologue_ms) (ut_t u)), (n + 1, ms_t epilogue_ms)])
      else (None, with_temps h (n + 2) [(n + 1, ms_t epilogue_ms), (n, ms_t prologue_ms)]))"
proof -
  have ok: "store_ok h" "next_addr h \<le> n" using t by simp_all
  have old: "a < next_addr h" using store_okD(2) [OF ok(1) o(1)] .
  have mk: "malloc_ok h k" for k using m by blast
  note 1 = temps_units [OF mk t, of "of_int prologue_ms" Unit_ms, folded ms_t_def]
  have t1: "temps_ok h (Suc n) [(n, ms_t prologue_ms)]" using ok by simp
  note 2 = temps_units [OF mk t1, of "of_int epilogue_ms" Unit_ms, folded ms_t_def]
  let ?ts = "[(Suc n, ms_t epilogue_ms), (n, ms_t prologue_ms)]"
  have t2: "temps_ok h (Suc (Suc n)) ?ts" using ok by simp
  have l: "look h ?ts a = Some u" "look h ?ts (Suc n) = Some (dynobj (ms_t epilogue_ms))" "look h ?ts n = Some (dynobj (ms_t prologue_ms))"
    using o(1) old ok by simp_all
  have s1: "utility_time_sub_dyn_gc (Some (Suc n)) (Some a) (with_temps h (Suc (Suc n)) ?ts) =
      Some (Some (Suc (Suc n)), with_temps h (Suc (Suc (Suc n))) [(Suc (Suc n), time_op utility_time_sub (ms_t epilogue_ms) (ut_t u)), (n, ms_t prologue_ms)])"
    and s2: "utility_time_sub_dyn_gc (Some n) (Some a) (with_temps h (Suc (Suc n)) ?ts) =
      Some (Some (Suc (Suc n)), with_temps h (Suc (Suc (Suc n))) [(Suc (Suc n), time_op utility_time_sub (ms_t prologue_ms) (ut_t u)), (Suc n, ms_t epilogue_ms)])"
    using temps_sub_dyn_gc [OF mk t2 l(2,1)] temps_sub_dyn_gc [OF mk t2 l(3,1)] old ok o(2)
    by (simp_all add: collect_temp_obj collect_plain)
  show ?thesis using 1 2 s1 s2 l by (simp add: charge_overheads_def numeral_2_eq_2 numeral_3_eq_3)
qed

text \<open>The value of the sum.\<close>

lemma overheads_ns:
  assumes "time_ok u" "time_ok uj" "time_ok uf" "time_ok (dynobj tc)" "ns_of u = 0" "0 \<le> waiting" "waiting < 2 ^ 31"
    and "overhead = ns_of uj + ns_of uf + max 0 (ns_of (dynobj tc) - waiting * 1000000)" "overhead < time_limit"
    and "v = utility_time_inc (utility_time_inc (utility_time_inc u uj) uf) (dynobj (time_op utility_time_sub tc (ms_t waiting)))"
  shows "ns_of v = overhead" "time_ok v"
proof -
  note w = ms_t [OF assms(6,7)]
  note d = time_op_ns(1) [OF assms(4) w(2), unfolded w(1)]
  let ?d = "dynobj (time_op utility_time_sub tc (ms_t waiting))"
  have nn: "0 \<le> ns_of uf" "0 \<le> ns_of uj" "0 \<le> ns_of ?d" using assms(2,3) d by auto
  have 1: "ns_of (utility_time_inc u uj) = ns_of uj \<and> time_ok (utility_time_inc u uj)"
    using inc_correct [OF assms(1,2)] assms(5,8,9) nn by simp
  have 2: "ns_of (utility_time_inc (utility_time_inc u uj) uf) = ns_of uj + ns_of uf \<and> time_ok (utility_time_inc (utility_time_inc u uj) uf)"
    using inc_correct [OF 1 [THEN conjunct2] assms(3)] 1 assms(8,9) by simp
  have "ns_of v = ns_of uj + ns_of uf + ns_of ?d \<and> time_ok v"
    using inc_correct [OF 2 [THEN conjunct2] d [THEN conjunct2]] 2 d assms(8,9) unfolding assms(10) by simp
  then show "ns_of v = overhead" "time_ok v" using d assms(8) by simp_all
qed

text \<open>What the durations are when the overhead has a given value.\<close>

lemma charge_overheads_values:
  assumes "temps_ok h n []" "\<forall>k. malloc_ok h k" "cells h a = Some v" "\<not> auto_obj v" "time_ok v" "ns_of v = overhead"
    and "0 \<le> prologue_ms" "prologue_ms < 2 ^ 31" "0 \<le> epilogue_ms" "epilogue_ms < 2 ^ 31"
  shows "if overhead < epilogue_ms * 1000000 \<or> overhead < prologue_ms * 1000000
     then \<exists>p e tp te h2. charge_overheads prologue_ms epilogue_ms (Some a) (with_temps h n []) = Some (Some (Some p, Some e), h2) \<and>
       cells h2 = (cells h)(p \<mapsto> dynobj tp, e \<mapsto> dynobj te) \<and>
       ns_of (dynobj tp) + ns_of (dynobj te) + overhead = (prologue_ms + epilogue_ms) * 1000000 \<and>
       (if overhead < epilogue_ms * 1000000 then ns_of (dynobj tp) = prologue_ms * 1000000
        else ns_of (dynobj te) = epilogue_ms * 1000000)
     else \<exists>h2. charge_overheads prologue_ms epilogue_ms (Some a) (with_temps h n []) = Some (None, h2)"
    (is "if _ then ?charged else _")
proof -
  note ch = charge_overheads_eq [OF assms(1-4), of prologue_ms epilogue_ms]
  note p = ms_t [OF assms(7,8)] and e = ms_t [OF assms(9,10)]
  have gt: "utility_time_gt (dynobj (ms_t epilogue_ms)) v \<longleftrightarrow> overhead < epilogue_ms * 1000000"
    "utility_time_gt (dynobj (ms_t prologue_ms)) v \<longleftrightarrow> overhead < prologue_ms * 1000000"
    using p e assms(5,6) by (simp_all only: gt_is_order order_ns_of)
  have v: "ns_of (dynobj (ut_t v)) = overhead" "time_ok (dynobj (ut_t v))"
    using assms(5,6) t_congs [of "dynobj (ut_t v)" v] by simp_all
  note se = time_op_ns(1) [OF e(2) v(2), unfolded v e(1)] and sp = time_op_ns(1) [OF p(2) v(2), unfolded v p(1)]
  have c: "cells (with_temps h k [(x, tx), (y, ty)]) = (cells h)(y \<mapsto> dynobj ty, x \<mapsto> dynobj tx)"
    "x \<noteq> y \<Longrightarrow> cells (with_temps h k [(x, tx), (y, ty)]) = (cells h)(x \<mapsto> dynobj tx, y \<mapsto> dynobj ty)" for k x y tx ty
    by (auto simp: with_temps_def fun_eq_iff)
  consider (epilogue) "overhead < epilogue_ms * 1000000" | (prologue) "\<not> overhead < epilogue_ms * 1000000" "overhead < prologue_ms * 1000000"
    | (neither) "\<not> overhead < epilogue_ms * 1000000" "\<not> overhead < prologue_ms * 1000000" by blast
  then show ?thesis
  proof cases
    case epilogue
    then have "?charged" using ch p(1) se
      by (intro exI [of _ n] exI [of _ "n + 2"] exI [of _ "ms_t prologue_ms"]
          exI [of _ "time_op utility_time_sub (ms_t epilogue_ms) (ut_t v)"]) (simp add: gt c(1))
    then show ?thesis using epilogue by simp
  next
    case prologue
    then have "?charged" using ch e(1) sp
      by (intro exI [of _ "n + 2"] exI [of _ "n + 1"] exI [of _ "time_op utility_time_sub (ms_t prologue_ms) (ut_t v)"]
          exI [of _ "ms_t epilogue_ms"]) (simp add: gt c(2))
    then show ?thesis using prologue by simp
  next
    case neither
    then show ?thesis using ch by (simp add: gt)
  qed
qed

text \<open>Claim C24. The overheads are charged exactly once: the sum is that of the three overheads, where the
  communication counts with what it took beyond the expected service time, and the two busy loops are created for
  durations that add up, with the sum, to what was asked for, to the nanosecond. All is charged to the epilogue if it is
  longer than the sum, else to the prologue, else the client refuses. The two durations are the only objects
  that are left of the calculation.\<close>

theorem overheads_charged_once:
  assumes "temps_ok h n [(c, tc)]" "\<forall>k. malloc_ok h k"
    and "cells h a = Some u" "cells h j = Some uj" "cells h f = Some uf" "a \<noteq> j" "a \<noteq> f"
      "\<not> auto_obj u" "\<not> auto_obj uj" "\<not> auto_obj uf"
    and "time_ok u" "time_ok uj" "time_ok uf" "time_ok (dynobj tc)" "ns_of u = 0"
    and "0 \<le> waiting" "waiting < 2 ^ 31" "0 \<le> prologue_ms" "prologue_ms < 2 ^ 31" "0 \<le> epilogue_ms" "epilogue_ms < 2 ^ 31"
    and "overhead = ns_of uj + ns_of uf + max 0 (ns_of (dynobj tc) - waiting * 1000000)" "overhead < time_limit"
  shows "\<exists>h1 v. sum_overheads (Some a) (Some j) (Some f) (Some c) waiting (with_temps h n [(c, tc)]) = Some h1 \<and>
    cells h1 = (cells h)(a \<mapsto> v) \<and> ns_of v = overhead \<and>
    (if overhead < epilogue_ms * 1000000 \<or> overhead < prologue_ms * 1000000
     then \<exists>p e tp te h2. charge_overheads prologue_ms epilogue_ms (Some a) h1 = Some (Some (Some p, Some e), h2) \<and>
       cells h2 = (cells h)(a \<mapsto> v, p \<mapsto> dynobj tp, e \<mapsto> dynobj te) \<and>
       ns_of (dynobj tp) + ns_of (dynobj te) + overhead = (prologue_ms + epilogue_ms) * 1000000 \<and>
       (if overhead < epilogue_ms * 1000000 then ns_of (dynobj tp) = prologue_ms * 1000000
        else ns_of (dynobj te) = epilogue_ms * 1000000)
     else \<exists>h2. charge_overheads prologue_ms epilogue_ms (Some a) h1 = Some (None, h2))"
proof -
  have m: "malloc_ok h n" "malloc_ok h (Suc n)" using assms(2) by blast+
  define v where "v = utility_time_inc (utility_time_inc (utility_time_inc u uj) uf) (dynobj (time_op utility_time_sub tc (ms_t waiting)))"
  note sum = sum_overheads_eq [OF assms(1) m assms(3-7,9,10) v_def]
  note val = overheads_ns [OF assms(11-17,22,23) v_def]
  have na: "\<not> auto_obj v" using assms(8) by (simp add: v_def auto_obj_def utility_time_inc_def utility_time_add_def set_t_def)
  have mk: "\<forall>k. malloc_ok (assign a v h) k" "cells (assign a v h) a = Some v" using assms(2) by simp_all
  have c: "cells (assign a v h) = (cells h)(a \<mapsto> v)" unfolding assign_def by simp
  have "cells (with_temps (assign a v h) (n + 2) []) = (cells h)(a \<mapsto> v)" unfolding c [symmetric] by (rule ext) (simp add: with_temps_def)
  then show ?thesis using charge_overheads_values [OF sum(2) mk na val(2,1) assms(18-21), unfolded c] sum(1) val(1) by blast
qed

text \<open>Overheads of 1, 2 and 7 - 5 seconds, charged to the prologue.\<close>

definition kept :: "int \<Rightarrow> utility_time" where
  "kept k = \<lparr>ut_t = \<lparr>tv_sec = of_int k, tv_nsec = 0\<rparr>, dyn_alloc = True, manual_gc = True\<rparr>"

definition overhead_store :: time_store where
  "overhead_store = \<lparr>cells = [0 \<mapsto> kept 0, 1 \<mapsto> kept 1, 2 \<mapsto> kept 2], heap_objs = {0, 1, 2}, next_addr = 3,
     malloc_ok = (\<lambda>_. True), garbage = (\<lambda>_. utility_time_init)\<rparr>"

theorem overheads_charged_once_witness:
  "\<exists>h1 p e tp te h2. sum_overheads (Some 0) (Some 1) (Some 2) (Some 3) 5000
      (with_temps overhead_store 4 [(3, \<lparr>tv_sec = 7, tv_nsec = 0\<rparr>)]) = Some h1 \<and>
    charge_overheads 9000 4000 (Some 0) h1 = Some (Some (Some p, Some e), h2) \<and> ns_of (dynobj tp) + ns_of (dynobj te) = 8000000000 \<and>
    cells h2 e = Some (dynobj te)"
proof -
  have st: "temps_ok overhead_store 4 [(3, \<lparr>tv_sec = 7, tv_nsec = 0\<rparr>)]" "\<forall>k. malloc_ok overhead_store k"
    "cells overhead_store 0 = Some (kept 0)" "cells overhead_store 1 = Some (kept 1)" "cells overhead_store 2 = Some (kept 2)"
    by (auto simp: overhead_store_def store_ok_def split: if_splits)
  have ok: "\<not> auto_obj (kept k)" "time_ok (kept k) \<longleftrightarrow> 0 \<le> sint (of_int k :: i64)" "ns_of (kept k) = sint (of_int k :: i64) * 1000000000" for k
    by (simp_all add: kept_def auto_obj_def time_ok_def ns_of_def)
  have c: "time_ok (dynobj \<lparr>tv_sec = 7, tv_nsec = 0\<rparr>)" "ns_of (dynobj \<lparr>tv_sec = 7, tv_nsec = 0\<rparr>) = 7000000000"
    by (simp_all add: dynobj_def time_ok_def ns_of_def)
  have s: "sint (of_int 0 :: i64) = 0" "sint (of_int 1 :: i64) = 1" "sint (of_int 2 :: i64) = 2" by simp_all
  from overheads_charged_once [OF st _ _ ok(1) ok(1) ok(1) _ _ _ c(1), of 5000 9000 4000 5000000000]
  show ?thesis by (simp add: ok s c time_limit_def) force
qed

end
