(* ===== verification/Bwi_Config.thy ===== *)
theory Bwi_Config
  imports C_Strings Utility_CPU
begin

text \<open>
  The processes of the driver of the experiments with bandwidth inheritance, from its configuration file to
  their arguments (\<^verbatim>\<open>bwi-client_server/main.c\<close>).

  A \<^verbatim>\<open>struct proc\<close> owns the memory of its arguments, and \<^verbatim>\<open>argv\<close> is an array of pointers into that
  memory; a list of processes is one of six, named by its head. A pointer to the process ID of a server is the
  position of the server in the list of servers, to which processes are only appended.
\<close>

section \<open>Processes and their lists\<close>

record proc =
  proc_args :: "char list option"
  proc_argv :: "nat option list option"
  proc_id :: int
  proc_server_pid :: "nat option"
  proc_subserver_pid :: "nat option"
  proc_duration_ms :: "u64 option"
  proc_ftrace_start :: "int option"
  proc_ftrace_stop :: "int option"

datatype proc_head = Server_procs | Client_procs | Cpu_hog_procs | Cpu_hog_cbs_procs | Hrt_cbs_procs | Server_hog_procs

type_synonym procs = "proc_head \<Rightarrow> proc list"

definition sizeof_proc :: nat where "sizeof_proc = 72"

definition proc_init :: proc where
  "proc_init = \<lparr>proc_args = None, proc_argv = None, proc_id = - 1, proc_server_pid = None, proc_subserver_pid = None,
     proc_duration_ms = None, proc_ftrace_start = None, proc_ftrace_stop = None\<rparr>"

definition proc_new :: "(nat \<Rightarrow> bool) \<Rightarrow> proc option" where
  "proc_new mem_ok = (if \<not> mem_ok sizeof_proc then None else Some proc_init)"

definition procs_add :: "proc_head \<Rightarrow> proc \<Rightarrow> procs \<Rightarrow> procs" where
  "procs_add head new heads = heads(head := heads head @ [new])"

definition procs_free :: "proc_head \<Rightarrow> procs \<Rightarrow> procs" where
  "procs_free head heads = heads(head := [])"

text \<open>Changes the last process of a list.\<close>

definition update_last :: "proc_head \<Rightarrow> (proc \<Rightarrow> proc) \<Rightarrow> procs \<Rightarrow> procs" where
  "update_last head f heads = heads(head := butlast (heads head) @ [f (last (heads head))])"

section \<open>Arguments that are adjusted in place\<close>

definition char_at :: "char list \<Rightarrow> nat \<Rightarrow> char option" where
  "char_at mem i = (if i < length mem then Some (mem ! i) else None)"

text \<open>
  \<^verbatim>\<open>find_argv_to_adjust\<close>: the pointer it returns (\<open>None\<close> inside for NULL), which is NULL also when the option
  is the last argument and has none.
\<close>

fun find_argv_to_adjust :: "char \<Rightarrow> char list \<Rightarrow> nat option list \<Rightarrow> nat option option" where
  "find_argv_to_adjust target_optchar mem [] = None"
| "find_argv_to_adjust target_optchar mem (None # _) = Some None"
| "find_argv_to_adjust target_optchar mem (Some a # rest) = do {
     c0 \<leftarrow> char_at mem a;
     c1 \<leftarrow> (if c0 = CHR ''-'' then char_at mem (a + 1) else Some NUL);
     if c0 = CHR ''-'' \<and> c1 = target_optchar then do {
       c2 \<leftarrow> char_at mem (a + 2);
       if c2 = NUL then (case rest of [] \<Rightarrow> None | next # _ \<Rightarrow> Some next) else Some (Some (a + 2)) }
     else find_argv_to_adjust target_optchar mem rest }"

definition adjust_argv :: "char \<Rightarrow> string \<Rightarrow> proc \<Rightarrow> proc option" where
  "adjust_argv target_optchar val p = do {
     mem \<leftarrow> proc_args p; argv \<leftarrow> proc_argv p;
     argv_to_adjust \<leftarrow> find_argv_to_adjust target_optchar mem argv;
     case argv_to_adjust of
       None \<Rightarrow> Some p
     | Some i \<Rightarrow> do {
         s \<leftarrow> cstr_at mem i;
         mem1 \<leftarrow> snprintf_at mem i (length s) val;
         Some (p\<lparr>proc_args := Some mem1\<rparr>) } }"

text \<open>Dereferencing a pointer to a process ID.\<close>

definition pid_at :: "procs \<Rightarrow> nat \<Rightarrow> int option" where
  "pid_at heads k = (if k < length (heads Server_procs) then Some (proc_id (heads Server_procs ! k)) else None)"

definition delimiter :: string where "delimiter = [CHR '' '', CHR 0x09]"

text \<open>Filling the array of \<^verbatim>\<open>argc + 1\<close> pointers.\<close>

definition store_tokens :: "nat \<Rightarrow> nat list \<Rightarrow> nat option list option" where
  "store_tokens argc toks =
    (if length toks \<le> argc then Some (map Some toks @ [None] @ replicate (argc - length toks) None) else None)"

text \<open>The body of the loop of \<^verbatim>\<open>procs_make_argv\<close>, its last part first.\<close>

definition adjust_options :: "procs \<Rightarrow> proc \<Rightarrow> proc option" where
  "adjust_options heads p = do {
     p2 \<leftarrow> (case proc_server_pid p of None \<Rightarrow> Some p
            | Some k \<Rightarrow> do { pid \<leftarrow> pid_at heads k; adjust_argv CHR ''v'' (show_int pid) p });
     p3 \<leftarrow> (case proc_duration_ms p2 of None \<Rightarrow> Some p2 | Some n \<Rightarrow> adjust_argv CHR ''x'' (fmt_lu n) p2);
     p4 \<leftarrow> (case proc_ftrace_start p3 of None \<Rightarrow> Some p3 | Some n \<Rightarrow> adjust_argv CHR ''r'' (show_int n) p3);
     (case proc_ftrace_stop p4 of None \<Rightarrow> Some p4 | Some n \<Rightarrow> adjust_argv CHR ''l'' (show_int n) p4) }"

definition make_argv :: "(nat \<Rightarrow> bool) \<Rightarrow> procs \<Rightarrow> proc \<Rightarrow> (int \<times> proc) option" where
  "make_argv mem_ok heads p = do {
     mem \<leftarrow> proc_args p;
     s \<leftarrow> cstr_at mem 0;
     if \<not> mem_ok (length s + 1) then Some (- 1, p)
     else do {
       (counted, _) \<leftarrow> strtok_loop delimiter (s @ [NUL]) 0;
       if \<not> mem_ok (8 * (length counted + 1)) then Some (- 1, p\<lparr>proc_argv := None\<rparr>)
       else do {
         (toks, mem1) \<leftarrow> strtok_loop delimiter mem 0;
         argv \<leftarrow> store_tokens (length counted) toks;
         p1 \<leftarrow> adjust_options heads (p\<lparr>proc_args := Some mem1, proc_argv := Some argv\<rparr>);
         Some (0, p1) } } }"

fun make_argv_loop :: "(nat \<Rightarrow> bool) \<Rightarrow> proc_head \<Rightarrow> nat list \<Rightarrow> procs \<Rightarrow> (int \<times> procs) option" where
  "make_argv_loop mem_ok head [] heads = Some (0, heads)"
| "make_argv_loop mem_ok head (i # rest) heads = do {
     (rc, p) \<leftarrow> make_argv mem_ok heads (heads head ! i);
     heads1 \<leftarrow> Some (heads(head := (heads head)[i := p]));
     if rc \<noteq> 0 then Some (- 1, heads1) else make_argv_loop mem_ok head rest heads1 }"

definition procs_make_argv :: "(nat \<Rightarrow> bool) \<Rightarrow> proc_head \<Rightarrow> procs \<Rightarrow> (int \<times> procs) option" where
  "procs_make_argv mem_ok head heads = make_argv_loop mem_ok head [0..<length (heads head)] heads"

section \<open>The configuration file\<close>

datatype program_id = SERVER | CLIENT | CPU_HOG | CPU_HOG_CBS | HRT_CBS | SERVER_HOG | SERVER_CLIENT

definition program_ids :: "(program_id \<times> string) list" where
  "program_ids = [(SERVER, ''server''), (CLIENT, ''client''), (CPU_HOG, ''cpu_hog''), (CPU_HOG_CBS, ''cpu_hog_cbs''),
     (HRT_CBS, ''hrt_cbs''), (SERVER_HOG, ''server_hog''), (SERVER_CLIENT, ''server_client'')]"

record parse_config_file_prms =
  preceding_server :: "nat option"
  prms_duration_ms :: u64
  prms_ftrace_start :: "int option"
  prms_ftrace_stop :: "int option"

text \<open>The list a process is added to and the pointers it gets; \<open>None\<close> for an error.\<close>

definition register_proc :: "program_id \<Rightarrow> proc \<Rightarrow> parse_config_file_prms \<Rightarrow> procs \<Rightarrow>
    (proc_head \<times> parse_config_file_prms \<times> procs) option" where
  "register_proc i p prms heads =
    (let as_server = (\<lambda>p. Some (Server_procs, prms\<lparr>preceding_server := Some (length (heads Server_procs))\<rparr>,
           procs_add Server_procs p heads))
     in case i of
       SERVER_CLIENT \<Rightarrow>
         (case preceding_server prms of
            None \<Rightarrow> None
          | Some k \<Rightarrow> as_server (p\<lparr>proc_subserver_pid := Some k\<rparr>))
     | SERVER \<Rightarrow> as_server p
     | CLIENT \<Rightarrow> Some (Client_procs, prms, procs_add Client_procs
         (p\<lparr>proc_server_pid := preceding_server prms, proc_duration_ms := Some (prms_duration_ms prms),
            proc_ftrace_start := prms_ftrace_start prms, proc_ftrace_stop := prms_ftrace_stop prms\<rparr>) heads)
     | CPU_HOG \<Rightarrow> Some (Cpu_hog_procs, prms, procs_add Cpu_hog_procs p heads)
     | CPU_HOG_CBS \<Rightarrow> Some (Cpu_hog_cbs_procs, prms, procs_add Cpu_hog_cbs_procs p heads)
     | HRT_CBS \<Rightarrow> Some (Hrt_cbs_procs, prms, procs_add Hrt_cbs_procs
         (p\<lparr>proc_duration_ms := Some (prms_duration_ms prms)\<rparr>) heads)
     | SERVER_HOG \<Rightarrow> Some (Server_hog_procs, prms, procs_add Server_hog_procs p heads))"

text \<open>What \<^verbatim>\<open>SNPRINTF_ARGS\<close> prints: the place holders are the longest values of their types.\<close>

definition int_max :: string where "int_max = show_int 2147483647"
definition ulong_max :: string where "ulong_max = fmt_lu (- 1)"

definition placeholders :: "program_id \<Rightarrow> parse_config_file_prms \<Rightarrow> string" where
  "placeholders i prms =
    (let ftrace = (if prms_ftrace_start prms \<noteq> None \<and> prms_ftrace_stop prms \<noteq> None
           then '' -r '' @ int_max @ '' -l '' @ int_max else []);
         x = '' -x '' @ ulong_max
     in if i = CLIENT then
          if preceding_server prms = None then x @ ftrace else '' -v '' @ int_max @ x @ ftrace
        else if i = HRT_CBS then x
        else if i = SERVER_CLIENT then '' -v '' @ int_max
        else [])"

definition args_text :: "program_id \<Rightarrow> string \<Rightarrow> string \<Rightarrow> parse_config_file_prms \<Rightarrow> string" where
  "args_text i name remaining_line prms =
     ''./'' @ (if i = SERVER_CLIENT then ''server'' else name) @ '' '' @ remaining_line @ placeholders i prms"

text \<open>\<^verbatim>\<open>parse_config_file\<close>, called for each line; \<open>prms\<close> after \<^verbatim>\<open>procs_add\<close> are the ones that are printed from.\<close>

definition parse_config_file :: "(nat \<Rightarrow> bool) \<Rightarrow> char \<Rightarrow> string \<Rightarrow> parse_config_file_prms \<times> procs \<Rightarrow>
    (int \<times> parse_config_file_prms \<times> procs) option" where
  "parse_config_file mem_ok fill line s =
    (case s of (prms, heads) \<Rightarrow>
       if \<not> mem_ok (length line + 1) then Some (- 1, prms, heads)
       else do {
         (tok, buffer, _) \<leftarrow> strtok_from delimiter (line @ [NUL]) 0;
         case tok of
           None \<Rightarrow> Some (0, prms, heads)
         | Some a \<Rightarrow> do {
             token \<leftarrow> cstr_at buffer a;
             if token \<noteq> [] \<and> hd token = CHR ''#'' then Some (0, prms, heads)
             else
               (case find (\<lambda>(i, name). strcasecmp_eq token name) program_ids of
                  None \<Rightarrow> Some (- 1, prms, heads)
                | Some (i, name) \<Rightarrow>
                    (case proc_new mem_ok of
                       None \<Rightarrow> Some (- 1, prms, heads)
                     | Some p \<Rightarrow>
                         (case register_proc i p prms heads of
                            None \<Rightarrow> Some (- 1, prms, heads)
                          | Some (head, prms, heads) \<Rightarrow> do {
                              remaining_line \<leftarrow> (let r = a + length token + 1
                                 in if r \<ge> length line + 1 then Some [] else cstr_at buffer r);
                              let out = args_text i name remaining_line prms; args_buflen = length out + 1
                              in if \<not> mem_ok args_buflen then Some (- 1, prms, heads)
                                 else do {
                                   args \<leftarrow> snprintf_at (replicate args_buflen fill) 0 args_buflen out;
                                   Some (0, prms, update_last head (\<lambda>p. p\<lparr>proc_args := Some args\<rparr>) heads) } }))) } })"

section \<open>Adjusting, seen as a change of words\<close>

text \<open>Which word is overwritten, and from which character on.\<close>

definition option_word :: "char \<Rightarrow> string \<Rightarrow> bool" where
  "option_word c w \<longleftrightarrow> take 2 w = [CHR ''-'', c]"

fun word_to_adjust :: "char \<Rightarrow> string list \<Rightarrow> (nat \<times> nat) option" where
  "word_to_adjust c [] = None"
| "word_to_adjust c (w # ws) =
    (if option_word c w then
       if length w = 2 then if ws = [] then None else Some (1, 0) else Some (0, 2)
     else map_option (\<lambda>(k, d). (Suc k, d)) (word_to_adjust c ws))"

text \<open>The size given to \<^verbatim>\<open>snprintf\<close> is the length of what is overwritten, so that its last character is lost.\<close>

definition forced :: "char \<Rightarrow> string \<Rightarrow> string list \<Rightarrow> string list" where
  "forced c val ws =
    (case word_to_adjust c ws of
       None \<Rightarrow> ws
     | Some (k, d) \<Rightarrow> ws[k := take d (ws ! k) @ take (length (ws ! k) - d - 1) val])"

lemma word_to_adjust_bounds: "word_to_adjust c ws = Some (k, d) \<Longrightarrow> k < length ws \<and> d \<le> length (ws ! k)"
proof (induction ws arbitrary: k)
  case (Cons w ws)
  have "2 \<le> length w" if "option_word c w"
    using that by (metis option_word_def length_take length_Cons list.size(3) min.cobounded1 numeral_2_eq_2)
  then show ?case using Cons by (auto split: if_splits)
qed simp

text \<open>A process whose arguments are built.\<close>

definition has_argv :: "proc \<Rightarrow> string list \<Rightarrow> bool" where
  "has_argv p ss \<longleftrightarrow> (\<exists>mem offs. proc_args p = Some mem \<and> proc_argv p = Some (map Some offs @ [None]) \<and> laid_out mem 0 offs ss)"

lemma stored_char:
  assumes "take (length s + 1) (drop a mem) = s @ [NUL]" "j \<le> length s"
  shows "char_at mem (a + j) = Some ((s @ [NUL]) ! j)"
proof -
  have "length (take (length s + 1) (drop a mem)) = length s + 1" using assms(1) by simp
  then have inside: "a + length s < length mem" by simp
  have "(s @ [NUL]) ! j = take (length s + 1) (drop a mem) ! j" using assms(1) by simp
  also have "\<dots> = mem ! (a + j)" using assms(2) inside by simp
  finally show ?thesis using assms(2) inside by (simp add: char_at_def)
qed

lemma find_argv_word:
  "laid_out mem lo offs ss \<Longrightarrow> c \<noteq> NUL \<Longrightarrow>
   find_argv_to_adjust c mem (map Some offs @ [None]) = Some (map_option (\<lambda>(k, d). offs ! k + d) (word_to_adjust c ss))"
proof (induction mem lo offs ss rule: laid_out.induct)
  case (2 mem lo i offs s ss)
  have at: "char_at mem (i + j) = Some ((s @ [NUL]) ! j)" if "j \<le> length s" for j
    using stored_char [OF _ that] 2(2) by simp
  have rest: "find_argv_to_adjust c mem (map Some offs @ [None]) =
      Some (map_option (\<lambda>(k, d). offs ! k + d) (word_to_adjust c ss))"
    using 2 by simp
  have shift: "map_option (\<lambda>(k, d). offs ! k + d) u = map_option (\<lambda>(k, d). (i # offs) ! k + d) (map_option (\<lambda>(k, d). (Suc k, d)) u)"
    for u by (cases u) auto
  have nul: "NUL \<notin> set s" using 2(2) by simp
  consider "s = []" | x where "s = [x]" | x y where "s = [x, y]" | x y z r where "s = x # y # z # r"
    by (metis neq_Nil_conv)
  then show ?case
  proof cases
    case 1
    then show ?thesis using at [of 0] rest shift by (simp add: option_word_def)
  next
    case (2 x)
    then show ?thesis using at [of 0] at [of 1] rest shift \<open>c \<noteq> NUL\<close> by (simp add: option_word_def)
  next
    case (3 x y)
    have "length offs = length ss" using laid_out_length [of mem "i + length s + 1" offs ss] 2(2) by auto
    then show ?thesis using 3 at [of 0] at [of 1] at [of 2] rest shift
      by (cases offs; cases ss) (auto simp: option_word_def numeral_2_eq_2)
  next
    case (4 x y z r)
    then show ?thesis using at [of 0] at [of 1] at [of 2] rest shift nul
      by (auto simp: option_word_def numeral_2_eq_2)
  qed
qed auto

lemma laid_out_suffix:
  "laid_out mem lo offs ss \<Longrightarrow> k < length ss \<Longrightarrow> d \<le> length (ss ! k) \<Longrightarrow>
   cstr_at mem (offs ! k + d) = Some (drop d (ss ! k))"
proof (induction mem lo offs ss arbitrary: k rule: laid_out.induct)
  case (2 mem lo i offs s ss)
  show ?case
  proof (cases k)
    case 0
    have "drop d (take (length s + 1) (drop i mem)) = drop d (s @ [NUL])" using 2(2) by simp
    then have "take (length (drop d s) + 1) (drop (i + d) mem) = drop d s @ [NUL]"
      using 2(4) 0 by (simp add: drop_take Suc_diff_le add.commute)
    moreover have "NUL \<notin> set (drop d s)" using 2(2) by (auto dest: in_set_dropD)
    ultimately have "cstr_at mem (i + d) = Some (drop d s)" by (rule cstr_at_stored)
    then show ?thesis using 0 by simp
  qed (use 2 in auto)
qed auto

text \<open>Each adjustment of a process whose arguments are built is the change of one word, within the memory.\<close>

lemma adjust_argv_forced:
  assumes "has_argv p ss" "c \<noteq> NUL" "NUL \<notin> set val"
  shows "\<exists>p1. adjust_argv c val p = Some p1 \<and> has_argv p1 (forced c val ss) \<and>
    p1 = p\<lparr>proc_args := proc_args p1\<rparr>"
proof -
  from assms(1) obtain mem offs where p: "proc_args p = Some mem" "proc_argv p = Some (map Some offs @ [None])"
    "laid_out mem 0 offs ss" by (auto simp: has_argv_def)
  note find = find_argv_word [OF p(3) assms(2)]
  show ?thesis
  proof (cases "word_to_adjust c ss")
    case None
    then show ?thesis using p find assms(1) by (simp add: adjust_argv_def forced_def)
  next
    case (Some kd)
    obtain k d where kd: "kd = (k, d)" by fastforce
    with Some have k: "k < length ss" "d \<le> length (ss ! k)" using word_to_adjust_bounds by blast+
    let ?ss = "ss[k := take d (ss ! k) @ take (length (ss ! k) - d - 1) val]"
    have forced: "forced c val ss = ?ss" using Some kd by (simp add: forced_def)
    obtain mem1 where m: "snprintf_at mem (offs ! k + d) (length (ss ! k) - d) val = Some mem1"
      "laid_out mem1 0 offs (if length (ss ! k) - d = 0 then ss else ?ss)"
      using laid_out_snprintf [OF p(3) k assms(3)] by blast
    moreover have "?ss = ss" if "length (ss ! k) - d = 0" using that k by simp
    ultimately have "laid_out mem1 0 offs ?ss" by (auto split: if_splits)
    then have "has_argv (p\<lparr>proc_args := Some mem1\<rparr>) ?ss" using p(2) by (auto simp: has_argv_def)
    moreover have "adjust_argv c val p = Some (p\<lparr>proc_args := Some mem1\<rparr>)"
      using p find Some kd m(1) laid_out_suffix [OF p(3) k] by (simp add: adjust_argv_def)
    ultimately show ?thesis unfolding forced by (intro exI [of _ "p\<lparr>proc_args := Some mem1\<rparr>"]) simp
  qed
qed

section \<open>The arguments of a process\<close>

text \<open>The words a process is started with, given the words of its line.\<close>

definition expected_words :: "procs \<Rightarrow> proc \<Rightarrow> string list \<Rightarrow> string list" where
  "expected_words heads p ws =
    (let ws = (case proc_server_pid p of None \<Rightarrow> ws
           | Some k \<Rightarrow> forced CHR ''v'' (show_int (proc_id (heads Server_procs ! k))) ws);
         ws = (case proc_duration_ms p of None \<Rightarrow> ws | Some n \<Rightarrow> forced CHR ''x'' (fmt_lu n) ws);
         ws = (case proc_ftrace_start p of None \<Rightarrow> ws | Some n \<Rightarrow> forced CHR ''r'' (show_int n) ws)
     in case proc_ftrace_stop p of None \<Rightarrow> ws | Some n \<Rightarrow> forced CHR ''l'' (show_int n) ws)"

lemma digits_no_nul [simp]: "NUL \<notin> set (show_nat n)" "NUL \<notin> set (show_int z)" "NUL \<notin> set (fmt_lu w)"
proof -
  have "list_all isdigit (show_nat n)" for n by simp
  then show n: "NUL \<notin> set (show_nat n)" for n by (fastforce simp: list_all_iff isdigit_def)
  show "NUL \<notin> set (show_int z)" "NUL \<notin> set (fmt_lu w)" using n by (auto simp: show_int_def fmt_lu_def)
qed

lemma adjust_if_given:
  assumes "has_argv p ss" "c \<noteq> NUL" "\<And>n. NUL \<notin> set (f n)"
  shows "\<exists>mem. (case x of None \<Rightarrow> Some p | Some n \<Rightarrow> adjust_argv c (f n) p) = Some (p\<lparr>proc_args := mem\<rparr>) \<and>
    has_argv (p\<lparr>proc_args := mem\<rparr>) (case x of None \<Rightarrow> ss | Some n \<Rightarrow> forced c (f n) ss)"
proof (cases x)
  case None
  then show ?thesis using assms(1) by (intro exI [of _ "proc_args p"]) simp
next
  case (Some n)
  from adjust_argv_forced [OF assms(1,2,3), of n] obtain p1 where
    "adjust_argv c (f n) p = Some p1" "has_argv p1 (forced c (f n) ss)" "p1 = p\<lparr>proc_args := proc_args p1\<rparr>" by blast
  then show ?thesis using Some by (intro exI [of _ "proc_args p1"]) simp
qed

text \<open>The array of pointers and the memory of the arguments are used within their bounds.\<close>

lemma make_argv_refines:
  assumes "proc_args p = Some (line @ NUL # u)" "NUL \<notin> set line"
    and "\<forall>k. proc_server_pid p = Some k \<longrightarrow> k < length (heads Server_procs)"
  shows "\<exists>rc p1. make_argv mem_ok heads p = Some (rc, p1) \<and>
    (if mem_ok (length line + 1) \<and> mem_ok (8 * (length (words delimiter line) + 1))
     then rc = 0 \<and> has_argv p1 (expected_words heads p (words delimiter line)) else rc = - 1)"
proof -
  let ?ws = "words delimiter line"
  have at: "cstr_at (line @ NUL # u) 0 = Some line" using cstr_at_append [of line "[]" u] assms(2) by simp
  obtain toks0 s0 where c: "strtok_loop delimiter (line @ [NUL]) 0 = Some (toks0, s0 @ [NUL])"
    "laid_out (s0 @ [NUL]) 0 toks0 ?ws" using strtok_loop_words [of line delimiter "[]" "[]"] assms(2) by auto
  obtain toks s1 where t: "strtok_loop delimiter (line @ NUL # u) 0 = Some (toks, s1 @ NUL # u)"
    "laid_out (s1 @ NUL # u) 0 toks ?ws" using strtok_loop_words [of line delimiter "[]" u] assms(2) by auto
  have len: "length toks0 = length ?ws" "length toks = length ?ws"
    using c(2) t(2) laid_out_length by blast+
  define q where "q m = p\<lparr>proc_args := m, proc_argv := Some (map Some toks @ [None])\<rparr>" for m
  have q: "proc_args (q m) = m" "proc_argv (q m) = Some (map Some toks @ [None])" "(q m)\<lparr>proc_args := m'\<rparr> = q m'"
    "proc_server_pid (q m) = proc_server_pid p" "proc_duration_ms (q m) = proc_duration_ms p"
    "proc_ftrace_start (q m) = proc_ftrace_start p" "proc_ftrace_stop (q m) = proc_ftrace_stop p" for m m'
    by (simp_all add: q_def)
  let ?p1 = "q (Some (s1 @ NUL # u))"
  have "has_argv ?p1 ?ws" using t(2) by (auto simp: has_argv_def q)
  from adjust_if_given [OF this, of "CHR ''v''" "\<lambda>k. show_int (proc_id (heads Server_procs ! k))" "proc_server_pid p"]
  obtain m2 ws2 where 2: "(case proc_server_pid p of None \<Rightarrow> Some ?p1
        | Some k \<Rightarrow> adjust_argv CHR ''v'' (show_int (proc_id (heads Server_procs ! k))) ?p1) = Some (q m2)"
      "ws2 = (case proc_server_pid p of None \<Rightarrow> ?ws
        | Some k \<Rightarrow> forced CHR ''v'' (show_int (proc_id (heads Server_procs ! k))) ?ws)"
      "has_argv (q m2) ws2" unfolding q by auto
  from adjust_if_given [OF 2(3), of "CHR ''x''" fmt_lu "proc_duration_ms p"]
  obtain m3 ws3 where 3: "(case proc_duration_ms p of None \<Rightarrow> Some (q m2)
        | Some n \<Rightarrow> adjust_argv CHR ''x'' (fmt_lu n) (q m2)) = Some (q m3)"
      "ws3 = (case proc_duration_ms p of None \<Rightarrow> ws2 | Some n \<Rightarrow> forced CHR ''x'' (fmt_lu n) ws2)"
      "has_argv (q m3) ws3" unfolding q by auto
  from adjust_if_given [OF 3(3), of "CHR ''r''" show_int "proc_ftrace_start p"]
  obtain m4 ws4 where 4: "(case proc_ftrace_start p of None \<Rightarrow> Some (q m3)
        | Some n \<Rightarrow> adjust_argv CHR ''r'' (show_int n) (q m3)) = Some (q m4)"
      "ws4 = (case proc_ftrace_start p of None \<Rightarrow> ws3 | Some n \<Rightarrow> forced CHR ''r'' (show_int n) ws3)"
      "has_argv (q m4) ws4" unfolding q by auto
  from adjust_if_given [OF 4(3), of "CHR ''l''" show_int "proc_ftrace_stop p"]
  obtain m5 ws5 where 5: "(case proc_ftrace_stop p of None \<Rightarrow> Some (q m4)
        | Some n \<Rightarrow> adjust_argv CHR ''l'' (show_int n) (q m4)) = Some (q m5)"
      "ws5 = (case proc_ftrace_stop p of None \<Rightarrow> ws4 | Some n \<Rightarrow> forced CHR ''l'' (show_int n) ws4)"
      "has_argv (q m5) ws5" unfolding q by auto
  have "expected_words heads p ?ws = ws5" unfolding expected_words_def Let_def 2(2) [symmetric] 3(2) [symmetric]
    4(2) [symmetric] 5(2) [symmetric] ..
  moreover have "(case proc_server_pid p of None \<Rightarrow> Some ?p1
      | Some k \<Rightarrow> do { pid \<leftarrow> pid_at heads k; adjust_argv CHR ''v'' (show_int pid) ?p1 }) = Some (q m2)"
    using 2(1) assms(3) by (auto simp: pid_at_def split: option.splits)
  then have "adjust_options heads ?p1 = Some (q m5)"
    using 3(1) 4(1) 5(1) by (simp only: adjust_options_def q bind.bind_lunit)
  then have "make_argv mem_ok heads p =
      (if \<not> mem_ok (length line + 1) then Some (- 1, p)
       else if \<not> mem_ok (8 * (length ?ws + 1)) then Some (- 1, p\<lparr>proc_argv := None\<rparr>)
       else Some (0, q m5))"
    using assms(1) at c t len by (simp add: make_argv_def store_tokens_def q_def)
  ultimately show ?thesis using 5(3) by simp
qed

text \<open>Claim C21. \<^verbatim>\<open>procs_make_argv\<close> cuts the arguments of a process into their words and then changes
  words in place, with the pointers it keeps into the memory of the arguments: no store leaves that memory or touches
  another word, the array of pointers is never overrun, and what results is what changing the list of words
  itself gives, or an error when memory is short.\<close>

theorem make_argv_words:
  assumes "proc_args p = Some (line @ NUL # u)" "NUL \<notin> set line"
    and "\<forall>k. proc_server_pid p = Some k \<longrightarrow> k < length (heads Server_procs)"
  shows "\<exists>rc p1. make_argv mem_ok heads p = Some (rc, p1) \<and>
    (if mem_ok (length line + 1) \<and> mem_ok (8 * (length (words delimiter line) + 1))
     then rc = 0 \<and> has_argv p1 (expected_words heads p (words delimiter line)) else rc = - 1)"
  by (rule make_argv_refines) (fact assms)+

text \<open>What a program that is started with \<^verbatim>\<open>argv\<close> sees.\<close>

fun read_argv :: "char list \<Rightarrow> nat option list \<Rightarrow> string list option" where
  "read_argv mem [] = None"
| "read_argv mem (None # _) = Some []"
| "read_argv mem (Some a # rest) = do { s \<leftarrow> cstr_at mem a; ss \<leftarrow> read_argv mem rest; Some (s # ss) }"

definition exec_argv :: "proc \<Rightarrow> string list option" where
  "exec_argv p = do { mem \<leftarrow> proc_args p; argv \<leftarrow> proc_argv p; read_argv mem argv }"

lemma read_argv_laid_out: "laid_out mem lo offs ss \<Longrightarrow> read_argv mem (map Some offs @ [None]) = Some ss"
  by (induction mem lo offs ss rule: laid_out.induct) (auto simp: cstr_at_stored)

lemma has_argv_exec: "has_argv p ss \<Longrightarrow> exec_argv p = Some ss"
  by (auto simp: has_argv_def exec_argv_def read_argv_laid_out)

section \<open>The commands of the configuration file\<close>

lemma snprintf_whole:
  "snprintf_at (replicate (length s + 1) fill) 0 (length s + 1) s = Some (s @ [NUL])"
  by (simp add: snprintf_at_def snprintf_out_def put_string_def)

text \<open>What the first call of \<^verbatim>\<open>strtok\<close> leaves of a line.\<close>

lemma strtok_line:
  assumes "NUL \<notin> set line" "first_token delimiter line = (a, token, rest)" "token \<noteq> []"
  shows "\<exists>B pos. strtok_from delimiter (line @ [NUL]) 0 = Some (Some a, B, pos) \<and> cstr_at B a = Some token \<and>
    (if a + length token + 1 \<ge> length line + 1 then Some [] else cstr_at B (a + length token + 1)) = Some (tl rest)"
proof -
  obtain d where line: "line = d @ token @ rest" "length d = a" using first_token_split [OF assms(2)] by blast
  have at: "cstr_at (line @ [NUL]) 0 = Some line" using cstr_at_append [of line "[]" "[]"] assms(1) by simp
  have nul: "NUL \<notin> set token" "NUL \<notin> set rest" using assms(1) line by auto
  let ?r = "a + length token + 1"
  define B where "B = (if rest = [] then line @ [NUL] else (line @ [NUL])[a + length token := NUL])"
  have buffer: "B = d @ token @ NUL # (if rest = [] then [] else tl rest @ [NUL])"
    unfolding B_def using line by (cases rest) (auto simp: list_update_append)
  have tok: "strtok_from delimiter (line @ [NUL]) 0 = Some (Some a, B, if rest = [] then ?r - 1 else ?r)"
    unfolding B_def using assms(2,3) at by (simp add: strtok_from_def Let_def)
  have token: "cstr_at B a = Some token" unfolding buffer using cstr_at_append nul(1) line(2) by metis
  have "(if ?r \<ge> length line + 1 then Some [] else cstr_at B ?r) = Some (tl rest)"
  proof (cases rest)
    case (Cons c r')
    have "cstr_at ((d @ token @ [NUL]) @ r' @ NUL # []) (length (d @ token @ [NUL])) = Some r'"
      by (rule cstr_at_append) (use nul(2) Cons in simp)
    then show ?thesis unfolding buffer using Cons line by (simp add: add.assoc)
  qed (use line in simp)
  then show ?thesis using tok token by blast
qed

text \<open>A line that names a program.\<close>

lemma parse_config_line:
  assumes "NUL \<notin> set line" "first_token delimiter line = (a, token, rest)" "token \<noteq> []" "hd token \<noteq> CHR ''#''"
    and "find (\<lambda>(i, name). strcasecmp_eq token name) program_ids = Some (i, name)"
    and "register_proc i proc_init prms heads = Some (head, prms1, heads1)"
  defines "out \<equiv> args_text i name (tl rest) prms1"
  shows "parse_config_file mem_ok fill line (prms, heads) =
    Some (if \<not> mem_ok (length line + 1) \<or> \<not> mem_ok sizeof_proc then (- 1, prms, heads)
      else if \<not> mem_ok (length out + 1) then (- 1, prms1, heads1)
      else (0, prms1, update_last head (\<lambda>p. p\<lparr>proc_args := Some (out @ [NUL])\<rparr>) heads1))"
proof -
  obtain B pos where "strtok_from delimiter (line @ [NUL]) 0 = Some (Some a, B, pos)" "cstr_at B a = Some token"
    "(if a + length token + 1 \<ge> length line + 1 then Some [] else cstr_at B (a + length token + 1)) = Some (tl rest)"
    using strtok_line [OF assms(1-3)] by blast
  then show ?thesis using assms(3-6)
    by (auto simp: parse_config_file_def proc_new_def Let_def snprintf_whole [simplified] out_def split: if_split_asm)
qed

text \<open>Every other line is ignored or refused.\<close>

lemma parse_other_line:
  assumes "NUL \<notin> set line" "first_token delimiter line = (a, token, rest)"
    and "token = [] \<or> hd token = CHR ''#'' \<or> find (\<lambda>(i, name). strcasecmp_eq token name) program_ids = None \<or>
      (\<exists>i name. find (\<lambda>(i, name). strcasecmp_eq token name) program_ids = Some (i, name) \<and>
         register_proc i proc_init prms heads = None)"
  shows "\<exists>rc. parse_config_file mem_ok fill line (prms, heads) = Some (rc, prms, heads)"
proof (cases "token = []")
  case True
  have "cstr_at (line @ [NUL]) 0 = Some line" using cstr_at_append [of line "[]" "[]"] assms(1) by simp
  then show ?thesis using True assms(2) by (simp add: parse_config_file_def strtok_from_def)
next
  case False
  obtain B pos where "strtok_from delimiter (line @ [NUL]) 0 = Some (Some a, B, pos)" "cstr_at B a = Some token"
    using strtok_line [OF assms(1,2) False] by blast
  then show ?thesis using assms(3) False
    by (auto simp: parse_config_file_def proc_new_def split: option.splits prod.splits)
qed

lemma words_spaced:
  assumes "w \<noteq> []" "\<forall>c\<in>set w. c \<notin> set delims"
  shows "words delims w = [w]" "c \<in> set delims \<Longrightarrow> words delims (w @ c # u) = w # words delims u"
  using words_word [OF assms, of "[]"] words_word [OF assms, of "c # u"] by simp_all

lemma blank_delimiter [simp]: "CHR '' '' \<in> set delimiter"
  by (simp add: delimiter_def)

lemma digit_words: "words delimiter (show_nat n) = [show_nat n]" "words delimiter (show_nat n @ CHR '' '' # u) = show_nat n # words delimiter u"
proof -
  have "list_all isdigit (show_nat n)" by simp
  then have "\<forall>c\<in>set (show_nat n). c \<notin> set delimiter" by (auto simp: list_all_iff isdigit_def delimiter_def)
  from words_spaced [OF _ this] show "words delimiter (show_nat n) = [show_nat n]"
    "words delimiter (show_nat n @ CHR '' '' # u) = show_nat n # words delimiter u" by simp_all
qed

lemma placeholder_lengths [simp]: "length int_max = 10" "length ulong_max = 20"
  "int_max = show_nat 2147483647" "ulong_max = show_nat 18446744073709551615"
proof -
  show i: "int_max = show_nat 2147483647" "ulong_max = show_nat 18446744073709551615"
    by (simp_all add: int_max_def ulong_max_def show_int_def fmt_lu_def unsigned_minus_1_eq_mask mask_eq_exp_minus_1)
  show "length int_max = 10" "length ulong_max = 20" unfolding i by (simp_all add: show_nat.simps)
qed

lemma client_words:
  assumes "preceding_server prms = Some k" "prms_ftrace_start prms = None"
  shows "words delimiter (args_text CLIENT ''client'' user prms) =
    ''./client'' # words delimiter user @ [''-v'', int_max, ''-x'', ulong_max]"
proof -
  have d: "\<forall>c\<in>set ''./client''. c \<notin> set delimiter" "\<forall>c\<in>set ''-v''. c \<notin> set delimiter" "\<forall>c\<in>set ''-x''. c \<notin> set delimiter"
    by (simp_all add: delimiter_def)
  have "args_text CLIENT ''client'' user prms =
      ''./client'' @ CHR '' '' # (user @ CHR '' '' # (''-v'' @ CHR '' '' # (int_max @ CHR '' '' # (''-x'' @ CHR '' '' # ulong_max))))"
    using assms by (simp add: args_text_def placeholders_def)
  then show ?thesis using words_spaced(2) [OF _ d(1)] words_spaced(2) [OF _ d(2)] words_spaced(2) [OF _ d(3)]
    by (simp add: words_append digit_words)
qed

text \<open>Which word an option is looked for in.\<close>

lemma forced_first:
  assumes "\<forall>w\<in>set pre. \<not> option_word c w" "option_word c v" "length v = 2"
  shows "forced c val (pre @ v # a # post) = pre @ v # take (length a - 1) val # post"
proof -
  have "word_to_adjust c (pre @ v # a # post) = Some (length pre + 1, 0)"
    using assms by (induction pre) auto
  then show ?thesis by (simp add: forced_def nth_append list_update_append)
qed

lemma number_no_option:
  assumes "\<not> isdigit c"
  shows "\<not> option_word c (take n (show_int z))"
proof
  assume "option_word c (take n (show_int z))"
  then have "take 2 (take n (show_int z)) = [CHR ''-'', c]" by (simp add: option_word_def)
  moreover have "list_all isdigit (show_nat (nat (- z)))" "list_all isdigit (show_nat (nat z))" by simp_all
  ultimately show False using assms
    by (cases n; cases "n - 1"; cases "show_nat (nat (- z))"; cases "show_nat (nat z)") (auto simp: show_int_def split: if_splits)
qed

lemma client_is_second: "strcasecmp_eq token ''client'' \<Longrightarrow>
    find (\<lambda>(i, name). strcasecmp_eq token name) program_ids = Some (CLIENT, ''client'') \<and> token \<noteq> [] \<and> hd token \<noteq> CHR ''#''"
proof -
  assume t: "strcasecmp_eq token ''client''"
  have lower: "map to_lower ''client'' = ''client''" "map to_lower ''server'' = ''server''" by code_simp+
  have c: "map to_lower token = ''client''" using t lower by (simp add: strcasecmp_eq_def)
  then obtain x xs where x: "token = x # xs" "to_lower x = CHR ''c''" by (cases token) auto
  have "to_lower CHR ''#'' = CHR ''#''" by code_simp
  then have "x \<noteq> CHR ''#''" using x(2) by auto
  then show ?thesis using c lower x(1) by (simp add: program_ids_def strcasecmp_eq_def)
qed

text \<open>Claim C20. A line that names a client after a server adds one client, and the client is started
  with the arguments of the line followed by the ID of that server and the duration of the experiment. This is so unless
  the line has an option \<^verbatim>\<open>-x\<close> of its own, as the example in the help text of the driver has: then the duration, cut
  to one character less than the argument of that option, replaces this argument, and the option that was appended
  keeps its place holder, the greatest \<^verbatim>\<open>unsigned long\<close>.\<close>

theorem client_command:
  assumes "NUL \<notin> set line" "first_token delimiter line = (a, token, rest)" "strcasecmp_eq token ''client''" "\<forall>n. mem_ok n"
    and "preceding_server prms = Some k" "prms_ftrace_start prms = None" "prms_ftrace_stop prms = None"
    and "\<forall>w\<in>set (words delimiter (tl rest)). \<not> option_word CHR ''v'' w"
  shows "\<exists>p. parse_config_file mem_ok fill line (prms, heads) = Some (0, prms, heads(Client_procs := heads Client_procs @ [p])) \<and>
    (\<forall>heads2. k < length (heads2 Server_procs) \<longrightarrow>
      (\<exists>p1. make_argv mem_ok heads2 p = Some (0, p1) \<and>
        (let user = words delimiter (tl rest); pid = show_int (proc_id (heads2 Server_procs ! k));
             dur = fmt_lu (prms_duration_ms prms) in
         ((\<forall>w\<in>set user. \<not> option_word CHR ''x'' w) \<longrightarrow>
           exec_argv p1 = Some (''./client'' # user @ [''-v'', take 9 pid, ''-x'', take 19 dur])) \<and>
         (\<forall>pre w post. user = pre @ ''-x'' # w # post \<longrightarrow> (\<forall>v\<in>set pre. \<not> option_word CHR ''x'' v) \<longrightarrow>
           exec_argv p1 = Some (''./client'' # pre @ ''-x'' # take (length w - 1) dur # post @
             [''-v'', take 9 pid, ''-x'', ulong_max])))))"
proof -
  let ?user = "words delimiter (tl rest)" let ?dur = "fmt_lu (prms_duration_ms prms)"
  let ?line = "args_text CLIENT ''client'' (tl rest) prms"
  define p where "p = proc_init\<lparr>proc_server_pid := Some k, proc_duration_ms := Some (prms_duration_ms prms),
    proc_args := Some (?line @ [NUL])\<rparr>"
  note c = client_is_second [OF assms(3)]
  have "NUL \<notin> set rest" using assms(1) first_token_split [OF assms(2)] by auto
  then have "NUL \<notin> set (tl rest)" by (cases rest) auto
  then have nul: "NUL \<notin> set ?line"
    by (auto simp: args_text_def placeholders_def Let_def simp del: placeholder_lengths(3,4), simp_all)
  have reg: "register_proc CLIENT proc_init prms heads = Some (Client_procs, prms, procs_add Client_procs
      (proc_init\<lparr>proc_server_pid := Some k, proc_duration_ms := Some (prms_duration_ms prms)\<rparr>) heads)"
    using assms(5-7) by (simp add: register_proc_def proc_init_def)
  have parse: "parse_config_file mem_ok fill line (prms, heads) =
      Some (0, prms, heads(Client_procs := heads Client_procs @ [p]))"
    using parse_config_line [OF assms(1,2) _ _ _ reg, of "''client''" mem_ok fill] c assms(4)
    by (simp add: update_last_def procs_add_def p_def)
  have "\<exists>p1. make_argv mem_ok heads2 p = Some (0, p1) \<and>
      ((\<forall>w\<in>set ?user. \<not> option_word CHR ''x'' w) \<longrightarrow>
        exec_argv p1 = Some (''./client'' # ?user @ [''-v'', take 9 (show_int (proc_id (heads2 Server_procs ! k))), ''-x'', take 19 ?dur])) \<and>
      (\<forall>pre w post. ?user = pre @ ''-x'' # w # post \<longrightarrow> (\<forall>v\<in>set pre. \<not> option_word CHR ''x'' v) \<longrightarrow>
        exec_argv p1 = Some (''./client'' # pre @ ''-x'' # take (length w - 1) ?dur # post @
          [''-v'', take 9 (show_int (proc_id (heads2 Server_procs ! k))), ''-x'', ulong_max]))"
    if k: "k < length (heads2 Server_procs)" for heads2
  proof -
    let ?pid = "show_int (proc_id (heads2 Server_procs ! k))"
    have "proc_args p = Some (?line @ NUL # [])" by (simp add: p_def)
    from make_argv_refines [OF this nul, of heads2 mem_ok] k assms(4) obtain p1 where
      p1: "make_argv mem_ok heads2 p = Some (0, p1)" "has_argv p1 (expected_words heads2 p (words delimiter ?line))"
      by (auto simp: p_def)
    have "forced CHR ''v'' ?pid (words delimiter ?line) = ''./client'' # ?user @ [''-v'', take 9 ?pid, ''-x'', ulong_max]"
      using forced_first [of "''./client'' # ?user" "CHR ''v''" "''-v''" ?pid int_max "[''-x'', ulong_max]"] assms(8)
      unfolding client_words [OF assms(5,6)] by (simp add: option_word_def del: placeholder_lengths(3,4))
    then have exec: "exec_argv p1 = Some (forced CHR ''x'' ?dur (''./client'' # ?user @ [''-v'', take 9 ?pid, ''-x'', ulong_max]))"
      using has_argv_exec [OF p1(2)] by (simp add: expected_words_def p_def proc_init_def Let_def del: placeholder_lengths(3,4))
    show ?thesis
    proof (intro exI [of _ p1] conjI p1(1) impI allI)
      assume "\<forall>w\<in>set ?user. \<not> option_word CHR ''x'' w"
      then show "exec_argv p1 = Some (''./client'' # ?user @ [''-v'', take 9 ?pid, ''-x'', take 19 ?dur])"
        using forced_first [of "''./client'' # ?user @ [''-v'', take 9 ?pid]" "CHR ''x''" "''-x''" ?dur ulong_max "[]"]
          number_no_option [of "CHR ''x''" 9] exec
        by (simp add: option_word_def isdigit_def del: placeholder_lengths(3,4))
    next
      fix pre w post
      assume u: "?user = pre @ ''-x'' # w # post" "\<forall>v\<in>set pre. \<not> option_word CHR ''x'' v"
      then show "exec_argv p1 = Some (''./client'' # pre @ ''-x'' # take (length w - 1) ?dur # post @
          [''-v'', take 9 ?pid, ''-x'', ulong_max])"
        using forced_first [of "''./client'' # pre" "CHR ''x''" "''-x''" ?dur w "post @ [''-v'', take 9 ?pid, ''-x'', ulong_max]"] exec
        by (simp add: option_word_def del: placeholder_lengths(3,4))
    qed
  qed
  then show ?thesis using parse by (intro exI [of _ p]) (simp only: Let_def simp_thms, blast)
qed

section \<open>The whole file\<close>

text \<open>
  What holds of the processes between two lines: their arguments are strings, none has been started, and every
  pointer to a process ID points to a server, for a server to one that precedes it.
\<close>

definition proc_ok :: "nat \<Rightarrow> proc \<Rightarrow> bool" where
  "proc_ok servers p \<longleftrightarrow> (\<exists>line u. proc_args p = Some (line @ NUL # u) \<and> NUL \<notin> set line) \<and> proc_argv p = None \<and> proc_id p = - 1 \<and>
     (\<forall>k. proc_server_pid p = Some k \<longrightarrow> k < servers)"

definition procs_ok :: "parse_config_file_prms \<Rightarrow> procs \<Rightarrow> bool" where
  "procs_ok prms heads \<longleftrightarrow> (\<forall>head. \<forall>p\<in>set (heads head). proc_ok (length (heads Server_procs)) p) \<and>
     (\<forall>head i k. i < length (heads head) \<longrightarrow> proc_subserver_pid (heads head ! i) = Some k \<longrightarrow> head = Server_procs \<and> k < i) \<and>
     (\<forall>head. \<forall>p\<in>set (heads head). proc_server_pid p \<noteq> None \<longrightarrow> head = Client_procs) \<and>
     preceding_server prms = (if heads Server_procs = [] then None else Some (length (heads Server_procs) - 1))"

lemma proc_ok_more: "proc_ok n p \<Longrightarrow> n \<le> m \<Longrightarrow> proc_ok m p"
  by (auto simp: proc_ok_def)

text \<open>Appending a process that is in order.\<close>

lemma procs_ok_append:
  assumes "procs_ok prms heads" "heads1 = heads(head := heads head @ [p])" "proc_ok (length (heads1 Server_procs)) p"
    "\<forall>k. proc_subserver_pid p = Some k \<longrightarrow> head = Server_procs \<and> k < length (heads Server_procs)"
    "proc_server_pid p \<noteq> None \<longrightarrow> head = Client_procs"
    "preceding_server prms1 = (if head = Server_procs then Some (length (heads Server_procs)) else preceding_server prms)"
  shows "procs_ok prms1 heads1"
proof -
  have more: "length (heads Server_procs) \<le> length (heads1 Server_procs)" using assms(2) by simp
  have "proc_ok (length (heads1 Server_procs)) q" if "q \<in> set (heads1 h)" for h q
  proof (cases "q \<in> set (heads h)")
    case True
    then show ?thesis using assms(1) proc_ok_more [OF _ more] by (auto simp: procs_ok_def)
  next
    case False
    then have "q = p" using that assms(2) by (auto split: if_splits)
    then show ?thesis using assms(3) by simp
  qed
  moreover have "h = Server_procs \<and> k < i" if "i < length (heads1 h)" "proc_subserver_pid (heads1 h ! i) = Some k" for h i k
  proof (cases "i < length (heads h)")
    case True
    then have "heads1 h ! i = heads h ! i" using assms(2) by (auto simp: nth_append)
    then show ?thesis using assms(1) that(2) True unfolding procs_ok_def by metis
  next
    case False
    then have "h = head" "i = length (heads head)" "heads1 h ! i = p"
      using that(1) assms(2) by (auto simp: less_Suc_eq split: if_splits)
    then show ?thesis using assms(4) that(2) by auto
  qed
  moreover have "\<forall>h. \<forall>q\<in>set (heads1 h). proc_server_pid q \<noteq> None \<longrightarrow> h = Client_procs"
    using assms(1,2,5) by (auto simp: procs_ok_def)
  moreover have "preceding_server prms1 = (if heads1 Server_procs = [] then None else Some (length (heads1 Server_procs) - 1))"
    using assms(1,2,6) by (auto simp: procs_ok_def)
  ultimately show ?thesis unfolding procs_ok_def by blast
qed

text \<open>The list a registered process is in, with the process last.\<close>

lemma register_proc_appends:
  assumes "register_proc i proc_init prms heads = Some (head, prms1, heads1)" "procs_ok prms heads"
  shows "\<exists>p. heads1 = heads(head := heads head @ [p]) \<and> proc_argv p = None \<and> proc_id p = - 1 \<and>
    (\<forall>k. proc_server_pid p = Some k \<longrightarrow> head = Client_procs \<and> k < length (heads Server_procs)) \<and>
    (\<forall>k. proc_subserver_pid p = Some k \<longrightarrow> head = Server_procs \<and> k < length (heads Server_procs)) \<and>
    preceding_server prms1 = (if head = Server_procs then Some (length (heads Server_procs)) else preceding_server prms)"
proof -
  have "k < length (heads Server_procs)" if "preceding_server prms = Some k" for k
    using assms(2) that by (auto simp: procs_ok_def split: if_splits)
  then show ?thesis using assms(1)
    by (cases i; cases "preceding_server prms") (auto simp: register_proc_def procs_add_def proc_init_def)
qed

text \<open>A line that the parser accepts keeps the processes in order; no line makes it read or write out of bounds.\<close>

lemma parse_config_file_ok:
  assumes "NUL \<notin> set line" "procs_ok prms heads"
  shows "\<exists>rc prms1 heads1. parse_config_file mem_ok fill line (prms, heads) = Some (rc, prms1, heads1) \<and>
    (rc = 0 \<longrightarrow> procs_ok prms1 heads1) \<and> (\<forall>head. \<forall>p\<in>set (heads1 head). proc_id p = - 1)"
proof -
  have ids: "\<forall>head. \<forall>p\<in>set (heads head). proc_id p = - 1" using assms(2) by (auto simp: procs_ok_def proc_ok_def)
  obtain a token rest where f: "first_token delimiter line = (a, token, rest)" by (metis surj_pair)
  consider i name head prms1 heads1 where "token \<noteq> []" "hd token \<noteq> CHR ''#''"
      "find (\<lambda>(i, name). strcasecmp_eq token name) program_ids = Some (i, name)"
      "register_proc i proc_init prms heads = Some (head, prms1, heads1)"
    | "token = [] \<or> hd token = CHR ''#'' \<or> find (\<lambda>(i, name). strcasecmp_eq token name) program_ids = None \<or>
      (\<exists>i name. find (\<lambda>(i, name). strcasecmp_eq token name) program_ids = Some (i, name) \<and>
         register_proc i proc_init prms heads = None)"
    by (metis not_Some_eq surj_pair)
  then show ?thesis
  proof cases
    case (1 i name head prms1 heads1)
    let ?out = "args_text i name (tl rest) prms1"
    from register_proc_appends [OF 1(4) assms(2)] obtain p where p: "heads1 = heads(head := heads head @ [p])"
      "proc_argv p = None" "proc_id p = - 1" "\<forall>k. proc_server_pid p = Some k \<longrightarrow> head = Client_procs \<and> k < length (heads Server_procs)"
      "\<forall>k. proc_subserver_pid p = Some k \<longrightarrow> head = Server_procs \<and> k < length (heads Server_procs)"
      "preceding_server prms1 = (if head = Server_procs then Some (length (heads Server_procs)) else preceding_server prms)"
      by blast
    let ?p = "p\<lparr>proc_args := Some (?out @ [NUL])\<rparr>"
    let ?heads = "heads(head := heads head @ [?p])"
    have last: "update_last head (\<lambda>p. p\<lparr>proc_args := Some (?out @ [NUL])\<rparr>) heads1 = ?heads"
      using p(1) by (simp add: update_last_def)
    have "NUL \<notin> set name" using 1(3) by (auto simp: find_Some_iff program_ids_def nth_Cons' split: if_splits)
    moreover have "NUL \<notin> set (tl rest)"
      using assms(1) first_token_split [OF f] by (cases rest) auto
    ultimately have nul: "NUL \<notin> set ?out"
      by (auto simp: args_text_def placeholders_def Let_def)
    have "proc_ok (length (?heads Server_procs)) ?p" using p(2-4) nul by (fastforce simp: proc_ok_def)
    then have "procs_ok prms1 ?heads"
      by (rule procs_ok_append [OF assms(2) refl]) (use p(4-6) in auto)
    moreover have "\<forall>head. \<forall>p\<in>set (heads1 head). proc_id p = - 1" "\<forall>head. \<forall>p\<in>set (?heads head). proc_id p = - 1"
      using ids p(1,3) by auto
    ultimately show ?thesis
      using parse_config_line [OF assms(1) f 1, of mem_ok fill] ids unfolding last by auto
  next
    case 2
    then show ?thesis using parse_other_line [OF assms(1) f 2, of mem_ok fill] assms(2) ids by auto
  qed
qed

text \<open>What a callback keeps line by line holds after the file, whatever the stream and the allocator do.\<close>

lemma c_string_no_nul: "NUL \<notin> set (c_string mem)"
  by (auto simp: c_string_def dest: set_takeWhileD)

lemma read_loop_invariant:
  "\<forall>line a. NUL \<notin> set line \<longrightarrow> I a \<longrightarrow> J (snd (f line a)) \<and> (fst (f line a) = 0 \<longrightarrow> I (snd (f line a))) \<Longrightarrow>
   \<forall>a. I a \<longrightarrow> J a \<Longrightarrow>
   utility_file_read_loop ok fill inc f buffer s a = Some (rc, s1, a1) \<Longrightarrow> I a \<Longrightarrow> J a1 \<and> (rc = 0 \<longrightarrow> I a1)"
proof (induction ok fill inc f buffer s a arbitrary: rc s1 a1 rule: utility_file_read_loop.induct)
  case (1 ok fill inc f buffer s a)
  note step = "1.prems"(1) and weak = "1.prems"(2) and run = "1.prems"(3) and inv = "1.prems"(4)
  obtain rc0 b s0 where r: "utility_file_readln ok fill s buffer inc = Some (rc0, b, s0)"
    using run by (subst (asm) utility_file_read_loop.simps) (auto split: option.splits)
  obtain q a0 where q: "f (c_string (the b)) a = (q, a0)" by fastforce
  have kept: "J a0" "q = 0 \<longrightarrow> I a0"
    using step [rule_format, OF c_string_no_nul [of "the b"] inv] q by simp_all
  show ?case
  proof (cases "rc0 = - 1 \<or> rc0 = - 2 \<or> q \<noteq> 0")
    case True
    then show ?thesis using run r q kept inv weak
      by (subst (asm) utility_file_read_loop.simps) (auto split: if_splits)
  next
    case False
    then have "utility_file_read_loop ok fill inc f b s0 a0 = Some (rc, s1, a1)"
      using run r q by (subst (asm) utility_file_read_loop.simps) simp
    then show ?thesis using "1.IH" [OF r refl refl] False q kept step weak by simp
  qed
qed

text \<open>The callback as \<^verbatim>\<open>utility_file_read\<close> calls it; \<open>None\<close> is the state after an access out of bounds.\<close>

definition config_callback :: "(nat \<Rightarrow> bool) \<Rightarrow> char \<Rightarrow> string \<Rightarrow> (parse_config_file_prms \<times> procs) option \<Rightarrow>
    int \<times> (parse_config_file_prms \<times> procs) option" where
  "config_callback mem_ok fill line st =
    (case st of None \<Rightarrow> (- 1, None)
     | Some s \<Rightarrow> (case parse_config_file mem_ok fill line s of None \<Rightarrow> (- 1, None) | Some (rc, s1) \<Rightarrow> (rc, Some s1)))"

lemma config_file_ok:
  assumes "utility_file_read mem_ok fill s 1024 (config_callback mem_ok fill) (Some (prms, \<lambda>_. [])) = Some (rc, s1, st)"
    and "preceding_server prms = None"
  shows "\<exists>prms1 heads. st = Some (prms1, heads) \<and> (\<forall>head. \<forall>p\<in>set (heads head). proc_id p = - 1) \<and>
    (rc = 0 \<longrightarrow> procs_ok prms1 heads)"
proof -
  let ?I = "\<lambda>st. \<exists>prms1 heads. st = Some (prms1, heads) \<and> procs_ok prms1 heads"
  let ?J = "\<lambda>st. \<exists>prms1 heads. st = Some (prms1, heads) \<and> (\<forall>head. \<forall>p\<in>set (heads head). proc_id p = - 1)"
  have step: "\<forall>line st. NUL \<notin> set line \<longrightarrow> ?I st \<longrightarrow> ?J (snd (config_callback mem_ok fill line st)) \<and>
      (fst (config_callback mem_ok fill line st) = 0 \<longrightarrow> ?I (snd (config_callback mem_ok fill line st)))"
  proof (intro allI impI)
    fix line st assume n: "NUL \<notin> set line" and "?I st"
    then obtain prms1 heads where st: "st = Some (prms1, heads)" "procs_ok prms1 heads" by blast
    from parse_config_file_ok [OF n st(2), of mem_ok fill] st(1)
    show "?J (snd (config_callback mem_ok fill line st)) \<and>
      (fst (config_callback mem_ok fill line st) = 0 \<longrightarrow> ?I (snd (config_callback mem_ok fill line st)))"
      by (auto simp: config_callback_def)
  qed
  have weak: "\<forall>st. ?I st \<longrightarrow> ?J st" by (fastforce simp: procs_ok_def proc_ok_def)
  have start: "?I (Some (prms, \<lambda>_. []))" using assms(2) by (simp add: procs_ok_def)
  from read_loop_invariant [OF step weak assms(1) [unfolded utility_file_read_def] start] show ?thesis by blast
qed

text \<open>Claim C29. Whatever is in the configuration file, and whatever its stream and the allocator do, the parser
  stays within its buffers, and when it accepts the file the processes are in order: all have their arguments, none is
  started yet, every client that follows a server refers to a server of the list, and every server that is a client
  itself refers to a server before it, so that the chains of servers are not cyclic and a server is always started
  after the one it calls.\<close>

theorem config_file_in_order:
  assumes "utility_file_read mem_ok fill s 1024 (config_callback mem_ok fill) (Some (prms, \<lambda>_. [])) = Some (rc, s1, st)"
    and "preceding_server prms = None"
  shows "\<exists>prms1 heads. st = Some (prms1, heads) \<and> (\<forall>head. \<forall>p\<in>set (heads head). proc_id p = - 1) \<and>
    (rc = 0 \<longrightarrow> procs_ok prms1 heads)"
  by (rule config_file_ok) (fact assms)+

text \<open>The example of the help text, in an experiment of a minute.\<close>

definition help_line :: string where
  "help_line = ''CLIENT -1 5 -2 9 -3 5 -q 20 -t 30 -p 7777 -s x.bin -x 60''"

definition minute_prms :: parse_config_file_prms where
  "minute_prms = \<lparr>preceding_server = Some 0, prms_duration_ms = 60000, prms_ftrace_start = None, prms_ftrace_stop = None\<rparr>"

definition one_server :: procs where
  "one_server head = (if head = Server_procs then [proc_init\<lparr>proc_id := 300\<rparr>] else [])"

theorem client_command_witness:
  "\<exists>p p1. parse_config_file (\<lambda>_. True) CHR ''?'' help_line (minute_prms, one_server) =
      Some (0, minute_prms, one_server(Client_procs := [p])) \<and> make_argv (\<lambda>_. True) one_server p = Some (0, p1) \<and>
    exec_argv p1 = Some [''./client'', ''-1'', ''5'', ''-2'', ''9'', ''-3'', ''5'', ''-q'', ''20'', ''-t'', ''30'', ''-p'', ''7777'',
      ''-s'', ''x.bin'', ''-x'', ''6'', ''-v'', ''300'', ''-x'', ''18446744073709551615'']"
proof -
  let ?pre = "[''-1'', ''5'', ''-2'', ''9'', ''-3'', ''5'', ''-q'', ''20'', ''-t'', ''30'', ''-p'', ''7777'', ''-s'', ''x.bin'']"
  let ?rest = "'' -1 5 -2 9 -3 5 -q 20 -t 30 -p 7777 -s x.bin -x 60''"
  have first: "first_token delimiter help_line = (0, ''CLIENT'', ?rest)" by code_simp
  have user: "words delimiter (tl ?rest) = ?pre @ ''-x'' # ''60'' # []" by code_simp
  have nul: "NUL \<notin> set help_line" by (simp add: help_line_def)
  have client: "strcasecmp_eq ''CLIENT'' ''client''" by code_simp
  have novx: "\<forall>w\<in>set (words delimiter (tl ?rest)). \<not> option_word CHR ''v'' w" "\<forall>w\<in>set ?pre. \<not> option_word CHR ''x'' w"
    unfolding user by (simp_all add: option_word_def)
  have prms: "preceding_server minute_prms = Some 0" "prms_ftrace_start minute_prms = None" "prms_ftrace_stop minute_prms = None"
    "prms_duration_ms minute_prms = 60000" by (simp_all add: minute_prms_def)
  have server: "0 < length (one_server Server_procs)" "proc_id (one_server Server_procs ! 0) = 300" "one_server Client_procs = []"
    by (simp_all add: one_server_def)
  have num: "show_int 300 = ''300''" "fmt_lu 60000 = ''60000''"
    by (simp_all add: show_int_def fmt_lu_def show_nat.simps dec_simps)
  from client_command [OF nul first client _ prms(1-3) novx(1), of "\<lambda>_. True" "CHR ''?''" one_server] obtain p where
    p: "parse_config_file (\<lambda>_. True) CHR ''?'' help_line (minute_prms, one_server) =
      Some (0, minute_prms, one_server(Client_procs := one_server Client_procs @ [p]))"
    "0 < length (one_server Server_procs) \<longrightarrow> (\<exists>p1. make_argv (\<lambda>_. True) one_server p = Some (0, p1) \<and>
       (\<forall>pre w post. words delimiter (tl ?rest) = pre @ ''-x'' # w # post \<longrightarrow> (\<forall>v\<in>set pre. \<not> option_word CHR ''x'' v) \<longrightarrow>
         exec_argv p1 = Some (''./client'' # pre @ ''-x'' # take (length w - 1) (fmt_lu (prms_duration_ms minute_prms)) # post @
           [''-v'', take 9 (show_int (proc_id (one_server Server_procs ! 0))), ''-x'', ulong_max])))"
    unfolding Let_def by blast
  from p(2) server(1) obtain p1 where p1: "make_argv (\<lambda>_. True) one_server p = Some (0, p1)"
    "exec_argv p1 = Some (''./client'' # ?pre @ ''-x'' # take (length ''60'' - 1) (fmt_lu (prms_duration_ms minute_prms)) # [] @
       [''-v'', take 9 (show_int (proc_id (one_server Server_procs ! 0))), ''-x'', ulong_max])"
    using user novx(2) by blast
  have "ulong_max = ''18446744073709551615''" by (simp add: show_nat.simps dec_simps)
  then show ?thesis using p(1) p1 unfolding prms server num by (intro exI [of _ p] exI [of _ p1]) simp
qed

theorem make_argv_words_witness:
  "\<exists>p1. make_argv (\<lambda>_. True) one_server (proc_init\<lparr>proc_args := Some (''./server -v'' @ [NUL]), proc_server_pid := Some 0\<rparr>) = Some (0, p1) \<and>
     exec_argv p1 = Some [''./server'', ''-v'']"
proof -
  let ?p = "proc_init\<lparr>proc_args := Some (''./server -v'' @ [NUL]), proc_server_pid := Some 0\<rparr>"
  have a: "proc_args ?p = Some (''./server -v'' @ NUL # [])" by simp
  have n: "NUL \<notin> set ''./server -v''" by simp
  have s: "\<forall>k. proc_server_pid ?p = Some k \<longrightarrow> k < length (one_server Server_procs)" by (simp add: one_server_def)
  from make_argv_words [where mem_ok = "\<lambda>_. True" and p = ?p and heads = one_server and line = "''./server -v''" and u = "[]", OF a n s] obtain p1 where
    p1: "make_argv (\<lambda>_. True) one_server ?p = Some (0, p1)" "has_argv p1 (expected_words one_server ?p (words delimiter ''./server -v''))"
    by (auto simp only: simp_thms if_True)
  have "words delimiter ''./server -v'' = [''./server'', ''-v'']" by code_simp
  then have "expected_words one_server ?p (words delimiter ''./server -v'') = [''./server'', ''-v'']"
    by (simp add: expected_words_def forced_def option_word_def proc_init_def)
  then have "exec_argv p1 = Some [''./server'', ''-v'']" using has_argv_exec [OF p1(2)] by simp
  then show ?thesis using p1(1) by blast
qed

theorem config_file_in_order_witness:
  "\<exists>s1 prms1 heads. utility_file_read (\<lambda>_. True) CHR ''?'' (text_stream ''SERVER -d 9 -p 7777'') 1024
      (config_callback (\<lambda>_. True) CHR ''?'') (Some (minute_prms\<lparr>preceding_server := None\<rparr>, \<lambda>_. [])) =
      Some (0, s1, Some (prms1, heads)) \<and> procs_ok prms1 heads \<and> length (heads Server_procs) = 1"
proof -
  let ?line = "''SERVER -d 9 -p 7777''" let ?f = "config_callback (\<lambda>_. True) CHR ''?''"
  let ?prms = "minute_prms\<lparr>preceding_server := None\<rparr>"
  have first: "first_token delimiter ?line = (0, ''SERVER'', '' -d 9 -p 7777'')" by code_simp
  have found: "find (\<lambda>(i, name). strcasecmp_eq ''SERVER'' name) program_ids = Some (SERVER, ''server'')" by code_simp
  have reg: "register_proc SERVER proc_init ?prms (\<lambda>_. []) =
      Some (Server_procs, ?prms\<lparr>preceding_server := Some 0\<rparr>, procs_add Server_procs proc_init (\<lambda>_. []))"
    by (simp add: register_proc_def)
  obtain prms1 heads where parse: "parse_config_file (\<lambda>_. True) CHR ''?'' ?line (?prms, \<lambda>_. []) = Some (0, prms1, heads)"
    "length (heads Server_procs) = 1"
    using parse_config_line [OF _ first _ _ found reg, of "\<lambda>_. True" "CHR ''?''"] by (simp add: update_last_def procs_add_def)
  have lines: "split_lines ?line = [?line]" "c_string ?line = ?line" by (simp, rule c_string_id, simp)
  have none: "preceding_server ?prms = None" by simp
  obtain s1 where read: "utility_file_read (\<lambda>_. True) CHR ''?'' (text_stream ?line) 1024 ?f (Some (?prms, \<lambda>_. [])) =
      Some (0, s1, Some (prms1, heads))"
    using read_loop_lines [of 1024 "\<lambda>_. True" "text_stream ?line" "CHR ''?''" ?f None "Some (?prms, \<lambda>_. [])"] parse(1)
    by (auto simp: utility_file_read_def text_stream_def lines config_callback_def Let_def split: prod.splits)
  from config_file_in_order [OF read none] read parse(2) show ?thesis by auto
qed

end
