(* ===== verification/Bwi_Launcher.thy ===== *)
theory Bwi_Launcher
  imports Bwi_Config Utility_Sched "HOL-Library.Multiset"
begin

text \<open>
  The driver of the experiments with bandwidth inheritance (\<^verbatim>\<open>bwi-client_server/main.c\<close>, with the functions on
  child processes of \<^verbatim>\<open>utility_subprocess.h\<close>): its command line, the creation of the processes of the
  configuration file, the experiment, and the end, in order or by an error.

  The system calls are operations of an environment on a world; forks, signals, waits and sleeps are recorded in a
  trace. The model follows one process through \<^verbatim>\<open>fork\<close>: the driver, or the child that \<^verbatim>\<open>fork\<close> returned 0 to.
\<close>

section \<open>Child processes\<close>

datatype wait_status = Exited int | Signaled int

datatype drv_event = Forked int "string list" | Killed int int | Waited int | Slept nat

record 'w drv_env =
  sys_fork :: "'w \<Rightarrow> int \<times> 'w"
  sys_execv :: "string list \<Rightarrow> 'w \<Rightarrow> bool \<times> 'w"
  sys_kill :: "int \<Rightarrow> int \<Rightarrow> 'w \<Rightarrow> bool \<times> 'w"
  sys_waitpid :: "int \<Rightarrow> 'w \<Rightarrow> (int \<times> wait_status) \<times> 'w"
  sys_sleep :: "nat \<Rightarrow> 'w \<Rightarrow> 'w"
  drv_sched :: sched_env
  drv_mem :: "nat \<Rightarrow> bool"
  drv_fill :: char

record 'w drv =
  drv_procs :: procs
  drv_class :: sched_class
  drv_times :: time_store
  drv_world :: 'w
  drv_trace :: "drv_event list"

definition note_drv :: "drv_event \<Rightarrow> 'w \<Rightarrow> 'w drv \<Rightarrow> 'w drv" where
  "note_drv e w s = s\<lparr>drv_world := w, drv_trace := drv_trace s @ [e]\<rparr>"

definition SIGKILL :: int where "SIGKILL = 9"
definition SIGUSR1 :: int where "SIGUSR1 = 10"
definition SIGTERM :: int where "SIGTERM = 15"

definition wait_proc_fn :: "'w drv_env \<Rightarrow> int \<Rightarrow> 'w drv \<Rightarrow> int \<times> 'w drv" where
  "wait_proc_fn env pid1 s =
    (case sys_waitpid env pid1 (drv_world s) of
       ((id1, status), w) \<Rightarrow>
         (if id1 \<noteq> pid1 then - 1
          else (case status of Signaled _ \<Rightarrow> - 1 | Exited code \<Rightarrow> if code \<noteq> 0 then - 1 else 0),
          note_drv (Waited pid1) w s))"

definition kill_proc_fn :: "'w drv_env \<Rightarrow> int \<Rightarrow> int \<Rightarrow> 'w drv \<Rightarrow> int \<times> 'w drv" where
  "kill_proc_fn env sgnl pid1 s =
    (case sys_kill env pid1 sgnl (drv_world s) of (sent, w) \<Rightarrow> (if \<not> sent then - 1 else 0, note_drv (Killed pid1 sgnl) w s))"

definition kill_and_wait_proc_fn :: "'w drv_env \<Rightarrow> int \<Rightarrow> int \<Rightarrow> 'w drv \<Rightarrow> int \<times> 'w drv" where
  "kill_and_wait_proc_fn env sgnl pid1 s =
    (case kill_proc_fn env sgnl pid1 s of (rc, s1) \<Rightarrow>
       if rc \<noteq> 0 then (- 1, s1)
       else (case wait_proc_fn env pid1 s1 of (rc, s2) \<Rightarrow> if rc \<noteq> 0 then (- 2, s2) else (0, s2)))"

section \<open>Lists of processes\<close>

text \<open>The loops over a list: the processes that were not started are passed over, the return codes are added.\<close>

fun each_proc :: "(int \<Rightarrow> 'w drv \<Rightarrow> int \<times> 'w drv) \<Rightarrow> proc list \<Rightarrow> int \<Rightarrow> 'w drv \<Rightarrow> int \<times> 'w drv" where
  "each_proc f [] rc s = (if rc \<noteq> 0 then - 1 else 0, s)"
| "each_proc f (itr # rest) rc s =
    (if proc_id itr = - 1 then each_proc f rest rc s
     else case f (proc_id itr) s of (r, s1) \<Rightarrow> each_proc f rest (rc + r) s1)"

definition procs_kill_and_wait :: "'w drv_env \<Rightarrow> proc_head \<Rightarrow> int \<Rightarrow> 'w drv \<Rightarrow> int \<times> 'w drv" where
  "procs_kill_and_wait env head sgnl s = each_proc (kill_and_wait_proc_fn env sgnl) (drv_procs s head) 0 s"

definition procs_kill :: "'w drv_env \<Rightarrow> proc_head \<Rightarrow> int \<Rightarrow> 'w drv \<Rightarrow> int \<times> 'w drv" where
  "procs_kill env head sgnl s = each_proc (kill_proc_fn env sgnl) (drv_procs s head) 0 s"

definition procs_wait :: "'w drv_env \<Rightarrow> proc_head \<Rightarrow> 'w drv \<Rightarrow> int \<times> 'w drv" where
  "procs_wait env head s = each_proc (wait_proc_fn env) (drv_procs s head) 0 s"

text \<open>
  The body of the loop of \<^verbatim>\<open>procs_create\<close>. The event of a fork shows the arguments the child, a copy, is
  started with. \<open>Replaced\<close> is the end of the model: the child has become another program.
\<close>

datatype created = Created | Create_failed | Replaced "string list"

definition create_proc :: "'w drv_env \<Rightarrow> proc_head \<Rightarrow> nat \<Rightarrow> 'w drv \<Rightarrow> (created \<times> 'w drv) option" where
  "create_proc env head i s = do {
     let heads = drv_procs s; itr = heads head ! i in do {
     p \<leftarrow> (case proc_subserver_pid itr of None \<Rightarrow> Some itr
           | Some k \<Rightarrow> do { pid \<leftarrow> pid_at heads k; adjust_argv CHR ''v'' (show_int pid) itr });
     argv \<leftarrow> exec_argv p;
     let (pid1, w) = sys_fork env (drv_world s);
         s1 = s\<lparr>drv_procs := heads(head := (heads head)[i := p\<lparr>proc_id := pid1\<rparr>]), drv_world := w\<rparr>
     in if pid1 = - 1 then Some (Create_failed, s1)
        else if pid1 = 0 then
          (case sys_execv env argv w of
             (True, w1) \<Rightarrow> Some (Replaced argv, s1\<lparr>drv_world := w1\<rparr>)
           | (False, w1) \<Rightarrow> Some (Create_failed, s1\<lparr>drv_world := w1\<rparr>))
        else let s2 = note_drv (Forked pid1 argv) w s1
          in Some (Created, note_drv (Slept 1000000) (sys_sleep env 1000000 (drv_world s2)) s2) } }"

text \<open>A sequence of steps, each of which may end the sequence.\<close>

fun in_turn :: "('w drv \<Rightarrow> (created \<times> 'w drv) option) list \<Rightarrow> 'w drv \<Rightarrow> (created \<times> 'w drv) option" where
  "in_turn [] s = Some (Created, s)"
| "in_turn (f # fs) s = do { (c, s1) \<leftarrow> f s; if c \<noteq> Created then Some (c, s1) else in_turn fs s1 }"

definition procs_create :: "'w drv_env \<Rightarrow> proc_head \<Rightarrow> 'w drv \<Rightarrow> (created \<times> 'w drv) option" where
  "procs_create env head s = in_turn (map (create_proc env head) [0..<length (drv_procs s head)]) s"

definition make_step :: "'w drv_env \<Rightarrow> proc_head \<Rightarrow> 'w drv \<Rightarrow> (created \<times> 'w drv) option" where
  "make_step env head s = do {
     (rc, heads) \<leftarrow> procs_make_argv (drv_mem env) head (drv_procs s);
     Some (if rc \<noteq> 0 then Create_failed else Created, s\<lparr>drv_procs := heads\<rparr>) }"

definition kill_and_free :: "'w drv_env \<Rightarrow> proc_head \<Rightarrow> 'w drv \<Rightarrow> 'w drv" where
  "kill_and_free env head s =
    (let s1 = snd (procs_kill_and_wait env head SIGKILL s) in s1\<lparr>drv_procs := procs_free head (drv_procs s1)\<rparr>)"

definition terminate_driver :: "'w drv_env \<Rightarrow> 'w drv \<Rightarrow> 'w drv" where
  "terminate_driver env s = fold (kill_and_free env)
     [Server_procs, Client_procs, Cpu_hog_procs, Cpu_hog_cbs_procs, Hrt_cbs_procs, Server_hog_procs] s"

section \<open>The command line\<close>

record cmd_args =
  config_path :: "string option"
  experiment_duration_ms :: u64
  cbs_budget_period_ms :: int
  ftrace_start :: int
  ftrace_stop :: int

definition cmd_defaults :: cmd_args where
  "cmd_defaults = \<lparr>config_path = None, experiment_duration_ms = - 1, cbs_budget_period_ms = - 1, ftrace_start = - 1, ftrace_stop = - 1\<rparr>"

text \<open>The body of the loop: the return code when it returns, or the new values.\<close>

definition cmd_option :: "char \<Rightarrow> string \<Rightarrow> cmd_args \<Rightarrow> int option \<times> cmd_args" where
  "cmd_option optchar optarg a =
    (if optchar = CHR ''r'' then
       let v = atoi optarg in (if v \<le> 0 then Some (- 1) else None, a\<lparr>ftrace_start := v\<rparr>)
     else if optchar = CHR ''l'' then
       let v = atoi optarg in (if v \<le> 0 then Some (- 1) else None, a\<lparr>ftrace_stop := v\<rparr>)
     else if optchar = CHR ''p'' then
       let v = atoi optarg in (if v \<le> 0 then Some (- 1) else None, a\<lparr>cbs_budget_period_ms := v\<rparr>)
     else if optchar = CHR ''f'' then (None, a\<lparr>config_path := Some optarg\<rparr>)
     else if optchar = CHR ''t'' then
       let (v, duration_unit) = strtoul10 optarg in
       if v = 0 then (Some (- 1), a\<lparr>experiment_duration_ms := v\<rparr>)
       else if strcasecmp_eq duration_unit ''s'' then (None, a\<lparr>experiment_duration_ms := v * 1000\<rparr>)
       else if \<not> strcasecmp_eq duration_unit ''ms'' then (Some (- 1), a\<lparr>experiment_duration_ms := v\<rparr>)
       else (None, a\<lparr>experiment_duration_ms := v\<rparr>)
     else if optchar = CHR ''h'' then (Some 0, a)
     else (Some (- 1), a))"

fun cmd_options :: "(char \<times> string) list \<Rightarrow> cmd_args \<Rightarrow> int option \<times> cmd_args" where
  "cmd_options [] a = (None, a)"
| "cmd_options ((optchar, optarg) # rest) a =
    (case cmd_option optchar optarg a of (Some rc, a1) \<Rightarrow> (Some rc, a1) | (None, a1) \<Rightarrow> cmd_options rest a1)"

definition parse_cmd_line_args :: "int \<Rightarrow> (char \<times> string) list \<Rightarrow> int \<times> cmd_args" where
  "parse_cmd_line_args optind opts =
    (case cmd_options opts cmd_defaults of
       (Some rc, a) \<Rightarrow> (rc, a)
     | (None, a) \<Rightarrow>
        (if experiment_duration_ms a = - 1 \<or> cbs_budget_period_ms a = - 1 \<or> config_path a = None \<or>
            ftrace_start a \<noteq> - 1 \<and> ftrace_stop a = - 1 \<or> ftrace_start a = - 1 \<and> ftrace_stop a \<noteq> - 1
         then - 1 else optind, a))"

section \<open>The driver\<close>

text \<open>Reading the configuration file: whether it succeeds; a NULL path is undefined.\<close>

definition read_config :: "'w drv_env \<Rightarrow> fsys \<Rightarrow> cmd_args \<Rightarrow> 'w drv \<Rightarrow> (created \<times> 'w drv) option" where
  "read_config env fs a s = do {
     path \<leftarrow> config_path a;
     case utility_file_open_for_reading fs path of
       None \<Rightarrow> Some (Create_failed, s)
     | Some config_file \<Rightarrow> do {
         (rc, _, st) \<leftarrow> utility_file_read (drv_mem env) (drv_fill env) config_file 1024
           (config_callback (drv_mem env) (drv_fill env))
           (Some (\<lparr>preceding_server = None, prms_duration_ms = experiment_duration_ms a,
              prms_ftrace_start = (if ftrace_start a = - 1 then None else Some (ftrace_start a)),
              prms_ftrace_stop = (if ftrace_stop a = - 1 then None else Some (ftrace_stop a))\<rparr>, drv_procs s));
         (_, heads) \<leftarrow> st;
         Some (if rc \<noteq> 0 then Create_failed else Created, s\<lparr>drv_procs := heads\<rparr>) } }"

definition enter_deadline :: "'w drv_env \<Rightarrow> cmd_args \<Rightarrow> 'w drv \<Rightarrow> (created \<times> 'w drv) option" where
  "enter_deadline env a s = do {
     (budget, h) \<leftarrow> to_utility_time_dyn (word_of_int (cbs_budget_period_ms a)) Unit_ms (drv_times s);
     (period, h) \<leftarrow> to_utility_time_dyn (word_of_int (cbs_budget_period_ms a)) Unit_ms h;
     ((rc, _, k), h) \<leftarrow> sched_deadline_enter (drv_sched env) 0 (drv_class s) budget period None h;
     Some (if rc \<noteq> 0 then Create_failed else Created, s\<lparr>drv_class := k, drv_times := h\<rparr>) }"

definition start_procs :: "'w drv_env \<Rightarrow> fsys \<Rightarrow> cmd_args \<Rightarrow> 'w drv \<Rightarrow> (created \<times> 'w drv) option" where
  "start_procs env fs a = in_turn
     [read_config env fs a,
      make_step env Hrt_cbs_procs, make_step env Cpu_hog_cbs_procs, make_step env Cpu_hog_procs,
      make_step env Server_hog_procs, make_step env Server_procs, procs_create env Server_procs,
      make_step env Client_procs, procs_create env Client_procs, procs_create env Hrt_cbs_procs,
      procs_create env Cpu_hog_cbs_procs, procs_create env Cpu_hog_procs, procs_create env Server_hog_procs,
      enter_deadline env a]"

text \<open>Signals to several lists; the exit status is a failure when one of them fails.\<close>

fun kill_lists :: "'w drv_env \<Rightarrow> int \<Rightarrow> proc_head list \<Rightarrow> int \<times> 'w drv \<Rightarrow> int \<times> 'w drv" where
  "kill_lists env sgnl [] (rc, s) = (rc, s)"
| "kill_lists env sgnl (head # rest) (rc, s) =
    (case procs_kill env head sgnl s of (r, s1) \<Rightarrow> kill_lists env sgnl rest (if r \<noteq> 0 then 1 else rc, s1))"

definition drv_sleep :: "'w drv_env \<Rightarrow> nat \<Rightarrow> 'w drv \<Rightarrow> 'w drv" where
  "drv_sleep env us s = note_drv (Slept us) (sys_sleep env us (drv_world s)) s"

text \<open>The argument of \<^verbatim>\<open>usleep\<close> has 32 bits.\<close>

definition run_experiment :: "'w drv_env \<Rightarrow> u64 \<Rightarrow> 'w drv \<Rightarrow> int \<times> 'w drv" where
  "run_experiment env duration s =
    (let (rc, s) = kill_lists env SIGUSR1 [Hrt_cbs_procs, Cpu_hog_cbs_procs, Client_procs] (0, s);
         s = drv_sleep env (unat (ucast (duration * 1000) :: u32)) s;
         (rc, s) = kill_lists env SIGTERM
           [Client_procs, Cpu_hog_cbs_procs, Hrt_cbs_procs, Cpu_hog_procs, Server_hog_procs] (rc, s);
         s = drv_sleep env 1000000 s;
         (rc, s) = kill_lists env SIGTERM [Server_procs] (rc, s);
         s = fold (\<lambda>head s. snd (procs_wait env head s))
           [Client_procs, Cpu_hog_cbs_procs, Hrt_cbs_procs, Cpu_hog_procs, Server_hog_procs, Server_procs] s
     in (rc, s\<lparr>drv_procs := fold procs_free [Server_procs, Client_procs, Cpu_hog_procs, Server_hog_procs,
           Cpu_hog_cbs_procs, Hrt_cbs_procs] (drv_procs s)\<rparr>))"

datatype driver_end = Exit int | Became "string list"

definition driver_main :: "'w drv_env \<Rightarrow> fsys \<Rightarrow> int \<Rightarrow> (char \<times> string) list \<Rightarrow> 'w drv \<Rightarrow> (driver_end \<times> 'w drv) option" where
  "driver_main env fs optind opts s =
    (let (rc, a) = parse_cmd_line_args optind opts in
     if rc = - 1 then Some (Exit 1, terminate_driver env s)
     else do {
       (c, s) \<leftarrow> start_procs env fs a s;
       case c of
         Created \<Rightarrow> (case run_experiment env (experiment_duration_ms a) s of (rc, s) \<Rightarrow> Some (Exit rc, s))
       | Create_failed \<Rightarrow> Some (Exit 1, terminate_driver env s)
       | Replaced argv \<Rightarrow> Some (Became argv, s) })"

section \<open>What the trace says\<close>

text \<open>The processes that were forked, the processes that were told to end, and the processes of a list that were started.\<close>

fun forked :: "drv_event list \<Rightarrow> int list" where
  "forked [] = []"
| "forked (Forked pid argv # es) = pid # forked es"
| "forked (_ # es) = forked es"

fun ended :: "drv_event list \<Rightarrow> int list" where
  "ended [] = []"
| "ended (Killed pid sgnl # es) = (if sgnl = SIGKILL \<or> sgnl = SIGTERM then pid # ended es else ended es)"
| "ended (_ # es) = ended es"

definition started :: "proc list \<Rightarrow> int list" where
  "started ps = filter (\<lambda>pid. pid \<noteq> - 1) (map proc_id ps)"

named_theorems drv_simps \<open>traces and lists of processes\<close>

lemma forked_append [drv_simps]: "forked (xs @ ys) = forked xs @ forked ys"
  by (induction xs rule: forked.induct) auto

lemma ended_append [drv_simps]: "ended (xs @ ys) = ended xs @ ended ys"
  by (induction xs rule: ended.induct) auto

lemma started_simps [drv_simps]: "started [] = []"
  "started (p # ps) = (if proc_id p = - 1 then started ps else proc_id p # started ps)"
  "started (ps @ qs) = started ps @ started qs"
  by (simp_all add: started_def)

lemma note_drv_simps [simp]: "drv_procs (note_drv e w s) = drv_procs s" "drv_trace (note_drv e w s) = drv_trace s @ [e]"
  "drv_world (note_drv e w s) = w"
  by (simp_all add: note_drv_def)

text \<open>A part of the program that only adds events, given by the processes it tells to end.\<close>

definition tells :: "int list \<Rightarrow> 'w drv \<Rightarrow> 'w drv \<Rightarrow> bool" where
  "tells pids s s1 \<longleftrightarrow> drv_procs s1 = drv_procs s \<and> forked (drv_trace s1) = forked (drv_trace s) \<and>
     ended (drv_trace s1) = ended (drv_trace s) @ pids"

lemma tells_refl [intro]: "tells [] s s"
  by (simp add: tells_def)

lemma tells_trans: "tells xs s s1 \<Longrightarrow> tells ys s1 s2 \<Longrightarrow> tells (xs @ ys) s s2"
  by (simp add: tells_def)

lemma kill_proc_tells: "tells (if sgnl = SIGKILL \<or> sgnl = SIGTERM then [pid] else []) s (snd (kill_proc_fn env sgnl pid s))"
  by (simp add: kill_proc_fn_def tells_def forked_append ended_append split: prod.splits)

lemma wait_proc_tells: "tells [] s (snd (wait_proc_fn env pid s))"
  by (simp add: wait_proc_fn_def tells_def forked_append ended_append split: prod.splits)

lemma kill_and_wait_tells: "tells [pid] s (snd (kill_and_wait_proc_fn env SIGKILL pid s))"
proof -
  obtain rc s1 where k: "kill_proc_fn env SIGKILL pid s = (rc, s1)" by fastforce
  then have "tells [pid] s s1" using kill_proc_tells [of SIGKILL pid s env] by simp
  then show ?thesis using k tells_trans [OF _ wait_proc_tells [of s1 env pid], of "[pid]" s]
    by (auto simp: kill_and_wait_proc_fn_def split: prod.splits)
qed

text \<open>The loops over a list do what their body does, for each process that was started.\<close>

locale per_process =
  fixes f :: "int \<Rightarrow> 'w drv \<Rightarrow> int \<times> 'w drv" and told :: "int \<Rightarrow> int list"
  assumes body: "tells (told pid) s (snd (f pid s))"
begin

lemma each_tells: "tells (concat (map told (started ps))) s (snd (each_proc f ps rc s))"
proof (induction ps arbitrary: rc s)
  case (Cons p ps)
  obtain r s1 where f: "f (proc_id p) s = (r, s1)" by fastforce
  then have "tells (told (proc_id p)) s s1" using body [of "proc_id p" s] by simp
  from tells_trans [OF this Cons.IH [of s1 "rc + r"]] show ?case using Cons.IH [of s rc] f by (simp add: started_simps)
qed (simp add: started_simps tells_refl)

end

interpretation term_each: per_process "kill_proc_fn env SIGTERM" "\<lambda>pid. [pid]" for env
  by unfold_locales (use kill_proc_tells [where sgnl = SIGTERM] in simp)

interpretation usr1_each: per_process "kill_proc_fn env SIGUSR1" "\<lambda>_. []" for env
  by unfold_locales (use kill_proc_tells [where sgnl = SIGUSR1] in \<open>simp add: SIGUSR1_def SIGKILL_def SIGTERM_def\<close>)

interpretation kill_each: per_process "kill_and_wait_proc_fn env SIGKILL" "\<lambda>pid. [pid]" for env
  by unfold_locales (rule kill_and_wait_tells)

interpretation wait_each: per_process "wait_proc_fn env" "\<lambda>_. []" for env
  by unfold_locales (rule wait_proc_tells)

lemma concat_told [simp]: "concat (map (\<lambda>pid. [pid]) xs) = xs" "concat (map (\<lambda>_. []) xs) = []"
  by (induction xs) auto

text \<open>The process IDs of several lists.\<close>

definition started_in :: "proc_head list \<Rightarrow> procs \<Rightarrow> int list" where
  "started_in hs heads = concat (map (\<lambda>h. started (heads h)) hs)"

lemma started_in_simps [simp]: "started_in [] heads = []" "started_in (h # hs) heads = started (heads h) @ started_in hs heads"
  by (simp_all add: started_in_def)

lemma kill_lists_term:
  "kill_lists env SIGTERM hs (rc, s) = (rc1, s1) \<Longrightarrow> tells (started_in hs (drv_procs s)) s s1"
proof (induction hs arbitrary: rc s)
  case (Cons h hs)
  obtain r s2 where k: "procs_kill env h SIGTERM s = (r, s2)" by fastforce
  then have "tells (started (drv_procs s h)) s s2"
    using term_each.each_tells [of "drv_procs s h" s env 0] by (simp add: procs_kill_def)
  moreover from this have "tells (started_in hs (drv_procs s)) s2 s1" using Cons k by (auto simp: tells_def)
  ultimately show ?case using tells_trans by fastforce
qed (simp add: tells_refl)

lemma kill_lists_usr1: "kill_lists env SIGUSR1 hs (rc, s) = (rc1, s1) \<Longrightarrow> tells [] s s1"
proof (induction hs arbitrary: rc s)
  case (Cons h hs)
  obtain r s2 where k: "procs_kill env h SIGUSR1 s = (r, s2)" by fastforce
  then have "tells [] s s2" using usr1_each.each_tells [of "drv_procs s h" s env 0] by (simp add: procs_kill_def)
  then show ?case using Cons k tells_trans [of "[]" s s2 "[]" s1] by simp
qed (simp add: tells_refl)

lemma sleep_tells: "tells [] s (drv_sleep env us s)"
  by (simp add: drv_sleep_def tells_def forked_append ended_append)

lemma waits_tell: "tells [] s (fold (\<lambda>head s. snd (procs_wait env head s)) hs s)"
proof (induction hs arbitrary: s)
  case (Cons h hs)
  have "tells [] s (snd (procs_wait env h s))"
    using wait_each.each_tells [of "drv_procs s h" s env 0] by (simp add: procs_wait_def)
  from tells_trans [OF this Cons] show ?case by simp
qed auto

text \<open>The experiment tells every process to end, and the termination of the driver too.\<close>

definition all_heads :: "proc_head list" where
  "all_heads = [Server_procs, Client_procs, Cpu_hog_procs, Cpu_hog_cbs_procs, Hrt_cbs_procs, Server_hog_procs]"

lemma all_heads_all: "h \<in> set all_heads"
  by (cases h) (simp_all add: all_heads_def)

lemma run_experiment_ends:
  assumes "run_experiment env d s = (rc, s1)"
  shows "forked (drv_trace s1) = forked (drv_trace s)"
    "mset (ended (drv_trace s1)) = mset (ended (drv_trace s)) + mset (started_in all_heads (drv_procs s))"
proof -
  let ?first = "[Client_procs, Cpu_hog_cbs_procs, Hrt_cbs_procs, Cpu_hog_procs, Server_hog_procs]"
  obtain r1 t1 where 1: "kill_lists env SIGUSR1 [Hrt_cbs_procs, Cpu_hog_cbs_procs, Client_procs] (0, s) = (r1, t1)" by fastforce
  define t2 where "t2 = drv_sleep env (unat (ucast (d * 1000) :: u32)) t1"
  obtain r3 t3 where 3: "kill_lists env SIGTERM ?first (r1, t2) = (r3, t3)" by fastforce
  define t4 where "t4 = drv_sleep env 1000000 t3"
  obtain r5 t5 where 5: "kill_lists env SIGTERM [Server_procs] (r3, t4) = (r5, t5)" by fastforce
  define t6 where "t6 = fold (\<lambda>head s. snd (procs_wait env head s)) (?first @ [Server_procs]) t5"
  have "drv_trace s1 = drv_trace t6"
    using assms 1 3 5 by (auto simp: run_experiment_def Let_def t2_def t4_def t6_def)
  moreover have "tells [] s t1" "tells [] t1 t2" "tells (started_in ?first (drv_procs t2)) t2 t3" "tells [] t3 t4"
    "tells (started_in [Server_procs] (drv_procs t4)) t4 t5" "tells [] t5 t6"
    using kill_lists_usr1 [OF 1] kill_lists_term [OF 3] kill_lists_term [OF 5] sleep_tells waits_tell
    unfolding t2_def t4_def t6_def by blast+
  ultimately show "forked (drv_trace s1) = forked (drv_trace s)"
    "mset (ended (drv_trace s1)) = mset (ended (drv_trace s)) + mset (started_in all_heads (drv_procs s))"
    by (auto simp: tells_def all_heads_def)
qed

lemma kill_and_free_ends:
  "drv_procs (kill_and_free env h s) = (drv_procs s)(h := []) \<and> forked (drv_trace (kill_and_free env h s)) = forked (drv_trace s) \<and>
   ended (drv_trace (kill_and_free env h s)) = ended (drv_trace s) @ started (drv_procs s h)"
  using kill_each.each_tells [of "drv_procs s h" s env 0]
  by (simp add: kill_and_free_def procs_kill_and_wait_def tells_def Let_def procs_free_def)

lemma terminate_lists_ends:
  "distinct hs \<Longrightarrow> forked (drv_trace (fold (kill_and_free env) hs s)) = forked (drv_trace s) \<and>
   ended (drv_trace (fold (kill_and_free env) hs s)) = ended (drv_trace s) @ started_in hs (drv_procs s)"
proof (induction hs arbitrary: s)
  case (Cons h hs)
  have "started_in hs ((drv_procs s)(h := [])) = started_in hs (drv_procs s)"
    using Cons.prems unfolding started_in_def by (intro arg_cong [where f = concat] map_cong) auto
  then show ?case using Cons kill_and_free_ends [of env h s] by simp
qed simp

lemma terminate_driver_ends:
  "forked (drv_trace (terminate_driver env s)) = forked (drv_trace s) \<and>
   ended (drv_trace (terminate_driver env s)) = ended (drv_trace s) @ started_in all_heads (drv_procs s)"
  unfolding terminate_driver_def all_heads_def by (rule terminate_lists_ends) simp

section \<open>Every process is accounted for\<close>

text \<open>
  Until the experiment: the forked processes are the ones in the lists, none was told to end, and the lists
  that were not started hold no process IDs.
\<close>

definition accounted :: "proc_head set \<Rightarrow> 'w drv \<Rightarrow> bool" where
  "accounted created s \<longleftrightarrow> ended (drv_trace s) = [] \<and>
     mset (forked (drv_trace s)) = mset (started_in all_heads (drv_procs s)) \<and>
     (\<forall>h. h \<notin> created \<longrightarrow> started (drv_procs s h) = [])"

lemma mset_started_in:
  "distinct hs \<Longrightarrow> mset (started_in hs heads) = (\<Sum>h\<in>set hs. mset (started (heads h)))"
  by (induction hs) auto

lemma mset_all: "mset (started_in all_heads heads) = (\<Sum>h\<in>UNIV. mset (started (heads h)))"
proof -
  have "set all_heads = UNIV" using all_heads_all by auto
  moreover have "distinct all_heads" by (simp add: all_heads_def)
  ultimately show ?thesis using mset_started_in by metis
qed

lemma accounted_sum:
  "accounted created s \<longleftrightarrow> ended (drv_trace s) = [] \<and>
     mset (forked (drv_trace s)) = (\<Sum>h\<in>UNIV. mset (started (drv_procs s h))) \<and>
     (\<forall>h. h \<notin> created \<longrightarrow> started (drv_procs s h) = [])"
  by (simp add: accounted_def mset_all)

lemma started_update:
  assumes "i < length ps" "proc_id (ps ! i) = - 1"
  shows "mset (started (ps[i := p])) = mset (started ps) + mset (started [p])"
proof -
  have "ps = take i ps @ ps ! i # drop (Suc i) ps" using assms(1) by (simp add: id_take_nth_drop)
  then have "started ps = started (take i ps) @ started (drop (Suc i) ps)"
    using assms(2) by (metis (no_types, lifting) started_simps(2,3))
  moreover have "started (ps[i := p]) = started (take i ps) @ started [p] @ started (drop (Suc i) ps)"
    using assms(1) by (simp add: upd_conv_take_nth_drop started_simps)
  ultimately show ?thesis by simp
qed

lemma adjust_argv_id: "adjust_argv c v p = Some p1 \<Longrightarrow> proc_id p1 = proc_id p"
  by (auto simp: adjust_argv_def split: bind_splits option.splits)

text \<open>One fork, by the parent.\<close>

lemma create_proc_effect:
  assumes "create_proc env head i s = Some (c, s1)" "\<forall>w. fst (sys_fork env w) \<noteq> 0"
  shows "\<exists>p. drv_procs s1 = (drv_procs s)(head := (drv_procs s head)[i := p]) \<and>
    ended (drv_trace s1) = ended (drv_trace s) \<and> forked (drv_trace s1) = forked (drv_trace s) @ started [p] \<and>
    (\<forall>argv. c \<noteq> Replaced argv)"
proof -
  obtain p argv where p: "exec_argv p = Some argv"
    "create_proc env head i s = (let (pid1, w) = sys_fork env (drv_world s);
         s1 = s\<lparr>drv_procs := (drv_procs s)(head := (drv_procs s head)[i := p\<lparr>proc_id := pid1\<rparr>]), drv_world := w\<rparr>
     in if pid1 = - 1 then Some (Create_failed, s1)
        else if pid1 = 0 then
          (case sys_execv env argv w of
             (True, w1) \<Rightarrow> Some (Replaced argv, s1\<lparr>drv_world := w1\<rparr>)
           | (False, w1) \<Rightarrow> Some (Create_failed, s1\<lparr>drv_world := w1\<rparr>))
        else let s2 = note_drv (Forked pid1 argv) w s1
          in Some (Created, note_drv (Slept 1000000) (sys_sleep env 1000000 (drv_world s2)) s2))"
    using assms(1) by (auto simp: create_proc_def Let_def split: bind_splits)
  obtain pid1 w where f: "sys_fork env (drv_world s) = (pid1, w)" by fastforce
  then have "pid1 \<noteq> 0" using assms(2) by (metis fst_conv)
  then show ?thesis using assms(1) p(2) f
    by (intro exI [of _ "p\<lparr>proc_id := pid1\<rparr>"]) (auto simp: Let_def drv_simps split: if_splits)
qed

text \<open>
  A step of the start: it keeps the processes accounted for, and when it succeeds at most one more list is started.
\<close>

definition keeps :: "proc_head set \<Rightarrow> proc_head set \<Rightarrow> ('w drv \<Rightarrow> (created \<times> 'w drv) option) \<Rightarrow> bool" where
  "keeps cs cs1 f \<longleftrightarrow> (\<forall>s c s1. accounted cs s \<longrightarrow> f s = Some (c, s1) \<longrightarrow>
     (\<forall>argv. c \<noteq> Replaced argv) \<and> accounted UNIV s1 \<and> (c = Created \<longrightarrow> accounted cs1 s1))"

lemma accounted_mono: "accounted cs s \<Longrightarrow> cs \<subseteq> cs1 \<Longrightarrow> accounted cs1 s"
  by (auto simp: accounted_def)

lemma keeps_same: "(\<And>s c s1. f s = Some (c, s1) \<Longrightarrow> (\<forall>argv. c \<noteq> Replaced argv) \<and> drv_trace s1 = drv_trace s \<and>
    (\<forall>h. started (drv_procs s1 h) = started (drv_procs s h))) \<Longrightarrow> keeps cs cs f"
  unfolding keeps_def accounted_sum by auto

lemma keeps_Nil: "keeps cs cs (in_turn [])"
  by (auto simp: keeps_def intro: accounted_mono)

lemma keeps_Cons:
  assumes "keeps cs cs1 f" "keeps cs1 cs2 (in_turn fs)"
  shows "keeps cs cs2 (in_turn (f # fs))"
  unfolding keeps_def
proof (intro allI impI)
  fix s c s2 assume a: "accounted cs s" "in_turn (f # fs) s = Some (c, s2)"
  then obtain c1 s1 where f: "f s = Some (c1, s1)" by (auto split: bind_splits)
  show "(\<forall>argv. c \<noteq> Replaced argv) \<and> accounted UNIV s2 \<and> (c = Created \<longrightarrow> accounted cs2 s2)"
    using assms(1) [unfolded keeps_def, rule_format, OF a(1) f] assms(2) [unfolded keeps_def, rule_format, of s1 c s2] a(2) f
    by (cases "c1 = Created") auto
qed

lemma sum_one_list:
  fixes f g :: "proc_head \<Rightarrow> int multiset"
  assumes "f head = g head + m" "\<And>h. h \<noteq> head \<Longrightarrow> f h = g h"
  shows "(\<Sum>h\<in>UNIV. f h) = (\<Sum>h\<in>UNIV. g h) + m"
proof -
  have fin: "finite (UNIV :: proc_head set)"
    using all_heads_all by (metis finite_set finite_subset subsetI)
  have "(\<Sum>h\<in>UNIV. f h) = f head + (\<Sum>h\<in>UNIV - {head}. f h)" by (rule sum.remove [OF fin]) simp
  also have "(\<Sum>h\<in>UNIV - {head}. f h) = (\<Sum>h\<in>UNIV - {head}. g h)" using assms(2) by (intro sum.cong) auto
  also have "f head + \<dots> = g head + (\<Sum>h\<in>UNIV - {head}. g h) + m" using assms(1) by (simp add: ac_simps)
  also have "g head + (\<Sum>h\<in>UNIV - {head}. g h) = (\<Sum>h\<in>UNIV. g h)" by (rule sum.remove [OF fin, symmetric]) simp
  finally show ?thesis .
qed

text \<open>Starting a list of which nothing was started.\<close>

lemma create_loop_accounted:
  assumes "\<forall>w. fst (sys_fork env w) \<noteq> 0"
  shows "accounted {h'. h' = head \<or> h' \<in> cs} s \<Longrightarrow> distinct is \<Longrightarrow>
    \<forall>i\<in>set is. i < length (drv_procs s head) \<and> proc_id (drv_procs s head ! i) = - 1 \<Longrightarrow>
    in_turn (map (create_proc env head) is) s = Some (c, s1) \<Longrightarrow>
    accounted {h'. h' = head \<or> h' \<in> cs} s1 \<and> (\<forall>argv. c \<noteq> Replaced argv)"
proof (induction "is" arbitrary: s)
  case (Cons i js)
  obtain c1 s2 where f: "create_proc env head i s = Some (c1, s2)" using Cons.prems(4) by (auto split: bind_splits)
  from create_proc_effect [OF f assms] obtain p where p: "drv_procs s2 = (drv_procs s)(head := (drv_procs s head)[i := p])"
    "ended (drv_trace s2) = ended (drv_trace s)" "forked (drv_trace s2) = forked (drv_trace s) @ started [p]"
    "\<forall>argv. c1 \<noteq> Replaced argv" by blast
  have i: "i < length (drv_procs s head)" "proc_id (drv_procs s head ! i) = - 1" using Cons.prems(3) by simp_all
  have "(\<Sum>h\<in>UNIV. mset (started (drv_procs s2 h))) = (\<Sum>h\<in>UNIV. mset (started (drv_procs s h))) + mset (started [p])"
    using started_update [OF i, of p] by (intro sum_one_list) (auto simp: p(1))
  then have acc: "accounted {h'. h' = head \<or> h' \<in> cs} s2"
    using Cons.prems(1) p unfolding accounted_sum by auto
  show ?case
  proof (cases "c1 = Created")
    case True
    then have run: "in_turn (map (create_proc env head) js) s2 = Some (c, s1)" using Cons.prems(4) f by simp
    have "\<forall>j\<in>set js. j < length (drv_procs s2 head) \<and> proc_id (drv_procs s2 head ! j) = - 1"
      using Cons.prems(2,3) p(1) by (auto simp: nth_list_update)
    then show ?thesis using Cons.IH [OF acc _ _ run] Cons.prems(2) by simp
  next
    case False
    then show ?thesis using Cons.prems(4) f acc p(4) by auto
  qed
qed auto

lemma keeps_create:
  assumes "\<forall>w. fst (sys_fork env w) \<noteq> 0" "head \<notin> cs"
  shows "keeps cs (insert head cs) (procs_create env head)"
  unfolding keeps_def
proof (intro allI impI)
  fix s c s1 assume acc: "accounted cs s" and run: "procs_create env head s = Some (c, s1)"
  have start: "accounted {h'. h' = head \<or> h' \<in> cs} s" by (rule accounted_mono [OF acc]) auto
  have "started (drv_procs s head) = []" using acc assms(2) by (simp add: accounted_def)
  then have "\<forall>i\<in>set [0..<length (drv_procs s head)]. i < length (drv_procs s head) \<and> proc_id (drv_procs s head ! i) = - 1"
    by (auto simp: started_def filter_empty_conv)
  from create_loop_accounted [OF assms(1) start _ this run [unfolded procs_create_def]]
  have "accounted {h'. h' = head \<or> h' \<in> cs} s1" "\<forall>argv. c \<noteq> Replaced argv" by simp_all
  moreover have "{h'. h' = head \<or> h' \<in> cs} = insert head cs" by auto
  ultimately show "(\<forall>argv. c \<noteq> Replaced argv) \<and> accounted UNIV s1 \<and> (c = Created \<longrightarrow> accounted (insert head cs) s1)"
    using accounted_mono [of _ s1 UNIV] by auto
qed

lemma make_argv_id: "make_argv mem_ok heads p = Some (rc, p1) \<Longrightarrow> proc_id p1 = proc_id p"
  by (auto simp: make_argv_def adjust_options_def dest!: adjust_argv_id split: bind_splits option.splits if_splits)

lemma make_argv_loop_ids:
  "make_argv_loop mem_ok head is heads = Some (rc, heads1) \<Longrightarrow> \<forall>i\<in>set is. i < length (heads head) \<Longrightarrow>
   map proc_id (heads1 h) = map proc_id (heads h)"
proof (induction "is" arbitrary: heads)
  case (Cons i rest)
  obtain r p where m: "make_argv mem_ok heads (heads head ! i) = Some (r, p)" using Cons.prems(1) by (auto split: bind_splits)
  let ?heads = "heads(head := (heads head)[i := p])"
  have ids: "map proc_id (?heads h) = map proc_id (heads h)"
    using make_argv_id [OF m] Cons.prems(2) by (auto simp: map_update list_update_same_conv)
  show ?case
  proof (cases "r = 0")
    case True
    then have run: "make_argv_loop mem_ok head rest ?heads = Some (rc, heads1)" using Cons.prems(1) m by simp
    have "\<forall>i\<in>set rest. i < length (?heads head)" using Cons.prems(2) by simp
    from Cons.IH [OF run this] ids show ?thesis by (rule trans)
  qed (use Cons.prems(1) m ids in auto)
qed simp

lemma keeps_make: "keeps cs cs (make_step env head)"
proof (rule keeps_same)
  fix s :: "'a drv" and c s1 assume "make_step env head s = Some (c, s1)"
  then obtain rc heads where h: "make_argv_loop (drv_mem env) head [0..<length (drv_procs s head)] (drv_procs s) = Some (rc, heads)"
    "s1 = s\<lparr>drv_procs := heads\<rparr>" "c \<in> {Created, Create_failed}"
    by (auto simp: make_step_def procs_make_argv_def split: bind_splits if_splits)
  from make_argv_loop_ids [OF h(1)] have "map proc_id (heads h) = map proc_id (drv_procs s h)" for h by simp
  then show "(\<forall>argv. c \<noteq> Replaced argv) \<and> drv_trace s1 = drv_trace s \<and> (\<forall>h. started (drv_procs s1 h) = started (drv_procs s h))"
    using h(2,3) by (auto simp: started_def)
qed

lemma keeps_enter: "keeps cs cs (enter_deadline env a)"
  by (rule keeps_same) (auto simp: enter_deadline_def split: bind_splits if_splits)

lemmas keeps_then_make = keeps_Cons [OF keeps_make]
lemmas keeps_then_create = keeps_Cons [OF keeps_create]
lemmas keeps_last = keeps_Cons [OF keeps_enter keeps_Nil]

lemma read_config_accounted:
  assumes "read_config env fs a s = Some (c, s1)" "drv_procs s = (\<lambda>_. [])" "drv_trace s = []"
  shows "accounted {} s1 \<and> (\<forall>argv. c \<noteq> Replaced argv)"
proof -
  let ?prms = "\<lparr>preceding_server = None, prms_duration_ms = experiment_duration_ms a,
      prms_ftrace_start = (if ftrace_start a = - 1 then None else Some (ftrace_start a)),
      prms_ftrace_stop = (if ftrace_stop a = - 1 then None else Some (ftrace_stop a))\<rparr>"
  have empty: "accounted {} s" using assms(2,3) by (simp add: accounted_def started_in_def started_def all_heads_def)
  obtain path where path: "config_path a = Some path" using assms(1) by (auto simp: read_config_def split: bind_splits)
  show ?thesis
  proof (cases "utility_file_open_for_reading fs path")
    case None
    then show ?thesis using assms(1) path empty by (auto simp: read_config_def)
  next
    case (Some stream)
    then obtain rc s2 st prms1 heads where
      r: "utility_file_read (drv_mem env) (drv_fill env) stream 1024 (config_callback (drv_mem env) (drv_fill env))
          (Some (?prms, \<lambda>_. [])) = Some (rc, s2, st)" "st = Some (prms1, heads)"
        "s1 = s\<lparr>drv_procs := heads\<rparr>" "c \<in> {Created, Create_failed}"
      using assms(1,2) path by (auto simp: read_config_def split: bind_splits if_splits)
    from config_file_ok [OF r(1)] r(2) have "\<forall>head. \<forall>p\<in>set (heads head). proc_id p = - 1" by auto
    then have "started (heads h) = []" for h by (auto simp: started_def filter_empty_conv)
    then show ?thesis using r(3,4) assms(3) by (auto simp: accounted_def started_in_def)
  qed
qed

lemma start_procs_accounted:
  assumes "start_procs env fs a s = Some (c, s1)" "drv_procs s = (\<lambda>_. [])" "drv_trace s = []"
    and "\<forall>w. fst (sys_fork env w) \<noteq> 0"
  shows "accounted UNIV s1 \<and> (\<forall>argv. c \<noteq> Replaced argv)"
proof -
  let ?rest = "[make_step env Hrt_cbs_procs, make_step env Cpu_hog_cbs_procs, make_step env Cpu_hog_procs,
      make_step env Server_hog_procs, make_step env Server_procs, procs_create env Server_procs,
      make_step env Client_procs, procs_create env Client_procs, procs_create env Hrt_cbs_procs,
      procs_create env Cpu_hog_cbs_procs, procs_create env Cpu_hog_procs, procs_create env Server_hog_procs,
      enter_deadline env a]"
  obtain c0 s0 where r: "read_config env fs a s = Some (c0, s0)"
    using assms(1) by (auto simp: start_procs_def split: bind_splits)
  note acc = read_config_accounted [OF r assms(2,3)]
  have "keeps {} (insert Server_hog_procs (insert Cpu_hog_procs (insert Cpu_hog_cbs_procs
      (insert Hrt_cbs_procs (insert Client_procs (insert Server_procs {})))))) (in_turn ?rest)"
    by (intro keeps_then_make keeps_then_create keeps_last) (use assms(4) in simp_all)
  then show ?thesis using assms(1) r acc accounted_mono [of "{}" s0 UNIV]
    unfolding keeps_def by (cases "c0 = Created") (auto simp: start_procs_def)
qed

text \<open>Claim C5. Whatever the command line, the configuration file, the system calls and the allocator
  do, when the driver exits it has told every process it ever started to end, each of them exactly once, by \<^verbatim>\<open>SIGTERM\<close>
  after an experiment and by \<^verbatim>\<open>SIGKILL\<close> after an error at any point, and it has told no other process to.\<close>

theorem driver_leaves_no_process:
  assumes "driver_main env fs optind opts s = Some (e, s1)" "drv_procs s = (\<lambda>_. [])" "drv_trace s = []"
    and "\<forall>w. fst (sys_fork env w) \<noteq> 0"
  shows "(\<exists>rc. e = Exit rc) \<and> mset (ended (drv_trace s1)) = mset (forked (drv_trace s1))"
proof -
  obtain rc a where p: "parse_cmd_line_args optind opts = (rc, a)" by fastforce
  have killed: "mset (ended (drv_trace (terminate_driver env t))) = mset (forked (drv_trace (terminate_driver env t)))"
    if "accounted cs t" for cs t
    using that terminate_driver_ends [of env t] by (simp add: accounted_def)
  show ?thesis
  proof (cases "rc = - 1")
    case True
    have "accounted {} s" using assms(2,3) by (simp add: accounted_def started_in_def started_def all_heads_def)
    then show ?thesis using assms(1) p True killed by (auto simp: driver_main_def)
  next
    case False
    then obtain c s2 where st: "start_procs env fs a s = Some (c, s2)"
      using assms(1) p by (auto simp: driver_main_def split: bind_splits)
    note acc = start_procs_accounted [OF st assms(2-4)]
    obtain rc1 s3 where run: "run_experiment env (experiment_duration_ms a) s2 = (rc1, s3)" by fastforce
    then have "mset (ended (drv_trace s3)) = mset (forked (drv_trace s3))"
      using run_experiment_ends [OF run] acc by (simp add: accounted_def)
    then show ?thesis using assms(1) p False st run acc killed by (cases c) (auto simp: driver_main_def)
  qed
qed

section \<open>The order of the experiment\<close>

text \<open>A part of the program that only adds the given events.\<close>

definition adds :: "drv_event list \<Rightarrow> 'w drv \<Rightarrow> 'w drv \<Rightarrow> bool" where
  "adds es s s1 \<longleftrightarrow> drv_procs s1 = drv_procs s \<and> drv_trace s1 = drv_trace s @ es"

lemma adds_trans: "adds xs s s1 \<Longrightarrow> adds ys s1 s2 \<Longrightarrow> adds (xs @ ys) s s2"
  by (simp add: adds_def)

lemma each_adds:
  assumes "\<And>pid s. adds [e pid] s (snd (f pid s))"
  shows "adds (map e (started ps)) s (snd (each_proc f ps rc s))"
proof (induction ps arbitrary: rc s)
  case (Cons p ps)
  obtain r s1 where f: "f (proc_id p) s = (r, s1)" by fastforce
  then have "adds [e (proc_id p)] s s1" using assms [of "proc_id p" s] by simp
  from adds_trans [OF this Cons.IH [of s1 "rc + r"]] show ?case using Cons.IH [of s rc] f by (simp add: started_simps)
qed (simp add: started_simps adds_def)

lemma kill_lists_adds:
  "kill_lists env sgnl hs (rc, s) = (rc1, s1) \<Longrightarrow> adds (map (\<lambda>pid. Killed pid sgnl) (started_in hs (drv_procs s))) s s1"
proof (induction hs arbitrary: rc s)
  case (Cons h hs)
  obtain r s2 where k: "procs_kill env h sgnl s = (r, s2)" by fastforce
  have "adds (map (\<lambda>pid. Killed pid sgnl) (started (drv_procs s h))) s s2"
    using each_adds [of "\<lambda>pid. Killed pid sgnl" "kill_proc_fn env sgnl" "drv_procs s h" s 0] k
    by (simp add: procs_kill_def adds_def kill_proc_fn_def split: prod.splits)
  moreover from this have "adds (map (\<lambda>pid. Killed pid sgnl) (started_in hs (drv_procs s))) s2 s1"
    using Cons k by (auto simp: adds_def)
  ultimately show ?case using adds_trans by fastforce
qed (simp add: adds_def)

lemma waits_add:
  "adds (map Waited (started_in hs (drv_procs s))) s (fold (\<lambda>head s. snd (procs_wait env head s)) hs s)"
proof (induction hs arbitrary: s)
  case (Cons h hs)
  have w: "adds (map Waited (started (drv_procs s h))) s (snd (procs_wait env h s))"
    using each_adds [of Waited "wait_proc_fn env" "drv_procs s h" s 0]
    by (simp add: procs_wait_def adds_def wait_proc_fn_def split: prod.splits)
  then have "drv_procs (snd (procs_wait env h s)) = drv_procs s" by (simp add: adds_def)
  with adds_trans [OF w Cons] show ?case by simp
qed (simp add: adds_def)

text \<open>Claim C31. Once everything is started, the driver signals the processes that wait for it, sleeps for the
  experiment, and ends the processes so that the servers outlive their clients by a second; then it waits for each
  of them. It sleeps for the duration that was asked for only if this duration is at most 4294967 ms: the
  number of microseconds is cut to the 32 bits of the argument of \<^verbatim>\<open>usleep\<close>.\<close>

theorem experiment_order:
  "drv_trace (snd (run_experiment env d s)) = drv_trace s @
     map (\<lambda>pid. Killed pid SIGUSR1) (started_in [Hrt_cbs_procs, Cpu_hog_cbs_procs, Client_procs] (drv_procs s)) @
     Slept (unat d * 1000 mod 2 ^ 32) #
     map (\<lambda>pid. Killed pid SIGTERM)
       (started_in [Client_procs, Cpu_hog_cbs_procs, Hrt_cbs_procs, Cpu_hog_procs, Server_hog_procs] (drv_procs s)) @
     Slept 1000000 #
     map (\<lambda>pid. Killed pid SIGTERM) (started (drv_procs s Server_procs)) @
     map Waited (started_in [Client_procs, Cpu_hog_cbs_procs, Hrt_cbs_procs, Cpu_hog_procs, Server_hog_procs, Server_procs] (drv_procs s)) \<and>
   unat d * 1000 mod 2 ^ 32 = (if unat d \<le> 4294967 then unat d * 1000 else unat d * 1000 mod 2 ^ 32)"
proof (rule conjI)
  let ?first = "[Client_procs, Cpu_hog_cbs_procs, Hrt_cbs_procs, Cpu_hog_procs, Server_hog_procs]"
  have us: "unat (ucast (d * 1000) :: u32) = unat d * 1000 mod 2 ^ 32"
    by (simp add: unsigned_ucast_eq unat_word_ariths take_bit_eq_mod mod_mod_cancel)
  obtain r1 t1 where 1: "kill_lists env SIGUSR1 [Hrt_cbs_procs, Cpu_hog_cbs_procs, Client_procs] (0, s) = (r1, t1)" by fastforce
  define t2 where "t2 = drv_sleep env (unat (ucast (d * 1000) :: u32)) t1"
  obtain r3 t3 where 3: "kill_lists env SIGTERM ?first (r1, t2) = (r3, t3)" by fastforce
  define t4 where "t4 = drv_sleep env 1000000 t3"
  obtain r5 t5 where 5: "kill_lists env SIGTERM [Server_procs] (r3, t4) = (r5, t5)" by fastforce
  have "drv_trace (snd (run_experiment env d s)) = drv_trace (fold (\<lambda>head s. snd (procs_wait env head s)) (?first @ [Server_procs]) t5)"
    using 1 3 5 by (simp add: run_experiment_def Let_def t2_def t4_def)
  moreover have "adds [Slept (unat d * 1000 mod 2 ^ 32)] t1 t2" "adds [Slept 1000000] t3 t4"
    by (simp_all add: adds_def t2_def t4_def drv_sleep_def us)
  ultimately show "drv_trace (snd (run_experiment env d s)) = drv_trace s @
     map (\<lambda>pid. Killed pid SIGUSR1) (started_in [Hrt_cbs_procs, Cpu_hog_cbs_procs, Client_procs] (drv_procs s)) @
     Slept (unat d * 1000 mod 2 ^ 32) #
     map (\<lambda>pid. Killed pid SIGTERM) (started_in ?first (drv_procs s)) @
     Slept 1000000 #
     map (\<lambda>pid. Killed pid SIGTERM) (started (drv_procs s Server_procs)) @
     map Waited (started_in [Client_procs, Cpu_hog_cbs_procs, Hrt_cbs_procs, Cpu_hog_procs, Server_hog_procs, Server_procs] (drv_procs s))"
    using kill_lists_adds [OF 1] kill_lists_adds [OF 3] kill_lists_adds [OF 5] waits_add [of "?first @ [Server_procs]" t5 env]
    by (simp add: adds_def)
qed auto

section \<open>A program that cannot be executed\<close>

lemma kill_and_wait_event:
  assumes "kill_and_wait_proc_fn env sgnl pid s = (rc, s1)"
  shows "drv_procs s1 = drv_procs s \<and> set (drv_trace s) \<union> {Killed pid sgnl} \<subseteq> set (drv_trace s1)"
  using assms by (auto simp: kill_and_wait_proc_fn_def kill_proc_fn_def wait_proc_fn_def split: prod.splits if_splits)

lemma kill_and_free_events:
  "set (drv_trace s) \<union> (\<lambda>pid. Killed pid SIGKILL) ` set (started (drv_procs s h)) \<subseteq> set (drv_trace (kill_and_free env h s))"
proof -
  have "set (drv_trace s) \<union> (\<lambda>pid. Killed pid SIGKILL) ` set (started ps)
      \<subseteq> set (drv_trace (snd (each_proc (kill_and_wait_proc_fn env SIGKILL) ps rc s)))" for ps rc
  proof (induction ps arbitrary: rc s)
    case (Cons p ps)
    obtain r s1 where k: "kill_and_wait_proc_fn env SIGKILL (proc_id p) s = (r, s1)" by fastforce
    from kill_and_wait_event [OF k] k Cons.IH [of s1 "rc + r"] Cons.IH [of s rc] show ?case by (auto simp: started_simps)
  qed (simp add: started_simps)
  then show ?thesis by (simp add: kill_and_free_def procs_kill_and_wait_def Let_def)
qed

lemma terminate_lists_events:
  "distinct hs \<Longrightarrow> set (drv_trace s) \<union> (\<lambda>pid. Killed pid SIGKILL) ` set (started_in hs (drv_procs s))
     \<subseteq> set (drv_trace (fold (kill_and_free env) hs s))"
proof (induction hs arbitrary: s)
  case (Cons h hs)
  let ?s = "kill_and_free env h s"
  have "started_in hs ((drv_procs s)(h := [])) = started_in hs (drv_procs s)"
    using Cons.prems unfolding started_in_def by (intro arg_cong [where f = concat] map_cong) auto
  then have "set (drv_trace ?s) \<union> (\<lambda>pid. Killed pid SIGKILL) ` set (started_in hs (drv_procs s))
      \<subseteq> set (drv_trace (fold (kill_and_free env) (h # hs) s))"
    using Cons.IH [of ?s] Cons.prems kill_and_free_ends [of env h s] by (simp del: fun_upd_apply)
  moreover note kill_and_free_events [of s h env]
  ultimately show ?case by auto
qed simp


section \<open>The command line that is accepted\<close>

definition cmd_ok :: "cmd_args \<Rightarrow> bool" where
  "cmd_ok a \<longleftrightarrow> (cbs_budget_period_ms a = - 1 \<or> 0 < cbs_budget_period_ms a) \<and>
     (ftrace_start a = - 1 \<or> 0 < ftrace_start a) \<and> (ftrace_stop a = - 1 \<or> 0 < ftrace_stop a)"

lemma cmd_option_outcome:
  assumes "cmd_option optchar optarg a = (r, a1)"
  shows "r = Some rc \<Longrightarrow> rc = - 1 \<or> rc = 0 \<and> optchar = CHR ''h''" "r = None \<Longrightarrow> cmd_ok a \<Longrightarrow> cmd_ok a1"
  using assms by (auto simp: cmd_option_def cmd_ok_def Let_def split: if_splits prod.splits)

lemma cmd_options_return: "cmd_options opts a = (Some rc, a1) \<Longrightarrow> rc = - 1 \<or> rc = 0 \<and> CHR ''h'' \<in> fst ` set opts"
proof (induction opts a rule: cmd_options.induct)
  case (2 optchar optarg rest a)
  then show ?case
    using cmd_option_outcome(1) by (fastforce split: prod.splits option.splits)
qed simp

lemma cmd_options_ok: "cmd_options opts a = (None, a1) \<Longrightarrow> cmd_ok a \<Longrightarrow> cmd_ok a1"
proof (induction opts a rule: cmd_options.induct)
  case (2 optchar optarg rest a)
  obtain r0 a0 where c: "cmd_option optchar optarg a = (r0, a0)" by fastforce
  then have "r0 = None" "cmd_options rest a0 = (None, a1)" using 2(2) by (auto split: option.splits)
  then show ?case using 2(1) [OF c [symmetric]] cmd_option_outcome(2) [OF c] 2(3) by simp
qed simp

text \<open>When the driver goes on after its command line, the budget is at least a millisecond, the bounds of
  the tracing are given both or not at all and are positive, and a configuration file and a duration are
  given; unless one of the options is \<^verbatim>\<open>-h\<close>: then none of this is checked, because the help is
  printed with a return code that \<^verbatim>\<open>main\<close> does not take for a reason to stop.\<close>

theorem command_line_checked:
  assumes "parse_cmd_line_args optind opts = (rc, a)" "rc \<noteq> - 1"
  shows "0 < cbs_budget_period_ms a \<and> config_path a \<noteq> None \<and> experiment_duration_ms a \<noteq> - 1 \<and> rc = optind \<and>
      (ftrace_start a = - 1 \<and> ftrace_stop a = - 1 \<or> 0 < ftrace_start a \<and> 0 < ftrace_stop a) \<or>
    rc = 0 \<and> CHR ''h'' \<in> fst ` set opts"
proof -
  obtain r a1 where c: "cmd_options opts cmd_defaults = (r, a1)" by fastforce
  have "cmd_ok cmd_defaults" by (simp add: cmd_ok_def cmd_defaults_def)
  then show ?thesis using assms c cmd_options_return [of opts cmd_defaults] cmd_options_ok [of opts cmd_defaults]
    by (cases r) (auto simp: parse_cmd_line_args_def cmd_ok_def split: if_splits)
qed

section \<open>Instances\<close>

text \<open>A driver that can fork once, on a file with a server and a load: the load cannot be started.\<close>

definition one_fork_env :: "nat drv_env" where
  "one_fork_env = \<lparr>sys_fork = (\<lambda>w. (if w = 0 then 300 else - 1, w + 1)), sys_execv = (\<lambda>_ w. (True, w)), sys_kill = (\<lambda>_ _ w. (True, w)),
     sys_waitpid = (\<lambda>pid w. ((pid, Exited 0), w)), sys_sleep = (\<lambda>_ w. w), drv_sched = env_ok, drv_mem = (\<lambda>_. True), drv_fill = CHR ''?''\<rparr>"

definition two_lines :: string where
  "two_lines = ''SERVER -p 7777'' @ CHR 0x0A # ''CPU_HOG''"

definition two_lines_fs :: fsys where
  "two_lines_fs = \<lparr>fs_text = (\<lambda>_. Some (text_stream two_lines)), fs_bin = (\<lambda>_. None), fs_create = (\<lambda>_. None)\<rparr>"

definition idle_drv :: "nat drv" where
  "idle_drv = \<lparr>drv_procs = (\<lambda>_. []), drv_class = Posix 0 0, drv_times = store0 (\<lambda>_. True), drv_world = 0, drv_trace = []\<rparr>"

definition ex_server :: proc where "ex_server = proc_init\<lparr>proc_args := Some (''./server -p 7777'' @ [NUL])\<rparr>"
definition ex_hog :: proc where "ex_hog = proc_init\<lparr>proc_args := Some (''./cpu_hog '' @ [NUL])\<rparr>"

lemma two_lines_parsed:
  assumes "preceding_server prms = None" "mem_ok = (\<lambda>_. True)"
  shows "parse_config_file mem_ok fill ''SERVER -p 7777'' (prms, \<lambda>_. []) =
      Some (0, prms\<lparr>preceding_server := Some 0\<rparr>, (\<lambda>_. [])(Server_procs := [ex_server]))"
    "parse_config_file mem_ok fill ''CPU_HOG'' (prms\<lparr>preceding_server := Some 0\<rparr>, (\<lambda>_. [])(Server_procs := [ex_server])) =
      Some (0, prms\<lparr>preceding_server := Some 0\<rparr>, (\<lambda>_. [])(Server_procs := [ex_server], Cpu_hog_procs := [ex_hog]))"
proof -
  have 1: "first_token delimiter ''SERVER -p 7777'' = (0, ''SERVER'', '' -p 7777'')"
    "find (\<lambda>(i, name). strcasecmp_eq ''SERVER'' name) program_ids = Some (SERVER, ''server'')" by code_simp+
  have 2: "first_token delimiter ''CPU_HOG'' = (0, ''CPU_HOG'', [])"
    "find (\<lambda>(i, name). strcasecmp_eq ''CPU_HOG'' name) program_ids = Some (CPU_HOG, ''cpu_hog'')" by code_simp+
  have r1: "register_proc SERVER proc_init prms (\<lambda>_. []) =
      Some (Server_procs, prms\<lparr>preceding_server := Some 0\<rparr>, procs_add Server_procs proc_init (\<lambda>_. []))"
    by (simp add: register_proc_def)
  have r2: "register_proc CPU_HOG proc_init p h = Some (Cpu_hog_procs, p, procs_add Cpu_hog_procs proc_init h)" for p h
    by (simp add: register_proc_def)
  show "parse_config_file mem_ok fill ''SERVER -p 7777'' (prms, \<lambda>_. []) =
      Some (0, prms\<lparr>preceding_server := Some 0\<rparr>, (\<lambda>_. [])(Server_procs := [ex_server]))"
    using parse_config_line [OF _ 1(1) _ _ 1(2) r1, of mem_ok fill] assms(2)
    by (simp add: update_last_def procs_add_def args_text_def placeholders_def ex_server_def)
  show "parse_config_file mem_ok fill ''CPU_HOG'' (prms\<lparr>preceding_server := Some 0\<rparr>, (\<lambda>_. [])(Server_procs := [ex_server])) =
      Some (0, prms\<lparr>preceding_server := Some 0\<rparr>, (\<lambda>_. [])(Server_procs := [ex_server], Cpu_hog_procs := [ex_hog]))"
    using parse_config_line [OF _ 2(1) _ _ 2(2) r2, of mem_ok fill "prms\<lparr>preceding_server := Some 0\<rparr>" "(\<lambda>_. [])(Server_procs := [ex_server])"] assms(2)
    by (simp add: update_last_def procs_add_def args_text_def placeholders_def ex_hog_def)
qed

lemma two_lines_read:
  assumes "config_path a = Some path"
  shows "read_config one_fork_env two_lines_fs a idle_drv =
    Some (Created, idle_drv\<lparr>drv_procs := (\<lambda>_. [])(Server_procs := [ex_server], Cpu_hog_procs := [ex_hog])\<rparr>)"
proof -
  let ?prms = "\<lparr>preceding_server = None, prms_duration_ms = experiment_duration_ms a,
      prms_ftrace_start = (if ftrace_start a = - 1 then None else Some (ftrace_start a)),
      prms_ftrace_stop = (if ftrace_stop a = - 1 then None else Some (ftrace_stop a))\<rparr>"
  let ?f = "config_callback (\<lambda>_. True) CHR ''?''"
  have lines: "split_lines two_lines = [''SERVER -p 7777'', ''CPU_HOG'']" by code_simp
  have strings: "c_string ''SERVER -p 7777'' = ''SERVER -p 7777''" "c_string ''CPU_HOG'' = ''CPU_HOG''" by (rule c_string_id; simp)+
  have parsed: "run_lines ?f [''SERVER -p 7777'', ''CPU_HOG''] (Some (?prms, \<lambda>_. [])) =
      (0, Some (?prms\<lparr>preceding_server := Some 0\<rparr>, (\<lambda>_. [])(Server_procs := [ex_server], Cpu_hog_procs := [ex_hog])))"
    using two_lines_parsed [of ?prms "\<lambda>_. True" "CHR ''?''"]
    by (simp add: strings config_callback_def del: parse_config_file_prms.update_convs fun_upd_apply)
  obtain s1 where "utility_file_read (\<lambda>_. True) CHR ''?'' (text_stream two_lines) 1024 ?f (Some (?prms, \<lambda>_. [])) =
      Some (0, s1, Some (?prms\<lparr>preceding_server := Some 0\<rparr>, (\<lambda>_. [])(Server_procs := [ex_server], Cpu_hog_procs := [ex_hog])))"
    using read_loop_lines [of 1024 "\<lambda>_. True" "text_stream two_lines" "CHR ''?''" ?f None "Some (?prms, \<lambda>_. [])"] parsed
    by (auto simp: utility_file_read_def text_stream_def lines simp del: parse_config_file_prms.update_convs fun_upd_apply run_lines.simps)
  then show ?thesis using assms
    by (simp add: read_config_def utility_file_open_for_reading_def two_lines_fs_def one_fork_env_def idle_drv_def
        del: parse_config_file_prms.update_convs fun_upd_apply)
qed

lemma make_step_Nil: "drv_procs s h = [] \<Longrightarrow> make_step env h s = Some (Created, s)"
  by (simp add: make_step_def procs_make_argv_def)

lemma make_step_single:
  "drv_procs s h = [p] \<Longrightarrow> make_argv (drv_mem env) (drv_procs s) p = Some (0, p1) \<Longrightarrow>
   make_step env h s = Some (Created, s\<lparr>drv_procs := (drv_procs s)(h := [p1])\<rparr>)"
  by (simp add: make_step_def procs_make_argv_def)

lemma procs_create_Nil: "drv_procs s h = [] \<Longrightarrow> procs_create env h s = Some (Created, s)"
  by (simp add: procs_create_def)

lemma procs_create_single: "drv_procs s h = [p] \<Longrightarrow> procs_create env h s = in_turn [create_proc env h 0] s"
  by (simp add: procs_create_def)

lemma make_argv_pids: "make_argv mem_ok heads p = Some (rc, p1) \<Longrightarrow> proc_subserver_pid p1 = proc_subserver_pid p"
proof -
  have "proc_subserver_pid p1 = proc_subserver_pid p" if "adjust_argv c v p = Some p1" for c v p p1
    using that by (auto simp: adjust_argv_def split: bind_splits option.splits)
  then show "make_argv mem_ok heads p = Some (rc, p1) \<Longrightarrow> ?thesis"
    by (fastforce simp: make_argv_def adjust_options_def split: bind_splits option.splits if_splits)
qed

lemma ex_argv:
  assumes "p = proc_init\<lparr>proc_args := Some (line @ [NUL])\<rparr>" "NUL \<notin> set line" "words delimiter line = ws" "mem_ok = (\<lambda>_. True)"
  shows "\<exists>p1. make_argv mem_ok heads p = Some (0, p1) \<and> exec_argv p1 = Some ws \<and> proc_id p1 = - 1 \<and> proc_subserver_pid p1 = None"
proof -
  have "proc_args p = Some (line @ NUL # [])" "\<forall>k. proc_server_pid p = Some k \<longrightarrow> k < length (heads Server_procs)"
    using assms(1) by (simp_all add: proc_init_def)
  from make_argv_refines [where u = "[]" and line = line and mem_ok = mem_ok and p = p and heads = heads, OF this(1) assms(2) this(2)] obtain p1 where
    p1: "make_argv mem_ok heads p = Some (0, p1)" "has_argv p1 (expected_words heads p (words delimiter line))"
    using assms(4) by auto
  have "expected_words heads p (words delimiter line) = ws"
    using assms(1,3) by (simp add: expected_words_def proc_init_def)
  then show ?thesis using p1 has_argv_exec [OF p1(2)] make_argv_id [OF p1(1)] make_argv_pids [OF p1(1)] assms(1)
    by (simp add: proc_init_def)
qed

theorem driver_leaves_no_process_witness:
  "\<exists>s1. driver_main one_fork_env two_lines_fs 7 [(CHR ''t'', ''5s''), (CHR ''p'', ''20''), (CHR ''f'', ''cfg'')] idle_drv = Some (Exit 1, s1) \<and>
     forked (drv_trace s1) = [300] \<and> mset (ended (drv_trace s1)) = {#300#}"
proof -
  let ?opts = "[(CHR ''t'', ''5s''), (CHR ''p'', ''20''), (CHR ''f'', ''cfg'')]"
  let ?a = "\<lparr>config_path = Some ''cfg'', experiment_duration_ms = 5000, cbs_budget_period_ms = 20, ftrace_start = - 1, ftrace_stop = - 1\<rparr>"
  have args: "parse_cmd_line_args 7 ?opts = (7, ?a)"
  proof -
    have "atoi ''20'' = 20" by (simp add: atoi_def isspace_def isdigit_def digit_val_def Let_def)
    moreover have "strtoul10 ''5s'' = (5, ''s'')"
      by (simp add: strtoul10_def strtoull10_def isspace_def isdigit_def digit_val_def Let_def)
    moreover have "strcasecmp_eq ''s'' ''s''" by (simp add: strcasecmp_eq_def)
    ultimately show ?thesis by (simp add: parse_cmd_line_args_def cmd_option_def cmd_defaults_def)
  qed
  let ?env = one_fork_env
  define s0 where "s0 = idle_drv\<lparr>drv_procs := (\<lambda>_. [])(Server_procs := [ex_server], Cpu_hog_procs := [ex_hog])\<rparr>"
  have mem: "drv_mem ?env = (\<lambda>_. True)" by (simp add: one_fork_env_def)
  have w: "words delimiter ''./server -p 7777'' = [''./server'', ''-p'', ''7777'']" "words delimiter ''./cpu_hog '' = [''./cpu_hog'']"
    by code_simp+
  obtain q where q: "make_argv (drv_mem ?env) (drv_procs s0) ex_hog = Some (0, q)" "exec_argv q = Some [''./cpu_hog'']"
    "proc_id q = - 1" "proc_subserver_pid q = None"
    using ex_argv [OF ex_hog_def _ w(2) mem] by auto
  define s1 where "s1 = s0\<lparr>drv_procs := (drv_procs s0)(Cpu_hog_procs := [q])\<rparr>"
  obtain p where p: "make_argv (drv_mem ?env) (drv_procs s1) ex_server = Some (0, p)"
    "exec_argv p = Some [''./server'', ''-p'', ''7777'']" "proc_id p = - 1" "proc_subserver_pid p = None"
    using ex_argv [OF ex_server_def _ w(1) mem] by auto
  define s2 where "s2 = s1\<lparr>drv_procs := (drv_procs s1)(Server_procs := [p])\<rparr>"
  define s3 where "s3 = note_drv (Slept 1000000) 1 (note_drv (Forked 300 [''./server'', ''-p'', ''7777'']) 1
    (s2\<lparr>drv_procs := (drv_procs s2)(Server_procs := [p\<lparr>proc_id := 300\<rparr>]), drv_world := 1\<rparr>))"
  define s4 where "s4 = s3\<lparr>drv_procs := (drv_procs s3)(Cpu_hog_procs := [q\<lparr>proc_id := - 1\<rparr>]), drv_world := 2\<rparr>"
  have read: "read_config ?env two_lines_fs ?a idle_drv = Some (Created, s0)"
    unfolding s0_def by (rule two_lines_read) simp
  have make_hog: "make_step ?env Cpu_hog_procs s0 = Some (Created, s1)"
    unfolding s1_def using q(1) by (intro make_step_single) (simp_all add: s0_def)
  have make_server: "make_step ?env Server_procs s1 = Some (Created, s2)"
    unfolding s2_def using p(1) by (intro make_step_single) (simp_all add: s1_def s0_def)
  have lists: "drv_procs s2 Server_procs = [p]" "drv_procs s3 Cpu_hog_procs = [q]"
    by (simp_all add: s3_def s2_def s1_def)
  have create_server: "procs_create ?env Server_procs s2 = Some (Created, s3)"
    using p(2,4) lists(1)
    by (simp add: procs_create_single create_proc_def s3_def one_fork_env_def s2_def s1_def s0_def idle_drv_def note_drv_def Let_def)
  have create_hog: "procs_create ?env Cpu_hog_procs s3 = Some (Create_failed, s4)"
    using q(2,4) lists(2)
    by (simp add: procs_create_single create_proc_def s4_def s3_def one_fork_env_def note_drv_def Let_def)
  have empty: "drv_procs s h = []" if "s \<in> {s0, s1, s2, s3}" "h \<notin> {Server_procs, Cpu_hog_procs}" for s h
    using that by (auto simp: s3_def s2_def s1_def s0_def)
  have "start_procs ?env two_lines_fs ?a idle_drv = Some (Create_failed, s4)"
    by (simp add: start_procs_def read make_hog make_server create_server create_hog make_step_Nil procs_create_Nil empty)
  then have main: "driver_main ?env two_lines_fs 7 ?opts idle_drv = Some (Exit 1, terminate_driver ?env s4)"
    by (simp add: driver_main_def args)
  have "forked (drv_trace s4) = [300]"
    by (simp add: s4_def s3_def s2_def s1_def s0_def idle_drv_def)
  then have "forked (drv_trace (terminate_driver ?env s4)) = [300]" using terminate_driver_ends [of ?env s4] by simp
  then show ?thesis using main driver_leaves_no_process [OF main]
    by (auto simp: idle_drv_def one_fork_env_def)
qed

text \<open>A child that cannot execute its program, of a driver that has started one server.\<close>

definition child_env :: "nat drv_env" where
  "child_env = one_fork_env\<lparr>sys_fork := (\<lambda>w. (0, w)), sys_execv := (\<lambda>_ w. (False, w))\<rparr>"


theorem command_line_checked_witness:
  "\<exists>a. parse_cmd_line_args 7 [(CHR ''f'', ''cfg''), (CHR ''h'', [])] = (0, a) \<and> experiment_duration_ms a = - 1 \<and>
     (0 < cbs_budget_period_ms a \<or> CHR ''h'' \<in> {CHR ''f'', CHR ''h''})"
proof -
  have p: "parse_cmd_line_args 7 [(CHR ''f'', ''cfg''), (CHR ''h'', [])] = (0, cmd_defaults\<lparr>config_path := Some ''cfg''\<rparr>)"
    by (simp add: parse_cmd_line_args_def cmd_option_def)
  from command_line_checked [OF p] p show ?thesis by (auto simp: cmd_defaults_def)
qed

end
