(* ===== verification/Hrt_Cbs.thy ===== *)
theory Hrt_Cbs
  imports C_Strings Program_Setup Task_Overhead
begin

text \<open>
  A periodic task with hard deadlines in a constant bandwidth server (\<^verbatim>\<open>hrt_cbs.c\<close>): the program composes all
  the functions of the library. It parses its options, takes the measured overheads off the busy loop that is
  the program of the task, and runs the task in a thread with a reservation.
\<close>

section \<open>Options\<close>

record hrt_options =
  hrt_task_name :: "string option"
  hrt_stats_file_path :: "string option"
  hrt_wcet_ms :: int
  hrt_budget_ms :: int
  hrt_deadline_ms :: int
  hrt_period_ms :: int
  hrt_duration_ms :: int

definition hrt_defaults :: hrt_options where
  "hrt_defaults = \<lparr>hrt_task_name = None, hrt_stats_file_path = None, hrt_wcet_ms = - 1, hrt_budget_ms = - 1,
     hrt_deadline_ms = - 1, hrt_period_ms = - 1, hrt_duration_ms = - 1\<rparr>"

definition hrt_option :: "char \<Rightarrow> string \<Rightarrow> hrt_options \<Rightarrow> hrt_options parsed" where
  "hrt_option optchar optarg cfg =
    (let v = atoi optarg in
     if optchar = CHR ''n'' then Parsed (cfg\<lparr>hrt_task_name := Some optarg\<rparr>)
     else if optchar = CHR ''s'' then Parsed (cfg\<lparr>hrt_stats_file_path := Some optarg\<rparr>)
     else if optchar = CHR ''c'' then if v \<le> 0 then Bad_option else Parsed (cfg\<lparr>hrt_wcet_ms := v\<rparr>)
     else if optchar = CHR ''x'' then if v \<le> 0 then Bad_option else Parsed (cfg\<lparr>hrt_duration_ms := v\<rparr>)
     else if optchar = CHR ''t'' then if v \<le> 0 then Bad_option else Parsed (cfg\<lparr>hrt_period_ms := v\<rparr>)
     else if optchar = CHR ''q'' then if v \<le> 0 then Bad_option else Parsed (cfg\<lparr>hrt_budget_ms := v\<rparr>)
     else if optchar = CHR ''d'' then if v \<le> 0 then Bad_option else Parsed (cfg\<lparr>hrt_deadline_ms := v\<rparr>)
     else if optchar = CHR ''h'' then Help
     else Bad_option)"

definition hrt_getopt :: "(char \<times> string) list \<Rightarrow> hrt_options \<Rightarrow> hrt_options parsed" where
  "hrt_getopt = getopt_loop hrt_option"

definition hrt_check :: "hrt_options \<Rightarrow> bool" where
  "hrt_check cfg \<longleftrightarrow> \<not> (hrt_task_name cfg = None \<or> hrt_stats_file_path cfg = None \<or> hrt_wcet_ms cfg = - 1 \<or>
     hrt_budget_ms cfg = - 1 \<or> hrt_period_ms cfg = - 1 \<or> hrt_duration_ms cfg = - 1 \<or>
     hrt_period_ms cfg > hrt_duration_ms cfg \<or>
     (if hrt_deadline_ms cfg = - 1 then hrt_wcet_ms cfg > hrt_budget_ms cfg
      else hrt_wcet_ms cfg > hrt_deadline_ms cfg \<or> hrt_deadline_ms cfg > hrt_budget_ms cfg) \<or>
     hrt_budget_ms cfg > hrt_period_ms cfg)"

definition hrt_parse :: "(char \<times> string) list \<Rightarrow> hrt_options parsed" where
  "hrt_parse opts =
    (case hrt_getopt opts hrt_defaults of
       Parsed cfg \<Rightarrow> if hrt_check cfg then Parsed cfg else Bad_option
     | r \<Rightarrow> r)"

section \<open>The busy loop\<close>

text \<open>
  The sum of the two overheads, stored in \<open>overhead\<close>; the measurement, whose two calls into the library are arguments;
  the duration that is left of the execution time; the busy loop. \<open>None\<close> inside is a fatal error.
\<close>

definition hrt_sum_overheads :: "time_ptr \<Rightarrow> time_ptr \<Rightarrow> time_ptr \<Rightarrow> time_store \<Rightarrow> time_store option" where
  "hrt_sum_overheads overhead job_stats_overhead task_overhead h = do {
     h \<leftarrow> utility_time_inc_gc overhead job_stats_overhead h;
     utility_time_inc_gc overhead task_overhead h }"

definition hrt_measure :: "(time_store \<Rightarrow> ((int \<times> time_ptr) \<times> time_store) option) \<Rightarrow>
    (time_store \<Rightarrow> ((int \<times> time_ptr) \<times> time_store) option) \<Rightarrow> time_store \<Rightarrow>
    ((time_ptr \<times> time_ptr \<times> time_ptr) option \<times> time_store) option" where
  "hrt_measure call_job_overhead call_task_overhead h = do {
     (overhead, h) \<leftarrow> to_utility_time_dyn 0 Unit_ms h;
     h \<leftarrow> set_manual overhead h;
     ((rc, job_stats_overhead), h) \<leftarrow> call_job_overhead h;
     if rc \<noteq> 0 then Some (None, h)
     else do {
       h \<leftarrow> set_manual job_stats_overhead h;
       ((rc, task_overhead), h) \<leftarrow> call_task_overhead h;
       if rc \<noteq> 0 then Some (None, h)
       else do {
         h \<leftarrow> set_manual task_overhead h;
         h \<leftarrow> hrt_sum_overheads overhead job_stats_overhead task_overhead h;
         Some (Some (overhead, job_stats_overhead, task_overhead), h) } } }"

definition real_wcet :: "hrt_options \<Rightarrow> time_ptr \<Rightarrow> time_store \<Rightarrow> (time_ptr \<times> time_store) option" where
  "real_wcet cfg overhead h = do {
     (wcet, h) \<leftarrow> to_utility_time_dyn (of_int (hrt_wcet_ms cfg)) Unit_ms h;
     utility_time_sub_dyn_gc wcet overhead h }"

definition wcet_busyloop :: "'w sys_env \<Rightarrow> sched_env \<Rightarrow> sched_class \<Rightarrow> hrt_options \<Rightarrow> time_ptr \<Rightarrow> time_store \<Rightarrow> 'w sys_state \<Rightarrow>
    ('l::len word cpu_busyloop option \<times> time_store \<times> 'w sys_state) option" where
  "wcet_busyloop env senv class cfg overhead h s = do {
     (duration, h) \<leftarrow> real_wcet cfg overhead h;
     create_busyloop_or_die env senv class duration h s }"

section \<open>The thread of the task\<close>

definition busyloop_exact :: "'w sys_env \<Rightarrow> 'l::len word cpu_busyloop \<Rightarrow> 'w \<Rightarrow> 'w" where
  "busyloop_exact env busyloop_obj w = keep_cpu_busy env busyloop_obj w"

datatype hrt_end = Hrt_failed | Hrt_fatal | Hrt_done task "u8 list option"

text \<open>What the thread does with signals: blocking all of them, which can fail, and waiting for the one that starts the task.\<close>

record 'w start_env =
  block_signals :: "'w \<Rightarrow> bool \<times> 'w"
  wait_start :: "'w \<Rightarrow> 'w"

text \<open>The world is that of the task; its program is the busy loop.\<close>

definition periodic_task_thread :: "byte_order \<Rightarrow> create_env \<Rightarrow> fsys \<Rightarrow> int \<Rightarrow> sched_env \<Rightarrow> sched_class \<Rightarrow> 'w start_env \<Rightarrow> 'w task_env \<Rightarrow>
    'w sys_env \<Rightarrow> hrt_options \<Rightarrow> 'l::len word cpu_busyloop \<Rightarrow> time_ptr \<Rightarrow> time_ptr \<Rightarrow> 'w \<Rightarrow> time_store \<Rightarrow>
    (hrt_end \<times> 'w \<times> time_store) option" where
  "periodic_task_thread bo cenv fs junk kenv class senv tenv env cfg bl job_stats_overhead task_overhead w h =
    (case block_signals senv w of
       (False, w) \<Rightarrow> Some (Hrt_failed, w, h)
     | (True, w) \<Rightarrow> do {
     ((rc, old, class), h) \<leftarrow> use_cbs_server kenv junk class (hrt_budget_ms cfg) (hrt_period_ms cfg) h;
     if rc \<noteq> 0 then Some (Hrt_failed, w, h)
     else case read_clock tenv (wait_start senv w) of
       (None, w) \<Rightarrow> Some (Hrt_fatal, w, h)
     | (Some t_now, w) \<Rightarrow> do {
        (a, h) \<leftarrow> timespec_to_utility_time_dyn t_now h;
        (b, h) \<leftarrow> to_utility_time_dyn 1 Unit_s h;
        (t_release, h) \<leftarrow> utility_time_add_dyn_gc a b h;
        (wcet, h) \<leftarrow> to_utility_time_dyn (of_int (hrt_wcet_ms cfg)) Unit_ms h;
        (period, h) \<leftarrow> to_utility_time_dyn (of_int (hrt_period_ms cfg)) Unit_ms h;
        (deadline, h) \<leftarrow> to_utility_time_dyn
          (of_int (if hrt_deadline_ms cfg = - 1 then hrt_period_ms cfg else hrt_deadline_ms cfg)) Unit_ms h;
        (offset, h) \<leftarrow> to_utility_time_dyn 0 Unit_ms h;
        ((rc, tau), h) \<leftarrow> task_create bo cenv fs (the (hrt_task_name cfg)) wcet period deadline t_release offset False
          (the (hrt_stats_file_path cfg)) (of_int (hrt_duration_ms cfg div hrt_period_ms cfg)) True
          job_stats_overhead task_overhead h;
        if rc \<noteq> 0 then Some (Hrt_fatal, w, h)
        else do {
          (rc, tau, log, w) \<leftarrow> task_start bo (tenv\<lparr>run_program := busyloop_exact env bl\<rparr>) (the tau) w;
          Some (if rc \<noteq> 0 then Hrt_failed else Hrt_done tau log, w, h) } } })"

text \<open>The clean-up at the end of the program; the busy loop, an object of its own, is freed as well.\<close>

definition hrt_cleanup :: "task \<Rightarrow> time_ptr \<Rightarrow> time_ptr \<Rightarrow> time_ptr \<Rightarrow> time_store \<Rightarrow> time_store option" where
  "hrt_cleanup tau job_stats_overhead task_overhead overhead h = do {
     task_destroy tau;
     h \<leftarrow> utility_time_gc job_stats_overhead h;
     h \<leftarrow> utility_time_gc task_overhead h;
     utility_time_gc overhead h }"

section \<open>Accepted options\<close>

definition hrt_in_range :: "hrt_options \<Rightarrow> bool" where
  "hrt_in_range cfg \<longleftrightarrow> (hrt_wcet_ms cfg = - 1 \<or> 0 < hrt_wcet_ms cfg) \<and> (hrt_duration_ms cfg = - 1 \<or> 0 < hrt_duration_ms cfg) \<and>
     (hrt_period_ms cfg = - 1 \<or> 0 < hrt_period_ms cfg) \<and> (hrt_budget_ms cfg = - 1 \<or> 0 < hrt_budget_ms cfg) \<and>
     (hrt_deadline_ms cfg = - 1 \<or> 0 < hrt_deadline_ms cfg) \<and> hrt_wcet_ms cfg < 2 ^ 31 \<and> hrt_duration_ms cfg < 2 ^ 31 \<and>
     hrt_period_ms cfg < 2 ^ 31 \<and> hrt_budget_ms cfg < 2 ^ 31 \<and> hrt_deadline_ms cfg < 2 ^ 31"

lemma hrt_in_range_update [simp]:
  assumes "hrt_in_range cfg"
  shows "0 < v \<Longrightarrow> v < 2 ^ 31 \<Longrightarrow> hrt_in_range (cfg\<lparr>hrt_wcet_ms := v\<rparr>)" "0 < v \<Longrightarrow> v < 2 ^ 31 \<Longrightarrow> hrt_in_range (cfg\<lparr>hrt_duration_ms := v\<rparr>)"
    "0 < v \<Longrightarrow> v < 2 ^ 31 \<Longrightarrow> hrt_in_range (cfg\<lparr>hrt_period_ms := v\<rparr>)" "0 < v \<Longrightarrow> v < 2 ^ 31 \<Longrightarrow> hrt_in_range (cfg\<lparr>hrt_budget_ms := v\<rparr>)"
    "0 < v \<Longrightarrow> v < 2 ^ 31 \<Longrightarrow> hrt_in_range (cfg\<lparr>hrt_deadline_ms := v\<rparr>)" "hrt_in_range (cfg\<lparr>hrt_task_name := p\<rparr>)"
    "hrt_in_range (cfg\<lparr>hrt_stats_file_path := p\<rparr>)"
  using assms by (simp_all add: hrt_in_range_def)

lemma hrt_option_in_range:
  "hrt_option optchar optarg start = Parsed cfg \<Longrightarrow> hrt_in_range start \<Longrightarrow> hrt_in_range cfg"
  using atoi_bound [of optarg] by (auto simp: hrt_option_def Let_def split: if_split_asm)

lemma hrt_getopt_in_range:
  "hrt_getopt opts start = Parsed cfg \<Longrightarrow> hrt_in_range start \<Longrightarrow> hrt_in_range cfg"
  unfolding hrt_getopt_def by (erule getopt_loop_invariant) (auto dest: hrt_option_in_range)

lemma hrt_accepted:
  assumes "hrt_parse opts = Parsed cfg"
  shows "0 < hrt_wcet_ms cfg" "hrt_wcet_ms cfg \<le> hrt_budget_ms cfg" "hrt_budget_ms cfg \<le> hrt_period_ms cfg"
    "hrt_period_ms cfg \<le> hrt_duration_ms cfg" "hrt_duration_ms cfg < 2 ^ 31"
    "hrt_deadline_ms cfg = - 1 \<or> hrt_wcet_ms cfg \<le> hrt_deadline_ms cfg \<and> hrt_deadline_ms cfg \<le> hrt_budget_ms cfg"
    "hrt_task_name cfg \<noteq> None" "hrt_stats_file_path cfg \<noteq> None"
proof -
  have g: "hrt_getopt opts hrt_defaults = Parsed cfg" "hrt_check cfg"
    using assms by (auto simp: hrt_parse_def split: parsed.splits if_splits)
  have "hrt_in_range cfg" using hrt_getopt_in_range [OF g(1)] by (simp add: hrt_in_range_def hrt_defaults_def)
  then show "0 < hrt_wcet_ms cfg" "hrt_wcet_ms cfg \<le> hrt_budget_ms cfg" "hrt_budget_ms cfg \<le> hrt_period_ms cfg"
    "hrt_period_ms cfg \<le> hrt_duration_ms cfg" "hrt_duration_ms cfg < 2 ^ 31"
    "hrt_deadline_ms cfg = - 1 \<or> hrt_wcet_ms cfg \<le> hrt_deadline_ms cfg \<and> hrt_deadline_ms cfg \<le> hrt_budget_ms cfg"
    "hrt_task_name cfg \<noteq> None" "hrt_stats_file_path cfg \<noteq> None"
    using g(2) by (auto simp: hrt_check_def hrt_in_range_def split: if_splits)
qed

section \<open>From the options to the file\<close>

text \<open>The objects made for the creation of the task, on top of the store: youngest first.\<close>

definition s_t :: "int \<Rightarrow> timespec" where
  "s_t k = ut_t (to_utility_time (of_int k) Unit_s utility_time_init)"

definition task_args :: "hrt_options \<Rightarrow> timespec \<Rightarrow> nat \<Rightarrow> (nat \<times> timespec) list" where
  "task_args cfg now n = [(n + 8, ms_t 0),
     (n + 7, ms_t (if hrt_deadline_ms cfg = - 1 then hrt_period_ms cfg else hrt_deadline_ms cfg)),
     (n + 6, ms_t (hrt_period_ms cfg)), (n + 5, ms_t (hrt_wcet_ms cfg)), (n + 4, time_op utility_time_add now (s_t 1))]"

lemma thread_up_to_creation:
  assumes h: "store_ok h" "n = next_addr h" "\<forall>k. malloc_ok h k" and k: "\<forall>ex. setparam_ex_errno kenv ex = 0"
    and b: "block_signals senv w = (True, w0)" and c: "read_clock tenv (wait_start senv w0) = (Some now, w1)"
    and create: "task_create bo cenv fs (the (hrt_task_name cfg)) (Some (n + 5)) (Some (n + 6)) (Some (n + 7)) (Some (n + 4)) (Some (n + 8)) False
      (the (hrt_stats_file_path cfg)) (of_int (hrt_duration_ms cfg div hrt_period_ms cfg)) True jso fso
      (with_temps h (n + 9) (task_args cfg now n)) = Some ((0, Some tau), h1)"
  shows "periodic_task_thread bo cenv fs junk kenv class senv tenv env cfg bl jso fso w h = do {
    (rc, tau1, log, w2) \<leftarrow> task_start bo (tenv\<lparr>run_program := busyloop_exact env bl\<rparr>) tau w1;
    Some (if rc \<noteq> 0 then Hrt_failed else Hrt_done tau1 log, w2, h1) }"
proof -
  have mk: "malloc_ok h k" for k using h(3) by blast
  let ?p = "ms_t (hrt_period_ms cfg)" and ?t = "time_op utility_time_add now (s_t 1)"
  let ?w = "ms_t (hrt_wcet_ms cfg)" and ?d = "ms_t (if hrt_deadline_ms cfg = - 1 then hrt_period_ms cfg else hrt_deadline_ms cfg)"
  have h0: "h = with_temps h n []" by (simp add: h(2) with_no_temps)
  obtain ex where e: "use_cbs_server kenv junk class (hrt_budget_ms cfg) (hrt_period_ms cfg) (with_temps h n []) =
      Some ((0, None, Deadline ex), with_temps h (n + 2) [])"
    using use_cbs_server_ok [OF h(1,3) k, of junk "class" "hrt_budget_ms cfg" "hrt_period_ms cfg"] h(2)
    by (fastforce simp: with_no_temps)
  have u: "to_utility_time_dyn (of_int v) Unit_ms (with_temps h m ts) = Some (Some m, with_temps h (m + 1) ((m, ms_t v) # ts))"
    if "temps_ok h m ts" for v m ts using temps_units [OF mk that, of "of_int v" Unit_ms] by (simp add: ms_t_def)
  have u0: "to_utility_time_dyn 0 Unit_ms (with_temps h m ts) = Some (Some m, with_temps h (m + 1) ((m, ms_t 0) # ts))"
    if "temps_ok h m ts" for m ts using u [OF that, of 0] by simp
  have s1: "to_utility_time_dyn 1 Unit_s (with_temps h m ts) = Some (Some m, with_temps h (m + 1) ((m, s_t 1) # ts))"
    if "temps_ok h m ts" for m ts using temps_units [OF mk that, of 1 Unit_s] by (simp add: s_t_def)
  have c1: "timespec_to_utility_time_dyn now (with_temps h m ts) = Some (Some m, with_temps h (m + 1) ((m, now) # ts))"
    if "temps_ok h m ts" for m ts using temps_make [OF mk that, of now] by simp
  have a: "utility_time_add_dyn_gc (Some (n + 2)) (Some (n + 3)) (with_temps h (n + 4) [(n + 3, s_t 1), (n + 2, now)]) =
      Some (Some (n + 4), with_temps h (n + 5) [(n + 4, ?t)])"
    using temps_add_dyn_gc [OF mk, of "n + 4" "[(n + 3, s_t 1), (n + 2, now)]" "n + 2" "dynobj now" "n + 3" "dynobj (s_t 1)"] h(1,2)
    by (simp add: collect_temp_obj add.commute [of _ n] add.commute [of _ "next_addr h"])
  have ok: "temps_ok h n []" "temps_ok h (n + 1) [(n, x)]" "temps_ok h (n + 2) []" "temps_ok h (n + 3) [(n + 2, x)]"
    "temps_ok h (n + 5) [(n + 4, x)]" "temps_ok h (n + 6) [(n + 5, y), (n + 4, x)]" "temps_ok h (n + 7) [(n + 6, z), (n + 5, y), (n + 4, x)]"
    "temps_ok h (n + 8) [(n + 7, v), (n + 6, z), (n + 5, y), (n + 4, x)]" for x y z v using h(1,2) by simp_all
  note steps = c1 [OF ok(3)] s1 [OF ok(4)] u [OF ok(5)] u [OF ok(6)] u [OF ok(7)] u0 [OF ok(8)]
  have idx: "n + 1 + 1 = n + 2" "n + 2 + 1 = n + 3" "n + 3 + 1 = n + 4" "n + 5 + 1 = n + 6" "n + 6 + 1 = n + 7" "n + 7 + 1 = n + 8"
    "n + 8 + 1 = n + 9" by simp_all
  have "periodic_task_thread bo cenv fs junk kenv class senv tenv env cfg bl jso fso w (with_temps h n []) = do {
    (rc, tau1, log, w2) \<leftarrow> task_start bo (tenv\<lparr>run_program := busyloop_exact env bl\<rparr>) tau w1;
    Some (if rc \<noteq> 0 then Hrt_failed else Hrt_done tau1 log, w2, h1) }"
    by (simp only: periodic_task_thread_def steps [unfolded idx] e b c a create [unfolded task_args_def] bind.bind_lunit prod.case option.case bool.case
        option.sel if_False if_True simp_thms)
  then show ?thesis using h0 by simp
qed

lemma next_of_temps: "(with_temps h m ts)\<lparr>next_addr := k\<rparr> = with_temps h k ts"
  by (simp add: with_temps_def)

lemma creation:
  assumes h: "store_ok h" "n = next_addr h" "\<forall>k. malloc_ok h k"
    and jf: "cells h j = Some uj" "cells h f = Some uf" "\<not> auto_obj uj" "\<not> auto_obj uf"
    and ok: "ok_task_stats cenv" "ok_task cenv" "ok_name cenv" "ok_path cenv" "ok_ringbuf cenv = (True, True)"
    and fs: "fs_create fs path = Some w0" "66 + length name \<le> ws_room w0" and slots: "slots \<noteq> 0"
  shows "\<exists>tau. task_create bo cenv fs name (Some (n + 5)) (Some (n + 6)) (Some (n + 7)) (Some (n + 4)) (Some (n + 8)) False
      path slots True (Some j) (Some f) (with_temps h (n + 9) (task_args cfg now n)) = Some ((0, Some tau), with_temps h (n + 10) []) \<and>
    tk_name tau = name \<and> ut_t (wcet tau) = ms_t (hrt_wcet_ms cfg) \<and> ut_t (period tau) = ms_t (hrt_period_ms cfg) \<and>
    ut_t (tk_deadline tau) = ms_t (if hrt_deadline_ms cfg = - 1 then hrt_period_ms cfg else hrt_deadline_ms cfg) \<and>
    ut_t (t_0 tau) = time_op utility_time_add now (s_t 1) \<and> ut_t (tk_offset tau) = ms_t 0 \<and>
    ut_t (tk_job_statistics_overhead tau) = ut_t uj \<and> ut_t (tk_finish_to_start_overhead tau) = ut_t uf"
proof -
  let ?H = "with_temps h (n + 9) (task_args cfg now n)"
  have t: "temps_ok h (n + 9) (task_args cfg now n)" using h(1,2) by (simp add: task_args_def)
  have old: "j < n" "f < n" using store_okD(2) [OF h(1)] jf h(2) by auto
  have "jobstats_ringbuf_create (ok_ringbuf cenv) slots True \<noteq> None" using ok(5) slots by (simp add: jobstats_ringbuf_create_def)
  then obtain rb where rb: "Some rb = (if slots = 0 then None else jobstats_ringbuf_create (ok_ringbuf cenv) slots True)" using slots by auto
  have l: "look h (task_args cfg now n) j = Some uj" "look h (task_args cfg now n) f = Some uf"
    using jf old by (simp_all add: task_args_def)
  have live: "live_args ?H [n + 5, n + 6, n + 7, n + 4, n + 8, j, f]"
    using l jf old by (simp add: task_args_def)
  have m: "malloc_ok ?H (next_addr ?H)" using h(3) by simp
  note ev = create_eval [OF temps_ok_store [OF t] m live ok(1-4) fs(1) rb, of bo name False]
  have off: "map_of (task_args cfg now n) j = None" "map_of (task_args cfg now n) f = None" using old by (simp_all add: task_args_def)
  have "collect_all [n + 5, n + 6, n + 7, n + 4, n + 8, j, f] ?H = with_temps h (n + 9) []"
    using h(1,2) jf old by (simp add: task_args_def collect_temp_obj collect_plain)
  then have fin: "(collect_all [n + 5, n + 6, n + 7, n + 4, n + 8, j, f] ?H)\<lparr>next_addr := Suc (next_addr ?H)\<rparr> = with_temps h (n + 10) []"
    by (simp add: next_of_temps add.commute [of _ n] del: collect_all.simps)
  have v: "copy_of_arg ?H (n + 5) = utility_time_to_utility_time (dynobj (ms_t (hrt_wcet_ms cfg))) utility_time_init"
    "copy_of_arg ?H (n + 6) = utility_time_to_utility_time (dynobj (ms_t (hrt_period_ms cfg))) utility_time_init"
    "copy_of_arg ?H (n + 7) = utility_time_to_utility_time (dynobj (ms_t (if hrt_deadline_ms cfg = - 1 then hrt_period_ms cfg else hrt_deadline_ms cfg))) utility_time_init"
    "copy_of_arg ?H (n + 4) = utility_time_to_utility_time (dynobj (time_op utility_time_add now (s_t 1))) utility_time_init"
    "copy_of_arg ?H (n + 8) = utility_time_to_utility_time (dynobj (ms_t 0)) utility_time_init"
    "copy_of_arg ?H j = utility_time_to_utility_time uj utility_time_init" "copy_of_arg ?H f = utility_time_to_utility_time uf utility_time_init"
    using l by (simp_all add: copy_of_arg_def task_args_def)
  have t: "ut_t (utility_time_to_utility_time u utility_time_init) = ut_t u" for u by (simp add: utility_time_to_utility_time_def set_t_def)
  show ?thesis using ev fs(2) slots unfolding fin
    by (simp add: created_def Let_def v t del: collect_all.simps live_args.simps)
qed

lemma small_of_ns: "time_ok u \<Longrightarrow> ns_of u < 2 ^ 32 * 1000000000 \<Longrightarrow> small_time u"
  by (simp add: time_ok_def ns_of_def small_time_def uint64_eq_sint)

lemma s_t: "ns_of (dynobj (s_t 1)) = 1000000000" "time_ok (dynobj (s_t 1))"
  using to_utility_time_correct [of Unit_s 1 utility_time_init] t_congs [of "dynobj (s_t 1)" "to_utility_time 1 Unit_s utility_time_init"]
  by (simp_all add: s_t_def)

text \<open>What is known of the created task in nanoseconds.\<close>

lemma created_times:
  assumes p: "hrt_parse opts = Parsed cfg" and now: "time_ok (dynobj now)" "ns_of (dynobj now) + 1000000000 < 2 ^ 32 * 1000000000"
    and tau: "ut_t (wcet tau) = ms_t (hrt_wcet_ms cfg)" "ut_t (period tau) = ms_t (hrt_period_ms cfg)"
      "ut_t (tk_deadline tau) = ms_t (if hrt_deadline_ms cfg = - 1 then hrt_period_ms cfg else hrt_deadline_ms cfg)"
      "ut_t (t_0 tau) = time_op utility_time_add now (s_t 1)" "ut_t (tk_offset tau) = ms_t 0"
  shows "ns_of (wcet tau) = hrt_wcet_ms cfg * 1000000" "ns_of (period tau) = hrt_period_ms cfg * 1000000"
    "ns_of (tk_deadline tau) = (if hrt_deadline_ms cfg = - 1 then hrt_period_ms cfg else hrt_deadline_ms cfg) * 1000000"
    "ns_of (t_0 tau) = ns_of (dynobj now) + 1000000000" "ns_of (tk_offset tau) = 0"
    "time_ok (t_0 tau)" "time_ok (tk_offset tau)" "time_ok (period tau)"
    "small_time (wcet tau)" "small_time (period tau)" "small_time (tk_deadline tau)" "small_time (t_0 tau)" "small_time (tk_offset tau)"
proof -
  note a = hrt_accepted [OF p]
  let ?d = "if hrt_deadline_ms cfg = - 1 then hrt_period_ms cfg else hrt_deadline_ms cfg"
  have d: "0 \<le> ?d" "?d < 2 ^ 31" using a by auto
  have c: "ns_of u = ns_of (dynobj v)" "time_ok u = time_ok (dynobj v)" if "ut_t u = v" for u v
    using t_congs [of u "dynobj v"] that by simp_all
  have ms: "ns_of u = k * 1000000 \<and> time_ok u \<and> small_time u" if "ut_t u = ms_t k" "0 \<le> k" "k < 2 ^ 31" for u k
    using c [OF that(1)] ms_t [OF that(2,3)] that(2,3) by (simp add: small_of_ns)
  have w: "ns_of (wcet tau) = hrt_wcet_ms cfg * 1000000 \<and> time_ok (wcet tau) \<and> small_time (wcet tau)" using ms tau(1) a by simp
  have p: "ns_of (period tau) = hrt_period_ms cfg * 1000000 \<and> time_ok (period tau) \<and> small_time (period tau)" using ms tau(2) a by simp
  have off: "ns_of (tk_offset tau) = 0 \<and> time_ok (tk_offset tau) \<and> small_time (tk_offset tau)" using ms [OF tau(5)] by simp
  have dl: "ns_of (tk_deadline tau) = ?d * 1000000 \<and> small_time (tk_deadline tau)" using ms [OF tau(3) d] by simp
  have "ns_of (t_0 tau) = ns_of (dynobj now) + 1000000000 \<and> time_ok (t_0 tau)"
    using c [OF tau(4)] time_op_ns(2) [OF now(1) s_t(2)] s_t(1) now(2) by (simp add: time_limit_def)
  moreover from this have "small_time (t_0 tau)" using now(2) by (simp add: small_of_ns)
  ultimately show "ns_of (wcet tau) = hrt_wcet_ms cfg * 1000000" "ns_of (period tau) = hrt_period_ms cfg * 1000000"
    "ns_of (tk_deadline tau) = ?d * 1000000" "ns_of (t_0 tau) = ns_of (dynobj now) + 1000000000" "ns_of (tk_offset tau) = 0"
    "time_ok (t_0 tau)" "time_ok (tk_offset tau)" "time_ok (period tau)"
    "small_time (wcet tau)" "small_time (period tau)" "small_time (tk_deadline tau)" "small_time (t_0 tau)" "small_time (tk_offset tau)"
    using w p off dl by simp_all
qed

text \<open>The busy loop lasts as long as the stated execution time minus the overheads.\<close>

lemma real_wcet_reduced:
  assumes h: "store_ok h" "\<forall>k. malloc_ok h k" and o: "cells h a = Some u" "cells h j = Some uj" "cells h f = Some uf" "a \<noteq> j" "a \<noteq> f"
      "\<not> auto_obj u" "\<not> auto_obj uj" "\<not> auto_obj uf"
    and t: "time_ok u" "time_ok uj" "time_ok uf" "ns_of u = 0" "ns_of uj + ns_of uf < time_limit" and p: "hrt_parse opts = Parsed cfg"
  shows "\<exists>h1 v p tp h2. hrt_sum_overheads (Some a) (Some j) (Some f) h = Some h1 \<and> real_wcet cfg (Some a) h1 = Some (Some p, h2) \<and>
    cells h2 = (cells h)(a \<mapsto> v, p \<mapsto> dynobj tp) \<and> ns_of v = ns_of uj + ns_of uf \<and>
    ns_of (dynobj tp) = max 0 (hrt_wcet_ms cfg * 1000000 - (ns_of uj + ns_of uf))"
proof -
  let ?n = "next_addr h"
  have t0: "temps_ok h ?n []" using h(1) by simp
  have mk: "malloc_ok h k" for k using h(2) by blast
  have old: "a < ?n" "j < ?n" "f < ?n" using store_okD(2) [OF h(1)] o by auto
  define v1 where "v1 = utility_time_inc u uj"
  define v where "v = utility_time_inc v1 uf"
  have l1: "look h [] j = Some uj" using o by simp
  note 1 = temps_inc_gc [OF t0 _ o(1) l1 o(4) v1_def, unfolded collect_plain [OF o(7)]]
  have l2: "cells (assign a v1 h) a = Some v1" "look (assign a v1 h) [] f = Some uf" using o by simp_all
  note 2 = temps_inc_gc [OF 1(2) _ l2 o(5) v_def, unfolded collect_plain [OF o(8)] assign_simps]
  have sum: "hrt_sum_overheads (Some a) (Some j) (Some f) h = Some (with_temps (assign a v h) ?n [])"
    using 1(1) 2(1) by (simp add: hrt_sum_overheads_def with_no_temps)
  have nn: "0 \<le> ns_of uj" "0 \<le> ns_of uf" using t by simp_all
  have v1: "ns_of v1 = ns_of uj \<and> time_ok v1" using inc_correct [OF t(1,2)] t(4,5) nn by (simp add: v1_def)
  then have v: "ns_of v = ns_of uj + ns_of uf" "time_ok v" using inc_correct [of v1 uf] t(3,5) by (simp_all add: v_def)
  have na: "\<not> auto_obj v" using o(6) by (simp add: v_def v1_def auto_obj_def utility_time_inc_def utility_time_add_def set_t_def)
  let ?h = "assign a v h" and ?w = "ms_t (hrt_wcet_ms cfg)"
  have m: "malloc_ok ?h k" for k using mk by simp
  note 3 = temps_units [OF m 2(2), of "of_int (hrt_wcet_ms cfg)" Unit_ms, folded ms_t_def]
  have t3: "temps_ok ?h (Suc ?n) [(?n, ?w)]" using 2(2) by simp
  have l3: "look ?h [(?n, ?w)] ?n = Some (dynobj ?w)" "look ?h [(?n, ?w)] a = Some v" using old by simp_all
  let ?tp = "time_op utility_time_sub ?w (ut_t v)"
  have s: "utility_time_sub_dyn_gc (Some ?n) (Some a) (with_temps ?h (Suc ?n) [(?n, ?w)]) =
      Some (Some (Suc ?n), with_temps ?h (Suc (Suc ?n)) [(Suc ?n, ?tp)])"
    using temps_sub_dyn_gc [OF m t3 l3] 2(2) old na by (simp add: collect_temp_obj collect_plain)
  have "cells (with_temps ?h (Suc (Suc ?n)) [(Suc ?n, ?tp)]) = (cells h)(a \<mapsto> v, Suc ?n \<mapsto> dynobj ?tp)"
    by (auto simp: with_temps_def assign_def fun_eq_iff)
  moreover note a = hrt_accepted [OF p]
  have "ns_of (dynobj ?tp) = max 0 (hrt_wcet_ms cfg * 1000000 - (ns_of uj + ns_of uf))"
    using ms_t [of "hrt_wcet_ms cfg"] a time_op_ns(1) [of ?w "ut_t v"] v t_congs [of "dynobj (ut_t v)" v] by simp
  ultimately show ?thesis using sum 3 s v(1) unfolding real_wcet_def
    by (intro exI [of _ "with_temps ?h ?n []"] exI [of _ v] exI [of _ "Suc ?n"] exI [of _ ?tp]
        exI [of _ "with_temps ?h (Suc (Suc ?n)) [(Suc ?n, ?tp)]"]) simp
qed

text \<open>The clean-up frees what the measurement allocated, and nothing else.\<close>

lemma hrt_cleanup_frees:
  assumes "stats_log tau = No_log" "distinct [j, f, a]" "{j, f, a} \<subseteq> heap_objs h"
    "cells h j = Some uj" "cells h f = Some uf" "cells h a = Some u" "dyn_alloc uj" "dyn_alloc uf" "dyn_alloc u"
  shows "hrt_cleanup tau (Some j) (Some f) (Some a) h =
    Some (h\<lparr>cells := (cells h)(j := None, f := None, a := None), heap_objs := heap_objs h - {j, f, a}\<rparr>)"
  using assms by (auto simp: hrt_cleanup_def task_destroy_def utility_time_gc_def load_def time_free_def intro!: time_store.equality)

section \<open>The whole program\<close>

text \<open>Claim C2. From the command line to the file: once the options are accepted, a task started by \<^verbatim>\<open>hrt_cbs\<close> in a system
  whose calls do not fail runs the jobs of its schedule, the first one second after the start signal and then one every
  \<^verbatim>\<open>PERIOD\<close> milliseconds, and the file it leaves is read back with the name, execution time, period and deadline (the period
  unless \<^verbatim>\<open>-d\<close> is given) that were asked for, the number of jobs, and the first \<^verbatim>\<open>DURATION / PERIOD\<close> jobs. All
  ten time objects made on the way are freed.\<close>

theorem hrt_cbs_records_its_jobs:
  assumes "hrt_parse opts = Parsed cfg" "name = the (hrt_task_name cfg)" "length name < 2 ^ 32 - 1"
      "slots = nat (hrt_duration_ms cfg div hrt_period_ms cfg)" "per = hrt_period_ms cfg * 1000000"
    and "store_ok h" "\<forall>k. malloc_ok h k" "cells h j = Some uj" "cells h f = Some uf" "\<not> auto_obj uj" "\<not> auto_obj uf"
      "small_time uj" "small_time uf"
    and "\<forall>ex. setparam_ex_errno kenv ex = 0" "ok_task_stats cenv" "ok_task cenv" "ok_name cenv" "ok_path cenv"
      "ok_ringbuf cenv = (True, True)" "fs_create fs (the (hrt_stats_file_path cfg)) = Some w0" "ws_out w0 = []" "ws_close_ok w0"
      "90 + length name + 32 * slots \<le> ws_room w0"
    and "block_signals senv w = (True, wb)" "read_clock tenv (wait_start senv wb) = (Some now, w1)" "time_ok (dynobj now)" "start = ns_of (dynobj now) + 1000000000"
      "start < 2 ^ 32 * 1000000000" "start + int (Suc n) * per < time_limit"
    and "te = tenv\<lparr>run_program := busyloop_exact env bl\<rparr>" "healthy te" "Suc n < 2 ^ 64"
      "stops_after te (release te False start per) n w1" "schedule te (release te False start per) 0 (Suc n) w1 = (xs, w2)"
    and "\<forall>n. name_ok n" "\<forall>t a. fst (task_fn t a) = 0" "\<forall>x a. fst (job_fn x a) = 0"
  shows "\<exists>tau log r s1. periodic_task_thread bo cenv fs junk kenv class senv tenv env cfg bl (Some j) (Some f) w h =
      Some (Hrt_done tau (Some log), w2, h\<lparr>next_addr := next_addr h + 10\<rparr>) \<and> task_destroy tau = Some () \<and>
    task_statistics_read bo junk_stats junk_task name_ok (stream_of log) task_fn job_fn args =
      Some (0, s1, fold (\<lambda>x a. snd (job_fn x a)) (take slots xs) (snd (task_fn r args))) \<and>
    tk_name r = name \<and> ns_of (wcet r) = hrt_wcet_ms cfg * 1000000 \<and> ns_of (period r) = per \<and>
    ns_of (tk_deadline r) = (if hrt_deadline_ms cfg = - 1 then hrt_period_ms cfg else hrt_deadline_ms cfg) * 1000000 \<and>
    unat (tk_write_count r) = Suc n \<and> unat (lost_job_count r) = Suc n - slots"
proof -
  let ?n = "next_addr h" and ?path = "the (hrt_stats_file_path cfg)"
  let ?slots = "of_int (hrt_duration_ms cfg div hrt_period_ms cfg) :: u64"
  note a = hrt_accepted [OF assms(1)]
  have q: "1 \<le> hrt_duration_ms cfg div hrt_period_ms cfg" "hrt_duration_ms cfg div hrt_period_ms cfg < 2 ^ 31"
  proof -
    have "hrt_period_ms cfg div hrt_period_ms cfg \<le> hrt_duration_ms cfg div hrt_period_ms cfg" using a by (intro zdiv_mono1) simp_all
    then show "1 \<le> hrt_duration_ms cfg div hrt_period_ms cfg" using a by simp
    have "hrt_duration_ms cfg div hrt_period_ms cfg \<le> hrt_duration_ms cfg div 1" using a by (intro zdiv_mono2) simp_all
    then show "hrt_duration_ms cfg div hrt_period_ms cfg < 2 ^ 31" using a(5) by simp
  qed
  have us: "unat ?slots = slots" using q assms(4) by (simp add: unat_eq_nat_uint uint64_of_int)
  then have s0: "?slots \<noteq> 0" using q assms(4) by auto
  have room: "66 + length name \<le> ws_room w0" using assms(23) by simp
  from creation [OF assms(6) refl assms(7-11,15-20) room s0, of bo cfg now]
  obtain tau where tau: "task_create bo cenv fs name (Some (?n + 5)) (Some (?n + 6)) (Some (?n + 7)) (Some (?n + 4)) (Some (?n + 8)) False
      ?path ?slots True (Some j) (Some f) (with_temps h (?n + 9) (task_args cfg now ?n)) = Some ((0, Some tau), with_temps h (?n + 10) [])"
    "tk_name tau = name" "ut_t (wcet tau) = ms_t (hrt_wcet_ms cfg)" "ut_t (period tau) = ms_t (hrt_period_ms cfg)"
    "ut_t (tk_deadline tau) = ms_t (if hrt_deadline_ms cfg = - 1 then hrt_period_ms cfg else hrt_deadline_ms cfg)"
    "ut_t (t_0 tau) = time_op utility_time_add now (s_t 1)" "ut_t (tk_offset tau) = ms_t 0"
    "ut_t (tk_job_statistics_overhead tau) = ut_t uj" "ut_t (tk_finish_to_start_overhead tau) = ut_t uf" by blast
  note ct = created_times [OF assms(1,26) assms(28) [unfolded assms(27)] tau(3-7)]
  have per: "ns_of (period tau) = per" "start = ns_of (t_0 tau) + ns_of (tk_offset tau)" using ct assms(5,27) by simp_all
  have big: "66 + length name + 24 + 32 * unat ?slots \<le> ws_room w0" using assms(23) us by simp
  from task_start_follows [OF tau(1) s0 assms(20-22) big ct(6-8) per(2), unfolded per(1), OF assms(29,31-34)]
  obtain tau1 tau2 where st: "task_start bo te tau w1 = Some (0, tau2, Some (task_file bo tau1 (window True (unat ?slots) xs)), w2)"
    "stats_log tau2 = No_log" "same_params tau1 tau" "unat (tk_write_count tau1) = Suc n" "unat (lost_job_count tau1) = Suc n - unat ?slots"
    by blast
  let ?log = "task_file bo tau1 (take slots xs)"
  have thread: "periodic_task_thread bo cenv fs junk kenv class senv tenv env cfg bl (Some j) (Some f) w h =
      Some (Hrt_done tau2 (Some ?log), w2, with_temps h (?n + 10) [])"
    using thread_up_to_creation [where bl = bl and env = env, OF assms(6) refl assms(7,14,24,25) tau(1) [unfolded assms(2)]] st(1) assms(30) us by (simp add: window_def)
  have sm: "small_time u \<longleftrightarrow> small_time v" if "ut_t u = ut_t v" for u v using that by (simp add: small_time_def)
  have "disable_job_statistics tau = (?slots = 0)" using create_writes [OF tau(1)] by blast
  then have small: "params_small tau1" "\<not> disable_job_statistics tau1"
    using st(3) ct s0 tau(2) assms(3,12,13) sm [OF tau(8)] sm [OF tau(9)] by (auto simp: params_small_def same_params_def small_time_def)
  from read_task_file [OF small, of name_ok task_fn job_fn bo junk_stats junk_task "take slots xs" args] assms(35-37)
  obtain r s1 where r: "task_statistics_read bo junk_stats junk_task name_ok (stream_of ?log) task_fn job_fn args =
      Some (0, s1, fold (\<lambda>x a. snd (job_fn x a)) (take slots xs) (snd (task_fn r args)))"
    "same_params r tau1" "lost_job_count r = lost_job_count tau1" "tk_write_count r = tk_write_count tau1" by blast
  have same: "tk_name r = tk_name tau" "ut_t (wcet r) = ut_t (wcet tau)" "ut_t (period r) = ut_t (period tau)"
    "ut_t (tk_deadline r) = ut_t (tk_deadline tau)" using r(2) st(3) by (simp_all add: same_params_def)
  have "task_destroy tau2 = Some ()" using st(2) by (simp add: task_destroy_def)
  then show ?thesis using thread r(1) same tau(2) ct(1-3) st(4,5) r(3,4) us per(1) t_congs(1) [OF same(2)] t_congs(1) [OF same(3)] t_congs(1) [OF same(4)]
    by (intro exI [of _ tau2] exI [of _ ?log] exI [of _ r] exI [of _ s1]) (simp add: with_no_temps)
qed

text \<open>A witness: three jobs of a busy loop of one iteration, in a ring of two slots.\<close>

definition hrt_cfg0 :: hrt_options where
  "hrt_cfg0 = \<lparr>hrt_task_name = Some ''tau'', hrt_stats_file_path = Some ''log'', hrt_wcet_ms = 2, hrt_budget_ms = 3,
     hrt_deadline_ms = - 1, hrt_period_ms = 5, hrt_duration_ms = 10\<rparr>"

definition hrt_start0 :: "nat start_env" where
  "hrt_start0 = \<lparr>block_signals = (\<lambda>w. (True, w)), wait_start = id\<rparr>"

definition hrt_task0 :: "nat task_env" where
  "hrt_task0 = life_env\<lparr>is_stopped := (\<lambda>w. 10 \<le> w)\<rparr>"

definition hrt_loop0 :: "u32 cpu_busyloop" where
  "hrt_loop0 = \<lparr>bl_which_cpu = 0, bl_frequency = 0, bl_loop_count = 1, bl_duration = utility_time_init\<rparr>"

lemma hrt_witness_run:
  defines "te \<equiv> hrt_task0\<lparr>run_program := busyloop_exact plain_env hrt_loop0\<rparr>"
  shows "healthy te" "stops_after te (release te False s p) 2 1" "snd (schedule te (release te False s p) 0 3 1) = 10"
proof -
  have r: "release te False s p k w = w" for k w by (simp add: te_def hrt_task0_def release_def life_env_def)
  have "busyloop_exact plain_env hrt_loop0 w = w + 1" for w
    by (simp add: busyloop_exact_def keep_cpu_busy_def busyloop_def hrt_loop0_def plain_env_def busyloop_count)
  then have e: "read_clock te = tick" "run_program te = Suc" "is_stopped te = (\<lambda>w. 10 \<le> w)"
    by (simp_all add: te_def hrt_task0_def life_env_def fun_eq_iff)
  show "healthy te" by (simp add: healthy_def te_def hrt_task0_def life_env_def tick_def)
  have k: "k \<le> 2 \<longleftrightarrow> k = 0 \<or> k = 1 \<or> k = 2" for k :: nat by arith
  show "stops_after te (release te False s p) 2 1"
    unfolding stops_after_def k by (auto simp: r e tick_def numeral_2_eq_2)
  show "snd (schedule te (release te False s p) 0 3 1) = 10"
    by (simp add: r e tick_def numeral_3_eq_3)
qed

lemma hrt_cfg0_parsed:
  "hrt_parse [(CHR ''n'', ''tau''), (CHR ''s'', ''log''), (CHR ''c'', ''2''), (CHR ''q'', ''3''), (CHR ''t'', ''5''),
     (CHR ''x'', ''10'')] = Parsed hrt_cfg0"
  by code_simp

definition lost_jobs :: "task \<Rightarrow> nat \<Rightarrow> int \<times> nat" where
  "lost_jobs r n = (0, n + unat (lost_job_count r))"

theorem hrt_cbs_records_its_jobs_witness:
  "\<forall>junk_task. \<exists>tau log s1. periodic_task_thread CPU_LITTLE_ENDIAN good_create (one_file life_log) 0 env_ok (Posix 0 0)
      hrt_start0 hrt_task0 plain_env hrt_cfg0 hrt_loop0 (Some 0) (Some 1) 0 args_store =
      Some (Hrt_done tau (Some log), 10, args_store\<lparr>next_addr := 17\<rparr>) \<and>
    task_statistics_read CPU_LITTLE_ENDIAN [] junk_task (\<lambda>_. True) (stream_of log) lost_jobs count_jobs 0 = Some (0, s1, 3)"
  (is "\<forall>junk_task. ?goal junk_task")
proof
  fix junk_task
  let ?now = "\<lparr>tv_sec = 0, tv_nsec = 0\<rparr>" and ?te = "hrt_task0\<lparr>run_program := busyloop_exact plain_env hrt_loop0\<rparr>"
  note run = hrt_witness_run
  obtain xs where xs: "schedule ?te (release ?te False 1000000000 5000000) 0 (Suc 2) 1 = (xs, 10)"
    using run(3) [of 1000000000 5000000] by (cases "schedule ?te (release ?te False 1000000000 5000000) 0 3 1") simp
  then have "length xs = 3" using length_schedule [of ?te "release ?te False 1000000000 5000000" 0 "Suc 2" 1] by simp
  then have count: "fold (\<lambda>x a. snd (count_jobs x a)) (take 2 xs) (1 :: nat) = 3"
    by (auto simp: numeral_3_eq_3 numeral_2_eq_2 length_Suc_conv count_jobs_def)
  have cfg: "hrt_wcet_ms hrt_cfg0 = 2" "hrt_period_ms hrt_cfg0 = 5" "hrt_deadline_ms hrt_cfg0 = - 1" "hrt_duration_ms hrt_cfg0 = 10"
    "hrt_task_name hrt_cfg0 = Some ''tau''" by (simp_all add: hrt_cfg0_def)
  have now: "read_clock hrt_task0 (wait_start hrt_start0 0) = (Some ?now, 1)"
    by (simp add: hrt_task0_def life_env_def hrt_start0_def tick_def)
  have at: "cells args_store 0 = Some (ut 1 0)" "cells args_store 1 = Some (ut 1 0)" "next_addr args_store = 7"
    by (simp_all add: args_store_def)
  have ut: "small_time (ut 1 0)" "time_ok (dynobj ?now)" "ns_of (dynobj ?now) = 0"
    by (simp_all add: small_time_def ut_def set_t_def dynobj_def ns_of_def time_ok_def utility_time_init_def)
  have "\<exists>tau log (r :: task) s1. periodic_task_thread CPU_LITTLE_ENDIAN good_create (one_file life_log) 0 env_ok (Posix 0 0)
      hrt_start0 hrt_task0 plain_env hrt_cfg0 hrt_loop0 (Some 0) (Some 1) 0 args_store =
      Some (Hrt_done tau (Some log), 10, args_store\<lparr>next_addr := next_addr args_store + 10\<rparr>) \<and> task_destroy tau = Some () \<and>
    task_statistics_read CPU_LITTLE_ENDIAN [] junk_task (\<lambda>_. True) (stream_of log) lost_jobs count_jobs 0 =
      Some (0, s1, fold (\<lambda>x a. snd (count_jobs x a)) (take 2 xs) (snd (lost_jobs r 0))) \<and>
    tk_name (r :: task) = ''tau'' \<and> ns_of (wcet r) = hrt_wcet_ms hrt_cfg0 * 1000000 \<and> ns_of (period r) = 5000000 \<and>
    ns_of (tk_deadline r) = (if hrt_deadline_ms hrt_cfg0 = - 1 then hrt_period_ms hrt_cfg0 else hrt_deadline_ms hrt_cfg0) * 1000000 \<and>
    unat (tk_write_count r) = Suc 2 \<and> unat (lost_job_count r) = Suc 2 - 2"
    by (rule hrt_cbs_records_its_jobs [OF hrt_cfg0_parsed, where ?w0.0 = life_log and wb = 0 and now = ?now and n = 2 and
        start = 1000000000 and per = 5000000 and xs = xs and uj = "ut 1 0" and uf = "ut 1 0" and slots = 2 and te = ?te])
      (use cfg now at ut xs run in \<open>simp_all add: env_ok_def life_log_def hrt_start0_def time_limit_def count_jobs_def lost_jobs_def\<close>)
  then obtain tau log r s1 where "periodic_task_thread CPU_LITTLE_ENDIAN good_create (one_file life_log) 0 env_ok (Posix 0 0)
      hrt_start0 hrt_task0 plain_env hrt_cfg0 hrt_loop0 (Some 0) (Some 1) 0 args_store =
      Some (Hrt_done tau (Some log), 10, args_store\<lparr>next_addr := next_addr args_store + 10\<rparr>)"
    "task_statistics_read CPU_LITTLE_ENDIAN [] junk_task (\<lambda>_. True) (stream_of log) lost_jobs count_jobs 0 =
      Some (0, s1, fold (\<lambda>x a. snd (count_jobs x a)) (take 2 xs) (snd (lost_jobs r 0)))" "unat (lost_job_count r) = Suc 2 - 2" by blast
  with count at(3) show "?goal junk_task" by (auto simp: lost_jobs_def)
qed

end
