(* ===== verification/Cpu_Hog_Cbs.thy ===== *)
theory Cpu_Hog_Cbs
  imports C_Strings Program_Setup
begin

text \<open>
  A load in a constant bandwidth server (\<^verbatim>\<open>cpu_hog_cbs.c\<close>): chunks of a busy loop with an optional sleep between them,
  endless or up to a stopping time. The loops may run forever, so they are partial functions; when and after how
  many chunks they end follows from what the clock shows.
\<close>

section \<open>Options\<close>

record hog_options =
  exec_time_ms :: int
  break_time_ms :: int
  hog_budget_ms :: int
  hog_period_ms :: int
  stopping_time :: int
  hog_silent :: bool

definition hog_defaults :: hog_options where
  "hog_defaults = \<lparr>exec_time_ms = - 1, break_time_ms = - 1, hog_budget_ms = - 1, hog_period_ms = - 1, stopping_time = - 1,
     hog_silent = False\<rparr>"

definition hog_option :: "char \<Rightarrow> string \<Rightarrow> hog_options \<Rightarrow> hog_options parsed" where
  "hog_option optchar optarg cfg =
    (if optchar = CHR ''e'' then Parsed (cfg\<lparr>exec_time_ms := atoi optarg\<rparr>)
     else if optchar = CHR ''b'' then Parsed (cfg\<lparr>break_time_ms := atoi optarg\<rparr>)
     else if optchar = CHR ''q'' then Parsed (cfg\<lparr>hog_budget_ms := atoi optarg\<rparr>)
     else if optchar = CHR ''t'' then Parsed (cfg\<lparr>hog_period_ms := atoi optarg\<rparr>)
     else if optchar = CHR ''s'' then Parsed (cfg\<lparr>stopping_time := atoi optarg\<rparr>)
     else if optchar = CHR ''z'' then Parsed (cfg\<lparr>hog_silent := True\<rparr>)
     else if optchar = CHR ''h'' then Help
     else Bad_option)"

definition hog_getopt :: "(char \<times> string) list \<Rightarrow> hog_options \<Rightarrow> hog_options parsed" where
  "hog_getopt = getopt_loop hog_option"

definition hog_check :: "hog_options \<Rightarrow> bool" where
  "hog_check cfg \<longleftrightarrow> \<not> (exec_time_ms cfg \<le> 0 \<or> break_time_ms cfg < 0 \<or> hog_budget_ms cfg \<le> 0 \<or>
     hog_period_ms cfg < hog_budget_ms cfg \<or> stopping_time cfg \<noteq> - 1 \<and> stopping_time cfg \<le> 0)"

definition hog_parse :: "(char \<times> string) list \<Rightarrow> hog_options parsed" where
  "hog_parse opts =
    (case hog_getopt opts hog_defaults of
       Parsed cfg \<Rightarrow> if hog_check cfg then Parsed cfg else Bad_option
     | r \<Rightarrow> r)"

text \<open>The two times computed along with the checks.\<close>

definition hog_break_time :: "hog_options \<Rightarrow> timespec" where
  "hog_break_time cfg = to_timespec (to_utility_time (of_int (break_time_ms cfg)) Unit_ms utility_time_init)"

definition hog_max_duration :: "hog_options \<Rightarrow> utility_time" where
  "hog_max_duration cfg = to_utility_time (of_int (stopping_time cfg)) Unit_ms utility_time_init"

section \<open>Chunks\<close>

text \<open>
  The world with its clock, its sleep and the signal that starts the program. The result of \<^verbatim>\<open>clock_gettime\<close> is
  not checked: on failure the program goes on with what is in the variable, \<open>uninitialised\<close>.
\<close>

record 'w hog_env =
  hog_sys :: "'w sys_env"
  hog_clock :: "'w \<Rightarrow> timespec option \<times> 'w"
  uninitialised :: timespec
  hog_nanosleep :: "timespec \<Rightarrow> 'w \<Rightarrow> 'w"
  hog_suspend :: "'w \<Rightarrow> 'w"

definition read_time :: "'w hog_env \<Rightarrow> 'w \<Rightarrow> timespec \<times> 'w" where
  "read_time env w = (let (t, w) = hog_clock env w in (case t of Some t \<Rightarrow> t | None \<Rightarrow> uninitialised env, w))"

definition busyloop_sleep_cycle_with_break :: "'w hog_env \<Rightarrow> 'l::len word cpu_busyloop \<Rightarrow> timespec \<Rightarrow> int \<times> 'w \<Rightarrow> int \<times> 'w" where
  "busyloop_sleep_cycle_with_break env exec_busyloop break_time s =
    (let (chunk_counter, w) = s; w = keep_cpu_busy (hog_sys env) exec_busyloop w; w = hog_nanosleep env break_time w
     in (chunk_counter + 1, w))"

definition busyloop_sleep_cycle_no_break :: "'w hog_env \<Rightarrow> 'l::len word cpu_busyloop \<Rightarrow> int \<times> 'w \<Rightarrow> int \<times> 'w" where
  "busyloop_sleep_cycle_no_break env exec_busyloop s =
    (let (chunk_counter, w) = s; w = keep_cpu_busy (hog_sys env) exec_busyloop w in (chunk_counter + 1, w))"

definition break_at_stopping_time :: "'w hog_env \<Rightarrow> utility_time \<Rightarrow> utility_time \<Rightarrow> 'w \<Rightarrow> bool \<times> 'w" where
  "break_at_stopping_time env max_duration t1_abs w =
    (let (t2, w) = read_time env w; t2_abs = timespec_to_utility_time t2 utility_time_init;
         t2_abs = utility_time_sub t2_abs t1_abs t2_abs
     in (utility_time_ge t2_abs max_duration, w))"

text \<open>
  The loop of the macro \<^verbatim>\<open>CYCLE\<close>: a chunk, then the test that leaves the loop. The state is whether it is left,
  the counter and the world.
\<close>

definition cycle_step :: "(int \<times> 'w \<Rightarrow> int \<times> 'w) \<Rightarrow> ('w \<Rightarrow> bool \<times> 'w) \<Rightarrow> bool \<times> int \<times> 'w \<Rightarrow> bool \<times> int \<times> 'w" where
  "cycle_step cyc test s =
    (let (_, chunk_counter, w) = s; (chunk_counter, w) = cyc (chunk_counter, w); (left, w) = test w in (left, chunk_counter, w))"

definition cycle_loop :: "(int \<times> 'w \<Rightarrow> int \<times> 'w) \<Rightarrow> ('w \<Rightarrow> bool \<times> 'w) \<Rightarrow> int \<Rightarrow> 'w \<Rightarrow> (bool \<times> int \<times> 'w) option" where
  "cycle_loop cyc test chunk_counter w = while_option (\<lambda>s. \<not> fst s) (cycle_step cyc test) (False, chunk_counter, w)"

definition hog_cpu :: "'w hog_env \<Rightarrow> timespec option \<Rightarrow> utility_time option \<Rightarrow> 'l::len word cpu_busyloop \<Rightarrow> int \<Rightarrow> 'w \<Rightarrow>
    (utility_time \<times> int \<times> 'w) option" where
  "hog_cpu env break_time max_duration exec_busyloop chunk_counter w =
    (let (t1, w) = read_time env w; t1_abs = timespec_to_utility_time t1 utility_time_init in do {
     (_, chunk_counter, w) \<leftarrow>
       (case (break_time, max_duration) of
          (Some b, None) \<Rightarrow> cycle_loop (busyloop_sleep_cycle_with_break env exec_busyloop b) (Pair False) chunk_counter w
        | (Some b, Some d) \<Rightarrow> cycle_loop (busyloop_sleep_cycle_with_break env exec_busyloop b) (break_at_stopping_time env d t1_abs)
            chunk_counter w
        | (None, None) \<Rightarrow> cycle_loop (busyloop_sleep_cycle_no_break env exec_busyloop) (Pair False) chunk_counter w
        | (None, Some d) \<Rightarrow> cycle_loop (busyloop_sleep_cycle_no_break env exec_busyloop) (break_at_stopping_time env d t1_abs)
            chunk_counter w);
     Some (t1_abs, chunk_counter, w) })"

section \<open>Statistics and signals\<close>

definition fmt_d :: "int \<Rightarrow> string" where
  "fmt_d n = (if n < 0 then CHR ''-'' # show_nat (nat (- n)) else show_nat (nat n))"

definition print_stats :: "'w hog_env \<Rightarrow> utility_time \<Rightarrow> int \<Rightarrow> bool \<Rightarrow> 'w \<Rightarrow> string \<times> 'w" where
  "print_stats env t1_abs chunk_counter silent w =
    (let (t2, w) = read_time env w; t2_abs = timespec_to_utility_time t2 utility_time_init;
         t2_abs = utility_time_sub t2_abs t1_abs t2_abs; t_str = fst (to_string t2_abs 32)
     in (if silent then [] else fmt_d chunk_counter @ [CHR 0x0A] @ t_str @ [CHR 0x0A], w))"

text \<open>The handler: what it prints, and whether it jumps to the clean-up instead of returning.\<close>

datatype hog_signal = SIGTERM | SIGHUP | SIGUSR1

definition hog_sighand :: "'w hog_env \<Rightarrow> bool \<Rightarrow> utility_time \<Rightarrow> int \<Rightarrow> hog_signal \<Rightarrow> 'w \<Rightarrow> string \<times> bool \<times> 'w" where
  "hog_sighand env silent t1_abs chunk_counter signo w =
    (if signo = SIGTERM then let (out, w) = print_stats env t1_abs chunk_counter silent w in (out, True, w)
     else if signo = SIGHUP then let (out, w) = print_stats env t1_abs chunk_counter False w in (out, False, w)
     else ([], False, w))"

section \<open>The program\<close>

text \<open>From the checked options on; \<open>None\<close> inside is a fatal error.\<close>

definition exec_busyloop :: "'w sys_env \<Rightarrow> sched_env \<Rightarrow> sched_class \<Rightarrow> hog_options \<Rightarrow> time_store \<Rightarrow> 'w sys_state \<Rightarrow>
    ('l::len word cpu_busyloop option \<times> time_store \<times> 'w sys_state) option" where
  "exec_busyloop env senv class cfg h s = do {
     (duration, h) \<leftarrow> to_utility_time_dyn (of_int (exec_time_ms cfg)) Unit_ms h;
     create_busyloop_or_die env senv class duration h s }"

definition hog_main :: "'w hog_env \<Rightarrow> int \<Rightarrow> sched_env \<Rightarrow> sched_class \<Rightarrow> hog_options \<Rightarrow> 'l::len word cpu_busyloop \<Rightarrow> 'w \<Rightarrow>
    time_store \<Rightarrow> (string option \<times> 'w \<times> time_store) option" where
  "hog_main env junk kenv class cfg bl w h = do {
     ((rc, old, class), h) \<leftarrow> use_cbs_server kenv junk class (hog_budget_ms cfg) (hog_period_ms cfg) h;
     if rc \<noteq> 0 then Some (None, w, h)
     else do {
       (t1_abs, chunk_counter, w) \<leftarrow> hog_cpu env (if break_time_ms cfg = 0 then None else Some (hog_break_time cfg))
         (if stopping_time cfg = - 1 then None else Some (hog_max_duration cfg)) bl 0 (hog_suspend env w);
       let (out, w) = print_stats env t1_abs chunk_counter (hog_silent cfg) w in Some (Some out, w, h) } }"

section \<open>When the loop is left\<close>

text \<open>The cycle that \<open>hog_cpu\<close> repeats.\<close>

definition hog_cycle :: "'w hog_env \<Rightarrow> timespec option \<Rightarrow> 'l::len word cpu_busyloop \<Rightarrow> int \<times> 'w \<Rightarrow> int \<times> 'w" where
  "hog_cycle env break_time bl = (case break_time of
     Some b \<Rightarrow> busyloop_sleep_cycle_with_break env bl b | None \<Rightarrow> busyloop_sleep_cycle_no_break env bl)"

lemma hog_cycle_counts: "hog_cycle env brk bl (k, w) = (k + 1, snd (hog_cycle env brk bl (0, w)))"
  by (simp add: hog_cycle_def busyloop_sleep_cycle_with_break_def busyloop_sleep_cycle_no_break_def split: option.splits)

lemma hog_cpu_eq:
  "hog_cpu env brk limit bl k w =
    (let (t1, w) = read_time env w; t1_abs = timespec_to_utility_time t1 utility_time_init in
     map_option (\<lambda>(_, n, w). (t1_abs, n, w))
       (cycle_loop (hog_cycle env brk bl) (case limit of None \<Rightarrow> Pair False | Some d \<Rightarrow> break_at_stopping_time env d t1_abs) k w))"
  by (cases brk; cases limit) (simp_all add: hog_cpu_def hog_cycle_def Let_def split_def map_conv_bind_option comp_def)

abbreviation reading :: "'w hog_env \<Rightarrow> 'w \<Rightarrow> int" where
  "reading env w \<equiv> ns_of (dynobj (fst (read_time env w)))"

text \<open>
  By the clock, which does not go back, a chunk takes at least \<open>d\<close> nanoseconds, as long as the clock shows a time
  before \<open>t\<close>.
\<close>

definition chunks_last :: "'w hog_env \<Rightarrow> timespec option \<Rightarrow> 'l::len word cpu_busyloop \<Rightarrow> int \<Rightarrow> int \<Rightarrow> bool" where
  "chunks_last env brk bl d t \<longleftrightarrow> (\<forall>w. time_ok (dynobj (fst (read_time env w))) \<and> reading env w \<le> reading env (snd (read_time env w)) \<and>
     (reading env w < t \<longrightarrow> reading env w + d \<le> reading env (snd (hog_cycle env brk bl (0, snd (read_time env w))))))"

lemma break_test:
  assumes "time_ok (dynobj t1)" "time_ok (dynobj (fst (read_time env w)))" "ns_of (dynobj t1) \<le> reading env w" "time_ok D"
  shows "break_at_stopping_time env D (timespec_to_utility_time t1 utility_time_init) w =
    (ns_of D \<le> reading env w - ns_of (dynobj t1), snd (read_time env w))"
proof -
  let ?u = "\<lambda>t. timespec_to_utility_time t utility_time_init"
  have u: "ns_of (?u t) = ns_of (dynobj t)" "time_ok (?u t) = time_ok (dynobj t)" for t
    by (rule t_congs, simp add: timespec_to_utility_time_def set_t_def dynobj_def)+
  show ?thesis
    using sub_correct [of "?u (fst (read_time env w))" "?u t1" "?u (fst (read_time env w))"] assms
    by (simp add: break_at_stopping_time_def Let_def split_def ge_is_order order_ns_of u)
qed

lemma cycles:
  assumes c: "chunks_last env brk bl d (ns_of (dynobj t1) + ns_of D)" "0 \<le> d" and t1: "read_time env w0 = (t1, w1)"
    and D: "time_ok D" "0 < ns_of D"
    and step: "step = cycle_step (hog_cycle env brk bl) (break_at_stopping_time env D (timespec_to_utility_time t1 utility_time_init))"
  shows "\<forall>i<n. \<not> fst ((step ^^ i) (False, k, w1)) \<Longrightarrow>
    \<exists>v. (step ^^ n) (False, k, w1) = (0 < n \<and> ns_of D \<le> reading env v - ns_of (dynobj t1), k + int n, snd (read_time env v)) \<and>
      ns_of (dynobj t1) + int n * d \<le> reading env v \<and> (n = 0 \<longrightarrow> v = w0)"
proof (induction n)
  case 0
  then show ?case using t1 by (intro exI [of _ w0]) simp
next
  case (Suc n)
  then obtain v where v: "(step ^^ n) (False, k, w1) =
      (0 < n \<and> ns_of D \<le> reading env v - ns_of (dynobj t1), k + int n, snd (read_time env v))"
    "ns_of (dynobj t1) + int n * d \<le> reading env v" "n = 0 \<longrightarrow> v = w0" by auto
  have "\<not> fst ((step ^^ n) (False, k, w1))" using Suc.prems by blast
  then have "reading env v < ns_of (dynobj t1) + ns_of D" using v D(2) t1 by (cases "n = 0") auto
  let ?v = "snd (hog_cycle env brk bl (0, snd (read_time env v)))"
  have a: "time_ok (dynobj t1)" "time_ok (dynobj (fst (read_time env ?v)))" "reading env v + d \<le> reading env ?v"
    using c(1) t1 \<open>reading env v < ns_of (dynobj t1) + ns_of D\<close> unfolding chunks_last_def by (metis fst_conv)+
  then have e: "ns_of (dynobj t1) + int (Suc n) * d \<le> reading env ?v" using v(2) by (simp add: distrib_right)
  moreover have "0 \<le> int (Suc n) * d" using c(2) by simp
  ultimately have "ns_of (dynobj t1) \<le> reading env ?v" by linarith
  note b = break_test [OF a(1,2) this D(1)]
  have "(step ^^ Suc n) (False, k, w1) = step ((step ^^ n) (False, k, w1))" by simp
  also have "\<dots> = (ns_of D \<le> reading env ?v - ns_of (dynobj t1), k + int (Suc n), snd (read_time env ?v))"
    unfolding v(1) by (simp add: step cycle_step_def hog_cycle_counts [of _ _ _ "k + int n"] b)
  finally show ?case using e by (intro exI [of _ ?v]) simp
qed

text \<open>Without a stopping time the loop is never left.\<close>

lemma endless: "cycle_loop cyc (Pair False) k w = None"
proof -
  let ?step = "cycle_step cyc (Pair False)"
  have "\<not> fst ((?step ^^ n) (False, k, w))" for n
    by (cases n) (simp_all add: cycle_step_def split_def)
  then have "cycle_loop cyc (Pair False) k w \<noteq> Some t" for t
    using while_option_first [of "\<lambda>s. \<not> fst s" ?step "(False, k, w)" t] by (auto simp: cycle_loop_def)
  then show ?thesis by blast
qed

text \<open>With a stopping time it is left after the first chunk that ends when the time is over.\<close>

lemma hog_stops:
  assumes c: "chunks_last env brk bl d (reading env w0 + ns_of D)" "0 < d" and D: "time_ok D" "0 < ns_of D"
  shows "\<exists>n v. hog_cpu env brk (Some D) bl 0 w0 =
      Some (timespec_to_utility_time (fst (read_time env w0)) utility_time_init, int n, snd (read_time env v)) \<and>
    0 < n \<and> (int n - 1) * d < ns_of D \<and> ns_of D \<le> reading env v - reading env w0"
proof -
  let ?t1 = "fst (read_time env w0)" and ?w1 = "snd (read_time env w0)"
  define t1_abs where "t1_abs = timespec_to_utility_time ?t1 utility_time_init"
  define step where "step = cycle_step (hog_cycle env brk bl) (break_at_stopping_time env D t1_abs)"
  let ?left = "\<lambda>n. fst ((step ^^ n) (False, 0, ?w1))"
  have "0 \<le> d" "read_time env w0 = (?t1, ?w1)" using c(2) by simp_all
  note it = cycles [OF c(1) this D step_def [unfolded t1_abs_def], of _ 0]
  have "\<exists>n. ?left n"
  proof (rule ccontr)
    assume never: "\<nexists>n. ?left n"
    with it [of "nat (ns_of D)"] obtain v where v: "(step ^^ nat (ns_of D)) (False, 0, ?w1) =
        (0 < nat (ns_of D) \<and> ns_of D \<le> reading env v - reading env w0, 0 + int (nat (ns_of D)), snd (read_time env v))"
      "reading env w0 + int (nat (ns_of D)) * d \<le> reading env v" by blast
    have "ns_of D * 1 \<le> ns_of D * d" by (rule mult_left_mono) (use c(2) D(2) in simp_all)
    moreover have "reading env w0 + ns_of D * d \<le> reading env v" using v(2) D(2) by simp
    ultimately have "ns_of D \<le> reading env v - reading env w0" by linarith
    then show False using v(1) D(2) never by (metis (no_types, lifting) fst_conv zero_less_nat_eq)
  qed
  define n where "n = (LEAST n. ?left n)"
  have left: "?left n" unfolding n_def using \<open>\<exists>n. ?left n\<close> by (rule LeastI_ex)
  have first: "\<not> ?left i" if "i < n" for i using that not_less_Least [of i ?left] by (simp add: n_def)
  from it [of n] first obtain v where v: "(step ^^ n) (False, 0, ?w1) = (True, int n, snd (read_time env v))" "0 < n"
    "ns_of D \<le> reading env v - reading env w0" using left by auto
  have "(int n - 1) * d < ns_of D"
  proof (cases "n = 1")
    case False
    have "\<forall>i<n - 1. \<not> ?left i" using first by simp
    from it [OF this] obtain v where "(step ^^ (n - 1)) (False, 0, ?w1) =
        (0 < n - 1 \<and> ns_of D \<le> reading env v - reading env w0, 0 + int (n - 1), snd (read_time env v))"
      "reading env w0 + int (n - 1) * d \<le> reading env v" by blast
    moreover have "\<not> ?left (n - 1)" "int (n - 1) = int n - 1" "0 < n - 1" using first [of "n - 1"] v(2) False by simp_all
    ultimately show ?thesis by auto
  qed (use D(2) in simp)
  moreover have "cycle_loop (hog_cycle env brk bl) (break_at_stopping_time env D t1_abs) 0 ?w1 =
      Some (True, int n, snd (read_time env v))"
    using v(1) left first while_option_first [of "\<lambda>s. \<not> fst s" step "(False, 0, ?w1)"]
    unfolding cycle_loop_def step_def [symmetric] by (auto intro!: exI [of _ n])
  ultimately show ?thesis using v(2,3)
    by (intro exI [of _ n] exI [of _ v]) (simp add: hog_cpu_eq Let_def split_def t1_abs_def)
qed

section \<open>Accepted options and the whole run\<close>

definition hog_in_range :: "hog_options \<Rightarrow> bool" where
  "hog_in_range cfg \<longleftrightarrow> exec_time_ms cfg < 2 ^ 31 \<and> break_time_ms cfg < 2 ^ 31 \<and> hog_budget_ms cfg < 2 ^ 31 \<and>
     hog_period_ms cfg < 2 ^ 31 \<and> stopping_time cfg < 2 ^ 31"

lemma hog_accepted:
  assumes "hog_parse opts = Parsed cfg"
  shows "0 < exec_time_ms cfg" "stopping_time cfg = - 1 \<or> 0 < stopping_time cfg" "stopping_time cfg < 2 ^ 31"
proof -
  have g: "hog_getopt opts hog_defaults = Parsed cfg" "hog_check cfg"
    using assms by (auto simp: hog_parse_def split: parsed.splits if_splits)
  have "hog_in_range cfg"
    using g(1) unfolding hog_getopt_def
    by (rule getopt_loop_invariant)
      (use atoi_bound in \<open>auto simp: hog_in_range_def hog_defaults_def hog_option_def split: if_splits\<close>)
  then show "0 < exec_time_ms cfg" "stopping_time cfg = - 1 \<or> 0 < stopping_time cfg" "stopping_time cfg < 2 ^ 31"
    using g(2) by (auto simp: hog_check_def hog_in_range_def)
qed

lemma max_duration:
  assumes "0 < stopping_time cfg" "stopping_time cfg < 2 ^ 31"
  shows "ns_of (hog_max_duration cfg) = stopping_time cfg * 1000000" "time_ok (hog_max_duration cfg)"
proof -
  have "ut_t (hog_max_duration cfg) = ut_t (dynobj (ms_t (stopping_time cfg)))" by (simp add: hog_max_duration_def ms_t_def)
  from t_congs [OF this]
  show "ns_of (hog_max_duration cfg) = stopping_time cfg * 1000000" "time_ok (hog_max_duration cfg)"
    using ms_t [of "stopping_time cfg"] assms by simp_all
qed

lemma length_printed:
  assumes "time_ok u" shows "length (to_file_string u) < 32"
proof -
  have "int (unat (ut_sec u)) < 2 ^ 63" "int (unat (ut_nsec u)) < 1000000000"
    unfolding time_ok_unat [OF assms] using assms sint64_range(2) [of "ut_sec u"] by (simp_all add: time_ok_def)
  then have b: "unat (ut_sec u) < 10 ^ 19" "unat (ut_nsec u) < 10 ^ 9" by (simp_all add: unat_less_uint)
  show ?thesis using length_show_nat [OF b(1)] fmt_0lu_9 [OF b(2)] by (simp add: to_file_string_def fmt_lu_def)
qed

text \<open>What is printed: the number of chunks, and a time that is normalised and at least the time measured so far.\<close>

lemma print_stats_text:
  assumes "time_ok (dynobj t1)" "time_ok (dynobj (fst (read_time env w)))"
  shows "\<exists>u. print_stats env (timespec_to_utility_time t1 utility_time_init) n silent w =
      (if silent then [] else fmt_d n @ [CHR 0x0A] @ to_file_string u @ [CHR 0x0A], snd (read_time env w)) \<and>
    time_ok u \<and> ns_of u = max 0 (reading env w - ns_of (dynobj t1))"
proof -
  let ?u = "\<lambda>t. timespec_to_utility_time t utility_time_init"
  let ?v = "utility_time_sub (?u (fst (read_time env w))) (?u t1) (?u (fst (read_time env w)))"
  have u: "ns_of (?u t) = ns_of (dynobj t)" "time_ok (?u t) = time_ok (dynobj t)" for t
    by (rule t_congs, simp add: timespec_to_utility_time_def set_t_def dynobj_def)+
  have v: "time_ok ?v \<and> ns_of ?v = max 0 (reading env w - ns_of (dynobj t1))"
    using sub_correct [of "?u (fst (read_time env w))" "?u t1" "?u (fst (read_time env w))"] assms by (simp add: u)
  then have "to_string ?v 32 = (to_file_string ?v, 0)" by (intro to_string_fits length_printed) simp
  with v show ?thesis by (intro exI [of _ ?v]) (simp add: print_stats_def Let_def split_def)
qed


definition hog_cfg0 :: hog_options where
  "hog_cfg0 = \<lparr>exec_time_ms = 600, break_time_ms = 0, hog_budget_ms = 1, hog_period_ms = 2, stopping_time = 2000, hog_silent = False\<rparr>"

text \<open>A clock that counts the chunks in seconds, up to some limit.\<close>

definition hog_env0 :: "nat hog_env" where
  "hog_env0 = \<lparr>hog_sys = plain_env, hog_clock = (\<lambda>w. (Some \<lparr>tv_sec = of_nat (min w 1000), tv_nsec = 0\<rparr>, w)),
     uninitialised = \<lparr>tv_sec = 0, tv_nsec = 0\<rparr>, hog_nanosleep = (\<lambda>_ w. w), hog_suspend = id\<rparr>"

definition hog_loop0 :: "u32 cpu_busyloop" where
  "hog_loop0 = \<lparr>bl_which_cpu = 0, bl_frequency = 0, bl_loop_count = 1, bl_duration = utility_time_init\<rparr>"

lemma hog_env0_reading: "reading hog_env0 w = int (min w 1000) * 1000000000" "time_ok (dynobj (fst (read_time hog_env0 w)))"
  "snd (read_time hog_env0 w) = w"
proof -
  define k where "k = int (min w 1000)"
  have "sint (word_of_int k :: i64) = k" by (rule sint64_of_int) (simp_all add: k_def)
  then have "sint (of_nat (min w 1000) :: i64) = int (min w 1000)" by (simp only: k_def of_int_of_nat_eq)
  then show "reading hog_env0 w = int (min w 1000) * 1000000000" "time_ok (dynobj (fst (read_time hog_env0 w)))"
    "snd (read_time hog_env0 w) = w"
    by (simp_all add: read_time_def hog_env0_def ns_of_def time_ok_def dynobj_def Let_def)
qed


end
