(* ===== verification/Server_Hog.thy ===== *)
theory Server_Hog
  imports Bwi_Server
begin

text \<open>
  The load on a server of the bandwidth inheritance experiments (\<^verbatim>\<open>bwi-client_server/server_hog.c\<close>): a loop that
  sends a message and waits for it to come back, and counts the cycles.
\<close>

section \<open>Options\<close>

definition hogger_option :: "char \<Rightarrow> string \<Rightarrow> int \<Rightarrow> int parsed" where
  "hogger_option optchar optarg port =
    (if optchar = CHR ''p'' then
       (let v = atoi optarg in if v < 1024 \<or> 65535 < v then Bad_option else Parsed v)
     else if optchar = CHR ''h'' then Help
     else Bad_option)"

definition hogger_parse :: "(char \<times> string) list \<Rightarrow> int parsed" where
  "hogger_parse opts =
    (case getopt_loop hogger_option opts (- 1) of
       Parsed port \<Rightarrow> if port = - 1 then Bad_option else Parsed port
     | r \<Rightarrow> r)"

section \<open>The cycle\<close>

text \<open>
  \<^verbatim>\<open>send\<close> and \<^verbatim>\<open>recv\<close> on the connected socket: an error number, or the number of bytes sent, or the datagram received,
  which is cut off at the length of the buffer.
\<close>

record 'w hogger_env =
  hg_send :: "bytes \<Rightarrow> 'w \<Rightarrow> (int + nat) \<times> 'w"
  hg_recv :: "'w \<Rightarrow> (int + bytes) \<times> 'w"
  hg_terminated :: "'w \<Rightarrow> bool"

datatype hogger_status = Hogging | Hogger_fatal | Hogger_overflow

record 'w hogger_state =
  hg_world :: 'w
  counter :: int
  hg_status :: hogger_status

text \<open>
  \<^verbatim>\<open>send_recv\<close>: \<^verbatim>\<open>byte_sent\<close>, \<^verbatim>\<open>byte_rcvd\<close>, \<^verbatim>\<open>send_errno\<close>, \<^verbatim>\<open>recv_errno\<close> and the buffer. Unlike the server and the client
  it goes on to \<^verbatim>\<open>recv\<close> when \<^verbatim>\<open>send\<close> has failed.
\<close>

definition hogger_send_recv :: "'w hogger_env \<Rightarrow> bytes \<Rightarrow> bytes \<Rightarrow> 'w \<Rightarrow> (int \<times> int \<times> int \<times> int \<times> bytes) \<times> 'w" where
  "hogger_send_recv env data buffer w =
    (let (r, w) = hg_send env data w;
         (byte_sent, send_errno) = (case r of Inl e \<Rightarrow> (- 1, e) | Inr n \<Rightarrow> (int n, 0));
         (r, w) = hg_recv env w;
         (byte_rcvd, recv_errno, buffer) =
           (case r of Inl e \<Rightarrow> (- 1, e, buffer)
            | Inr bs \<Rightarrow> let got = take (length buffer) bs in (int (length got), 0, got @ drop (length got) buffer))
     in ((byte_sent, byte_rcvd, send_errno, recv_errno, buffer), w))"

definition hogger_cycle :: "'w hogger_env \<Rightarrow> bytes \<Rightarrow> 'w hogger_state \<Rightarrow> 'w hogger_state" where
  "hogger_cycle env message_buf s =
    (let response_buf = replicate (length message_buf) 0;
         ((byte_sent, byte_rcvd, send_errno, recv_errno, response_buf), w) =
           hogger_send_recv env message_buf response_buf (hg_world s);
         s = s\<lparr>hg_world := w\<rparr>
     in if byte_sent = - 1 \<and> send_errno \<noteq> EINTR then s\<lparr>hg_status := Hogger_fatal\<rparr>
        else if byte_sent \<noteq> - 1 \<and> byte_sent \<noteq> int (length message_buf) then s\<lparr>hg_status := Hogger_fatal\<rparr>
        else if byte_rcvd = - 1 \<and> recv_errno \<noteq> EINTR then s\<lparr>hg_status := Hogger_fatal\<rparr>
        else if byte_rcvd \<noteq> - 1 \<and> byte_rcvd \<noteq> int (length response_buf) then s\<lparr>hg_status := Hogger_fatal\<rparr>
        else if byte_rcvd \<noteq> - 1 \<and> message_buf \<noteq> response_buf then s\<lparr>hg_status := Hogger_fatal\<rparr>
        else if counter s + 1 = 2 ^ 31 then s\<lparr>hg_status := Hogger_overflow\<rparr>
        else s\<lparr>counter := counter s + 1\<rparr>)"

definition hogger_loop :: "'w hogger_env \<Rightarrow> bytes \<Rightarrow> 'w hogger_state \<Rightarrow> 'w hogger_state option" where
  "hogger_loop env message_buf =
     while_option (\<lambda>s. hg_status s = Hogging \<and> \<not> hg_terminated env (hg_world s)) (hogger_cycle env message_buf)"

section \<open>What is counted\<close>

text \<open>A cycle that begins in world \<open>w\<close> receives the message back, or no response at all, because a signal interrupted \<^verbatim>\<open>recv\<close>.\<close>

definition answered :: "'w hogger_env \<Rightarrow> bytes \<Rightarrow> 'w \<Rightarrow> bool" where
  "answered env msg w \<longleftrightarrow> (\<exists>bs. fst (hg_recv env (snd (hg_send env msg w))) = Inr bs \<and> take (length msg) bs = msg)"

definition interrupted :: "'w hogger_env \<Rightarrow> bytes \<Rightarrow> 'w \<Rightarrow> bool" where
  "interrupted env msg w \<longleftrightarrow> fst (hg_recv env (snd (hg_send env msg w))) = Inl EINTR"

lemma cycle_goes_on:
  assumes "hg_status s = Hogging" "hg_status (hogger_cycle env msg s) = Hogging"
  shows "counter (hogger_cycle env msg s) = counter s + 1 \<and>
    (answered env msg (hg_world s) \<or> interrupted env msg (hg_world s))"
proof -
  obtain r w1 where r: "hg_send env msg (hg_world s) = (r, w1)" by fastforce
  obtain r2 w2 where r2: "hg_recv env w1 = (r2, w2)" by fastforce
  have a: "answered env msg (hg_world s) \<longleftrightarrow> (\<exists>bs. r2 = Inr bs \<and> take (length msg) bs = msg)"
    "interrupted env msg (hg_world s) \<longleftrightarrow> r2 = Inl EINTR"
    by (simp_all add: answered_def interrupted_def r r2)
  show ?thesis using assms unfolding a hogger_cycle_def hogger_send_recv_def Let_def
    by (cases r; cases r2) (simp_all add: r r2 split: if_splits)
qed

lemma never_hogging_again: "hg_status s \<noteq> Hogging \<Longrightarrow> hg_status (hogger_cycle env msg s) \<noteq> Hogging"
  by (auto simp: hogger_cycle_def Let_def split: prod.splits if_splits)

text \<open>
  The counter, which is printed as the number of responses, is the number of cycles: the responses and the interruptions,
  among them those by the signal that asks for the number.
\<close>

theorem hogger_counts_interruptions:
  assumes "hg_status s0 = Hogging" "counter s0 = 0" "s = (hogger_cycle env msg ^^ n) s0" "hg_status s = Hogging"
  shows "counter s = int (card {i. i < n \<and> answered env msg (hg_world ((hogger_cycle env msg ^^ i) s0))}) +
    int (card {i. i < n \<and> interrupted env msg (hg_world ((hogger_cycle env msg ^^ i) s0))})"
proof -
  let ?s = "\<lambda>i. (hogger_cycle env msg ^^ i) s0" and ?c = "hogger_cycle env msg"
  have on: "hg_status (?s i) = Hogging" if "i \<le> n" for i
    using that
  proof (induction "n - i" arbitrary: i)
    case 0
    then show ?case using assms(3,4) by simp
  next
    case (Suc k)
    from Suc.hyps(1) [of "Suc i"] Suc.hyps(2) have "hg_status (?s (Suc i)) = Hogging" using assms(3,4) by simp
    then show ?case using never_hogging_again [of "?s i" env msg] by auto
  qed
  have step: "counter (?s (Suc i)) = counter (?s i) + 1 \<and>
      (answered env msg (hg_world (?s i)) \<or> interrupted env msg (hg_world (?s i)))" if "i < n" for i
    using cycle_goes_on [of "?s i" env msg] on [of i] on [of "Suc i"] that by simp
  have count: "i \<le> n \<Longrightarrow> counter (?s i) = int i" for i
    using assms(2) step by (induction i) auto
  let ?A = "{i. i < n \<and> answered env msg (hg_world (?s i))}" and ?I = "{i. i < n \<and> interrupted env msg (hg_world (?s i))}"
  have "?A \<union> ?I = {..<n}" using step by auto
  moreover have "?A \<inter> ?I = {}" by (auto simp: answered_def interrupted_def)
  then have "card (?A \<union> ?I) = card ?A + card ?I" by (intro card_Un_disjoint) simp_all
  ultimately show ?thesis using count [of n] assms(3) by simp
qed

end
