(* ===== verification/Utility_Time_Objects.thy ===== *)
theory Utility_Time_Objects
  imports Utility_Time_Temps
begin

text \<open>
  Programs that hold objects of both kinds at once, those that are collected automatically and those whose collection
  was made manual: a store is a base store and a list of younger objects with their flags. Every operation is
  an equation on the list, as for the temporaries of \<open>Utility_Time_Temps\<close>.
\<close>

type_synonym objs = "(nat \<times> utility_time) list"

definition with_objs :: "time_store \<Rightarrow> nat \<Rightarrow> objs \<Rightarrow> time_store" where
  "with_objs h n us = h\<lparr>cells := (\<lambda>a. case map_of us a of Some u \<Rightarrow> Some u | None \<Rightarrow> cells h a),
     heap_objs := heap_objs h \<union> fst ` set us, next_addr := n\<rparr>"

definition objs_ok :: "time_store \<Rightarrow> nat \<Rightarrow> objs \<Rightarrow> bool" where
  "objs_ok h n us \<longleftrightarrow> store_ok h \<and> next_addr h \<le> n \<and> (\<forall>p \<in> set us. next_addr h \<le> fst p \<and> fst p < n)"

definition without :: "nat set \<Rightarrow> objs \<Rightarrow> objs" where
  "without A us = filter (\<lambda>p. fst p \<notin> A) us"

definition made_manual :: "nat \<Rightarrow> objs \<Rightarrow> objs" where
  "made_manual a us = map (\<lambda>(b, u). (b, if b = a then utility_time_set_gc_manual u else u)) us"

named_theorems obj_simps \<open>evaluation of operations on lists of objects\<close>

lemma with_no_objs: "with_objs h n [] = h\<lparr>next_addr := n\<rparr>" "with_objs h (next_addr h) [] = h"
  by (simp_all add: with_objs_def)

lemma with_objs_fields [simp]:
  "next_addr (with_objs h n us) = n" "malloc_ok (with_objs h n us) = malloc_ok h"
  "(with_objs h n us)\<lparr>next_addr := m\<rparr> = with_objs h m us"
  by (simp_all add: with_objs_def)

lemma cells_objs: "map_of us a = Some u \<Longrightarrow> cells (with_objs h n us) a = Some u"
  by (simp add: with_objs_def)

lemma load_objs: "map_of us a = Some u \<Longrightarrow> load (Some a) (with_objs h n us) = Some u"
  by (simp add: with_objs_def)

lemma map_of_without [simp]: "map_of (without A us) a = (if a \<in> A then None else map_of us a)"
  by (induction us) (auto simp: without_def)

lemma without_simps [simp]:
  "without A [] = []" "without A ((b, u) # us) = (if b \<in> A then without A us else (b, u) # without A us)"
  "without A (without B us) = without (A \<union> B) us" "without {} us = us"
  by (auto simp: without_def intro: filter_cong)

lemma map_of_made_manual [simp]:
  "map_of (made_manual a us) b = (if b = a then map_option utility_time_set_gc_manual (map_of us b) else map_of us b)"
  by (induction us) (auto simp: made_manual_def)

lemma made_manual_simps [simp]:
  "made_manual a [] = []" "made_manual a ((b, u) # us) = (b, if b = a then utility_time_set_gc_manual u else u) # made_manual a us"
  by (simp_all add: made_manual_def)

lemma objs_ok_simps [simp]:
  "objs_ok h n [] \<longleftrightarrow> store_ok h \<and> next_addr h \<le> n"
  "objs_ok h n ((b, u) # us) \<longleftrightarrow> next_addr h \<le> b \<and> b < n \<and> objs_ok h n us"
  by (auto simp: objs_ok_def)

lemma objs_ok_without [intro]: "objs_ok h n us \<Longrightarrow> objs_ok h n (without A us)"
  by (auto simp: objs_ok_def without_def)

lemma objs_ok_manual [intro]: "objs_ok h n us \<Longrightarrow> objs_ok h n (made_manual a us)"
  by (auto simp: objs_ok_def made_manual_def)

lemma objs_ok_later: "objs_ok h n us \<Longrightarrow> n \<le> m \<Longrightarrow> objs_ok h m us"
  by (auto simp: objs_ok_def)

lemma objs_old: "objs_ok h n us \<Longrightarrow> map_of us a = Some u \<Longrightarrow> next_addr h \<le> a \<and> a < n"
  by (auto simp: objs_ok_def dest!: map_of_SomeD)

lemma objs_ok_store: "objs_ok h n us \<Longrightarrow> store_ok (with_objs h n us)"
  unfolding store_ok_def objs_ok_def
  by (auto simp: with_objs_def dest!: map_of_SomeD split: option.splits)
    (metis fst_conv image_eqI map_of_eq_None_iff option.distinct(1))+

lemma alloc_obj: "alloc v (with_objs h n us) = with_objs h (Suc n) ((n, dynobj v) # us)"
  by (auto simp: alloc_def with_objs_def fun_eq_iff)

lemma drop_obj:
  assumes "objs_ok h n us" "next_addr h \<le> a"
  shows "(with_objs h n us)\<lparr>cells := (cells (with_objs h n us))(a := None), heap_objs := heap_objs (with_objs h n us) - {a}\<rparr> =
    with_objs h n (without {a} us)"
proof -
  have f: "cells h a = None" "a \<notin> heap_objs h" using assms store_okD(3) by (auto simp: objs_ok_def)
  have "fst ` set (without {a} us) = fst ` set us - {a}" by (auto simp: without_def)
  then show ?thesis using f
    by (auto simp: with_objs_def fun_eq_iff intro!: time_store.equality split: option.splits)
qed

lemma collect_obj:
  assumes "objs_ok h n us" "map_of us a = Some u"
  shows "collect a u (with_objs h n us) = with_objs h n (if auto_obj u then without {a} us else us)"
  using drop_obj [OF assms(1)] objs_old [OF assms] by (simp add: collect_def)

section \<open>The operations\<close>

lemma objs_units:
  assumes "malloc_ok h n" "objs_ok h n us"
  shows "to_utility_time_dyn k unit (with_objs h n us) =
    Some (Some n, with_objs h (Suc n) ((n, dynobj (ut_t (to_utility_time k unit utility_time_init))) # us))"
  using eval_leaf [of "with_objs h n us" "Of_units k unit"] objs_ok_store [OF assms(2)] assms(1) by (simp add: alloc_obj)

lemma objs_make:
  assumes "malloc_ok h n" "objs_ok h n us"
  shows "timespec_to_utility_time_dyn v (with_objs h n us) = Some (Some n, with_objs h (Suc n) ((n, dynobj v) # us))"
  using eval_leaf [of "with_objs h n us" "Of_timespec v"] objs_ok_store [OF assms(2)] assms(1) by (simp add: alloc_obj)

lemma objs_sub_dyn:
  assumes "malloc_ok h n" "objs_ok h n us" "map_of us x = Some a" "map_of us y = Some b"
  shows "utility_time_sub_dyn (Some x) (Some y) (with_objs h n us) =
    Some (Some n, with_objs h (Suc n) ((n, dynobj (time_op utility_time_sub (ut_t a) (ut_t b))) # us))"
  using sub.fill [of "with_objs h n us" x a y b] assms objs_ok_store [OF assms(2)]
  by (simp add: utility_time_sub_dyn_def alloc_obj cells_objs)

lemma objs_add_dyn_gc:
  assumes "malloc_ok h n" "objs_ok h n us" "map_of us x = Some a" "map_of us y = Some b" "x \<noteq> y"
  shows "utility_time_add_dyn_gc (Some x) (Some y) (with_objs h n us) =
    Some (Some n, with_objs h (Suc n) ((n, dynobj (time_op utility_time_add (ut_t a) (ut_t b))) #
      without ((if auto_obj a then {x} else {}) \<union> (if auto_obj b then {y} else {})) us))"
proof -
  let ?v = "(n, dynobj (time_op utility_time_add (ut_t a) (ut_t b)))" and ?A = "if auto_obj a then {x} else {}"
  have old: "x < n" "y < n" "next_addr h \<le> n" using objs_old [OF assms(2,3)] objs_old [OF assms(2,4)] by simp_all
  have ok: "objs_ok h (Suc n) (?v # us)" using assms(2) old objs_ok_later [of h n us "Suc n"] by simp
  have ok2: "objs_ok h (Suc n) (?v # without ?A us)" using ok by (simp add: objs_ok_without)
  have "map_of (?v # us) x = Some a" "map_of (?v # without ?A us) y = Some b" using assms(3-5) old by simp_all
  note c = collect_obj [OF ok this(1)] collect_obj [OF ok2 this(2)]
  have "collect x a (with_objs h (Suc n) (?v # us)) = with_objs h (Suc n) (?v # without ?A us)"
    using c(1) old by simp
  moreover have "collect y b (with_objs h (Suc n) (?v # without ?A us)) =
      with_objs h (Suc n) (?v # without (?A \<union> (if auto_obj b then {y} else {})) us)"
    using c(2) old by (simp add: Un_commute)
  ultimately show ?thesis
    using add.dyn_gc_live [of "with_objs h n us" x a y b] assms objs_ok_store [OF assms(2)]
    by (simp add: alloc_obj cells_objs)
qed

lemma objs_manual:
  assumes "map_of us a = Some u"
  shows "set_manual (Some a) (with_objs h n us) = Some (with_objs h n (made_manual a us))"
proof -
  have "fst ` set (made_manual a us) = fst ` set us" by (force simp: made_manual_def)
  then show ?thesis using assms
    by (auto simp: set_manual_def with_objs_def store_def fun_eq_iff intro!: time_store.equality split: option.splits)
qed

lemma objs_gc:
  assumes "objs_ok h n us" "map_of us a = Some u" "dyn_alloc u"
  shows "utility_time_gc (Some a) (with_objs h n us) = Some (with_objs h n (without {a} us))"
    "utility_time_gc_auto (Some a) (with_objs h n us) = Some (with_objs h n (if manual_gc u then us else without {a} us))"
proof -
  note l = load_objs [OF assms(2), of h n]
  have m: "a \<in> heap_objs (with_objs h n us)" "cells (with_objs h n us) a = Some u"
    using store_okD(1) [OF objs_ok_store [OF assms(1)] cells_objs [OF assms(2)] assms(3)] cells_objs [OF assms(2)] by simp_all
  show "utility_time_gc (Some a) (with_objs h n us) = Some (with_objs h n (without {a} us))"
    using l m assms(3) drop_obj [OF assms(1), of a] objs_old [OF assms(1,2)] by (simp add: utility_time_gc_def time_free_def)
  then show "utility_time_gc_auto (Some a) (with_objs h n us) = Some (with_objs h n (if manual_gc u then us else without {a} us))"
    using l by (simp add: utility_time_gc_auto_def)
qed

lemma objs_to_timespec_gc:
  assumes "objs_ok h n us" "map_of us a = Some (dynobj v)"
  shows "to_timespec_gc (Some a) (with_objs h n us) = Some (v, with_objs h n (without {a} us))"
  using load_objs [OF assms(2), of h n] objs_gc(2) [OF assms] by (simp add: to_timespec_gc_def read_gc_def to_timespec_def)

lemma manual_flags [simp]:
  "ut_t (utility_time_set_gc_manual u) = ut_t u" "dyn_alloc (utility_time_set_gc_manual u) = dyn_alloc u"
  "dyn_alloc u \<Longrightarrow> manual_gc (utility_time_set_gc_manual u)" "\<not> auto_obj (utility_time_set_gc_manual u)"
  by (simp_all add: utility_time_set_gc_manual_def auto_obj_def)

end
