(* ===== verification/Experiments.thy ===== *)
theory Experiments
  imports Hrt_Cbs Utility_Time_Objects
begin

text \<open>
  What the programs of the experiments with schedulers have in common (\<^verbatim>\<open>rate_monotonic/main.c\<close>,
  \<^verbatim>\<open>earliest_deadline_first/main.c\<close>): they measure the overheads, make one busy loop per task that is shorter by the
  overheads, compute when the tasks are to start and to stop, and free everything at the end. What a program writes
  once for each task, as a macro, is a function on the list of the tasks here. \<open>None\<close> inside is the jump to the error label.
\<close>

section \<open>The passages\<close>

fun make_times :: "time_unit \<Rightarrow> int list \<Rightarrow> time_store \<Rightarrow> (time_ptr list \<times> time_store) option" where
  "make_times unit [] h = Some ([], h)"
| "make_times unit (k # ks) h = do {
     (p, h) \<leftarrow> to_utility_time_dyn (of_int k) unit h;
     (ps, h) \<leftarrow> make_times unit ks h;
     Some (p # ps, h) }"

text \<open>The measurements: whether they succeed, and the pointers to the overheads (\<open>None\<close> is \<^verbatim>\<open>NULL\<close>).\<close>

type_synonym overheads = "time_ptr \<times> time_ptr \<times> time_ptr"

definition exp_overheads :: "(time_store \<Rightarrow> ((int \<times> time_ptr) \<times> time_store) option) \<Rightarrow>
    (time_store \<Rightarrow> ((int \<times> time_ptr) \<times> time_store) option) \<Rightarrow> time_store \<Rightarrow>
    ((bool \<times> overheads) \<times> time_store) option" where
  "exp_overheads call_job_overhead call_task_overhead h = do {
     ((rc, job_stats_overhead), h) \<leftarrow> call_job_overhead h;
     if rc \<noteq> 0 then Some ((False, job_stats_overhead, None, None), h)
     else do {
       h \<leftarrow> set_manual job_stats_overhead h;
       ((rc, task_overhead), h) \<leftarrow> call_task_overhead h;
       if rc \<noteq> 0 then Some ((False, job_stats_overhead, task_overhead, None), h)
       else do {
         h \<leftarrow> set_manual task_overhead h;
         (overhead, h) \<leftarrow> utility_time_add_dyn_gc job_stats_overhead task_overhead h;
         h \<leftarrow> set_manual overhead h;
         Some ((True, job_stats_overhead, task_overhead, overhead), h) } } }"

fun check_wcets :: "time_ptr list \<Rightarrow> time_ptr \<Rightarrow> time_store \<Rightarrow> bool option" where
  "check_wcets [] overhead h = Some True"
| "check_wcets (w # ws) overhead h = do {
     a \<leftarrow> load w h; b \<leftarrow> load overhead h;
     if utility_time_lt a b then Some False else check_wcets ws overhead h }"

fun create_busyloops :: "'w sys_env \<Rightarrow> sched_env \<Rightarrow> sched_class \<Rightarrow> time_ptr \<Rightarrow> time_ptr \<Rightarrow> time_ptr list \<Rightarrow> time_store \<Rightarrow>
    'w sys_state \<Rightarrow> ('l::len word cpu_busyloop list option \<times> time_store \<times> 'w sys_state) option" where
  "create_busyloops env senv class overhead tolerance [] h s = Some (Some [], h, s)"
| "create_busyloops env senv class overhead tolerance (w # ws) h s = do {
     (duration, h) \<leftarrow> utility_time_sub_dyn w overhead h;
     ((rc, r), h, s) \<leftarrow> create_cpu_busyloop env senv class 0 duration tolerance 10 h s;
     if rc \<noteq> 0 then Some (None, h, s)
     else (case r of
       Busyloop bl \<Rightarrow> do {
         (bls, h, s) \<leftarrow> create_busyloops env senv class overhead tolerance ws h s;
         Some (map_option (Cons bl) bls, h, s) }
     | _ \<Rightarrow> None) }"

definition instant_after :: "timespec \<Rightarrow> time_ptr \<Rightarrow> time_store \<Rightarrow> (timespec \<times> time_store) option" where
  "instant_after t_now offset h = do {
     (a, h) \<leftarrow> timespec_to_utility_time_dyn t_now h;
     (p, h) \<leftarrow> utility_time_add_dyn_gc a offset h;
     to_timespec_gc p h }"

text \<open>The two times that are made for the call, and the call. \<open>cenv\<close> are the allocations in it.\<close>

definition create_exp_task :: "byte_order \<Rightarrow> create_env \<Rightarrow> fsys \<Rightarrow> timespec \<Rightarrow> nat \<Rightarrow> time_ptr \<Rightarrow> time_ptr \<Rightarrow> time_ptr \<Rightarrow> u64 \<Rightarrow>
    time_ptr \<Rightarrow> time_ptr \<Rightarrow> time_store \<Rightarrow> ((int \<times> task option) \<times> time_store) option" where
  "create_exp_task bo cenv fs t_release i w p d slots job_stats_overhead task_overhead h = do {
     (t_0, h) \<leftarrow> timespec_to_utility_time_dyn t_release h;
     (offset, h) \<leftarrow> to_utility_time_dyn 0 Unit_ms h;
     task_create bo cenv fs (''tau '' @ show_nat i) w p d t_0 offset False (''tau_'' @ show_nat i @ ''_stats.bin'') slots True
       job_stats_overhead task_overhead h }"

fun destroy_tasks :: "task list \<Rightarrow> unit option" where
  "destroy_tasks [] = Some ()"
| "destroy_tasks (tau # rest) = do { task_destroy tau; destroy_tasks rest }"

definition gc_not_null :: "time_ptr \<Rightarrow> time_store \<Rightarrow> time_store option" where
  "gc_not_null p h = (if p \<noteq> None then utility_time_gc p h else Some h)"

definition free_overheads :: "overheads \<Rightarrow> time_store \<Rightarrow> time_store option" where
  "free_overheads v h = (case v of (job_stats_overhead, task_overhead, overhead) \<Rightarrow> do {
     h \<leftarrow> gc_not_null overhead h;
     h \<leftarrow> gc_not_null task_overhead h;
     gc_not_null job_stats_overhead h })"

section \<open>Their effect on the store\<close>

lemma without_fresh: "objs_ok h n us \<Longrightarrow> n \<le> a \<Longrightarrow> without {a} us = us"
  unfolding without_def by (rule filter_True) (auto simp: objs_ok_def)

lemma without_manual [simp]: "a \<in> A \<Longrightarrow> without A (made_manual a us) = without A us"
  by (induction us) (auto simp: without_def made_manual_def)

fun numbered :: "nat \<Rightarrow> (int \<Rightarrow> timespec) \<Rightarrow> int list \<Rightarrow> objs" where
  "numbered n f [] = []"
| "numbered n f (k # ks) = numbered (Suc n) f ks @ [(n, dynobj (f k))]"

lemma without_insert_fresh: "objs_ok h n us \<Longrightarrow> n \<le> a \<Longrightarrow> without (insert a A) us = without A us"
  unfolding without_def by (rule filter_cong) (auto simp: objs_ok_def)

lemma make_times_objs:
  assumes "\<forall>k. malloc_ok h k" "objs_ok h n us"
  shows "make_times unit ks (with_objs h n us) =
    Some (map Some [n..<n + length ks],
      with_objs h (n + length ks) (numbered n (\<lambda>k. ut_t (to_utility_time (of_int k) unit utility_time_init)) ks @ us))"
  using assms(2)
proof (induction ks arbitrary: n us)
  case (Cons k ks)
  have m: "malloc_ok h n" using assms(1) by blast
  let ?v = "(n, dynobj (ut_t (to_utility_time (of_int k) unit utility_time_init)))"
  have "objs_ok h (Suc n) (?v # us)" using Cons.prems objs_ok_later [of h n us "Suc n"] by (auto simp: objs_ok_def)
  moreover have "[n..<n + length (k # ks)] = n # [Suc n..<Suc n + length ks]" by (simp add: upt_conv_Cons del: upt_Suc)
  ultimately show ?case
    using objs_units [OF m Cons.prems, of "of_int k" unit] Cons.IH [of "Suc n"] by (simp del: upt_Suc)
qed simp

text \<open>
  The times that a program makes at the start: those of the tasks, the tolerance of the busy loops, the periods, and the
  two offsets.
\<close>

abbreviation tolerance_t :: timespec where
  "tolerance_t \<equiv> ut_t (to_utility_time 100 Unit_us utility_time_init)"

lemma times_made:
  assumes m: "\<forall>k. malloc_ok h k" and h: "store_ok h" and n: "n = next_addr h"
    and ab: "a = n + length xs" "b = Suc a + length ys"
    and ts: "T = numbered n ms_t xs" "T1 = (a, dynobj tolerance_t) # T" "T2 = numbered (Suc a) ms_t ys @ T1"
      "T3 = (b, dynobj (ut_t (to_utility_time u U utility_time_init))) # T2"
  shows "make_times Unit_ms xs h = Some (map Some [n..<a], with_objs h a T)"
    "to_utility_time_dyn 100 Unit_us (with_objs h a T) = Some (Some a, with_objs h (Suc a) T1)"
    "make_times Unit_ms ys (with_objs h (Suc a) T1) = Some (map Some [Suc a..<b], with_objs h b T2)"
    "to_utility_time_dyn u U (with_objs h b T2) = Some (Some b, with_objs h (Suc b) T3)"
    "to_utility_time_dyn v U (with_objs h (Suc b) T3) =
      Some (Some (Suc b), with_objs h (Suc (Suc b)) ((Suc b, dynobj (ut_t (to_utility_time v U utility_time_init))) # T3))"
    "objs_ok h (Suc (Suc b)) ((Suc b, dynobj (ut_t (to_utility_time v U utility_time_init))) # T3)"
proof -
  have mk: "malloc_ok h k" for k using m by blast
  have f: "(\<lambda>k. ut_t (to_utility_time (of_int k) Unit_ms utility_time_init)) = ms_t" by (simp add: ms_t_def fun_eq_iff)
  have num: "objs_ok h (i + length ks) (numbered i ms_t ks @ us)" if "objs_ok h i us" for i ks us
    using that
  proof (induction ks arbitrary: i us)
    case (Cons k ks)
    have "next_addr h \<le> i" using Cons.prems by (simp add: objs_ok_def)
    then have "objs_ok h (Suc i) ((i, dynobj (ms_t k)) # us)" using objs_ok_later [OF Cons.prems, of "Suc i"] by simp
    from Cons.IH [OF this] show ?case by simp
  qed simp
  have ok0: "objs_ok h n []" using h n by simp
  have ok1: "objs_ok h a T" using num [OF ok0, of xs] by (simp add: ab ts)
  have ok2: "objs_ok h (Suc a) T1" using objs_ok_later [OF ok1, of "Suc a"] ab n by (simp add: ts)
  have ok3: "objs_ok h b T2" using num [OF ok2, of ys] by (simp add: ab ts)
  have ok4: "objs_ok h (Suc b) T3" using objs_ok_later [OF ok3, of "Suc b"] ab n by (simp add: ts)
  show "make_times Unit_ms xs h = Some (map Some [n..<a], with_objs h a T)"
    using make_times_objs [OF m ok0, of Unit_ms xs] n unfolding f by (simp add: ab ts with_no_objs)
  show "to_utility_time_dyn 100 Unit_us (with_objs h a T) = Some (Some a, with_objs h (Suc a) T1)"
    unfolding ts(2) by (rule objs_units [OF mk ok1])
  show "make_times Unit_ms ys (with_objs h (Suc a) T1) = Some (map Some [Suc a..<b], with_objs h b T2)"
    using make_times_objs [OF m ok2, of Unit_ms ys] unfolding f ts(3) ab(2) .
  show "to_utility_time_dyn u U (with_objs h b T2) = Some (Some b, with_objs h (Suc b) T3)"
    unfolding ts(4) by (rule objs_units [OF mk ok3])
  show "to_utility_time_dyn v U (with_objs h (Suc b) T3) =
      Some (Some (Suc b), with_objs h (Suc (Suc b)) ((Suc b, dynobj (ut_t (to_utility_time v U utility_time_init))) # T3))"
    by (rule objs_units [OF mk ok4])
  show "objs_ok h (Suc (Suc b)) ((Suc b, dynobj (ut_t (to_utility_time v U utility_time_init))) # T3)"
    using objs_ok_later [OF ok4, of "Suc (Suc b)"] ab n by simp
qed

text \<open>The creation of a busy loop, when it succeeds.\<close>

lemma busyloop_created:
  assumes "create_cpu_busyloop env senv class which_cpu d t m h s = Some ((0, r), h', s')"
  shows "\<exists>bl u h1. r = Busyloop bl \<and> load d h = Some u \<and> ut_t (bl_duration bl) = ut_t u \<and>
    utility_time_gc_auto d h = Some h1 \<and> utility_time_gc_auto t h1 = Some h'"
  using assms unfolding create_cpu_busyloop_def
  by (auto simp: Let_def utility_time_to_utility_time_def set_t_def split: bind_splits if_splits prod.splits)

text \<open>
  The states of the system in \<open>S\<close>, in which the creation of a busy loop of less than a second succeeds. The words of
  \<open>T\<close> are those of \<^verbatim>\<open>unsigned long\<close>.
\<close>

definition makes_busyloops :: "'l::len itself \<Rightarrow> 'w sys_env \<Rightarrow> sched_env \<Rightarrow> sched_class \<Rightarrow> 'w sys_state set \<Rightarrow> bool" where
  "makes_busyloops T env senv class S \<longleftrightarrow> (\<forall>d t h s u v. s \<in> S \<and> store_ok h \<and> d \<noteq> t \<and> load (Some d) h = Some u \<and> load (Some t) h = Some v \<and>
     time_ok u \<and> ns_of u < 1000000000 \<longrightarrow> (\<exists>r :: 'l word busyloop_result. \<exists>h1 s1.
       create_cpu_busyloop env senv class 0 (Some d) (Some t) 10 h s = Some ((0, r), h1, s1) \<and> s1 \<in> S))"

text \<open>A list of wcets and busy loops that are shorter by the overhead.\<close>

definition shorter :: "objs \<Rightarrow> int \<Rightarrow> nat \<Rightarrow> 'l::len word cpu_busyloop \<Rightarrow> bool" where
  "shorter us overhead w bl \<longleftrightarrow> ns_of (bl_duration bl) = ns_of (the (map_of us w)) - overhead"

lemma check_wcets_ok:
  assumes "map_of us a = Some uo" "time_ok uo" "\<forall>w \<in> set ws. \<exists>u. map_of us w = Some u \<and> time_ok u \<and> ns_of uo \<le> ns_of u"
  shows "check_wcets (map Some ws) (Some a) (with_objs h n us) = Some True"
  using assms(3)
proof (induction ws)
  case (Cons w ws)
  then obtain u where u: "map_of us w = Some u" "time_ok u" "ns_of uo \<le> ns_of u" by auto
  have "\<not> utility_time_lt u uo" using u assms(2) by (simp add: lt_is_order order_ns_of)
  then show ?case using Cons u load_objs [OF u(1), of h n] load_objs [OF assms(1), of h n] by simp
qed simp

lemma busyloops_made:
  assumes mk: "makes_busyloops TYPE('l::len) env senv class S" and m: "\<forall>k. malloc_ok h k"
    and o: "map_of us a = Some uo" "time_ok uo" and t: "map_of us t = Some tol" "manual_gc tol" "dyn_alloc tol"
    and ws: "\<forall>w \<in> set ws. \<exists>u. map_of us w = Some u \<and> time_ok u \<and> ns_of uo \<le> ns_of u \<and> ns_of u < 1000000000"
  shows "objs_ok h n us \<Longrightarrow> s \<in> S \<Longrightarrow> \<exists>(bls :: 'l word cpu_busyloop list) s1.
    create_busyloops env senv class (Some a) (Some t) (map Some ws) (with_objs h n us) s =
      Some (Some bls, with_objs h (n + length ws) us, s1) \<and> s1 \<in> S \<and> list_all2 (shorter us (ns_of uo)) ws bls"
  using ws
proof (induction ws arbitrary: n s)
  case (Cons w ws)
  then obtain u where u: "map_of us w = Some u" "time_ok u" "ns_of uo \<le> ns_of u" "ns_of u < 1000000000" by auto
  have mk1: "malloc_ok h n" using m by blast
  let ?d = "time_op utility_time_sub (ut_t u) (ut_t uo)" and ?H = "with_objs h (Suc n) ((n, dynobj (time_op utility_time_sub (ut_t u) (ut_t uo))) # us)"
  have c: "ns_of (dynobj (ut_t v)) = ns_of v" "time_ok (dynobj (ut_t v)) = time_ok v" for v
    by (rule t_congs, simp)+
  have d: "ns_of (dynobj ?d) = ns_of u - ns_of uo" "time_ok (dynobj ?d)"
    using time_op_ns(1) [of "ut_t u" "ut_t uo"] u o(2) by (simp_all add: c)
  have ok: "objs_ok h (Suc n) ((n, dynobj ?d) # us)" "t < n"
    using Cons.prems(1) objs_ok_later [of h n us "Suc n"] objs_old [OF Cons.prems(1) t(1)] by (auto simp: objs_ok_def)
  have l: "load (Some n) ?H = Some (dynobj ?d)" "load (Some t) ?H = Some tol" "n \<noteq> t"
    using load_objs [of "(n, dynobj ?d) # us"] t(1) ok(2) by simp_all
  have "0 \<le> ns_of uo" using o(2) by simp
  then have "ns_of (dynobj ?d) < 1000000000" using d u(4) by simp
  then obtain r :: "'l word busyloop_result" and h1 s1 where r:
    "create_cpu_busyloop env senv class 0 (Some n) (Some t) 10 ?H s = Some ((0, r), h1, s1)" "s1 \<in> S"
    using mk objs_ok_store [OF ok(1)] l d(2) Cons.prems(2) unfolding makes_busyloops_def by blast
  have "utility_time_gc_auto (Some n) ?H = Some (with_objs h (Suc n) us)"
    using objs_gc(2) [OF ok(1), of n "dynobj ?d"] without_fresh [OF Cons.prems(1), of n] by simp
  moreover have ok2: "objs_ok h (Suc n) us" using Cons.prems(1) objs_ok_later [of h n us "Suc n"] by simp
  then have "utility_time_gc_auto (Some t) (with_objs h (Suc n) us) = Some (with_objs h (Suc n) us)"
    using objs_gc(2) [OF _ t(1,3)] t(2) by simp
  ultimately obtain bl where bl: "r = Busyloop bl" "ut_t (bl_duration bl) = ?d" "h1 = with_objs h (Suc n) us"
    using busyloop_created [OF r(1)] l by auto
  have sh: "shorter us (ns_of uo) w bl"
    using d(1) u(1) t_congs(1) [of "bl_duration bl" "dynobj ?d"] bl(2) by (simp add: shorter_def)
  have "\<forall>w \<in> set ws. \<exists>u. map_of us w = Some u \<and> time_ok u \<and> ns_of uo \<le> ns_of u \<and> ns_of u < 1000000000" using Cons.prems(3) by simp
  from Cons.IH [OF ok2 r(2) this] sh
  show ?case using objs_sub_dyn [OF mk1 Cons.prems(1) u(1) o(1)] r(1) bl(1,3) by fastforce
qed simp

lemma instant_after_objs:
  assumes "\<forall>k. malloc_ok h k" "objs_ok h n us" "map_of us x = Some (dynobj v)"
  shows "instant_after now (Some x) (with_objs h n us) =
    Some (time_op utility_time_add now v, with_objs h (n + 2) (without {x} us))"
proof -
  have m: "malloc_ok h k" for k using assms(1) by blast
  have x: "x < n" using objs_old [OF assms(2,3)] by simp
  have ok: "objs_ok h (Suc n) ((n, dynobj now) # us)"
    using assms(2) objs_ok_later [of h n us "Suc n"] by (auto simp: objs_ok_def)
  let ?s = "(Suc n, dynobj (time_op utility_time_add now v)) # without {x} us"
  have ok2: "objs_ok h (Suc (Suc n)) ?s"
    using objs_ok_later [OF assms(2), of "Suc (Suc n)"] assms(2) by (auto simp: objs_ok_def without_def)
  have "map_of ((n, dynobj now) # us) x = Some (dynobj v)" using assms(3) x by simp
  from objs_add_dyn_gc [OF m ok _ this, of n "dynobj now"] x
  have "utility_time_add_dyn_gc (Some n) (Some x) (with_objs h (Suc n) ((n, dynobj now) # us)) =
      Some (Some (Suc n), with_objs h (Suc (Suc n)) ((Suc n, dynobj (time_op utility_time_add now v)) # without {x, n} us))"
    by simp
  moreover have "without {x, n} us = without {x} us"
    using without_fresh [of h n "without {x} us" n] assms(2) by (simp add: insert_commute objs_ok_without)
  moreover have "to_timespec_gc (Some (Suc n)) (with_objs h (Suc (Suc n)) ?s) =
      Some (time_op utility_time_add now v, with_objs h (Suc (Suc n)) (without {x} us))"
    using objs_to_timespec_gc [OF ok2, of "Suc n"] without_fresh [of h n "without {x} us" "Suc n"] assms(2)
    by (simp add: objs_ok_without)
  ultimately show ?thesis using objs_make [OF m assms(2), of now] by (simp add: instant_after_def)
qed

text \<open>
  What the programs do after the measurement of the overheads: the check, the busy loops with a common tolerance, and the
  two instants. All that is left of it is that the tolerance and the two offsets are gone.
\<close>

lemma loops_and_instants:
  assumes mk: "makes_busyloops TYPE('l::len) env senv class S" "s \<in> S" and m: "\<forall>k. malloc_ok h k"
    and clock: "\<forall>s \<in> S. \<exists>now w. sys_clock env (sys_world s) = (Some now, w) \<and> P now"
    and ok: "objs_ok h n us" and o: "map_of us a = Some uo" "time_ok uo" and t: "map_of us t = Some (dynobj tol)"
    and xy: "map_of us x = Some (dynobj x0)" "map_of us y = Some (dynobj y0)" "distinct [a, t, x, y]" "t \<notin> set ws"
    and ws: "\<forall>w \<in> set ws. \<exists>u. map_of us w = Some u \<and> time_ok u \<and> ns_of uo \<le> ns_of u \<and> ns_of u < 1000000000"
    and len: "length ws = l"
  shows "\<exists>(bls :: 'l word cpu_busyloop list) s1 now w. check_wcets (map Some ws) (Some a) (with_objs h n us) = Some True \<and>
    set_manual (Some t) (with_objs h n us) = Some (with_objs h n (made_manual t us)) \<and>
    create_busyloops env senv class (Some a) (Some t) (map Some ws) (with_objs h n (made_manual t us)) s =
      Some (Some bls, with_objs h (n + l) (made_manual t us), s1) \<and>
    utility_time_gc (Some t) (with_objs h (n + l) (made_manual t us)) = Some (with_objs h (n + l) (without {t} us)) \<and>
    sys_clock env (sys_world s1) = (Some now, w) \<and> P now \<and>
    instant_after now (Some x) (with_objs h (n + l) (without {t} us)) =
      Some (time_op utility_time_add now x0, with_objs h (n + l + 2) (without {t, x} us)) \<and>
    instant_after now (Some y) (with_objs h (n + l + 2) (without {t, x} us)) =
      Some (time_op utility_time_add now y0, with_objs h (n + l + 4) (without {t, x, y} us)) \<and>
    map (\<lambda>bl. ns_of (bl_duration bl)) bls = map (\<lambda>w. ns_of (the (map_of us w)) - ns_of uo) ws"
proof -
  let ?us1 = "made_manual t us" and ?T = "utility_time_set_gc_manual (dynobj tol)"
  have at1: "map_of ?us1 a = Some uo" "map_of ?us1 t = Some ?T" "\<forall>w \<in> set ws. map_of ?us1 w = map_of us w"
    using o t xy(3,4) by auto
  have tol: "manual_gc ?T" "dyn_alloc ?T" by (simp_all add: utility_time_set_gc_manual_def)
  have ws1: "\<forall>w \<in> set ws. \<exists>u. map_of ?us1 w = Some u \<and> time_ok u \<and> ns_of uo \<le> ns_of u \<and> ns_of u < 1000000000"
    using ws at1(3) by metis
  from busyloops_made [OF mk(1) m at1(1) o(2) at1(2) tol ws1 objs_ok_manual [OF ok] mk(2)] obtain bls :: "'l word cpu_busyloop list" and s1
    where B: "create_busyloops env senv class (Some a) (Some t) (map Some ws) (with_objs h n ?us1) s =
        Some (Some bls, with_objs h (n + l) ?us1, s1)" "s1 \<in> S" "list_all2 (shorter ?us1 (ns_of uo)) ws bls"
    unfolding len by blast
  have loops: "map (\<lambda>bl. ns_of (bl_duration bl)) bls = map (\<lambda>w. ns_of (the (map_of us w)) - ns_of uo) ws"
    using B(3) at1(3) by (induction ws bls) (auto simp: shorter_def)
  have C: "check_wcets (map Some ws) (Some a) (with_objs h n us) = Some True" by (rule check_wcets_ok [OF o]) (use ws in blast)
  obtain now w where now: "sys_clock env (sys_world s1) = (Some now, w)" "P now" using clock B(2) by blast
  have ok2: "objs_ok h (n + l) ?us1" "objs_ok h (n + l) (without {t} us)" "objs_ok h (n + l + 2) (without {t, x} us)"
    using ok objs_ok_later [of h n us "n + l"] objs_ok_later [of h n us "n + l + 2"] by (auto intro: objs_ok_without objs_ok_manual)
  have G: "utility_time_gc (Some t) (with_objs h (n + l) ?us1) = Some (with_objs h (n + l) (without {t} us))"
    using objs_gc(1) [OF ok2(1) at1(2) tol(2)] by simp
  have I: "instant_after now (Some x) (with_objs h (n + l) (without {t} us)) =
      Some (time_op utility_time_add now x0, with_objs h (n + l + 2) (without {t, x} us))"
    using instant_after_objs [OF m ok2(2), of x x0 now] xy by (simp add: insert_commute)
  have J: "instant_after now (Some y) (with_objs h (n + l + 2) (without {t, x} us)) =
      Some (time_op utility_time_add now y0, with_objs h (n + l + 4) (without {t, x, y} us))"
    using instant_after_objs [OF m ok2(3), of y y0 now] xy by (simp add: insert_commute eval_nat_numeral)
  show ?thesis using B(1) C G now I J loops objs_manual [OF t] by blast
qed

section \<open>Overheads\<close>

text \<open>A measurement that succeeds leaves one new object, which holds \<open>t\<close>.\<close>

definition measures :: "(time_store \<Rightarrow> ((int \<times> time_ptr) \<times> time_store) option) \<Rightarrow> timespec \<Rightarrow> bool" where
  "measures call t \<longleftrightarrow> (\<forall>h. store_ok h \<and> (\<forall>k. malloc_ok h k) \<longrightarrow>
     (\<exists>a m. next_addr h \<le> a \<and> a < m \<and> call h = Some ((0, Some a), with_objs h m [(a, dynobj t)])))"

lemma with_objs_nested: "with_objs (with_objs h n us) m vs = with_objs h m (vs @ us)"
  by (auto simp: with_objs_def map_add_def fun_eq_iff intro!: time_store.equality split: option.splits)

lemma made_manual_fresh: "objs_ok h n us \<Longrightarrow> n \<le> a \<Longrightarrow> made_manual a us = us"
  by (induction us) (auto simp: made_manual_def objs_ok_def)

text \<open>\<^verbatim>\<open>job_statistics_overhead\<close> is such a measurement where nothing fails.\<close>

lemma job_statistics_overhead_measures:
  assumes "lock_me_rc env = 0" "enter_max_rc env = 0" "reading_begin env = Some b" "reading_end env = Some e"
  shows "measures (job_statistics_overhead True True env) (time_op utility_time_sub e b)"
  unfolding measures_def
proof (intro allI impI)
  fix h assume h: "store_ok h \<and> (\<forall>k. malloc_ok h k)"
  let ?n = "next_addr h" and ?d = "time_op utility_time_sub e b"
  have m: "malloc_ok h k" and t: "temps_ok h ?n []" for k using h by auto
  have t2: "temps_ok h (Suc ?n) [(?n, e)]" "temps_ok h (Suc (Suc ?n)) [(Suc ?n, b), (?n, e)]" using t by simp_all
  have "utility_time_sub_dyn_gc (Some ?n) (Some (Suc ?n)) (with_temps h (Suc (Suc ?n)) [(Suc ?n, b), (?n, e)]) =
      Some (Some (?n + 2), with_temps h (?n + 3) [(?n + 2, ?d)])"
    using temps_sub_dyn_gc [OF m t2(2), of ?n "dynobj e" "Suc ?n" "dynobj b"] t
    by (simp add: collect_temp_obj numeral_2_eq_2 numeral_3_eq_3)
  then have "overhead_measurement_thread env h = Some ((0, Some (?n + 2)), with_temps h (?n + 3) [(?n + 2, ?d)])"
    using assms temps_make [OF m t, of e] temps_make [OF m t2(1), of b]
    by (simp add: overhead_measurement_thread_def overhead_measurement_def with_no_temps)
  moreover have "with_temps h (?n + 3) [(?n + 2, ?d)] = with_objs h (?n + 3) [(?n + 2, dynobj ?d)]"
    by (auto simp: with_temps_def with_objs_def intro!: time_store.equality)
  ultimately show "\<exists>a m. ?n \<le> a \<and> a < m \<and> job_statistics_overhead True True env h = Some ((0, Some a), with_objs h m [(a, dynobj ?d)])"
    by (intro exI [of _ "?n + 2"] exI [of _ "?n + 3"]) (simp add: job_statistics_overhead_def)
qed

text \<open>\<^verbatim>\<open>finish_to_start_overhead\<close>, too.\<close>

lemma finish_to_start_overhead_measures:
  assumes "me_tmpfile env = Some f" "ws_out f = []" "64 \<le> ws_room f" "me_ringbuf_ok env = (True, True)"
      "me_now env = Some now" "me_sleep_errno env = 0" "me_seek_ok env" "me_lock_rc env = 0" "me_enter_max_rc env = 0"
    and "rel = ut_t (utility_time_add (timespec_to_utility_time now utility_time_init)
      (to_utility_time 100 Unit_ms utility_time_init) utility_time_init)"
  shows "measures (finish_to_start_overhead True True bo junk tau0 env [Some b1, Some e1, Some b2, Some e2] aper)
    (time_op utility_time_add (time_op utility_time_sub b1 rel) (time_op utility_time_sub b2 e1))"
  unfolding measures_def
proof (intro allI impI)
  fix h assume h: "store_ok h \<and> (\<forall>k. malloc_ok h k)"
  let ?n = "next_addr h" and ?t = "time_op utility_time_add (time_op utility_time_sub b1 rel) (time_op utility_time_sub b2 e1)"
  have "all_ok h 8" using h by (simp add: all_ok_def)
  from measurement_run [OF _ this assms(1-9) refl refl assms(10)] h
  have "finish_to_start_overhead True True bo junk tau0 env [Some b1, Some e1, Some b2, Some e2] aper h =
      Some ((0, Some (?n + 7)), alloc ?t (h\<lparr>next_addr := ?n + 7\<rparr>))" by (simp add: finish_to_start_overhead_def)
  moreover have "alloc ?t (h\<lparr>next_addr := ?n + 7\<rparr>) = with_objs h (?n + 8) [(?n + 7, dynobj ?t)]"
    using alloc_obj [of ?t h "?n + 7" "[]"] unfolding with_no_objs by (simp add: eval_nat_numeral)
  ultimately show "\<exists>a m. ?n \<le> a \<and> a < m \<and>
      finish_to_start_overhead True True bo junk tau0 env [Some b1, Some e1, Some b2, Some e2] aper h = Some ((0, Some a), with_objs h m [(a, dynobj ?t)])"
    by (intro exI [of _ "?n + 7"] exI [of _ "?n + 8"]) simp
qed

abbreviation kept_obj :: "timespec \<Rightarrow> utility_time" where
  "kept_obj t \<equiv> utility_time_set_gc_manual (dynobj t)"

lemma exp_overheads_objs:
  assumes meas: "measures cj tj" "measures cf tf" and m: "\<forall>k. malloc_ok h k" and ok: "objs_ok h n us"
  shows "\<exists>j f a m. n \<le> j \<and> j < f \<and> f < a \<and> a < m \<and> exp_overheads cj cf (with_objs h n us) = Some ((True, Some j, Some f, Some a),
    with_objs h m ((a, kept_obj (time_op utility_time_add tj tf)) # (f, kept_obj tf) # (j, kept_obj tj) # us))"
proof -
  have "\<forall>k. malloc_ok (with_objs h n us) k" using m by simp
  then obtain j m1 where j: "n \<le> j" "j < m1" "cj (with_objs h n us) = Some ((0, Some j), with_objs h m1 ((j, dynobj tj) # us))"
    using meas(1) objs_ok_store [OF ok] unfolding measures_def by (fastforce simp: with_objs_nested)
  let ?u1 = "(j, kept_obj tj) # us"
  have u1: "made_manual j ((j, dynobj tj) # us) = ?u1" using made_manual_fresh [OF ok j(1)] by simp
  have n: "next_addr h \<le> n" using ok by (simp add: objs_ok_def)
  have ok1: "objs_ok h m1 ?u1" using ok j n objs_ok_later [OF ok, of m1] by simp
  have "\<forall>k. malloc_ok (with_objs h m1 ?u1) k" using m by simp
  then obtain f m2 where f: "m1 \<le> f" "f < m2" "cf (with_objs h m1 ?u1) = Some ((0, Some f), with_objs h m2 ((f, dynobj tf) # ?u1))"
    using meas(2) objs_ok_store [OF ok1] unfolding measures_def by (fastforce simp: with_objs_nested)
  let ?u2 = "(f, kept_obj tf) # ?u1"
  have u2: "made_manual f ((f, dynobj tf) # ?u1) = ?u2" using made_manual_fresh [OF ok1 f(1)] by simp
  have ok2: "objs_ok h m2 ?u2" using ok1 f j n objs_ok_later [OF ok1, of m2] by simp
  let ?t = "time_op utility_time_add tj tf"
  have mk: "malloc_ok h m2" using m by blast
  have "utility_time_add_dyn_gc (Some j) (Some f) (with_objs h m2 ?u2) =
      Some (Some m2, with_objs h (Suc m2) ((m2, dynobj ?t) # ?u2))"
    using objs_add_dyn_gc [OF mk ok2, of j "kept_obj tj" f "kept_obj tf"] f j by simp
  moreover have "made_manual m2 ((m2, dynobj ?t) # ?u2) = (m2, kept_obj ?t) # ?u2" using made_manual_fresh [OF ok2] by simp
  moreover have "j \<noteq> f" "f \<noteq> m2" "j \<noteq> m2" using j f by simp_all
  ultimately have "exp_overheads cj cf (with_objs h n us) = Some ((True, Some j, Some f, Some m2), with_objs h (Suc m2) ((m2, kept_obj ?t) # ?u2))"
    using j(3) f(3) objs_manual [of "(j, dynobj tj) # us" j _ h m1] objs_manual [of "(f, dynobj tf) # ?u1" f _ h m2]
      objs_manual [of "(m2, dynobj ?t) # ?u2" m2 _ h "Suc m2"] u1 u2
    by (simp add: exp_overheads_def)
  then show ?thesis using j f by (intro exI [of _ j] exI [of _ f] exI [of _ m2] exI [of _ "Suc m2"]) simp
qed

section \<open>Creation of a task\<close>

lemma collect_all_objs:
  "objs_ok h n us \<Longrightarrow> live_args (with_objs h n us) as \<Longrightarrow> \<forall>a \<in> set as. map_of us a \<noteq> None \<Longrightarrow>
   collect_all as (with_objs h n us) = with_objs h n (without {a \<in> set as. auto_obj (the (map_of us a))} us)"
proof (induction as arbitrary: us)
  case (Cons a as)
  then obtain u where u: "map_of us a = Some u" by auto
  let ?us = "if auto_obj u then without {a} us else us"
  have c: "cells (with_objs h n us) a = Some u" using cells_objs [OF u] .
  have a: "auto_obj u \<longrightarrow> a \<notin> set as" "live_args (with_objs h n us) as" using Cons.prems(2) c by auto
  have same: "map_of ?us b = map_of us b" if "b \<in> set as" for b using a(1) that by auto
  then have "cells (with_objs h n ?us) b = cells (with_objs h n us) b" if "b \<in> set as" for b
    using that by (simp add: with_objs_def)
  then have live: "live_args (with_objs h n ?us) as" by (rule live_args_cong [OF _ a(2)])
  have ok: "objs_ok h n ?us" using Cons.prems(1) by (simp add: objs_ok_without)
  have "\<forall>b \<in> set as. map_of ?us b \<noteq> None" using same Cons.prems(3) by simp
  note Cons.IH [OF ok live this]
  moreover have "{b \<in> set as. auto_obj (the (map_of ?us b))} = {b \<in> set as. auto_obj (the (map_of us b))}" using same by (auto simp del: map_of_without)
  moreover have "{b \<in> set (a # as). auto_obj (the (map_of us b))} =
      (if auto_obj u then insert a {b \<in> set as. auto_obj (the (map_of us b))} else {b \<in> set as. auto_obj (the (map_of us b))})"
    using u by auto
  ultimately show ?case using c collect_obj [OF Cons.prems(1) u] by (simp add: Un_commute)
qed simp

text \<open>What is known of a created task.\<close>

definition created_as :: "byte_order \<Rightarrow> create_env \<Rightarrow> fsys \<Rightarrow> timespec \<Rightarrow> nat \<Rightarrow> u64 \<Rightarrow> timespec \<Rightarrow> timespec \<Rightarrow> timespec \<Rightarrow> task \<Rightarrow> bool" where
  "created_as bo cenv fs t_release i slots w p d tau \<longleftrightarrow> tk_name tau = ''tau '' @ show_nat i \<and> ut_t (wcet tau) = w \<and> ut_t (period tau) = p \<and>
     ut_t (tk_deadline tau) = d \<and> ut_t (t_0 tau) = t_release \<and> ut_t (tk_offset tau) = ms_t 0 \<and>
     (\<exists>a1 a2 a3 a4 a5 a6 a7 h h1. task_create bo cenv fs (''tau '' @ show_nat i) a1 a2 a3 a4 a5 False (''tau_'' @ show_nat i @ ''_stats.bin'')
        slots True a6 a7 h = Some ((0, Some tau), h1))"

definition can_create :: "create_env \<Rightarrow> fsys \<Rightarrow> nat \<Rightarrow> u64 \<Rightarrow> bool" where
  "can_create cenv fs i slots \<longleftrightarrow> slots \<noteq> 0 \<and> ok_task_stats cenv \<and> ok_task cenv \<and> ok_name cenv \<and> ok_path cenv \<and> ok_ringbuf cenv = (True, True) \<and>
     (\<exists>w0. fs_create fs (''tau_'' @ show_nat i @ ''_stats.bin'') = Some w0 \<and> 66 + length (''tau '' @ show_nat i) \<le> ws_room w0)"

lemma exp_task_created:
  assumes m: "\<forall>k. malloc_ok h k" and ok: "objs_ok h n us" and can: "can_create cenv fs i slots"
    and l: "map_of us w = Some uw" "map_of us p = Some up" "map_of us d = Some ud" "map_of us j = Some uj" "map_of us f = Some uf"
    and a: "\<not> auto_obj up" "\<not> auto_obj ud" "\<not> auto_obj uj" "\<not> auto_obj uf" "auto_obj uw \<longrightarrow> w \<notin> {p, d, j, f}"
  shows "\<exists>tau. create_exp_task bo cenv fs t_release i (Some w) (Some p) (Some d) slots (Some j) (Some f) (with_objs h n us) =
      Some ((0, Some tau), with_objs h (n + 3) (without (if auto_obj uw then {w} else {}) us)) \<and>
    created_as bo cenv fs t_release i slots (ut_t uw) (ut_t up) (ut_t ud) tau"
proof -
  have mk: "malloc_ok h k" for k using m by blast
  let ?us = "(Suc n, dynobj (ms_t 0)) # (n, dynobj t_release) # us" and ?as = "[w, p, d, n, Suc n, j, f]"
  let ?H = "with_objs h (Suc (Suc n)) ?us" and ?name = "''tau '' @ show_nat i" and ?path = "''tau_'' @ show_nat i @ ''_stats.bin''"
  have ok1: "objs_ok h (Suc n) ((n, dynobj t_release) # us)" using ok objs_ok_later [OF ok, of "Suc n"] by (auto simp: objs_ok_def)
  have ok2: "objs_ok h (Suc (Suc n)) ?us" using ok1 objs_ok_later [OF ok, of "Suc (Suc n)"] by (auto simp: objs_ok_def)
  have old: "w < n" "p < n" "d < n" "j < n" "f < n" using objs_old [OF ok] l by blast+
  have l2: "map_of ?us w = Some uw" "map_of ?us p = Some up" "map_of ?us d = Some ud" "map_of ?us j = Some uj" "map_of ?us f = Some uf"
    "map_of ?us n = Some (dynobj t_release)" "map_of ?us (Suc n) = Some (dynobj (ms_t 0))"
    using l old by auto
  note c = l2 [THEN cells_objs, of h "Suc (Suc n)"]
  have live: "live_args ?H ?as" using c a old by (simp add: less_imp_neq)
  have mem: "\<forall>x \<in> set ?as. map_of ?us x \<noteq> None" using l2 by simp
  from can obtain w0 where can': "slots \<noteq> 0" "ok_task_stats cenv" "ok_task cenv" "ok_name cenv" "ok_path cenv" "ok_ringbuf cenv = (True, True)"
    "fs_create fs ?path = Some w0" "66 + length ?name \<le> ws_room w0" unfolding can_create_def by blast
  have "jobstats_ringbuf_create (ok_ringbuf cenv) slots True \<noteq> None" using can'(1,6) by (simp add: jobstats_ringbuf_create_def)
  then obtain rb where rb: "Some rb = (if slots = 0 then None else jobstats_ringbuf_create (ok_ringbuf cenv) slots True)" using can'(1) by auto
  have mH: "malloc_ok ?H (next_addr ?H)" using mk by simp
  have "slots = 0 \<or> Some rb \<noteq> None" by simp
  note ev = create_eval [OF objs_ok_store [OF ok2] mH live can'(2-5,7) rb this, of bo ?name False]
  have "{x \<in> set ?as. auto_obj (the (map_of ?us x))} = insert n (insert (Suc n) (if auto_obj uw then {w} else {}))"
    using l2 a by (auto simp del: map_of.simps)
  then have "collect_all ?as ?H = with_objs h (Suc (Suc n)) (without (if auto_obj uw then {w} else {}) us)"
    using collect_all_objs [OF ok2 live mem] old
    by (cases "auto_obj uw") (simp_all add: without_insert_fresh [OF ok] del: collect_all.simps list.set)
  then have fin: "(collect_all ?as ?H)\<lparr>next_addr := Suc (next_addr ?H)\<rparr> = with_objs h (n + 3) (without (if auto_obj uw then {w} else {}) us)"
    by (simp add: numeral_3_eq_3 del: collect_all.simps)
  let ?tau = "created bo ?H ?name ?path ?as False slots (Some rb) w0"
  have t: "ut_t (utility_time_to_utility_time u utility_time_init) = ut_t u" for u by (simp add: utility_time_to_utility_time_def set_t_def)
  have tc: "task_create bo cenv fs ?name (Some w) (Some p) (Some d) (Some n) (Some (Suc n)) False ?path slots True (Some j) (Some f) ?H =
      Some ((0, Some ?tau), with_objs h (n + 3) (without (if auto_obj uw then {w} else {}) us))"
    using ev can'(8) unfolding fin by simp
  moreover have "created_as bo cenv fs t_release i slots (ut_t uw) (ut_t up) (ut_t ud) ?tau"
  proof -
    have "ut_t (copy_of_arg ?H w) = ut_t uw" "ut_t (copy_of_arg ?H p) = ut_t up" "ut_t (copy_of_arg ?H d) = ut_t ud"
      "ut_t (copy_of_arg ?H n) = t_release" "ut_t (copy_of_arg ?H (Suc n)) = ms_t 0"
      using c by (simp_all add: copy_of_arg_def t)
    then show ?thesis using tc unfolding created_as_def by (intro conjI exI) (simp_all add: created_def Let_def)
  qed
  ultimately show ?thesis
    using objs_make [OF mk ok, of t_release] objs_units [OF mk ok1, of 0 Unit_ms]
    by (intro exI [of _ ?tau]) (simp add: create_exp_task_def ms_t_def)
qed

section \<open>The end\<close>

text \<open>The parameters of a created task in nanoseconds.\<close>

lemma created_as_params:
  assumes "created_as bo cenv fs rel i slots (ms_t w) (ms_t p) (ms_t d) tau" "slots \<noteq> 0" "time_ok (dynobj rel)"
    and "0 \<le> w" "w < 2 ^ 31" "0 \<le> p" "p < 2 ^ 31" "0 \<le> d" "d < 2 ^ 31"
  shows "tk_name tau = ''tau '' @ show_nat i" "ns_of (wcet tau) = w * 1000000" "ns_of (period tau) = p * 1000000"
    "ns_of (tk_deadline tau) = d * 1000000" "ns_of (t_0 tau) = ns_of (dynobj rel)" "ns_of (tk_offset tau) = 0"
    "time_ok (period tau)" "time_ok (t_0 tau)" "time_ok (tk_offset tau)" "task_destroy tau = Some ()"
    "\<exists>rb. stats_ringbuf tau = Some rb \<and> slot_count rb = slots"
proof -
  note c = assms(1) [unfolded created_as_def]
  then obtain a1 a2 a3 a4 a5 a6 a7 h h1 where t: "task_create bo cenv fs (''tau '' @ show_nat i) a1 a2 a3 a4 a5 False
      (''tau_'' @ show_nat i @ ''_stats.bin'') slots True a6 a7 h = Some ((0, Some tau), h1)" by blast
  from create_writes [OF t] assms(2) show "task_destroy tau = Some ()" "\<exists>rb. stats_ringbuf tau = Some rb \<and> slot_count rb = slots"
    by (auto simp: task_destroy_def)
  have k: "ns_of u = x * 1000000 \<and> time_ok u" if "ut_t u = ms_t x" "0 \<le> x" "x < 2 ^ 31" for u x
    using t_congs [of u "dynobj (ms_t x)"] ms_t [OF that(2,3)] that(1) by simp
  have r: "ns_of u = ns_of (dynobj rel) \<and> time_ok u" if "ut_t u = rel" for u
    using t_congs [of u "dynobj rel"] that assms(3) by simp
  from c have e: "tk_name tau = ''tau '' @ show_nat i" "ut_t (wcet tau) = ms_t w" "ut_t (period tau) = ms_t p" "ut_t (tk_deadline tau) = ms_t d"
    "ut_t (t_0 tau) = rel" "ut_t (tk_offset tau) = ms_t 0" by blast+
  show "tk_name tau = ''tau '' @ show_nat i" by (rule e(1))
  show "ns_of (wcet tau) = w * 1000000" using k [OF e(2) assms(4,5)] ..
  show "ns_of (period tau) = p * 1000000" "time_ok (period tau)" using k [OF e(3) assms(6,7)] by simp_all
  show "ns_of (tk_deadline tau) = d * 1000000" using k [OF e(4) assms(8,9)] ..
  show "ns_of (t_0 tau) = ns_of (dynobj rel)" "time_ok (t_0 tau)" using r [OF e(5)] by simp_all
  show "ns_of (tk_offset tau) = 0" "time_ok (tk_offset tau)" using k [OF e(6)] by simp_all
qed

text \<open>A created task runs the jobs of its schedule, and its file holds those its ring has room for.\<close>

lemma created_as_follows:
  assumes "created_as bo cenv fs rel i slots (ms_t c) (ms_t p) (ms_t d) tau" "slots \<noteq> 0" "time_ok (dynobj rel)"
    and "0 \<le> c" "c < 2 ^ 31" "0 \<le> p" "p < 2 ^ 31" "0 \<le> d" "d < 2 ^ 31"
    and "fs_create fs (''tau_'' @ show_nat i @ ''_stats.bin'') = Some w0" "ws_out w0 = []" "ws_close_ok w0"
      "90 + length (''tau '' @ show_nat i) + 32 * unat slots \<le> ws_room w0"
    and "start = ns_of (dynobj rel)" "per = p * 1000000" "start + int (Suc n) * per < time_limit"
    and "healthy te" "Suc n < 2 ^ 64" "stops_after te (release te False start per) n w"
      "schedule te (release te False start per) 0 (Suc n) w = (xs, w1)"
  shows "\<exists>tau1 tau2. task_start bo te tau w = Some (0, tau2, Some (task_file bo tau1 (take (unat slots) xs)), w1) \<and>
    task_destroy tau2 = Some () \<and> same_params tau1 tau \<and> unat (tk_write_count tau1) = Suc n \<and>
    unat (lost_job_count tau1) = Suc n - unat slots"
proof -
  note q = created_as_params [OF assms(1-9)]
  from assms(1) obtain a1 a2 a3 a4 a5 a6 a7 h h1 where t: "task_create bo cenv fs (''tau '' @ show_nat i) a1 a2 a3 a4 a5 False
      (''tau_'' @ show_nat i @ ''_stats.bin'') slots True a6 a7 h = Some ((0, Some tau), h1)"
    unfolding created_as_def by blast
  have room: "66 + length (''tau '' @ show_nat i) + 24 + 32 * unat slots \<le> ws_room w0" using assms(13) by simp
  have start: "start = ns_of (t_0 tau) + ns_of (tk_offset tau)" using q(5,6) assms(14) by simp
  from task_start_follows [OF t assms(2,10-12) room q(8,9,7) start, unfolded q(3), folded assms(15), OF assms(16-20)]
  obtain tau1 tau2 where "task_start bo te tau w = Some (0, tau2, Some (task_file bo tau1 (take (unat slots) xs)), w1)"
    "stats_log tau2 = No_log" "same_params tau1 tau" "unat (tk_write_count tau1) = Suc n" "unat (lost_job_count tau1) = Suc n - unat slots"
    by (auto simp: window_def)
  then show ?thesis by (intro exI [of _ tau1] exI [of _ tau2]) (simp add: task_destroy_def)
qed

lemma tasks_destroyed: "\<forall>tau \<in> set taus. task_destroy tau = Some () \<Longrightarrow> destroy_tasks taus = Some ()"
  by (induction taus) simp_all

lemma overheads_freed:
  assumes "objs_ok h k ((a, ua) # (f, uf) # (j, uj) # us)" "distinct [a, f, j] \<and> {a, f, j} \<inter> fst ` set us = {}"
    and "dyn_alloc ua" "dyn_alloc uf" "dyn_alloc uj"
  shows "free_overheads (Some j, Some f, Some a) (with_objs h k ((a, ua) # (f, uf) # (j, uj) # us)) = Some (with_objs h k us)"
proof -
  have ok: "objs_ok h k ((f, uf) # (j, uj) # us)" "objs_ok h k ((j, uj) # us)" using assms(1) by simp_all
  have w: "without {b} us = us" if "b \<in> {a, f, j}" for b
    unfolding without_def by (rule filter_True) (use assms(2) that in force)
  have "utility_time_gc (Some a) (with_objs h k ((a, ua) # (f, uf) # (j, uj) # us)) = Some (with_objs h k ((f, uf) # (j, uj) # us))"
    "utility_time_gc (Some f) (with_objs h k ((f, uf) # (j, uj) # us)) = Some (with_objs h k ((j, uj) # us))"
    "utility_time_gc (Some j) (with_objs h k ((j, uj) # us)) = Some (with_objs h k us)"
    using objs_gc(1) [OF assms(1), of a ua] objs_gc(1) [OF ok(1), of f uf] objs_gc(1) [OF ok(2), of j uj] assms w by simp_all
  then show ?thesis by (simp add: free_overheads_def gc_not_null_def)
qed

lemma overhead_time:
  assumes "time_ok (dynobj tj)" "time_ok (dynobj tf)" "ov = ns_of (dynobj tj) + ns_of (dynobj tf)" "ov < time_limit"
  shows "time_ok (kept_obj (time_op utility_time_add tj tf))" "ns_of (kept_obj (time_op utility_time_add tj tf)) = ov"
  using time_op_ns(2) [OF assms(1,2)] assms(3,4) t_congs [of "kept_obj (time_op utility_time_add tj tf)" "dynobj (time_op utility_time_add tj tf)"]
  by simp_all

end
