(* ===== verification/Rate_Monotonic.thy ===== *)
theory Rate_Monotonic
  imports Experiments
begin

text \<open>
  The experiment with rate monotonic priorities (\<^verbatim>\<open>rate_monotonic/main.c\<close>): four periodic tasks that are released
  together three seconds after the start and stopped ten seconds later, with priorities in the order of their rates.
\<close>

section \<open>The program\<close>

definition rm_wcets :: "int list" where "rm_wcets = [2, 3, 6, 6]"
definition rm_periods :: "int list" where "rm_periods = [10, 15, 26, 36]"
definition second_to_start :: int where "second_to_start = 3"
definition second_to_stop :: int where "second_to_stop = 13"

definition rm_slots :: "int \<Rightarrow> u64" where
  "rm_slots period_ms = of_int ((second_to_stop - second_to_start) * 1000 div period_ms)"

text \<open>Whether all tasks are created, and those that are.\<close>

fun rm_create_tasks :: "byte_order \<Rightarrow> (nat \<Rightarrow> create_env) \<Rightarrow> fsys \<Rightarrow> timespec \<Rightarrow> time_ptr \<Rightarrow> time_ptr \<Rightarrow>
    (nat \<times> time_ptr \<times> time_ptr \<times> u64) list \<Rightarrow> time_store \<Rightarrow> ((bool \<times> task list) \<times> time_store) option" where
  "rm_create_tasks bo cenv fs t_release job_stats_overhead task_overhead [] h = Some ((True, []), h)"
| "rm_create_tasks bo cenv fs t_release job_stats_overhead task_overhead ((i, w, p, slots) # rest) h = do {
     h \<leftarrow> set_manual p h;
     ((rc, tau), h) \<leftarrow> create_exp_task bo (cenv i) fs t_release i w p p slots job_stats_overhead task_overhead h;
     if rc \<noteq> 0 then Some ((False, []), h)
     else do {
       h \<leftarrow> utility_time_gc p h;
       ((created, taus), h) \<leftarrow> rm_create_tasks bo cenv fs t_release job_stats_overhead task_overhead rest h;
       Some ((created, the tau # taus), h) } }"

fun set_prios :: "sched_env \<Rightarrow> nat list \<Rightarrow> int list option" where
  "set_prios kenv [] = Some []"
| "set_prios kenv (i # is) = (case sched_fifo_prio kenv (of_nat i) of
     (rc, prio) \<Rightarrow> if rc \<noteq> 0 then None else map_option (Cons (the prio)) (set_prios kenv is))"

text \<open>
  The state at the jump to the error label, and the one in which the threads are created: the tasks, the busy loops,
  the stopping time, the priorities, and the overheads.
\<close>

datatype 'n rm_state = Rm_error "task list" overheads | Rm_ready "task list" "'n cpu_busyloop list" timespec "int list" overheads

definition rm_setup :: "byte_order \<Rightarrow> (nat \<Rightarrow> create_env) \<Rightarrow> fsys \<Rightarrow> 'w sys_env \<Rightarrow> sched_env \<Rightarrow> sched_class \<Rightarrow>
    (time_store \<Rightarrow> ((int \<times> time_ptr) \<times> time_store) option) \<Rightarrow> (time_store \<Rightarrow> ((int \<times> time_ptr) \<times> time_store) option) \<Rightarrow>
    time_store \<Rightarrow> 'w sys_state \<Rightarrow> ('l::len word rm_state \<times> sched_class \<times> time_store \<times> 'w sys_state) option" where
  "rm_setup bo cenv fs env kenv class call_job_overhead call_task_overhead h s = do {
     (wcets, h) \<leftarrow> make_times Unit_ms rm_wcets h;
     (busyloop_tolerance, h) \<leftarrow> to_utility_time_dyn 100 Unit_us h;
     (periods, h) \<leftarrow> make_times Unit_ms rm_periods h;
     (offset_to_start, h) \<leftarrow> to_utility_time_dyn (of_int second_to_start) Unit_s h;
     (offset_to_stop, h) \<leftarrow> to_utility_time_dyn (of_int second_to_stop) Unit_s h;
     ((measured, overheads), h) \<leftarrow> exp_overheads call_job_overhead call_task_overhead h;
     let (job_stats_overhead, task_overhead, overhead) = overheads;
     if \<not> measured then Some (Rm_error [] overheads, class, h, s)
     else do {
     enough \<leftarrow> check_wcets wcets overhead h;
     if \<not> enough then Some (Rm_error [] overheads, class, h, s)
     else do {
     h \<leftarrow> set_manual busyloop_tolerance h;
     (bls, h, s) \<leftarrow> create_busyloops env kenv class overhead busyloop_tolerance wcets h s;
     (case bls of
        None \<Rightarrow> Some (Rm_error [] overheads, class, h, s)
      | Some bls \<Rightarrow> do {
     h \<leftarrow> utility_time_gc busyloop_tolerance h;
     let (now, w) = sys_clock env (sys_world s);
     let s = s\<lparr>sys_world := w\<rparr>;
     (case now of
        None \<Rightarrow> Some (Rm_error [] overheads, class, h, s)
      | Some t_now \<Rightarrow> do {
     (t_release, h) \<leftarrow> instant_after t_now offset_to_start h;
     (t_stop, h) \<leftarrow> instant_after t_now offset_to_stop h;
     ((created, taus), h) \<leftarrow> rm_create_tasks bo cenv fs t_release job_stats_overhead task_overhead
       (zip [1..<5] (zip wcets (zip periods (map rm_slots rm_periods)))) h;
     if \<not> created then Some (Rm_error taus overheads, class, h, s)
     else (case sched_fifo_enter_max kenv class None of (rc, old, class) \<Rightarrow>
       if rc \<noteq> 0 then Some (Rm_error taus overheads, class, h, s)
       else (case set_prios kenv [1..<5] of
         None \<Rightarrow> Some (Rm_error taus overheads, class, h, s)
       | Some prios \<Rightarrow> Some (Rm_ready taus bls t_stop prios overheads, class, h, s)))
     }) }) } } }"

text \<open>The thread of a task, whose program is its busy loop: its return code, the task, its file and the world.\<close>

definition rm_task_thread :: "byte_order \<Rightarrow> sched_env \<Rightarrow> sched_class \<Rightarrow> 'w task_env \<Rightarrow> 'w sys_env \<Rightarrow> 'l::len word cpu_busyloop \<Rightarrow>
    int \<Rightarrow> task \<Rightarrow> 'w \<Rightarrow> (int \<times> task \<times> u8 list option \<times> 'w) option" where
  "rm_task_thread bo kenv class tenv env bl prio tau w =
    (case sched_fifo_enter kenv class prio None of (rc, old, class) \<Rightarrow>
       if rc \<noteq> 0 then Some (rc, tau, None, w)
       else do {
         (rc, tau, log, w) \<leftarrow> task_start bo (tenv\<lparr>run_program := busyloop_exact env bl\<rparr>) tau w;
         Some (if rc \<noteq> 0 then - 2 else 0, tau, log, w) })"

text \<open>
  The end: the cleaning up behind the error label, and the exit code (\<^verbatim>\<open>EXIT_SUCCESS\<close> is 0 and \<^verbatim>\<open>EXIT_FAILURE\<close> is 1), with
  the return codes of the threads and the tasks as the threads leave them. The destruction of the busy loops frees memory
  that is not part of the state.
\<close>

definition rm_cleanup :: "task list \<Rightarrow> overheads \<Rightarrow> time_store \<Rightarrow> time_store option" where
  "rm_cleanup taus overheads h = do { destroy_tasks (rev taus); free_overheads overheads h }"

fun rm_finish :: "(int \<times> task) list \<Rightarrow> 'n rm_state \<Rightarrow> time_store \<Rightarrow> (int \<times> time_store) option" where
  "rm_finish threads (Rm_error taus overheads) h = do { h \<leftarrow> rm_cleanup taus overheads h; Some (1, h) }"
| "rm_finish threads (Rm_ready taus bls t_stop prios overheads) h = do {
     h \<leftarrow> rm_cleanup (map snd threads) overheads h;
     Some (if \<forall>rc \<in> set (map fst threads). rc = 0 then 0 else 1, h) }"

section \<open>The tasks\<close>

lemma rm_tasks_created:
  assumes m: "\<forall>k. malloc_ok h k"
  shows "objs_ok h n us \<Longrightarrow> \<forall>(i, w, p, slots) \<in> set specs. can_create (cenv i) fs i slots \<and>
      (\<exists>wt pt. map_of us w = Some (dynobj wt) \<and> map_of us p = Some (dynobj pt)) \<and> {j, f} \<inter> {w, p} = {} \<Longrightarrow>
    distinct (map (\<lambda>x. fst (snd x)) specs @ map (\<lambda>x. fst (snd (snd x))) specs) \<Longrightarrow>
    map_of us j = Some uj \<Longrightarrow> map_of us f = Some uf \<Longrightarrow> \<not> auto_obj uj \<Longrightarrow> \<not> auto_obj uf \<Longrightarrow>
    \<exists>taus. rm_create_tasks bo cenv fs t_release (Some j) (Some f) (map (\<lambda>(i, w, p, slots). (i, Some w, Some p, slots)) specs) (with_objs h n us) =
      Some ((True, taus), with_objs h (n + 3 * length specs) (without (\<Union>(i, w, p, slots) \<in> set specs. {w, p}) us)) \<and>
    list_all2 (\<lambda>(i, w, p, slots) tau. created_as bo (cenv i) fs t_release i slots (ut_t (the (map_of us w))) (ut_t (the (map_of us p)))
      (ut_t (the (map_of us p))) tau) specs taus"
proof (induction specs arbitrary: n us)
  case (Cons spec specs)
  obtain i w p slots where spec: "spec = (i, w, p, slots)" by (cases spec) auto
  from Cons.prems(2) obtain wt pt where l: "can_create (cenv i) fs i slots" "map_of us w = Some (dynobj wt)" "map_of us p = Some (dynobj pt)"
    "{j, f} \<inter> {w, p} = {}" unfolding spec by auto
  have wp: "w \<noteq> p" using Cons.prems(3) unfolding spec by auto
  let ?us = "made_manual p us"
  have ok1: "objs_ok h n ?us" using Cons.prems(1) by (rule objs_ok_manual)
  have l1: "map_of ?us w = Some (dynobj wt)" "map_of ?us p = Some (kept_obj pt)" "map_of ?us j = Some uj" "map_of ?us f = Some uf"
    using l wp Cons.prems(4,5) by auto
  have a: "auto_obj (dynobj wt) \<longrightarrow> w \<notin> {p, p, j, f}" "\<not> auto_obj (kept_obj pt)" using l(4) wp by auto
  from exp_task_created [OF m ok1 l(1) l1(1,2,2,3,4) a(2,2) Cons.prems(6,7) a(1), of bo t_release]
  obtain tau where tau: "create_exp_task bo (cenv i) fs t_release i (Some w) (Some p) (Some p) slots (Some j) (Some f) (with_objs h n ?us) =
      Some ((0, Some tau), with_objs h (n + 3) (without {w} ?us))" "created_as bo (cenv i) fs t_release i slots wt pt pt tau" by auto
  have ok2: "objs_ok h (n + 3) (without {w} ?us)" using ok1 objs_ok_later [of h n _ "n + 3"] by (auto simp: objs_ok_without)
  have gc: "utility_time_gc (Some p) (with_objs h (n + 3) (without {w} ?us)) = Some (with_objs h (n + 3) (without {w, p} us))"
    using objs_gc(1) [OF ok2, of p "kept_obj pt"] l1(2) wp by simp
  let ?us2 = "without {w, p} us"
  have ok3: "objs_ok h (n + 3) ?us2" using Cons.prems(1) objs_ok_later [of h n us "n + 3"] by (auto simp: objs_ok_without)
  have same: "map_of ?us2 x = map_of us x" if "x \<noteq> w" "x \<noteq> p" for x using that by simp
  have other: "w' \<notin> {w, p} \<and> p' \<notin> {w, p}" if "(i', w', p', slots') \<in> set specs" for i' w' p' slots'
    using Cons.prems(3) that unfolding spec by (auto simp: image_iff split_def)
  have "\<exists>taus. rm_create_tasks bo cenv fs t_release (Some j) (Some f) (map (\<lambda>(i, w, p, slots). (i, Some w, Some p, slots)) specs)
        (with_objs h (n + 3) ?us2) =
      Some ((True, taus), with_objs h (n + 3 + 3 * length specs) (without (\<Union>(i, w, p, slots) \<in> set specs. {w, p}) ?us2)) \<and>
    list_all2 (\<lambda>(i, w, p, slots) tau. created_as bo (cenv i) fs t_release i slots (ut_t (the (map_of ?us2 w))) (ut_t (the (map_of ?us2 p)))
      (ut_t (the (map_of ?us2 p))) tau) specs taus"
  proof (rule Cons.IH [OF ok3])
    show "\<forall>(i, w, p, slots) \<in> set specs. can_create (cenv i) fs i slots \<and>
        (\<exists>wt pt. map_of ?us2 w = Some (dynobj wt) \<and> map_of ?us2 p = Some (dynobj pt)) \<and> {j, f} \<inter> {w, p} = {}"
      using Cons.prems(2) other unfolding spec by fastforce
    show "distinct (map (\<lambda>x. fst (snd x)) specs @ map (\<lambda>x. fst (snd (snd x))) specs)" using Cons.prems(3) by auto
  qed (use l(4) Cons.prems(4-7) in auto)
  then obtain taus where IH: "rm_create_tasks bo cenv fs t_release (Some j) (Some f) (map (\<lambda>(i, w, p, slots). (i, Some w, Some p, slots)) specs)
        (with_objs h (n + 3) ?us2) =
      Some ((True, taus), with_objs h (n + 3 + 3 * length specs) (without (\<Union>(i, w, p, slots) \<in> set specs. {w, p}) ?us2))"
    "list_all2 (\<lambda>(i, w, p, slots) tau. created_as bo (cenv i) fs t_release i slots (ut_t (the (map_of ?us2 w))) (ut_t (the (map_of ?us2 p)))
      (ut_t (the (map_of ?us2 p))) tau) specs taus" by blast
  have "list_all2 (\<lambda>(i, w, p, slots) tau. created_as bo (cenv i) fs t_release i slots (ut_t (the (map_of us w))) (ut_t (the (map_of us p)))
      (ut_t (the (map_of us p))) tau) specs taus"
    by (rule list.rel_mono_strong [OF IH(2)]) (use other in fastforce)
  then show ?case using tau l IH(1) gc objs_manual [OF l(3), of h n]
    by (auto simp: spec insert_commute add.assoc)
qed simp

section \<open>The set-up\<close>

text \<open>The eleven times that are made at the start.\<close>

definition rm_objs :: "nat \<Rightarrow> objs" where
  "rm_objs n = (n + 10, dynobj (s_t second_to_stop)) # (n + 9, dynobj (s_t second_to_start)) #
     numbered (n + 5) ms_t rm_periods @ (n + 4, dynobj tolerance_t) # numbered n ms_t rm_wcets"

lemma rm_objs_at:
  "map (map_of (rm_objs n)) [n, n + 1, n + 2, n + 3] = map (\<lambda>k. Some (dynobj (ms_t k))) rm_wcets"
  "map_of (rm_objs n) (n + 4) = Some (dynobj tolerance_t)"
  "map (map_of (rm_objs n)) [n + 5, n + 6, n + 7, n + 8] = map (\<lambda>k. Some (dynobj (ms_t k))) rm_periods"
  "map_of (rm_objs n) (n + 9) = Some (dynobj (s_t second_to_start))"
  "map_of (rm_objs n) (n + 10) = Some (dynobj (s_t second_to_stop))"
  "fst ` set (rm_objs n) \<subseteq> {n..<n + 11}"
  "store_ok h \<Longrightarrow> next_addr h \<le> n \<Longrightarrow> objs_ok h (n + 11) (rm_objs n)"
  by (auto simp: rm_objs_def rm_wcets_def rm_periods_def)

lemma rm_times_made:
  assumes m: "\<forall>k. malloc_ok h k" and h: "store_ok h" and n: "n = next_addr h"
  shows "make_times Unit_ms rm_wcets h = Some (map Some [n, n + 1, n + 2, n + 3], with_objs h (n + 4) (numbered n ms_t rm_wcets))"
    "to_utility_time_dyn 100 Unit_us (with_objs h (n + 4) (numbered n ms_t rm_wcets)) =
      Some (Some (n + 4), with_objs h (n + 5) ((n + 4, dynobj tolerance_t) # numbered n ms_t rm_wcets))"
    "make_times Unit_ms rm_periods (with_objs h (n + 5) ((n + 4, dynobj tolerance_t) # numbered n ms_t rm_wcets)) =
      Some (map Some [n + 5, n + 6, n + 7, n + 8],
        with_objs h (n + 9) (numbered (n + 5) ms_t rm_periods @ (n + 4, dynobj tolerance_t) # numbered n ms_t rm_wcets))"
    "to_utility_time_dyn (of_int second_to_start) Unit_s
        (with_objs h (n + 9) (numbered (n + 5) ms_t rm_periods @ (n + 4, dynobj tolerance_t) # numbered n ms_t rm_wcets)) =
      Some (Some (n + 9), with_objs h (n + 10) ((n + 9, dynobj (s_t second_to_start)) #
        numbered (n + 5) ms_t rm_periods @ (n + 4, dynobj tolerance_t) # numbered n ms_t rm_wcets))"
    "to_utility_time_dyn (of_int second_to_stop) Unit_s (with_objs h (n + 10) ((n + 9, dynobj (s_t second_to_start)) #
        numbered (n + 5) ms_t rm_periods @ (n + 4, dynobj tolerance_t) # numbered n ms_t rm_wcets)) =
      Some (Some (n + 10), with_objs h (n + 11) (rm_objs n))"
proof -
  have l: "n + 4 = n + length rm_wcets" "n + 9 = Suc (n + 4) + length rm_periods" by (simp_all add: rm_wcets_def rm_periods_def)
  have suc: "Suc (n + 4) = n + 5" "Suc (n + 9) = n + 10" "Suc (n + 10) = n + 11" "[n..<n + 4] = [n, n + 1, n + 2, n + 3]"
    "[n + 5..<n + 9] = [n + 5, n + 6, n + 7, n + 8]" by (simp_all add: upt_rec)
  note T = times_made(1-4) [where u = "of_int second_to_start" and U = Unit_s, OF m h n l refl refl refl refl, unfolded suc, folded s_t_def]
    times_made(5) [where u = "of_int second_to_start" and U = Unit_s and v = "of_int second_to_stop", OF m h n l refl refl refl refl,
      unfolded suc, folded s_t_def]
  show "make_times Unit_ms rm_wcets h = Some (map Some [n, n + 1, n + 2, n + 3], with_objs h (n + 4) (numbered n ms_t rm_wcets))" by (rule T(1))
  show "to_utility_time_dyn 100 Unit_us (with_objs h (n + 4) (numbered n ms_t rm_wcets)) =
      Some (Some (n + 4), with_objs h (n + 5) ((n + 4, dynobj tolerance_t) # numbered n ms_t rm_wcets))" by (rule T(2))
  show "make_times Unit_ms rm_periods (with_objs h (n + 5) ((n + 4, dynobj tolerance_t) # numbered n ms_t rm_wcets)) =
      Some (map Some [n + 5, n + 6, n + 7, n + 8],
        with_objs h (n + 9) (numbered (n + 5) ms_t rm_periods @ (n + 4, dynobj tolerance_t) # numbered n ms_t rm_wcets))" by (rule T(3))
  show "to_utility_time_dyn (of_int second_to_start) Unit_s
        (with_objs h (n + 9) (numbered (n + 5) ms_t rm_periods @ (n + 4, dynobj tolerance_t) # numbered n ms_t rm_wcets)) =
      Some (Some (n + 9), with_objs h (n + 10) ((n + 9, dynobj (s_t second_to_start)) #
        numbered (n + 5) ms_t rm_periods @ (n + 4, dynobj tolerance_t) # numbered n ms_t rm_wcets))" by (rule T(4))
  show "to_utility_time_dyn (of_int second_to_stop) Unit_s (with_objs h (n + 10) ((n + 9, dynobj (s_t second_to_start)) #
        numbered (n + 5) ms_t rm_periods @ (n + 4, dynobj tolerance_t) # numbered n ms_t rm_wcets)) =
      Some (Some (n + 10), with_objs h (n + 11) (rm_objs n))" unfolding rm_objs_def by (rule T(5))
qed

lemma fifo_level:
  assumes "0 \<le> priority_min env" "priority_min env + int i \<le> priority_max env" "priority_max env < 2 ^ 31"
  shows "sched_fifo_prio env (of_nat i) = (0, Some (priority_max env - int i))"
proof -
  have "sint (word_of_int (priority_max env) - of_nat i :: u32) = priority_max env - int i"
    using assms sint32_of_int [of "priority_max env - int i"] by simp
  then show ?thesis using assms by (simp add: sched_fifo_prio_def)
qed

lemma prios_set:
  assumes "0 \<le> priority_min env" "priority_min env + 4 \<le> priority_max env" "priority_max env < 2 ^ 31"
  shows "set_prios env [1..<5] = Some [priority_max env - 1, priority_max env - 2, priority_max env - 3, priority_max env - 4]"
proof -
  have p: "sched_fifo_prio env (of_nat i) = (0, Some (priority_max env - int i))" if "i \<le> 4" for i
    by (rule fifo_level) (use assms that in auto)
  have "[1..<5] = [1, 2, 3, 4 :: nat]" by (simp add: upt_rec)
  then show ?thesis using p [of 1] p [of 2] p [of 3] p [of 4] by simp
qed

definition rm_specs :: "nat \<Rightarrow> (nat \<times> nat \<times> nat \<times> u64) list" where
  "rm_specs n = [(1, n, n + 5, rm_slots 10), (2, n + 1, n + 6, rm_slots 15), (3, n + 2, n + 7, rm_slots 26), (4, n + 3, n + 8, rm_slots 36)]"

text \<open>What a program made of the task numbers, execution times and periods.\<close>

definition rm_created :: "byte_order \<Rightarrow> (nat \<Rightarrow> create_env) \<Rightarrow> fsys \<Rightarrow> timespec \<Rightarrow> task list \<Rightarrow> bool" where
  "rm_created bo cenv fs t_release taus \<longleftrightarrow> list_all2
     (\<lambda>(i, w, p) tau. created_as bo (cenv i) fs t_release i (rm_slots p) (ms_t w) (ms_t p) (ms_t p) tau)
     (zip [1..<5] (zip rm_wcets rm_periods)) taus"

lemma rm_setup_runs:
  assumes m: "\<forall>k. malloc_ok h k" and h: "store_ok h" and meas: "measures cj tj" "measures cf tf"
    and ov: "time_ok (dynobj tj)" "time_ok (dynobj tf)" "ov = ns_of (dynobj tj) + ns_of (dynobj tf)" "ov \<le> 2000000"
    and mk: "makes_busyloops TYPE('l::len) env kenv class S" "s \<in> S"
    and clock: "\<forall>s \<in> S. \<exists>now w. sys_clock env (sys_world s) = (Some now, w) \<and> P now"
    and can: "\<forall>(i, p) \<in> set (zip [1..<5] rm_periods). can_create (cenv i) fs i (rm_slots p)"
    and kenv: "0 \<le> priority_min kenv" "priority_min kenv + 4 \<le> priority_max kenv" "priority_max kenv < 2 ^ 31"
      "\<forall>p. setparam_errno kenv SCHED_FIFO p = 0"
  shows "\<exists>taus (bls :: 'l word cpu_busyloop list) now s1 j f a k.
    rm_setup bo cenv fs env kenv class cj cf h s = Some (Rm_ready taus bls (time_op utility_time_add now (s_t second_to_stop))
      [priority_max kenv - 1, priority_max kenv - 2, priority_max kenv - 3, priority_max kenv - 4] (Some j, Some f, Some a),
      Posix SCHED_FIFO (priority_max kenv),
      with_objs h k [(a, kept_obj (time_op utility_time_add tj tf)), (f, kept_obj tf), (j, kept_obj tj)], s1) \<and>
    P now \<and> next_addr h \<le> j \<and> j < f \<and> f < a \<and> a < k \<and>
    map (\<lambda>bl. ns_of (bl_duration bl)) bls = map (\<lambda>w. w * 1000000 - ov) rm_wcets \<and>
    rm_created bo cenv fs (time_op utility_time_add now (s_t second_to_start)) taus"
proof -
  define n where "n = next_addr h"
  let ?o = "kept_obj (time_op utility_time_add tj tf)"
  note T = rm_times_made [OF m h n_def]
  note ok0 = rm_objs_at(7) [OF h, of n, unfolded n_def, OF order_refl, folded n_def]
  from exp_overheads_objs [OF meas m ok0] obtain j f a k where jfa: "n + 11 \<le> j" "j < f" "f < a" "a < k"
    and E: "exp_overheads cj cf (with_objs h (n + 11) (rm_objs n)) =
      Some ((True, Some j, Some f, Some a), with_objs h k ((a, ?o) # (f, kept_obj tf) # (j, kept_obj tj) # rm_objs n))" by blast
  let ?k = "[(a, ?o), (f, kept_obj tf), (j, kept_obj tj)]"
  define ws where "ws = [n, n + 1, n + 2, n + 3]"
  define ps where "ps = [n + 5, n + 6, n + 7, n + 8]"
  note T = T [folded ws_def ps_def]
  define us where "us = ?k @ rm_objs n"
  have E: "exp_overheads cj cf (with_objs h (n + 11) (rm_objs n)) = Some ((True, Some j, Some f, Some a), with_objs h k us)"
    using E by (simp add: us_def)
  have ok: "objs_ok h k us" using objs_ok_later [OF ok0, of k] jfa n_def [symmetric] by (simp add: us_def)
  have old: "map_of us x = map_of (rm_objs n) x" if "x < n + 11" for x using that jfa by (simp add: us_def)
  have at: "map (map_of us) ws = map (\<lambda>k. Some (dynobj (ms_t k))) rm_wcets" "map_of us (n + 4) = Some (dynobj tolerance_t)"
    "map (map_of us) ps = map (\<lambda>k. Some (dynobj (ms_t k))) rm_periods"
    "map_of us (n + 9) = Some (dynobj (s_t second_to_start))" "map_of us (n + 10) = Some (dynobj (s_t second_to_stop))"
    using rm_objs_at(1-5) [of n] old by (simp_all add: ws_def ps_def)
  let ?specs = "(\<Union>(i, w, p, slots) \<in> set (rm_specs n). {w, p})"
  let ?all = "?specs \<union> ({n + 10} \<union> ({n + 9} \<union> {n + 4}))"
  have "[n..<n + 11] = [n, n + 1, n + 2, n + 3, n + 4, n + 5, n + 6, n + 7, n + 8, n + 9, n + 10]" by (simp add: upt_rec)
  then have "{n..<n + 11} = set [n, n + 1, n + 2, n + 3, n + 4, n + 5, n + 6, n + 7, n + 8, n + 9, n + 10]"
    by (metis set_upt)
  then have all: "?all = {n..<n + 11}" by (auto simp: rm_specs_def)
  have "without ?all (rm_objs n) = []" using rm_objs_at(6) [of n] unfolding all without_def filter_empty_conv by auto
  then have rest: "without ?all us = ?k" using jfa unfolding all us_def by simp
  have ju: "map_of us j = Some (kept_obj tj)" "map_of us f = Some (kept_obj tf)" "map_of us a = Some ?o" using jfa by (simp_all add: us_def)
  have ms: "ns_of (dynobj (ms_t w)) = w * 1000000 \<and> time_ok (dynobj (ms_t w))" if "w \<in> set rm_wcets" for w
    using that ms_t [of w] by (auto simp: rm_wcets_def)
  have uo: "time_ok ?o" "ns_of ?o = ov"
    using overhead_time [OF ov(1-3)] ov(4) by (simp_all add: time_limit_def)
  have ws: "\<forall>w \<in> set ws. \<exists>u. map_of us w = Some u \<and> time_ok u \<and> ns_of ?o \<le> ns_of u \<and> ns_of u < 1000000000"
    using at(1) ms ov(4) unfolding uo(2) ws_def by (simp add: rm_wcets_def)
  have ds1: "distinct [a, n + 4, n + 9, n + 10]" "n + 4 \<notin> set ws" and len: "length ws = 4" and ar: "k + 4 + 2 = k + 6" "k + 4 + 4 = k + 8"
    using jfa by (simp_all add: ws_def)
  from loops_and_instants [OF mk m clock ok ju(3) uo(1) at(2,4,5) ds1 ws len] obtain bls :: "'l word cpu_busyloop list" and s1 now w
    where C: "check_wcets (map Some ws) (Some a) (with_objs h k us) = Some True"
      and M: "set_manual (Some (n + 4)) (with_objs h k us) = Some (with_objs h k (made_manual (n + 4) us))"
      and B: "create_busyloops env kenv class (Some a) (Some (n + 4)) (map Some ws) (with_objs h k (made_manual (n + 4) us)) s =
        Some (Some bls, with_objs h (k + 4) (made_manual (n + 4) us), s1)"
      and G: "utility_time_gc (Some (n + 4)) (with_objs h (k + 4) (made_manual (n + 4) us)) = Some (with_objs h (k + 4) (without {n + 4} us))"
      and now: "sys_clock env (sys_world s1) = (Some now, w)" "P now"
      and I: "instant_after now (Some (n + 9)) (with_objs h (k + 4) (without {n + 4} us)) =
        Some (time_op utility_time_add now (s_t second_to_start), with_objs h (k + 6) (without {n + 4, n + 9} us))"
      and J: "instant_after now (Some (n + 10)) (with_objs h (k + 6) (without {n + 4, n + 9} us)) =
        Some (time_op utility_time_add now (s_t second_to_stop), with_objs h (k + 8) (without {n + 4, n + 9, n + 10} us))"
      and lp: "map (\<lambda>bl. ns_of (bl_duration bl)) bls = map (\<lambda>w. ns_of (the (map_of us w)) - ov) ws"
    unfolding uo(2) ar by blast
  have "map (\<lambda>w. ns_of (the (map_of us w)) - ov) ws = map (\<lambda>u. ns_of (the u) - ov) (map (map_of us) ws)" by simp
  then have loops: "map (\<lambda>bl. ns_of (bl_duration bl)) bls = map (\<lambda>w. w * 1000000 - ov) rm_wcets"
    unfolding lp at(1) using ms by simp
  let ?us4 = "without {n + 4, n + 9, n + 10} us"
  have ok4: "objs_ok h (k + 8) ?us4" using ok objs_ok_later [of h k us "k + 8"] by (auto intro: objs_ok_without)
  have up: "[1..<5] = [1, 2, 3, 4 :: nat]" by (simp add: upt_rec)
  have Z: "zip [1..<5] (zip (map Some ws) (zip (map Some ps) (map rm_slots rm_periods))) =
      map (\<lambda>(i, w, p, slots). (i, Some w, Some p, slots)) (rm_specs n)"
    unfolding up by (simp add: ws_def ps_def rm_periods_def rm_specs_def)
  let ?rel = "time_op utility_time_add now (s_t second_to_start)"
  have lw: "map_of us n = Some (dynobj (ms_t 2))" "map_of us (n + 1) = Some (dynobj (ms_t 3))" "map_of us (n + 2) = Some (dynobj (ms_t 6))"
    "map_of us (n + 3) = Some (dynobj (ms_t 6))" using at(1) by (simp_all add: ws_def rm_wcets_def)
  have lp: "map_of us (n + 5) = Some (dynobj (ms_t 10))" "map_of us (n + 6) = Some (dynobj (ms_t 15))" "map_of us (n + 7) = Some (dynobj (ms_t 26))"
    "map_of us (n + 8) = Some (dynobj (ms_t 36))" using at(3) by (simp_all add: ps_def rm_periods_def)
  have sp: "\<forall>(i, w, p, slots) \<in> set (rm_specs n). can_create (cenv i) fs i slots \<and>
      (\<exists>wt pt. map_of ?us4 w = Some (dynobj wt) \<and> map_of ?us4 p = Some (dynobj pt)) \<and> {j, f} \<inter> {w, p} = {}"
    using can lw lp jfa unfolding up by (auto simp: rm_specs_def rm_periods_def)
  have ds: "distinct (map (\<lambda>x. fst (snd x)) (rm_specs n) @ map (\<lambda>x. fst (snd (snd x))) (rm_specs n))" by (simp add: rm_specs_def)
  have jf: "map_of ?us4 j = Some (kept_obj tj)" "map_of ?us4 f = Some (kept_obj tf)" using ju jfa by simp_all
  have sl: "length (rm_specs n) = 4" by (simp add: rm_specs_def)
  from rm_tasks_created [OF m ok4 sp ds jf manual_flags(4) manual_flags(4), of bo ?rel] obtain taus
    where K: "rm_create_tasks bo cenv fs ?rel (Some j) (Some f) (map (\<lambda>(i, w, p, slots). (i, Some w, Some p, slots)) (rm_specs n))
        (with_objs h (k + 8) ?us4) = Some ((True, taus), with_objs h (k + 8 + 3 * 4) (without ?specs ?us4))"
      and L: "list_all2 (\<lambda>(i, w, p, slots) tau. created_as bo (cenv i) fs ?rel i slots (ut_t (the (map_of ?us4 w))) (ut_t (the (map_of ?us4 p)))
        (ut_t (the (map_of ?us4 p))) tau) (rm_specs n) taus" unfolding sl by blast
  have made: "rm_created bo cenv fs ?rel taus"
    using L lw lp unfolding rm_created_def up by (simp add: rm_specs_def rm_wcets_def rm_periods_def list_all2_Cons1)
  have fin: "without ?specs ?us4 = ?k" using rest by (simp add: insert_commute)
  have sched: "sched_fifo_enter_max kenv class None = (0, None, Posix SCHED_FIFO (priority_max kenv))"
    using fifo_level [of kenv 0] kenv by (simp add: sched_fifo_enter_max_def sched_fifo_enter_def sched_save_def)
  have "rm_setup bo cenv fs env kenv class cj cf h s = Some (Rm_ready taus bls (time_op utility_time_add now (s_t second_to_stop))
      [priority_max kenv - 1, priority_max kenv - 2, priority_max kenv - 3, priority_max kenv - 4] (Some j, Some f, Some a),
      Posix SCHED_FIFO (priority_max kenv), with_objs h (k + 8 + 3 * 4) ?k, s1\<lparr>sys_world := w\<rparr>)"
    unfolding rm_setup_def
    by (simp only: T E C M B G now(1) I J Z K fin sched prios_set [OF kenv(1-3)] bind.bind_lunit option.case prod.case Let_def if_True if_False
        not_True_eq_False simp_thms Option.bind.simps)
  moreover have "next_addr h \<le> j" "a < k + 8 + 3 * 4" using jfa n_def by simp_all
  ultimately show ?thesis using now(2) jfa(2,3) loops made by blast
qed

lemma rm_overheads_freed:
  assumes "objs_ok h k [(a, ua), (f, uf), (j, uj)]" "j < f" "f < a" "dyn_alloc ua" "dyn_alloc uf" "dyn_alloc uj"
    and "\<forall>tau \<in> set taus. task_destroy tau = Some ()"
  shows "rm_cleanup taus (Some j, Some f, Some a) (with_objs h k [(a, ua), (f, uf), (j, uj)]) = Some (h\<lparr>next_addr := k\<rparr>)"
  using overheads_freed [OF assms(1) _ assms(4-6)] assms tasks_destroyed [of "rev taus"] by (simp add: rm_cleanup_def with_no_objs)

lemma rm_slots_values: "map (\<lambda>p. unat (rm_slots p)) rm_periods = [1000, 666, 384, 277]" "\<forall>p \<in> set rm_periods. rm_slots p \<noteq> 0"
  by (simp_all add: rm_slots_def rm_periods_def second_to_start_def second_to_stop_def)

lemma rm_created_params:
  assumes "rm_created bo cenv fs rel taus" "time_ok (dynobj rel)"
  shows "map tk_name taus = [''tau 1'', ''tau 2'', ''tau 3'', ''tau 4'']"
    "map (\<lambda>tau. ns_of (wcet tau)) taus = map (\<lambda>w. w * 1000000) rm_wcets"
    "map (\<lambda>tau. ns_of (period tau)) taus = map (\<lambda>p. p * 1000000) rm_periods"
    "map (\<lambda>tau. ns_of (tk_deadline tau)) taus = map (\<lambda>p. p * 1000000) rm_periods"
    "map (\<lambda>tau. ns_of (t_0 tau) + ns_of (tk_offset tau)) taus = replicate 4 (ns_of (dynobj rel))"
    "map (\<lambda>tau. unat (slot_count (the (stats_ringbuf tau)))) taus = [1000, 666, 384, 277]"
    "\<forall>tau \<in> set taus. task_destroy tau = Some ()"
proof -
  have "[1..<5] = [1, 2, 3, 4 :: nat]" by (simp add: upt_rec)
  with assms(1) obtain t1 t2 t3 t4 where taus: "taus = [t1, t2, t3, t4]"
    and c: "created_as bo (cenv 1) fs rel 1 (rm_slots 10) (ms_t 2) (ms_t 10) (ms_t 10) t1"
      "created_as bo (cenv 2) fs rel 2 (rm_slots 15) (ms_t 3) (ms_t 15) (ms_t 15) t2"
      "created_as bo (cenv 3) fs rel 3 (rm_slots 26) (ms_t 6) (ms_t 26) (ms_t 26) t3"
      "created_as bo (cenv 4) fs rel 4 (rm_slots 36) (ms_t 6) (ms_t 36) (ms_t 36) t4"
    by (auto simp: rm_created_def rm_wcets_def rm_periods_def list_all2_Cons1)
  have s: "rm_slots 10 \<noteq> 0" "rm_slots 15 \<noteq> 0" "rm_slots 26 \<noteq> 0" "rm_slots 36 \<noteq> 0" using rm_slots_values(2) by (simp_all add: rm_periods_def)
  note p = created_as_params [OF c(1) s(1) assms(2)] created_as_params [OF c(2) s(2) assms(2)] created_as_params [OF c(3) s(3) assms(2)]
    created_as_params [OF c(4) s(4) assms(2)]
  have n: "show_nat 1 = ''1''" "show_nat 2 = ''2''" "show_nat 3 = ''3''" "show_nat 4 = ''4''" by code_simp+
  have v: "unat (rm_slots 10) = 1000" "unat (rm_slots 15) = 666" "unat (rm_slots 26) = 384" "unat (rm_slots 36) = 277"
    using rm_slots_values(1) by (simp_all add: rm_periods_def)
  show "map tk_name taus = [''tau 1'', ''tau 2'', ''tau 3'', ''tau 4'']" using p(1,12,23,34) unfolding n taus by simp
  show "map (\<lambda>tau. unat (slot_count (the (stats_ringbuf tau)))) taus = [1000, 666, 384, 277]"
    using p(11,22,33,44) v by (auto simp: taus)
  show "map (\<lambda>tau. ns_of (wcet tau)) taus = map (\<lambda>w. w * 1000000) rm_wcets"
    using p(2,13,24,35) by (simp add: taus rm_wcets_def)
  show "map (\<lambda>tau. ns_of (period tau)) taus = map (\<lambda>p. p * 1000000) rm_periods"
    using p(3,14,25,36) by (simp add: taus rm_periods_def)
  show "map (\<lambda>tau. ns_of (tk_deadline tau)) taus = map (\<lambda>p. p * 1000000) rm_periods"
    using p(4,15,26,37) by (simp add: taus rm_periods_def)
  show "map (\<lambda>tau. ns_of (t_0 tau) + ns_of (tk_offset tau)) taus = replicate 4 (ns_of (dynobj rel))"
    using p(5,6,16,17,27,28,38,39) by (simp add: taus eval_nat_numeral)
  show "\<forall>tau \<in> set taus. task_destroy tau = Some ()" using p(10,21,32,43) by (simp add: taus)
qed

section \<open>The experiment\<close>


text \<open>When the first measurement fails, the exit code is 1 and the eleven times made before remain.\<close>

theorem rate_monotonic_error_keeps_times:
  assumes "\<forall>k. malloc_ok h k" "store_ok h" "n = next_addr h"
    and "call_job_overhead (with_objs h (n + 11) (rm_objs n)) = Some ((rc, None), with_objs h (n + 11) (rm_objs n))" "rc \<noteq> 0"
  shows "\<exists>st :: 'l::len word rm_state. rm_setup bo cenv fs env kenv class call_job_overhead call_task_overhead h s =
      Some (st, class, with_objs h (n + 11) (rm_objs n), s) \<and>
    rm_finish threads st (with_objs h (n + 11) (rm_objs n)) = Some (1, with_objs h (n + 11) (rm_objs n)) \<and> length (rm_objs n) = 11"
proof (intro exI conjI)
  have "exp_overheads call_job_overhead call_task_overhead (with_objs h (n + 11) (rm_objs n)) =
      Some ((False, None, None, None), with_objs h (n + 11) (rm_objs n))" using assms(4,5) by (simp add: exp_overheads_def)
  note E = rm_times_made [OF assms(1-3)] this
  show "rm_setup bo cenv fs env kenv class call_job_overhead call_task_overhead h s =
      Some (Rm_error [] (None, None, None), class, with_objs h (n + 11) (rm_objs n), s)"
    unfolding rm_setup_def by (simp only: E bind.bind_lunit prod.case Let_def not_False_eq_True if_True)
qed (simp_all add: rm_cleanup_def free_overheads_def gc_not_null_def rm_objs_def rm_wcets_def rm_periods_def)

text \<open>A witness: a system whose clock stands still, on which every loop is found to be quick enough.\<close>

definition still_env :: "nat sys_env" where
  "still_env = plain_env\<lparr>sys_clock := \<lambda>w. (Some \<lparr>tv_sec = 1, tv_nsec = 0\<rparr>, w)\<rparr>"

lemma still_measurement: "fst (busyloop_measurement still_env n w) = 0"
  by (simp add: busyloop_measurement_def still_env_def plain_env_def Let_def)

lemma still_search:
  assumes "0 \<le> d" "k \<le> unat m" "unat m < 2 ^ 31"
  shows "\<exists>w1. busyloop_search still_env d tol m 0 k (0 :: u32) w = Some (0, 0, w1)"
  using assms(2)
proof (induction "unat m - k" arbitrary: k w)
  case 0
  then show ?case using assms still_measurement [of "0 :: u32" w]
    by (subst busyloop_search.simps) (simp add: split_def)
next
  case (Suc j)
  have "j = unat m - (k + 1)" "k + 1 \<le> unat m" using Suc by simp_all
  note IH = Suc.hyps(1) [OF this, of "snd (busyloop_measurement still_env (0 :: u32) w)"]
  have e: "sys_round still_env = id" by (simp add: still_env_def plain_env_def)
  have "duration_to_loop_count id 0 x = Some 0" "loop_count_too_long TYPE(32) 0 = Some False" for x
    by (simp_all add: duration_to_loop_count_def loop_count_too_long_def)
  then show ?case using assms Suc.prems Suc.hyps(2) IH still_measurement [of "0 :: u32" w]
    by (cases "d = 0"; subst busyloop_search.simps; simp add: split_def e Let_def)
qed

lemma sec_nonneg: "time_ok u \<Longrightarrow> 0 \<le> timespec_to_sec id (to_timespec u)"
  by (simp add: timespec_to_sec_def to_timespec_def time_ok_def del: of_int_sint)

lemma still_makes: "makes_busyloops TYPE(32) still_env env_ok class {s. sys_files s = (\<lambda>_. None)}"
  unfolding makes_busyloops_def
proof (intro allI impI)
  fix d t h and s :: "nat sys_state" and u v
  assume a: "s \<in> {s. sys_files s = (\<lambda>_. None)} \<and> store_ok h \<and> d \<noteq> t \<and> load (Some d) h = Some u \<and> load (Some t) h = Some v \<and>
    time_ok u \<and> ns_of u < 1000000000"
  have e: "sys_round still_env = id" "sys_thread_ok still_env = (True, True)" "sys_mem still_env n" for n by (simp_all add: still_env_def plain_env_def)
  have "duration_to_loop_count id 0 x = Some 0" "loop_count_too_long TYPE(32) 0 = Some False" for x
    by (simp_all add: duration_to_loop_count_def loop_count_too_long_def)
  moreover have "cpu_freq_get still_env 0 s = Some (0, s)" using a by (simp add: cpu_freq_get_def sys_open_text_def Let_def)
  moreover obtain w1 where "busyloop_search still_env (timespec_to_sec id (to_timespec u)) (timespec_to_sec id (to_timespec v)) 10 0 1 (0 :: u32) (sys_world s) =
      Some (0, 0, w1)" using still_search [OF sec_nonneg, of u 1 10 "timespec_to_sec id (to_timespec v)" "sys_world s"] a by auto
  moreover have "fst (lock_me_to_cpu still_env 0 s) = 0" "fst (sched_fifo_enter_max env_ok class None) = 0"
    by (simp_all add: lock_me_to_cpu_def cpu_bit_def still_env_def plain_env_def sched_fifo_enter_max_def sched_fifo_prio_def env_ok_def
        sched_fifo_enter_def sched_save_def)
  moreover obtain h1 h2 where "utility_time_gc_auto (Some d) h = Some h1" "utility_time_gc_auto (Some t) h1 = Some h2"
  proof -
    have c: "cells h d = Some u" "cells h t = Some v" "d \<noteq> t" "store_ok h" using a by (auto split: option.splits)
    have "utility_time_gc_auto (Some d) h = Some (collect d u h)" by (rule gc_auto_eq) (use c store_okD(1) in blast)+
    moreover have "utility_time_gc_auto (Some t) (collect d u h) = Some (collect t v (collect d u h))"
      by (rule gc_auto_eq) (use c store_okD(1) [OF c(4,2)] in \<open>auto simp: collect_def\<close>)
    ultimately show ?thesis using that by blast
  qed
  ultimately show "\<exists>r :: 32 word busyloop_result. \<exists>h1 s1. create_cpu_busyloop still_env env_ok class 0 (Some d) (Some t) 10 h s = Some ((0, r), h1, s1) \<and>
      s1 \<in> {s. sys_files s = (\<lambda>_. None)}"
    using a by (simp add: create_cpu_busyloop_def busyloop_search_thread_def e Let_def)
qed

definition still_state :: "nat sys_state" where
  "still_state = \<lparr>sys_files = (\<lambda>_. None), sys_open = [], affinity = {}, sys_world = 0\<rparr>"

definition job_overhead0 :: "time_store \<Rightarrow> ((int \<times> time_ptr) \<times> time_store) option" where
  "job_overhead0 = job_statistics_overhead True True env0"

definition task_overhead0 :: "task \<Rightarrow> time_store \<Rightarrow> ((int \<times> time_ptr) \<times> time_store) option" where
  "task_overhead0 tau = finish_to_start_overhead True True CPU_LITTLE_ENDIAN [] tau measuring0
     [Some \<lparr>tv_sec = 5, tv_nsec = 100000007\<rparr>, Some \<lparr>tv_sec = 6, tv_nsec = 0\<rparr>,
      Some \<lparr>tv_sec = 6, tv_nsec = 30\<rparr>, Some \<lparr>tv_sec = 7, tv_nsec = 0\<rparr>] False"

lemma overheads0:
  "\<exists>tj tf. measures job_overhead0 tj \<and> measures (task_overhead0 tau) tf \<and> time_ok (dynobj tj) \<and> time_ok (dynobj tf) \<and>
    937 = ns_of (dynobj tj) + ns_of (dynobj tf)"
proof -
  have j: "measures job_overhead0 (time_op utility_time_sub \<lparr>tv_sec = 1, tv_nsec = 905\<rparr> \<lparr>tv_sec = 1, tv_nsec = 5\<rparr>)"
    unfolding job_overhead0_def by (rule job_statistics_overhead_measures) (simp_all add: env0_def)
  have f: "measures (task_overhead0 tau) (time_op utility_time_add
      (time_op utility_time_sub \<lparr>tv_sec = 5, tv_nsec = 100000007\<rparr> (ut_t (utility_time_add
        (timespec_to_utility_time \<lparr>tv_sec = 5, tv_nsec = 0\<rparr> utility_time_init) (to_utility_time 100 Unit_ms utility_time_init) utility_time_init)))
      (time_op utility_time_sub \<lparr>tv_sec = 6, tv_nsec = 30\<rparr> \<lparr>tv_sec = 6, tv_nsec = 0\<rparr>))"
    unfolding task_overhead0_def by (rule finish_to_start_overhead_measures [OF _ _ _ _ _ _ _ _ _ refl]) (simp_all add: measuring0_def, simp_all)
  show ?thesis by (intro exI conjI, rule j, rule f) code_simp+
qed

lemma task_digits: "0 < i \<Longrightarrow> i < 5 \<Longrightarrow> length (show_nat i) = 1"
proof -
  have d: "length (show_nat 1) = 1" "length (show_nat 2) = 1" "length (show_nat 3) = 1" "length (show_nat 4) = 1" by code_simp+
  assume "0 < i" "i < 5"
  then consider "i = 1" | "i = 2" | "i = 3" | "i = 4" by linarith
  then show ?thesis by cases (simp_all only: d)
qed

lemma still_premises:
  assumes "ws_room w0 \<ge> 71"
  shows "\<forall>(i, p) \<in> set (zip [1..<5] rm_periods). can_create good_create (one_file w0) i (rm_slots p)"
    "0 \<le> priority_min env_ok" "priority_min env_ok + 4 \<le> priority_max env_ok" "priority_max env_ok < 2 ^ 31"
    "\<forall>p. setparam_errno env_ok SCHED_FIFO p = 0" "99 = priority_max env_ok" "still_state \<in> {s. sys_files s = (\<lambda>_. None)}"
    "(937 :: int) \<le> 2000000" "\<forall>k. malloc_ok args_store k"
    "\<forall>s \<in> {s. sys_files s = (\<lambda>_. None)}. \<exists>now w. sys_clock still_env (sys_world s) = (Some now, w) \<and> now = \<lparr>tv_sec = 1, tv_nsec = 0\<rparr>"
    "time_ok (dynobj \<lparr>tv_sec = 1, tv_nsec = 0\<rparr>)" "ns_of (dynobj \<lparr>tv_sec = 1, tv_nsec = 0\<rparr>) = 1000000000"
proof -
  have up: "[1..<5] = [1, 2, 3, 4 :: nat]" by (simp add: upt_rec)
  note task_digits [of 1] task_digits [of 2] task_digits [of 3] task_digits [of 4]
  then show "\<forall>(i, p) \<in> set (zip [1..<5] rm_periods). can_create good_create (one_file w0) i (rm_slots p)"
    using assms rm_slots_values(2) unfolding up by (auto simp: can_create_def rm_periods_def)
qed (auto simp: env_ok_def still_state_def still_env_def time_ok_def ns_of_def)


section \<open>The threads\<close>

text \<open>Claim C22. The thread of one of the four tasks, at its priority, runs the jobs of its schedule, the first one at the common
  release and then one every period, until it is stopped, and its file holds the parameters of the task and the jobs of the
  first ten seconds; the task can be destroyed then.\<close>

theorem rate_monotonic_thread_logs:
  assumes "rm_created bo cenv fs rel taus" "i < 4" "tau = taus ! i" "time_ok (dynobj rel)" "start = ns_of (dynobj rel)"
      "per = rm_periods ! i * 1000000" "slots = [1000, 666, 384, 277] ! i"
    and "fs_create fs (''tau_'' @ show_nat (i + 1) @ ''_stats.bin'') = Some w0" "ws_out w0 = []" "ws_close_ok w0"
      "95 + 32 * slots \<le> ws_room w0" "setparam_errno kenv SCHED_FIFO prio = 0"
    and "te = tenv\<lparr>run_program := busyloop_exact env bl\<rparr>" "healthy te" "Suc n < 2 ^ 64" "start + int (Suc n) * per < time_limit"
      "stops_after te (release te False start per) n w" "schedule te (release te False start per) 0 (Suc n) w = (xs, w1)"
  shows "\<exists>tau1 tau2. rm_task_thread bo kenv class tenv env bl prio tau w = Some (0, tau2, Some (task_file bo tau1 (take slots xs)), w1) \<and>
    task_destroy tau2 = Some () \<and> same_params tau1 tau \<and> unat (tk_write_count tau1) = Suc n \<and>
    unat (lost_job_count tau1) = Suc n - slots"
proof -
  let ?p = "rm_periods ! i"
  have up: "[1..<5] = [1, 2, 3, 4 :: nat]" by (simp add: upt_rec)
  have i: "i = 0 \<or> i = 1 \<or> i = 2 \<or> i = 3" using assms(2) by arith
  have len: "length (zip [1..<5] (zip rm_wcets rm_periods)) = 4" by (simp add: rm_wcets_def rm_periods_def)
  have at: "zip [1..<5] (zip rm_wcets rm_periods) ! i = (i + 1, rm_wcets ! i, ?p)"
    using i unfolding up by (auto simp: rm_wcets_def rm_periods_def)
  from list_all2_nthD [OF assms(1) [unfolded rm_created_def], of i] assms(2) have c:
    "created_as bo (cenv (i + 1)) fs rel (i + 1) (rm_slots ?p) (ms_t (rm_wcets ! i)) (ms_t ?p) (ms_t ?p) tau"
    unfolding at len assms(3) by simp
  have sl: "rm_slots ?p \<noteq> 0" "unat (rm_slots ?p) = slots" and r: "0 \<le> rm_wcets ! i" "rm_wcets ! i < 2 ^ 31" "0 \<le> ?p" "?p < 2 ^ 31"
    using i rm_slots_values unfolding assms(7) by (auto simp: rm_periods_def rm_wcets_def)
  have room: "90 + length (''tau '' @ show_nat (i + 1)) + 32 * unat (rm_slots ?p) \<le> ws_room w0"
    using task_digits [of "i + 1"] assms(2,11) sl(2) by simp
  from created_as_follows [OF c sl(1) assms(4) r(1-4) r(3,4) assms(8-10) room assms(5,6,16,14,15,17,18)]
  obtain tau1 tau2 where "task_start bo te tau w = Some (0, tau2, Some (task_file bo tau1 (take slots xs)), w1)" "task_destroy tau2 = Some ()"
    "same_params tau1 tau" "unat (tk_write_count tau1) = Suc n" "unat (lost_job_count tau1) = Suc n - slots" unfolding sl(2) by blast
  then show ?thesis using assms(12)
    by (intro exI [of _ tau1] exI [of _ tau2]) (simp add: rm_task_thread_def sched_fifo_enter_def sched_save_def assms(13) [symmetric])
qed

theorem rate_monotonic_thread_logs_witness:
  "\<forall>tau. \<exists>t_release taus tau1 tau2 xs. ns_of (dynobj t_release) = 4000000000 \<and>
    rm_created CPU_LITTLE_ENDIAN (\<lambda>_. good_create) (one_file \<lparr>ws_out = [], ws_room = 9000, ws_close_ok = True\<rparr>) t_release taus \<and>
    rm_task_thread CPU_LITTLE_ENDIAN env_ok (Posix 0 0) hrt_task0 plain_env hrt_loop0 95 (taus ! 3) 1 =
      Some (0, tau2, Some (task_file CPU_LITTLE_ENDIAN tau1 xs), 10) \<and> length xs = 3 \<and> unat (lost_job_count tau1) = 0"
proof
  fix tau
  let ?w0 = "\<lparr>ws_out = [], ws_room = 9000, ws_close_ok = True\<rparr>" and ?te = "hrt_task0\<lparr>run_program := busyloop_exact plain_env hrt_loop0\<rparr>"
  have "ws_room ?w0 \<ge> 71" by simp
  note p = still_premises [OF this]
  obtain tj tf where o: "measures job_overhead0 tj" "measures (task_overhead0 tau) tf" "time_ok (dynobj tj)" "time_ok (dynobj tf)"
    "937 = ns_of (dynobj tj) + ns_of (dynobj tf)" using overheads0 by blast
  from rm_setup_runs [OF p(9) args_store_ok(1) o p(8) still_makes p(7,10,1-5)] obtain taus
    where made: "rm_created CPU_LITTLE_ENDIAN (\<lambda>_. good_create) (one_file ?w0) (time_op utility_time_add \<lparr>tv_sec = 1, tv_nsec = 0\<rparr> (s_t second_to_start)) taus"
    by metis
  let ?rel = "time_op utility_time_add \<lparr>tv_sec = 1, tv_nsec = 0\<rparr> (s_t second_to_start)"
  have rel: "time_ok (dynobj ?rel)" "ns_of (dynobj ?rel) = 4000000000" by code_simp+
  note run = hrt_witness_run
  obtain xs where xs: "schedule ?te (release ?te False 4000000000 36000000) 0 (Suc 2) 1 = (xs, 10)"
    using run(3) [of 4000000000 36000000] by (cases "schedule ?te (release ?te False 4000000000 36000000) 0 3 1") simp
  then have l: "length xs = 3" using length_schedule [of ?te "release ?te False 4000000000 36000000" 0 "Suc 2" 1] by simp
  have "\<exists>tau1 tau2. rm_task_thread CPU_LITTLE_ENDIAN env_ok (Posix 0 0) hrt_task0 plain_env hrt_loop0 95 (taus ! 3) 1 =
      Some (0, tau2, Some (task_file CPU_LITTLE_ENDIAN tau1 (take 277 xs)), 10) \<and> task_destroy tau2 = Some () \<and>
      same_params tau1 (taus ! 3) \<and> unat (tk_write_count tau1) = Suc 2 \<and> unat (lost_job_count tau1) = Suc 2 - 277"
    by (rule rate_monotonic_thread_logs [OF made _ refl rel(1) rel(2) [symmetric] _ _ _ _ _ _ _ refl run(1) _ _ run(2) xs, where ?w0.0 = ?w0])
      (simp_all add: rm_periods_def env_ok_def time_limit_def one_file_def)
  then show "\<exists>t_release taus tau1 tau2 xs. ns_of (dynobj t_release) = 4000000000 \<and>
    rm_created CPU_LITTLE_ENDIAN (\<lambda>_. good_create) (one_file ?w0) t_release taus \<and>
    rm_task_thread CPU_LITTLE_ENDIAN env_ok (Posix 0 0) hrt_task0 plain_env hrt_loop0 95 (taus ! 3) 1 =
      Some (0, tau2, Some (task_file CPU_LITTLE_ENDIAN tau1 xs), 10) \<and> length xs = 3 \<and> unat (lost_job_count tau1) = 0"
    using made rel(2) l by (intro exI [of _ ?rel] exI [of _ taus]) auto
qed

end
