(* ===== verification/Earliest_Deadline_First.thy ===== *)
theory Earliest_Deadline_First
  imports Rate_Monotonic
begin

text \<open>
  The experiment with \<^verbatim>\<open>SCHED_DEADLINE\<close> (\<^verbatim>\<open>earliest_deadline_first/main.c\<close>): three periodic tasks that are released together two
  seconds after the start and stopped 405 milliseconds later, each with a reservation of its own. Here the times of the
  tasks are made manual at the start and freed at the end, on the error paths, too.
\<close>

section \<open>The program\<close>

text \<open>The execution time and the deadline of each task, in the order in which they are made, and the periods.\<close>

definition edf_params :: "int list" where "edf_params = [1, 2, 2, 5, 3, 7]"
definition edf_periods :: "int list" where "edf_periods = [4, 5, 10]"
definition offset_to_start_ms :: int where "offset_to_start_ms = 2000"
definition offset_to_stop_ms :: int where "offset_to_stop_ms = 2405"

definition edf_slots :: "int \<Rightarrow> u64" where
  "edf_slots period_ms = of_int ((offset_to_stop_ms - offset_to_start_ms) div period_ms)"

fun set_all_manual :: "time_ptr list \<Rightarrow> time_store \<Rightarrow> time_store option" where
  "set_all_manual [] h = Some h"
| "set_all_manual (p # ps) h = do { h \<leftarrow> set_manual p h; set_all_manual ps h }"

fun gc_all :: "time_ptr list \<Rightarrow> time_store \<Rightarrow> time_store option" where
  "gc_all [] h = Some h"
| "gc_all (p # ps) h = do { h \<leftarrow> utility_time_gc p h; gc_all ps h }"

fun edf_create_tasks :: "byte_order \<Rightarrow> (nat \<Rightarrow> create_env) \<Rightarrow> fsys \<Rightarrow> timespec \<Rightarrow> time_ptr \<Rightarrow> time_ptr \<Rightarrow>
    (nat \<times> time_ptr \<times> time_ptr \<times> time_ptr \<times> u64) list \<Rightarrow> time_store \<Rightarrow> ((bool \<times> task list) \<times> time_store) option" where
  "edf_create_tasks bo cenv fs t_release job_stats_overhead task_overhead [] h = Some ((True, []), h)"
| "edf_create_tasks bo cenv fs t_release job_stats_overhead task_overhead ((i, w, p, d, slots) # rest) h = do {
     ((rc, tau), h) \<leftarrow> create_exp_task bo (cenv i) fs t_release i w p d slots job_stats_overhead task_overhead h;
     if rc \<noteq> 0 then Some ((False, []), h)
     else do {
       ((created, taus), h) \<leftarrow> edf_create_tasks bo cenv fs t_release job_stats_overhead task_overhead rest h;
       Some ((created, the tau # taus), h) } }"

text \<open>
  The state at the jump to the error label, and the one in which the threads are created, with what each is given; the
  times that are freed at the end, and the overheads. The outcomes of opening the switch of the kernel trace and of
  making it unbuffered are inputs.
\<close>

datatype 'n edf_state = Edf_error "task list" "time_ptr list" overheads
  | Edf_ready "(task \<times> time_ptr \<times> time_ptr) list" "'n cpu_busyloop list" timespec "time_ptr list" overheads

definition edf_setup :: "byte_order \<Rightarrow> (nat \<Rightarrow> create_env) \<Rightarrow> fsys \<Rightarrow> 'w sys_env \<Rightarrow> sched_env \<Rightarrow> sched_class \<Rightarrow> bool \<times> bool \<Rightarrow>
    (time_store \<Rightarrow> ((int \<times> time_ptr) \<times> time_store) option) \<Rightarrow> (time_store \<Rightarrow> ((int \<times> time_ptr) \<times> time_store) option) \<Rightarrow>
    time_store \<Rightarrow> 'w sys_state \<Rightarrow> ('l::len word edf_state \<times> time_store \<times> 'w sys_state) option" where
  "edf_setup bo cenv fs env kenv class ktrace call_job_overhead call_task_overhead h s = do {
     (params, h) \<leftarrow> make_times Unit_ms edf_params h;
     (busyloop_tolerance, h) \<leftarrow> to_utility_time_dyn 100 Unit_us h;
     (periods, h) \<leftarrow> make_times Unit_ms edf_periods h;
     (offset_to_start, h) \<leftarrow> to_utility_time_dyn (of_int offset_to_start_ms) Unit_ms h;
     (offset_to_stop, h) \<leftarrow> to_utility_time_dyn (of_int offset_to_stop_ms) Unit_ms h;
     let wcets = [params ! 0, params ! 2, params ! 4];
     let deadlines = [params ! 1, params ! 3, params ! 5];
     let kept = concat (map (\<lambda>(w, p, d). [w, p, d]) (zip wcets (zip periods deadlines)));
     h \<leftarrow> set_all_manual kept h;
     ((measured, overheads), h) \<leftarrow> exp_overheads call_job_overhead call_task_overhead h;
     let (job_stats_overhead, task_overhead, overhead) = overheads;
     if \<not> measured then Some (Edf_error [] kept overheads, h, s)
     else do {
     enough \<leftarrow> check_wcets wcets overhead h;
     if \<not> enough then Some (Edf_error [] kept overheads, h, s)
     else do {
     h \<leftarrow> set_manual busyloop_tolerance h;
     (bls, h, s) \<leftarrow> create_busyloops env kenv class overhead busyloop_tolerance wcets h s;
     (case bls of
        None \<Rightarrow> Some (Edf_error [] kept overheads, h, s)
      | Some bls \<Rightarrow> do {
     h \<leftarrow> utility_time_gc busyloop_tolerance h;
     let (now, w) = sys_clock env (sys_world s);
     let s = s\<lparr>sys_world := w\<rparr>;
     (case now of
        None \<Rightarrow> Some (Edf_error [] kept overheads, h, s)
      | Some t_now \<Rightarrow> do {
     (t_release, h) \<leftarrow> instant_after t_now offset_to_start h;
     (t_stop, h) \<leftarrow> instant_after t_now offset_to_stop h;
     ((created, taus), h) \<leftarrow> edf_create_tasks bo cenv fs t_release job_stats_overhead task_overhead
       (zip [1..<4] (zip wcets (zip periods (zip deadlines (map edf_slots edf_periods))))) h;
     if \<not> created then Some (Edf_error taus kept overheads, h, s)
     else if ktrace \<noteq> (True, True) then Some (Edf_error taus kept overheads, h, s)
     else Some (Edf_ready (zip taus (zip wcets deadlines)) bls t_stop kept overheads, h, s)
     }) }) } } }"

text \<open>The thread of a task, whose program is its busy loop: its return code, the task, its file, the scheduling class, the store and the world.\<close>

definition edf_task_thread :: "byte_order \<Rightarrow> sched_env \<Rightarrow> int \<Rightarrow> sched_class \<Rightarrow> 'w task_env \<Rightarrow> 'w sys_env \<Rightarrow> 'l::len word cpu_busyloop \<Rightarrow>
    task \<times> time_ptr \<times> time_ptr \<Rightarrow> time_store \<Rightarrow> 'w \<Rightarrow> (int \<times> task \<times> u8 list option \<times> sched_class \<times> time_store \<times> 'w) option" where
  "edf_task_thread bo kenv junk class tenv env bl prms h w = (case prms of (tau, wcet_p, deadline_p) \<Rightarrow> do {
     ((rc, old, class), h) \<leftarrow> sched_deadline_enter kenv junk class wcet_p deadline_p None h;
     if rc \<noteq> 0 then Some (rc, tau, None, class, h, w)
     else do {
       (rc, tau, log, w) \<leftarrow> task_start bo (tenv\<lparr>run_program := busyloop_exact env bl\<rparr>) tau w;
       Some (if rc \<noteq> 0 then - 2 else 0, tau, log, class, h, w) } })"

definition edf_cleanup :: "task list \<Rightarrow> time_ptr list \<Rightarrow> overheads \<Rightarrow> time_store \<Rightarrow> time_store option" where
  "edf_cleanup taus kept overheads h = do { destroy_tasks (rev taus); h \<leftarrow> free_overheads overheads h; gc_all kept h }"

fun edf_finish :: "(int \<times> task) list \<Rightarrow> 'n edf_state \<Rightarrow> time_store \<Rightarrow> (int \<times> time_store) option" where
  "edf_finish threads (Edf_error taus kept overheads) h = do { h \<leftarrow> edf_cleanup taus kept overheads h; Some (1, h) }"
| "edf_finish threads (Edf_ready prms bls t_stop kept overheads) h = do {
     h \<leftarrow> edf_cleanup (map snd threads) kept overheads h;
     Some (if \<forall>rc \<in> set (map fst threads). rc = 0 then 0 else 1, h) }"

section \<open>Lists of times\<close>

lemma manual_twice [simp]: "utility_time_set_gc_manual (utility_time_set_gc_manual u) = utility_time_set_gc_manual u"
  by (simp add: utility_time_set_gc_manual_def)

lemma map_of_all_manual:
  "map_of (fold made_manual as us) x = (if x \<in> set as then map_option utility_time_set_gc_manual (map_of us x) else map_of us x)"
  by (induction as arbitrary: us) (simp_all add: option.map_comp comp_def)

lemma all_made_manual:
  "\<forall>a \<in> set as. map_of us a \<noteq> None \<Longrightarrow>
   set_all_manual (map Some as) (with_objs h n us) = Some (with_objs h n (fold made_manual as us))"
proof (induction as arbitrary: us)
  case (Cons a as)
  then obtain u where "map_of us a = Some u" by auto
  then show ?case using Cons objs_manual [of us a u h n] by simp
qed simp

lemma objs_ok_all_manual: "objs_ok h n us \<Longrightarrow> objs_ok h n (fold made_manual as us)"
  by (induction as arbitrary: us) auto

lemma dom_all_manual: "fst ` set (fold made_manual as us) = fst ` set us"
proof -
  have "fst ` set (made_manual a us) = fst ` set us" for a us by (force simp: made_manual_def)
  then show ?thesis by (induction as arbitrary: us) simp_all
qed

lemma all_gone:
  "objs_ok h n us \<Longrightarrow> distinct as \<Longrightarrow> \<forall>a \<in> set as. \<exists>u. map_of us a = Some u \<and> dyn_alloc u \<Longrightarrow>
   gc_all (map Some as) (with_objs h n us) = Some (with_objs h n (without (set as) us))"
proof (induction as arbitrary: us)
  case (Cons a as)
  then obtain u where u: "map_of us a = Some u" "dyn_alloc u" by auto
  have "objs_ok h n (without {a} us)" "\<forall>b \<in> set as. \<exists>u. map_of (without {a} us) b = Some u \<and> dyn_alloc u"
    using Cons.prems by (auto simp: objs_ok_without)
  then show ?case using Cons.IH [of "without {a} us"] Cons.prems objs_gc(1) [OF Cons.prems(1) u] by simp
qed simp

lemma edf_tasks_created:
  assumes m: "\<forall>k. malloc_ok h k"
  shows "objs_ok h n us \<Longrightarrow> \<forall>(i, w, p, d, slots) \<in> set specs. can_create (cenv i) fs i slots \<and>
      (\<exists>wt pt dt. map_of us w = Some (kept_obj wt) \<and> map_of us p = Some (kept_obj pt) \<and> map_of us d = Some (kept_obj dt)) \<Longrightarrow>
    map_of us j = Some uj \<Longrightarrow> map_of us f = Some uf \<Longrightarrow> \<not> auto_obj uj \<Longrightarrow> \<not> auto_obj uf \<Longrightarrow>
    \<exists>taus. edf_create_tasks bo cenv fs t_release (Some j) (Some f) (map (\<lambda>(i, w, p, d, slots). (i, Some w, Some p, Some d, slots)) specs)
      (with_objs h n us) = Some ((True, taus), with_objs h (n + 3 * length specs) us) \<and>
    list_all2 (\<lambda>(i, w, p, d, slots) tau. created_as bo (cenv i) fs t_release i slots (ut_t (the (map_of us w))) (ut_t (the (map_of us p)))
      (ut_t (the (map_of us d))) tau) specs taus"
proof (induction specs arbitrary: n)
  case (Cons spec specs)
  obtain i w p d slots where spec: "spec = (i, w, p, d, slots)" by (cases spec) auto
  from Cons.prems(2) obtain wt pt dt where l: "can_create (cenv i) fs i slots" "map_of us w = Some (kept_obj wt)" "map_of us p = Some (kept_obj pt)"
    "map_of us d = Some (kept_obj dt)" unfolding spec by auto
  have a: "\<not> auto_obj (kept_obj t)" for t by simp
  have "auto_obj (kept_obj wt) \<longrightarrow> w \<notin> {p, d, j, f}" by simp
  from exp_task_created [OF m Cons.prems(1) l(1-4) Cons.prems(3,4) a a Cons.prems(5,6) this, of bo t_release] obtain tau
    where tau: "create_exp_task bo (cenv i) fs t_release i (Some w) (Some p) (Some d) slots (Some j) (Some f) (with_objs h n us) =
      Some ((0, Some tau), with_objs h (n + 3) us)" "created_as bo (cenv i) fs t_release i slots wt pt dt tau" by auto
  have "objs_ok h (n + 3) us" using Cons.prems(1) objs_ok_later [of h n us "n + 3"] by simp
  from Cons.IH [OF this _ Cons.prems(3-6)] Cons.prems(2) obtain taus where
    "edf_create_tasks bo cenv fs t_release (Some j) (Some f) (map (\<lambda>(i, w, p, d, slots). (i, Some w, Some p, Some d, slots)) specs)
      (with_objs h (n + 3) us) = Some ((True, taus), with_objs h (n + 3 + 3 * length specs) us)"
    "list_all2 (\<lambda>(i, w, p, d, slots) tau. created_as bo (cenv i) fs t_release i slots (ut_t (the (map_of us w))) (ut_t (the (map_of us p)))
      (ut_t (the (map_of us d))) tau) specs taus" by auto
  then show ?case using tau l by (auto simp: spec add.assoc)
qed simp

section \<open>The set-up\<close>

definition edf_objs :: "nat \<Rightarrow> objs" where
  "edf_objs n = (n + 11, dynobj (ms_t offset_to_stop_ms)) # (n + 10, dynobj (ms_t offset_to_start_ms)) #
     numbered (n + 7) ms_t edf_periods @ (n + 6, dynobj tolerance_t) # numbered n ms_t edf_params"

definition edf_kept :: "nat \<Rightarrow> nat list" where
  "edf_kept n = [n, n + 7, n + 1, n + 2, n + 8, n + 3, n + 4, n + 9, n + 5]"

lemma edf_times_made:
  assumes m: "\<forall>k. malloc_ok h k" and h: "store_ok h" and n: "n = next_addr h"
  shows "make_times Unit_ms edf_params h = Some (map Some [n, n + 1, n + 2, n + 3, n + 4, n + 5], with_objs h (n + 6) (numbered n ms_t edf_params))"
    "to_utility_time_dyn 100 Unit_us (with_objs h (n + 6) (numbered n ms_t edf_params)) =
      Some (Some (n + 6), with_objs h (n + 7) ((n + 6, dynobj tolerance_t) # numbered n ms_t edf_params))"
    "make_times Unit_ms edf_periods (with_objs h (n + 7) ((n + 6, dynobj tolerance_t) # numbered n ms_t edf_params)) =
      Some (map Some [n + 7, n + 8, n + 9],
        with_objs h (n + 10) (numbered (n + 7) ms_t edf_periods @ (n + 6, dynobj tolerance_t) # numbered n ms_t edf_params))"
    "to_utility_time_dyn (of_int offset_to_start_ms) Unit_ms
        (with_objs h (n + 10) (numbered (n + 7) ms_t edf_periods @ (n + 6, dynobj tolerance_t) # numbered n ms_t edf_params)) =
      Some (Some (n + 10), with_objs h (n + 11) ((n + 10, dynobj (ms_t offset_to_start_ms)) #
        numbered (n + 7) ms_t edf_periods @ (n + 6, dynobj tolerance_t) # numbered n ms_t edf_params))"
    "to_utility_time_dyn (of_int offset_to_stop_ms) Unit_ms (with_objs h (n + 11) ((n + 10, dynobj (ms_t offset_to_start_ms)) #
        numbered (n + 7) ms_t edf_periods @ (n + 6, dynobj tolerance_t) # numbered n ms_t edf_params)) =
      Some (Some (n + 11), with_objs h (n + 12) (edf_objs n))"
    "objs_ok h (n + 12) (edf_objs n)"
proof -
  have l: "n + 6 = n + length edf_params" "n + 10 = Suc (n + 6) + length edf_periods" by (simp_all add: edf_params_def edf_periods_def)
  have suc: "Suc (n + 6) = n + 7" "Suc (n + 10) = n + 11" "Suc (n + 11) = n + 12" "[n..<n + 6] = [n, n + 1, n + 2, n + 3, n + 4, n + 5]"
    "[n + 7..<n + 10] = [n + 7, n + 8, n + 9]" by (simp_all add: upt_rec)
  note T = times_made(1-4) [where u = "of_int offset_to_start_ms" and U = Unit_ms, OF m h n l refl refl refl refl, unfolded suc, folded ms_t_def]
    times_made(5,6) [where u = "of_int offset_to_start_ms" and U = Unit_ms and v = "of_int offset_to_stop_ms", OF m h n l refl refl refl refl,
      unfolded suc, folded ms_t_def]
  show "make_times Unit_ms edf_params h = Some (map Some [n, n + 1, n + 2, n + 3, n + 4, n + 5], with_objs h (n + 6) (numbered n ms_t edf_params))"
    by (rule T(1))
  show "to_utility_time_dyn 100 Unit_us (with_objs h (n + 6) (numbered n ms_t edf_params)) =
      Some (Some (n + 6), with_objs h (n + 7) ((n + 6, dynobj tolerance_t) # numbered n ms_t edf_params))" by (rule T(2))
  show "make_times Unit_ms edf_periods (with_objs h (n + 7) ((n + 6, dynobj tolerance_t) # numbered n ms_t edf_params)) =
      Some (map Some [n + 7, n + 8, n + 9],
        with_objs h (n + 10) (numbered (n + 7) ms_t edf_periods @ (n + 6, dynobj tolerance_t) # numbered n ms_t edf_params))" by (rule T(3))
  show "to_utility_time_dyn (of_int offset_to_start_ms) Unit_ms
        (with_objs h (n + 10) (numbered (n + 7) ms_t edf_periods @ (n + 6, dynobj tolerance_t) # numbered n ms_t edf_params)) =
      Some (Some (n + 10), with_objs h (n + 11) ((n + 10, dynobj (ms_t offset_to_start_ms)) #
        numbered (n + 7) ms_t edf_periods @ (n + 6, dynobj tolerance_t) # numbered n ms_t edf_params))" by (rule T(4))
  show "to_utility_time_dyn (of_int offset_to_stop_ms) Unit_ms (with_objs h (n + 11) ((n + 10, dynobj (ms_t offset_to_start_ms)) #
        numbered (n + 7) ms_t edf_periods @ (n + 6, dynobj tolerance_t) # numbered n ms_t edf_params)) =
      Some (Some (n + 11), with_objs h (n + 12) (edf_objs n))" unfolding edf_objs_def by (rule T(5))
  show "objs_ok h (n + 12) (edf_objs n)" unfolding edf_objs_def by (rule T(6))
qed

text \<open>The objects once those of the tasks are manual.\<close>

lemma edf_objs_at:
  fixes n
  defines "us \<equiv> fold made_manual (edf_kept n) (edf_objs n)"
  shows "map (map_of us) [n, n + 1, n + 2, n + 3, n + 4, n + 5] = map (\<lambda>k. Some (kept_obj (ms_t k))) edf_params"
    "map_of us (n + 6) = Some (dynobj tolerance_t)"
    "map (map_of us) [n + 7, n + 8, n + 9] = map (\<lambda>k. Some (kept_obj (ms_t k))) edf_periods"
    "map_of us (n + 10) = Some (dynobj (ms_t offset_to_start_ms))" "map_of us (n + 11) = Some (dynobj (ms_t offset_to_stop_ms))"
    "fst ` set us \<subseteq> {n..<n + 12}" "\<forall>a \<in> set (edf_kept n). map_of (edf_objs n) a \<noteq> None" "distinct (edf_kept n)"
proof -
  show "fst ` set us \<subseteq> {n..<n + 12}" unfolding us_def dom_all_manual by (auto simp: edf_objs_def edf_params_def edf_periods_def)
  show "map (map_of us) [n, n + 1, n + 2, n + 3, n + 4, n + 5] = map (\<lambda>k. Some (kept_obj (ms_t k))) edf_params"
    "map_of us (n + 6) = Some (dynobj tolerance_t)"
    "map (map_of us) [n + 7, n + 8, n + 9] = map (\<lambda>k. Some (kept_obj (ms_t k))) edf_periods"
    "map_of us (n + 10) = Some (dynobj (ms_t offset_to_start_ms))" "map_of us (n + 11) = Some (dynobj (ms_t offset_to_stop_ms))"
    unfolding us_def map_of_all_manual by (simp_all add: edf_kept_def edf_objs_def edf_params_def edf_periods_def)
  show "\<forall>a \<in> set (edf_kept n). map_of (edf_objs n) a \<noteq> None" "distinct (edf_kept n)"
    by (simp_all add: edf_kept_def edf_objs_def edf_params_def edf_periods_def)
qed

definition edf_rest :: "nat \<Rightarrow> objs" where
  "edf_rest n = without {n + 6, n + 10, n + 11} (fold made_manual (edf_kept n) (edf_objs n))"

definition edf_specs :: "nat \<Rightarrow> (nat \<times> nat \<times> nat \<times> nat \<times> u64) list" where
  "edf_specs n = [(1, n, n + 7, n + 1, edf_slots 4), (2, n + 2, n + 8, n + 3, edf_slots 5), (3, n + 4, n + 9, n + 5, edf_slots 10)]"

definition edf_created :: "byte_order \<Rightarrow> (nat \<Rightarrow> create_env) \<Rightarrow> fsys \<Rightarrow> timespec \<Rightarrow> task list \<Rightarrow> bool" where
  "edf_created bo cenv fs t_release taus \<longleftrightarrow> list_all2
     (\<lambda>(i, w, p, d) tau. created_as bo (cenv i) fs t_release i (edf_slots p) (ms_t w) (ms_t p) (ms_t d) tau)
     [(1, 1, 4, 2), (2, 2, 5, 5), (3, 3, 10, 7)] taus"

lemma edf_setup_runs:
  assumes m: "\<forall>k. malloc_ok h k" and h: "store_ok h" and n: "n = next_addr h" and meas: "measures cj tj" "measures cf tf"
    and ov: "time_ok (dynobj tj)" "time_ok (dynobj tf)" "ov = ns_of (dynobj tj) + ns_of (dynobj tf)" "ov \<le> 1000000"
    and mk: "makes_busyloops TYPE('l::len) env kenv class S" "s \<in> S"
    and clock: "\<forall>s \<in> S. \<exists>now w. sys_clock env (sys_world s) = (Some now, w) \<and> P now"
    and can: "\<forall>(i, p) \<in> set (zip [1..<4] edf_periods). can_create (cenv i) fs i (edf_slots p)"
  shows "\<exists>taus (bls :: 'l word cpu_busyloop list) now s1 j f a k.
    edf_setup bo cenv fs env kenv class (True, True) cj cf h s =
      Some (Edf_ready (zip taus (zip (map Some [n, n + 2, n + 4]) (map Some [n + 1, n + 3, n + 5]))) bls
          (time_op utility_time_add now (ms_t offset_to_stop_ms)) (map Some (edf_kept n)) (Some j, Some f, Some a),
        with_objs h k ((a, kept_obj (time_op utility_time_add tj tf)) # (f, kept_obj tf) # (j, kept_obj tj) # edf_rest n), s1) \<and>
    P now \<and> n + 12 \<le> j \<and> j < f \<and> f < a \<and> a < k \<and>
    map (\<lambda>bl. ns_of (bl_duration bl)) bls = map (\<lambda>w. w * 1000000 - ov) [1, 2, 3] \<and>
    edf_created bo cenv fs (time_op utility_time_add now (ms_t offset_to_start_ms)) taus"
proof -
  let ?o = "kept_obj (time_op utility_time_add tj tf)"
  define us0 where "us0 = fold made_manual (edf_kept n) (edf_objs n)"
  define ws where "ws = [n, n + 2, n + 4]"
  note T = edf_times_made [OF m h n] and at0 = edf_objs_at [of n, folded us0_def]
  have ok0: "objs_ok h (n + 12) us0" unfolding us0_def by (rule objs_ok_all_manual [OF T(6)])
  have A: "set_all_manual (map Some (edf_kept n)) (with_objs h (n + 12) (edf_objs n)) = Some (with_objs h (n + 12) us0)"
    unfolding us0_def by (rule all_made_manual [OF at0(7)])
  from exp_overheads_objs [OF meas m ok0] obtain j f a k where jfa: "n + 12 \<le> j" "j < f" "f < a" "a < k"
    and E0: "exp_overheads cj cf (with_objs h (n + 12) us0) =
      Some ((True, Some j, Some f, Some a), with_objs h k ((a, ?o) # (f, kept_obj tf) # (j, kept_obj tj) # us0))" by blast
  let ?k = "[(a, ?o), (f, kept_obj tf), (j, kept_obj tj)]"
  define us where "us = ?k @ us0"
  have E: "exp_overheads cj cf (with_objs h (n + 12) us0) = Some ((True, Some j, Some f, Some a), with_objs h k us)"
    using E0 by (simp add: us_def)
  have ok: "objs_ok h k us" using objs_ok_later [OF ok0, of k] jfa n by (simp add: us_def)
  have old: "map_of us x = map_of us0 x" if "x < n + 12" for x using that jfa by (simp add: us_def)
  have lw: "map_of us n = Some (kept_obj (ms_t 1))" "map_of us (n + 1) = Some (kept_obj (ms_t 2))" "map_of us (n + 2) = Some (kept_obj (ms_t 2))"
    "map_of us (n + 3) = Some (kept_obj (ms_t 5))" "map_of us (n + 4) = Some (kept_obj (ms_t 3))" "map_of us (n + 5) = Some (kept_obj (ms_t 7))"
    using at0(1) old by (simp_all add: edf_params_def)
  have lp: "map_of us (n + 7) = Some (kept_obj (ms_t 4))" "map_of us (n + 8) = Some (kept_obj (ms_t 5))" "map_of us (n + 9) = Some (kept_obj (ms_t 10))"
    using at0(3) old by (simp_all add: edf_periods_def)
  have lx: "map_of us (n + 6) = Some (dynobj tolerance_t)" "map_of us (n + 10) = Some (dynobj (ms_t offset_to_start_ms))"
    "map_of us (n + 11) = Some (dynobj (ms_t offset_to_stop_ms))" using at0(2,4,5) old by simp_all
  have ju: "map_of us j = Some (kept_obj tj)" "map_of us f = Some (kept_obj tf)" "map_of us a = Some ?o" using jfa by (simp_all add: us_def)
  have ms: "ns_of (kept_obj (ms_t w)) = w * 1000000 \<and> time_ok (kept_obj (ms_t w))" if "0 \<le> w" "w < 2 ^ 31" for w
    using ms_t [OF that] t_congs [of "kept_obj (ms_t w)" "dynobj (ms_t w)"] by simp
  have uo: "time_ok ?o" "ns_of ?o = ov" using overhead_time [OF ov(1-3)] ov(4) by (simp_all add: time_limit_def)
  have ws: "\<forall>w \<in> set ws. \<exists>u. map_of us w = Some u \<and> time_ok u \<and> ns_of ?o \<le> ns_of u \<and> ns_of u < 1000000000"
    using lw ms [of 1] ms [of 2] ms [of 3] ov(4) unfolding uo(2) ws_def by simp
  have ds: "distinct [a, n + 6, n + 10, n + 11]" "n + 6 \<notin> set ws" and len: "length ws = 3" and ar: "k + 3 + 2 = k + 5" "k + 3 + 4 = k + 7"
    using jfa by (simp_all add: ws_def)
  from loops_and_instants [OF mk m clock ok ju(3) uo(1) lx ds ws len] obtain bls :: "'l word cpu_busyloop list" and s1 now w
    where C: "check_wcets (map Some ws) (Some a) (with_objs h k us) = Some True"
      and M: "set_manual (Some (n + 6)) (with_objs h k us) = Some (with_objs h k (made_manual (n + 6) us))"
      and B: "create_busyloops env kenv class (Some a) (Some (n + 6)) (map Some ws) (with_objs h k (made_manual (n + 6) us)) s =
        Some (Some bls, with_objs h (k + 3) (made_manual (n + 6) us), s1)"
      and G: "utility_time_gc (Some (n + 6)) (with_objs h (k + 3) (made_manual (n + 6) us)) = Some (with_objs h (k + 3) (without {n + 6} us))"
      and now: "sys_clock env (sys_world s1) = (Some now, w)" "P now"
      and I: "instant_after now (Some (n + 10)) (with_objs h (k + 3) (without {n + 6} us)) =
        Some (time_op utility_time_add now (ms_t offset_to_start_ms), with_objs h (k + 5) (without {n + 6, n + 10} us))"
      and J: "instant_after now (Some (n + 11)) (with_objs h (k + 5) (without {n + 6, n + 10} us)) =
        Some (time_op utility_time_add now (ms_t offset_to_stop_ms), with_objs h (k + 7) (without {n + 6, n + 10, n + 11} us))"
      and lpd: "map (\<lambda>bl. ns_of (bl_duration bl)) bls = map (\<lambda>w. ns_of (the (map_of us w)) - ov) ws"
    unfolding uo(2) ar by blast
  have loops: "map (\<lambda>bl. ns_of (bl_duration bl)) bls = map (\<lambda>w. w * 1000000 - ov) [1, 2, 3]"
    unfolding lpd ws_def using lw ms [of 1] ms [of 2] ms [of 3] by simp
  let ?us4 = "without {n + 6, n + 10, n + 11} us" and ?rel = "time_op utility_time_add now (ms_t offset_to_start_ms)"
  have ok4: "objs_ok h (k + 7) ?us4" using ok objs_ok_later [of h k us "k + 7"] by (auto intro: objs_ok_without)
  have rest: "?us4 = (a, ?o) # (f, kept_obj tf) # (j, kept_obj tj) # edf_rest n" using jfa by (simp add: us_def us0_def edf_rest_def)
  have up: "[1..<4] = [1, 2, 3 :: nat]" by (simp add: upt_rec)
  have sp: "\<forall>(i, w, p, d, slots) \<in> set (edf_specs n). can_create (cenv i) fs i slots \<and>
      (\<exists>wt pt dt. map_of ?us4 w = Some (kept_obj wt) \<and> map_of ?us4 p = Some (kept_obj pt) \<and> map_of ?us4 d = Some (kept_obj dt))"
    using can lw lp unfolding up by (auto simp: edf_specs_def edf_periods_def)
  have jf: "map_of ?us4 j = Some (kept_obj tj)" "map_of ?us4 f = Some (kept_obj tf)" using ju jfa by simp_all
  have sl: "length (edf_specs n) = 3" by (simp add: edf_specs_def)
  from edf_tasks_created [OF m ok4 sp jf manual_flags(4) manual_flags(4), of bo ?rel] obtain taus
    where K: "edf_create_tasks bo cenv fs ?rel (Some j) (Some f) (map (\<lambda>(i, w, p, d, slots). (i, Some w, Some p, Some d, slots)) (edf_specs n))
        (with_objs h (k + 7) ?us4) = Some ((True, taus), with_objs h (k + 7 + 3 * 3) ?us4)"
      and L: "list_all2 (\<lambda>(i, w, p, d, slots) tau. created_as bo (cenv i) fs ?rel i slots (ut_t (the (map_of ?us4 w))) (ut_t (the (map_of ?us4 p)))
        (ut_t (the (map_of ?us4 d))) tau) (edf_specs n) taus" unfolding sl by blast
  have made: "edf_created bo cenv fs ?rel taus" using L lw lp unfolding edf_created_def by (simp add: edf_specs_def list_all2_Cons1)
  have Z: "zip [1..<4] (zip (map Some ws) (zip (map Some [n + 7, n + 8, n + 9]) (zip (map Some [n + 1, n + 3, n + 5]) (map edf_slots edf_periods)))) =
      map (\<lambda>(i, w, p, d, slots). (i, Some w, Some p, Some d, slots)) (edf_specs n)"
    unfolding up by (simp add: ws_def edf_periods_def edf_specs_def)
  let ?p = "map Some [n, n + 1, n + 2, n + 3, n + 4, n + 5]"
  have W: "[?p ! 0, ?p ! 2, ?p ! 4] = map Some ws" "[?p ! 1, ?p ! 3, ?p ! 5] = map Some [n + 1, n + 3, n + 5]"
    "concat (map (\<lambda>(w, p, d). [w, p, d]) (zip (map Some ws) (zip (map Some [n + 7, n + 8, n + 9]) (map Some [n + 1, n + 3, n + 5])))) =
      map Some (edf_kept n)" by (simp_all add: ws_def edf_kept_def)
  have "edf_setup bo cenv fs env kenv class (True, True) cj cf h s =
      Some (Edf_ready (zip taus (zip (map Some ws) (map Some [n + 1, n + 3, n + 5]))) bls
          (time_op utility_time_add now (ms_t offset_to_stop_ms)) (map Some (edf_kept n)) (Some j, Some f, Some a),
        with_objs h (k + 7 + 3 * 3) ?us4, s1\<lparr>sys_world := w\<rparr>)"
    unfolding edf_setup_def
    by (simp only: T(1-5) A E C M B G now(1) I J Z K W bind.bind_lunit option.case prod.case Let_def if_True if_False not_True_eq_False simp_thms)
  moreover have "a < k + 7 + 3 * 3" using jfa by simp
  ultimately show ?thesis unfolding rest ws_def using now(2) jfa(1-3) loops made by blast
qed

section \<open>The end\<close>

lemma edf_rest_kept:
  "\<forall>a \<in> set (edf_kept n). \<exists>t. map_of (edf_rest n) a = Some (kept_obj t)" "without (set (edf_kept n)) (edf_rest n) = []"
  "fst ` set (edf_rest n) \<subseteq> {n..<n + 12}"
proof -
  note at = edf_objs_at [of n]
  show sub: "fst ` set (edf_rest n) \<subseteq> {n..<n + 12}" using at(6) unfolding edf_rest_def without_def by auto
  show "\<forall>a \<in> set (edf_kept n). \<exists>t. map_of (edf_rest n) a = Some (kept_obj t)"
    using at(1,3) by (auto simp: edf_kept_def edf_rest_def edf_params_def edf_periods_def)
  have "[n..<n + 12] = [n, n + 1, n + 2, n + 3, n + 4, n + 5, n + 6, n + 7, n + 8, n + 9, n + 10, n + 11]" by (simp add: upt_rec)
  then have "{n..<n + 12} = set [n, n + 1, n + 2, n + 3, n + 4, n + 5, n + 6, n + 7, n + 8, n + 9, n + 10, n + 11]" by (metis set_upt)
  then have "{n..<n + 12} \<subseteq> set (edf_kept n) \<union> {n + 6, n + 10, n + 11}" by (auto simp: edf_kept_def)
  then have "without (set (edf_kept n) \<union> {n + 6, n + 10, n + 11}) (fold made_manual (edf_kept n) (edf_objs n)) = []"
    using at(6) unfolding without_def filter_empty_conv by blast
  then show "without (set (edf_kept n)) (edf_rest n) = []" unfolding edf_rest_def without_simps(3) .
qed

lemma edf_cleaned_up:
  assumes ok: "objs_ok h k ((a, ua) # (f, uf) # (j, uj) # edf_rest n)" and "n + 12 \<le> j" "j < f" "f < a"
    and "dyn_alloc ua" "dyn_alloc uf" "dyn_alloc uj" "\<forall>tau \<in> set taus. task_destroy tau = Some ()"
  shows "edf_cleanup taus (map Some (edf_kept n)) (Some j, Some f, Some a) (with_objs h k ((a, ua) # (f, uf) # (j, uj) # edf_rest n)) =
    Some (h\<lparr>next_addr := k\<rparr>)"
proof -
  have "distinct [a, f, j] \<and> {a, f, j} \<inter> fst ` set (edf_rest n) = {}" using assms(2-4) edf_rest_kept(3) [of n] by fastforce
  note F = overheads_freed [OF ok this assms(5-7)]
  have "\<forall>a \<in> set (edf_kept n). \<exists>u. map_of (edf_rest n) a = Some u \<and> dyn_alloc u" using edf_rest_kept(1) [of n] by fastforce
  moreover have "objs_ok h k (edf_rest n)" using ok by simp
  ultimately have "gc_all (map Some (edf_kept n)) (with_objs h k (edf_rest n)) = Some (h\<lparr>next_addr := k\<rparr>)"
    using all_gone [of h k "edf_rest n" "edf_kept n"] edf_objs_at(8) [of n] edf_rest_kept(2) [of n] by (simp add: with_no_objs)
  then show ?thesis using F tasks_destroyed [of "rev taus"] assms(8) by (simp add: edf_cleanup_def)
qed

text \<open>The reservation of a thread whose times are manual.\<close>

definition reservation :: "int \<Rightarrow> int \<Rightarrow> int \<Rightarrow> sched_param_ex" where
  "reservation junk w d = \<lparr>ex_priority = junk, sched_runtime = ms_t w, sched_deadline = ms_t d, sched_period = ms_t d, sched_flags = 0\<rparr>"

lemma enter_kept:
  assumes "objs_ok h k us" "map_of us w = Some (kept_obj (ms_t c))" "map_of us d = Some (kept_obj (ms_t l))" "\<forall>ex. setparam_ex_errno kenv ex = 0"
  shows "sched_deadline_enter kenv junk class (Some w) (Some d) None (with_objs h k us) =
    Some ((0, None, Deadline (reservation junk c l)), with_objs h k us)"
proof -
  have "dyn_alloc (kept_obj t)" "manual_gc (kept_obj t)" for t by (simp_all add: utility_time_set_gc_manual_def)
  then have "utility_time_gc_auto (Some w) (with_objs h k us) = Some (with_objs h k us)"
    "utility_time_gc_auto (Some d) (with_objs h k us) = Some (with_objs h k us)"
    using objs_gc(2) [OF assms(1,2)] objs_gc(2) [OF assms(1,3)] by simp_all
  then show ?thesis using assms(4) load_objs [OF assms(2), of h k] load_objs [OF assms(3), of h k]
    by (simp add: sched_deadline_enter_def sched_save_def Let_def reservation_def to_timespec_def)
qed

lemma edf_slots_values: "unat (edf_slots 4) = 101" "unat (edf_slots 5) = 81" "unat (edf_slots 10) = 40"
  "edf_slots 4 \<noteq> 0" "edf_slots 5 \<noteq> 0" "edf_slots 10 \<noteq> 0"
  by (simp_all add: edf_slots_def offset_to_start_ms_def offset_to_stop_ms_def)

text \<open>\<^verbatim>\<open>sched_deadline_bandwidth\<close> (\<^verbatim>\<open>utility_sched_deadline.c\<close>): the bandwidth of a reservation, in floating point numbers with the rounding \<open>rnd\<close>.\<close>

definition sched_deadline_bandwidth :: "(rat \<Rightarrow> rat) \<Rightarrow> sched_param_ex \<Rightarrow> rat" where
  "sched_deadline_bandwidth rnd ex =
    (let ns = (\<lambda>t. rnd (rnd (rnd (of_int (sint (tv_sec t))) * 1000000000) + rnd (of_int (sint (tv_nsec t)))))
     in rnd (ns (sched_runtime ex) / ns (sched_deadline ex)))"

text \<open>Without rounding, the bandwidth is the fraction of a processor that is reserved.\<close>

abbreviation bandwidth :: "sched_param_ex \<Rightarrow> rat" where
  "bandwidth \<equiv> sched_deadline_bandwidth id"

lemma bandwidth_ns:
  "bandwidth ex = of_int (ns_of (dynobj (sched_runtime ex))) / of_int (ns_of (dynobj (sched_deadline ex)))"
  by (simp add: sched_deadline_bandwidth_def ns_of_def Let_def del: of_int_sint)



section \<open>The threads\<close>

text \<open>The thread of one of the tasks, once it has its reservation.\<close>

theorem edf_thread_logs:
  assumes "edf_created bo cenv fs rel taus" "i < 3" "tau = taus ! i" "time_ok (dynobj rel)" "start = ns_of (dynobj rel)"
      "per = edf_periods ! i * 1000000" "slots = [101, 81, 40] ! i"
    and "fs_create fs (''tau_'' @ show_nat (i + 1) @ ''_stats.bin'') = Some w0" "ws_out w0 = []" "ws_close_ok w0" "95 + 32 * slots \<le> ws_room w0"
    and "sched_deadline_enter kenv junk class wp dp None h = Some ((0, old, class1), h1)"
    and "te = tenv\<lparr>run_program := busyloop_exact env bl\<rparr>" "healthy te" "Suc n < 2 ^ 64" "start + int (Suc n) * per < time_limit"
      "stops_after te (release te False start per) n w" "schedule te (release te False start per) 0 (Suc n) w = (xs, w1)"
  shows "\<exists>tau1 tau2. edf_task_thread bo kenv junk class tenv env bl (tau, wp, dp) h w =
      Some (0, tau2, Some (task_file bo tau1 (take slots xs)), class1, h1, w1) \<and>
    task_destroy tau2 = Some () \<and> same_params tau1 tau \<and> unat (tk_write_count tau1) = Suc n \<and>
    unat (lost_job_count tau1) = Suc n - slots"
proof -
  have i: "i = 0 \<or> i = 1 \<or> i = 2" using assms(2) by arith
  let ?l = "[(1, 1, 4, 2), (2, 2, 5, 5), (3, 3, 10, 7)] :: (nat \<times> int \<times> int \<times> int) list"
  obtain c p d where l: "?l ! i = (i + 1, c, p, d)" "p = edf_periods ! i" "unat (edf_slots p) = slots" "edf_slots p \<noteq> 0"
    "0 \<le> c" "c < 2 ^ 31" "0 \<le> p" "p < 2 ^ 31" "0 \<le> d" "d < 2 ^ 31"
    using i edf_slots_values unfolding assms(7) by (auto simp: edf_periods_def)
  from list_all2_nthD [OF assms(1) [unfolded edf_created_def], of i] assms(2) have c:
    "created_as bo (cenv (i + 1)) fs rel (i + 1) (edf_slots p) (ms_t c) (ms_t p) (ms_t d) tau"
    unfolding l(1) assms(3) by simp
  have room: "90 + length (''tau '' @ show_nat (i + 1)) + 32 * unat (edf_slots p) \<le> ws_room w0"
    using task_digits [of "i + 1"] assms(2,11) l(3) by simp
  from created_as_follows [OF c l(4) assms(4) l(5-10) assms(8-10) room assms(5) assms(6) [folded l(2)] assms(16,14,15,17,18)]
  obtain tau1 tau2 where "task_start bo te tau w = Some (0, tau2, Some (task_file bo tau1 (take slots xs)), w1)" "task_destroy tau2 = Some ()"
    "same_params tau1 tau" "unat (tk_write_count tau1) = Suc n" "unat (lost_job_count tau1) = Suc n - slots" unfolding l(3) by blast
  then show ?thesis using assms(12)
    by (intro exI [of _ tau1] exI [of _ tau2]) (simp add: edf_task_thread_def assms(13) [symmetric])
qed

end
