(* ===== verification/Spec2Isabelle.thy ===== *)
theory Spec2Isabelle
  imports Utility_Sched Task_Overhead Read_Task_Report Task_Stop Bwi_Server Bwi_Client_Overhead Bwi_Launcher Hrt_Cbs Cpu_Hog_Cbs Server_Hog Earliest_Deadline_First
begin

text \<open>
  A model of the utilities for real-time experiments of this repository: times, files, jobs and
  their ring buffer, tasks, schedulers, CPUs, and the programs built on them.

  \<^bold>\<open>The program.\<close> A \<^emph>\<open>task\<close> (\<^verbatim>\<open>task.c\<close>) releases \<^emph>\<open>jobs\<close>, periodically or whenever a function of the
  caller returns. Each job (\<^verbatim>\<open>job.c\<close>) runs a program of the caller between two readings of the clock,
  which are logged in a ring buffer. When the task ends, its parameters and the ring buffer are
  written to a file, which \<^verbatim>\<open>task_statistics_read\<close> reads and \<^verbatim>\<open>read_task_stats_file.c\<close> reports on. All of
  them compute with \<^verbatim>\<open>utility_time\<close> objects (\<^verbatim>\<open>utility_time.h\<close>), which may be allocated and collected
  automatically. The threads that run tasks choose their scheduler (\<^verbatim>\<open>utility_sched*.c\<close>) and their CPU,
  and keep it busy for a given time (\<^verbatim>\<open>utility_cpu.c\<close>). The experiments with bandwidth inheritance
  (\<^verbatim>\<open>bwi-client_server\<close>) are a driver that starts the servers, clients and loads of a configuration file, and
  these programs.

  \<^bold>\<open>Conventions.\<close> A C function \<^verbatim>\<open>f\<close> is the definition \<open>f\<close>; a suffix \<open>_p\<close> marks the version on pointers
  where there is one on values. Integers are words of their width; \<^verbatim>\<open>int\<close> return codes, which stay
  small, are integers. \<open>None\<close> is undefined behaviour (a NULL pointer, an access out of bounds, the
  use of a freed object or of an indeterminate pointer) or, for the two loops of a task, the loop that reads
  jobs, the loop of the server and that of the load, non-termination; no theorem reads \<open>None\<close> as a
  success. What the operating system and the caller's functions do is an argument: records
  \<open>..._env\<close> of results, and a world \<open>'w\<close> that calls change. Nothing is assumed about them but what a
  theorem states as hypothesis, and every hypothesis has an instance, the theorem named \<open>..._witness\<close>.

  \<^bold>\<open>Theories.\<close>
  \<^item> \<open>RT_Prelude\<close>: machine integers, decimal conversions of the C library, integers as bytes.
  \<^item> \<open>Utility_Time\<close> (\<^verbatim>\<open>utility_time.h\<close>, values): normalised times (\<open>time_ok\<close>), their nanoseconds
    (\<open>ns_of\<close>), arithmetic, comparison as an instance of the class \<open>linorder\<close>, printing and parsing. The
    arithmetic is exact within the range of \<^verbatim>\<open>time_t\<close> (\<open>time_limit\<close>), printing and parsing round-trip.
  \<^item> \<open>Utility_Time_Heap\<close> (\<^verbatim>\<open>utility_time.h\<close>, objects): a store of objects with the flags that say how
    they are collected, and all functions on pointers. The locale \<open>time_binop\<close> has the laws of a
    binary operation on pointers, interpreted for addition and subtraction. Nested \<open>_dyn_gc\<close> expressions are
    a datatype; they compute what they denote and free each temporary once, or run out of memory.
  \<^item> \<open>Utility_Time_Temps\<close>: stores seen as a base store and a list of live temporaries.
  \<^item> \<open>Utility_File\<close> (\<^verbatim>\<open>utility_file.c\<close>): streams, lines, blocks of bytes; the locale \<open>byte_codec\<close> for what
    is written and read as a block.
  \<^item> \<open>Job\<close> (\<^verbatim>\<open>job.c\<close>): the ring buffer, refined by the list of all entries ever logged (\<open>ring_log\<close>, the
    locale \<open>job_log\<close>); a saved buffer reads back as the \<open>window\<close> of that list.
  \<^item> \<open>Utility_Sched\<close> (\<^verbatim>\<open>utility_sched.c\<close>, \<^verbatim>\<open>utility_sched_fifo.c\<close>, \<^verbatim>\<open>utility_sched_deadline.c\<close>,
    \<^verbatim>\<open>utility_memory.c\<close>): the scheduling class of the calling thread.
  \<^item> \<open>Task\<close> (\<^verbatim>\<open>task.c\<close>, \<^verbatim>\<open>task.h\<close>): creation, the statistics file, its reading. \<open>Task_Run\<close>: the loops of
    \<^verbatim>\<open>task_start\<close> (the locale \<open>do_while\<close>) and the measurement of the overhead; \<open>Task_Overhead\<close>: its result.
    \<open>Task_Lifecycle\<close>: a task follows a closed-form \<open>schedule\<close> from its creation to its file.
  \<^item> \<open>Task_Stop\<close> (\<^verbatim>\<open>task_stop\<close>): the thread of the task and the thread that stops it as an inductive step
    relation; alone, the first is \<^verbatim>\<open>task_start\<close>. What a stop guarantees, and when it hangs or kills a job.
  \<^item> \<open>Read_Task_Stats\<close>, \<open>Read_Task_Report\<close> (\<^verbatim>\<open>read_task_stats_file.c\<close>): the report on a file, job by job, and
    the whole program on the file of a task; the locale \<open>counting\<close> for the histogram of response times.
  \<^item> \<open>Utility_CPU\<close>, \<open>Utility_Busyloop\<close> (\<^verbatim>\<open>utility_cpu.c\<close>): affinity, governor and frequencies as files of
    the system; the search for the length of a busy loop.
  \<^item> \<open>Bwi_Server\<close> (\<^verbatim>\<open>bwi-client_server/server.c\<close>): a server that lends its bandwidth to a subserver for each
    call, and switches its scheduler on a signal, together with the subserver.
  \<^item> \<open>Bwi_Client\<close> (\<^verbatim>\<open>bwi-client_server/client.c\<close>): the client as the program of a periodic task of \<open>Task_Run\<close>. It lends
    its bandwidth only while it waits for an answer; its end is a race between two threads, as a step relation.
    \<open>Bwi_Client_Overhead\<close>: the overheads it measures and takes off its busy loops.
  \<^item> \<open>C_Strings\<close>: C strings in memory, \<^verbatim>\<open>strtok\<close> and \<^verbatim>\<open>snprintf\<close>; the tokens of a string lie one after the other
    in its memory (\<open>laid_out\<close>), and overwriting one does not touch the others.
  \<^item> \<open>Bwi_Config\<close> (\<^verbatim>\<open>bwi-client_server/main.c\<close>): from the configuration file to the arguments of each process,
    refined from memory to lists of words. \<open>Bwi_Launcher\<close>: the driver itself, as a process that forks, signals and
    waits; the locale \<open>per_process\<close> for its loops over lists of processes. Every process is accounted for.
  \<^item> \<open>Hrt_Cbs\<close> (\<^verbatim>\<open>hrt_cbs.c\<close>): the program that composes the library, from its options to the file of the periodic task
    it runs in a constant bandwidth server. \<open>Program_Setup\<close>: what the programs share.
  \<^item> \<open>Cpu_Hog_Cbs\<close> (\<^verbatim>\<open>cpu_hog_cbs.c\<close>): chunks of a busy loop, endless or until a time is over; when the loop is left.
  \<^item> \<open>Server_Hog\<close> (\<^verbatim>\<open>bwi-client_server/server_hog.c\<close>): the load on a server, and what its counter counts.
  \<^item> \<open>Utility_Time_Objects\<close>: stores as lists of objects of both kinds, for programs that hold many of them.
    \<open>Experiments\<close>: the passages the programs of the experiments share, with their effect on such a list.
    \<open>Rate_Monotonic\<close> (\<^verbatim>\<open>rate_monotonic/main.c\<close>): the experiment with rate monotonic priorities.
    \<open>Earliest_Deadline_First\<close> (\<^verbatim>\<open>earliest_deadline_first/main.c\<close>): the one with \<^verbatim>\<open>SCHED_DEADLINE\<close>, and how much of a
    processor its tasks reserve together.

  \<^bold>\<open>Bounds.\<close> There is no fuel. Loops over data are structural or have a measure; the busy loop counts
  through the 32-bit words, the search is bounded by its passes, and the theorem on stopping bounds the
  steps of a stopped task by seven.

  \<^bold>\<open>Not modelled.\<close> Logging and the messages of the programs; memory other than the objects above (a failed
  allocation is an outcome, a free has no effect); floating point beyond a rounding function; signals, except where a
  theory says so; the programs of the other experiments (\<^verbatim>\<open>priority_inversion_in_RM\<close>,
  \<^verbatim>\<open>multicore_means_parallel_threads\<close>, \<^verbatim>\<open>SCHED_DEADLINE-and-special-kthreads\<close>,
  the empty loop \<^verbatim>\<open>bwi-client_server/cpu_hog.c\<close>), which set up tasks with the functions above and print; the vendored
  converter \<^verbatim>\<open>sched_switch.c\<close>; tests.
\<close>

end
